(* ===== verification/Prelude.thy ===== *)
theory Prelude
  imports Main "HOL-Library.Word" "HOL-Library.State_Monad"
begin

text \<open>
  Shared vocabulary of the EdgeVision gateway development: the C integer types, byte buffers
  and their copies (\<open>memcpy\<close>, \<open>memmove\<close>), NUL-terminated strings and fixed character arrays,
  and the collections of rewrite rules the component theories use.
\<close>

unbundle bit_operations_syntax

section \<open>C integer types\<close>

type_synonym u8 = "8 word"
type_synonym u16 = "16 word"
type_synonym u32 = "32 word"
type_synonym u64 = "64 word"

text \<open>
  The sources are built for 64-bit Linux (x86-64 hosts and the ARM64 board): \<open>size_t\<close> and
  \<open>long\<close> have 64 bits and \<open>int\<close> has 32. Signed values are integers; the bounds below are the
  limits of their types.
\<close>

abbreviation (input) INT_MAX :: int where "INT_MAX \<equiv> 2147483647"
abbreviation (input) LONG_MAX :: int where "LONG_MAX \<equiv> 9223372036854775807"
abbreviation (input) INT64_MAX :: int where "INT64_MAX \<equiv> 9223372036854775807"
abbreviation (input) SIZE_MODULUS :: nat where "SIZE_MODULUS \<equiv> 18446744073709551616"

named_theorems buffer_simps "facts on bytes copied between buffers"
named_theorems cstring_simps "facts on NUL-terminated strings"

lemma uint_pos: "(w :: 'a :: len word) \<noteq> 0 \<Longrightarrow> 1 \<le> uint w"
  using unsigned_eq_0_iff [of w, where ?'a = int] uint_ge_0 [of w] by linarith

lemma uint_u32_bound: "uint (w :: u32) < 4294967296"
  using uint_lt2p [of w] by simp

section \<open>Buffers\<close>

text \<open>
  \<open>blit dst off src\<close> is the buffer \<open>dst\<close> after \<open>memcpy (dst + off, src, |src|)\<close>, for a copy
  that stays inside \<open>dst\<close>; \<open>segment buf off n\<close> is the memory \<open>memcpy\<close> reads.
\<close>

definition blit :: "'a list \<Rightarrow> nat \<Rightarrow> 'a list \<Rightarrow> 'a list" where
  "blit dst off src = take off dst @ src @ drop (off + length src) dst"

definition segment :: "'a list \<Rightarrow> nat \<Rightarrow> nat \<Rightarrow> 'a list" where
  "segment buf off n = take n (drop off buf)"

lemma length_blit [simp, buffer_simps]:
  "off + length src \<le> length dst \<Longrightarrow> length (blit dst off src) = length dst"
  by (simp add: blit_def)

lemma length_segment [simp, buffer_simps]:
  "off + n \<le> length buf \<Longrightarrow> length (segment buf off n) = n"
  by (simp add: segment_def)

lemma segment_blit_same [buffer_simps]:
  "off + length src \<le> length dst \<Longrightarrow> segment (blit dst off src) off (length src) = src"
  by (simp add: segment_def blit_def)

lemma segment_blit_before [buffer_simps]:
  "p + n \<le> off \<Longrightarrow> off + length src \<le> length dst \<Longrightarrow> segment (blit dst off src) p n = segment dst p n"
  by (simp add: segment_def blit_def drop_take)

lemma segment_blit_after [buffer_simps]:
  "off + length src \<le> p \<Longrightarrow> off + length src \<le> length dst \<Longrightarrow>
    segment (blit dst off src) p n = segment dst p n"
  by (simp add: segment_def blit_def min_def)

lemma take_blit_end [buffer_simps]:
  "n + length src \<le> length dst \<Longrightarrow> take (n + length src) (blit dst n src) = take n dst @ src"
  by (simp add: blit_def)

lemma blit_blit [buffer_simps]:
  "k + length a + length b \<le> length dst \<Longrightarrow> blit (blit dst k a) (k + length a) b = blit dst k (a @ b)"
  by (simp add: blit_def ac_simps)

lemma blit_nil [simp, buffer_simps]: "blit dst k [] = dst"
  by (simp add: blit_def)

lemma take_drop_segment [buffer_simps]:
  "segment (take n buf) off m = take (min m (n - off)) (drop off buf)"
  by (simp add: segment_def drop_take min.commute)

lemma list_split3: "3 \<le> length xs \<Longrightarrow> \<exists>a b c rest. xs = a # b # c # rest"
  by (auto simp: numeral_3_eq_3 Suc_le_length_iff)

lemma list_split2: "2 \<le> length xs \<Longrightarrow> \<exists>a b rest. xs = a # b # rest"
  by (auto simp: numeral_2_eq_2 Suc_le_length_iff)

section \<open>System calls\<close>

text \<open>
  The outcome of one system call: the value it returns, an interruption by a signal (\<open>-1\<close> with
  \<open>EINTR\<close>), or another failure (\<open>-1\<close>). A blocking loop reads the outcomes of its successive calls
  from a list, the script of its environment; a loop that has used the whole script and still
  has to wait gives \<open>None\<close>.
\<close>

datatype 'a sys = Ret 'a | EINTR | Fail

section \<open>C strings\<close>

text \<open>
  A \<open>char[N]\<close> field is a list of \<open>N\<close> characters. \<open>cstr\<close> is the string a reader sees in it (the
  bytes up to the first NUL), \<open>carray N s\<close> the array an initialiser \<open>.field = "..."\<close> makes.
\<close>

abbreviation (input) NUL :: char where "NUL \<equiv> CHR 0x00"

definition cstr :: "char list \<Rightarrow> string" where
  "cstr cs = takeWhile (\<lambda>c. c \<noteq> NUL) cs"

definition carray :: "nat \<Rightarrow> string \<Rightarrow> char list" where
  "carray n s = s @ replicate (n - length s) NUL"

definition cstring :: "string \<Rightarrow> bool" where
  "cstring s \<longleftrightarrow> NUL \<notin> set s"

definition memchr_nul :: "char list \<Rightarrow> nat \<Rightarrow> bool" where
  "memchr_nul cs n \<longleftrightarrow> NUL \<in> set (take n cs)"

text \<open>\<open>strnlen\<close> stops at the capacity; \<open>strncmp\<close> against a literal of the compared length is a
  prefix test.\<close>

definition strnlen :: "string \<Rightarrow> nat \<Rightarrow> nat" where
  "strnlen s n = min (length s) n"

definition strncmp_eq :: "string \<Rightarrow> string \<Rightarrow> nat \<Rightarrow> bool" where
  "strncmp_eq s t n \<longleftrightarrow> take n s = take n t"

lemma cstr_no_nul [simp, cstring_simps]: "NUL \<notin> set (cstr cs)"
  unfolding cstr_def by (auto dest: set_takeWhileD)

lemma cstring_cstr [simp, intro, cstring_simps]: "cstring (cstr cs)"
  by (simp add: cstring_def)

lemma cstr_id [simp, cstring_simps]: "cstring s \<Longrightarrow> cstr s = s"
  by (auto simp: cstring_def cstr_def)

lemma cstr_append_nul [cstring_simps]: "cstring s \<Longrightarrow> cstr (s @ NUL # t) = s"
  by (auto simp: cstring_def cstr_def takeWhile_append)

lemma cstr_carray [cstring_simps]: "cstring s \<Longrightarrow> length s < n \<Longrightarrow> cstr (carray n s) = s"
proof -
  assume s: "cstring s" and "length s < n"
  then have "replicate (n - length s) NUL = NUL # replicate (n - length s - 1) NUL"
    by (metis Suc_diff_1 replicate_Suc zero_less_diff)
  then show ?thesis using cstr_append_nul [OF s] by (simp add: carray_def)
qed

lemma length_carray [simp, cstring_simps]: "length s \<le> n \<Longrightarrow> length (carray n s) = n"
  by (simp add: carray_def)

lemma carray_hd [cstring_simps]: "s \<noteq> [] \<Longrightarrow> carray n s ! 0 = s ! 0"
  by (simp add: carray_def nth_append)

lemma memchr_nul_carray [cstring_simps]: "length s < n \<Longrightarrow> memchr_nul (carray n s) n"
  by (simp add: memchr_nul_def carray_def)

lemma cstr_length_less: "memchr_nul cs n \<Longrightarrow> length (cstr cs) < n"
proof -
  assume "memchr_nul cs n"
  then obtain i where i: "i < length cs" "i < n" "cs ! i = NUL"
    by (auto simp: memchr_nul_def in_set_conv_nth)
  have "\<not> i < length (takeWhile (\<lambda>c. c \<noteq> NUL) cs)"
  proof
    assume l: "i < length (takeWhile (\<lambda>c. c \<noteq> NUL) cs)"
    then have "takeWhile (\<lambda>c. c \<noteq> NUL) cs ! i \<in> set (takeWhile (\<lambda>c. c \<noteq> NUL) cs)"
      by (rule nth_mem)
    with l i(3) show False by (auto simp: takeWhile_nth dest: set_takeWhileD)
  qed
  then show ?thesis using i by (simp add: cstr_def)
qed

end
