(* ===== verification/Crc16.thy ===== *)
theory Crc16
  imports Prelude
begin

text \<open>
  \<open>frame_crc16_modbus\<close> of \<^verbatim>\<open>src/modules/protocol/frame.c\<close>: the CRC-16/Modbus checksum that the
  TCP frames and the Modbus RTU frames share. The loop over the bits and the loop over the bytes
  are kept as the code has them. One round is a bijection on 16-bit values, and from that follows
  that corrupting one byte of a message always changes its checksum.
\<close>

section \<open>The checksum\<close>

text \<open>The body of the inner loop: a right shift, and the polynomial when the lowest bit was set.\<close>

definition crc_bit :: "u16 \<Rightarrow> u16" where
  "crc_bit crc = (if crc AND 1 \<noteq> 0 then drop_bit 1 crc XOR 0xA001 else drop_bit 1 crc)"

fun crc_bits :: "nat \<Rightarrow> u16 \<Rightarrow> u16" where
  "crc_bits 0 crc = crc"
| "crc_bits (Suc n) crc = crc_bits n (crc_bit crc)"

definition crc_byte :: "u16 \<Rightarrow> u8 \<Rightarrow> u16" where
  "crc_byte crc b = crc_bits 8 (crc XOR ucast b)"

fun crc_bytes :: "u16 \<Rightarrow> u8 list \<Rightarrow> u16" where
  "crc_bytes crc [] = crc"
| "crc_bytes crc (b # bs) = crc_bytes (crc_byte crc b) bs"

definition frame_crc16_modbus :: "u8 list \<Rightarrow> u16" where
  "frame_crc16_modbus data = crc_bytes 0xFFFF data"

text \<open>The two bytes a checksum travels as, low byte first, and the value read back from them.\<close>

definition crc_low :: "u16 \<Rightarrow> u8" where "crc_low crc = ucast crc"
definition crc_high :: "u16 \<Rightarrow> u8" where "crc_high crc = ucast (drop_bit 8 crc)"

definition crc_received :: "u8 \<Rightarrow> u8 \<Rightarrow> u16" where
  "crc_received lo hi = ucast lo OR push_bit 8 (ucast hi)"

section \<open>Evaluation\<close>

named_theorems crc_eval "rules that evaluate a checksum of concrete bytes"

lemma crc_bits_8 [crc_eval]:
  "crc_bits 8 c = crc_bit (crc_bit (crc_bit (crc_bit (crc_bit (crc_bit (crc_bit (crc_bit c)))))))"
  by (simp add: eval_nat_numeral)

lemmas crc_eval_rules [crc_eval] =
  frame_crc16_modbus_def crc_byte_def crc_bit_def crc_low_def crc_high_def crc_received_def

lemma crc_standard_vector:
  "frame_crc16_modbus [0x31, 0x32, 0x33, 0x34, 0x35, 0x36, 0x37, 0x38, 0x39] = 0x4B37"
  by (simp add: crc_eval)

section \<open>Each round is injective\<close>

lemma and_one_bit: "(c :: u16) AND 1 \<noteq> 0 \<longleftrightarrow> bit c 0"
  by (simp add: and_one_eq odd_iff_mod_2_eq_one bit_0)

lemma crc_bit_top: "bit (crc_bit c) 15 \<longleftrightarrow> bit c 0"
  by (simp add: crc_bit_def and_one_bit bit_xor_iff bit_drop_bit_eq impossible_bit)

lemma crc_bit_inj: "crc_bit x = crc_bit y \<Longrightarrow> x = y"
proof -
  assume e: "crc_bit x = crc_bit y"
  then have b0: "bit x 0 = bit y 0" by (metis crc_bit_top)
  have "drop_bit 1 x = drop_bit 1 y"
  proof (cases "bit x 0")
    case True
    then have "drop_bit 1 x XOR 0xA001 = drop_bit 1 y XOR 0xA001"
      using e b0 by (simp add: crc_bit_def and_one_bit)
    then have "(drop_bit 1 x XOR 0xA001) XOR 0xA001 = (drop_bit 1 y XOR 0xA001) XOR 0xA001" by simp
    then show ?thesis by (simp only: xor.assoc xor_self_eq xor.right_neutral)
  next
    case False
    then show ?thesis using e b0 by (simp add: crc_bit_def and_one_bit)
  qed
  then have "bit x (Suc n) = bit y (Suc n)" for n
    by (metis bit_drop_bit_eq comp_apply plus_1_eq_Suc)
  then show ?thesis using b0 by (metis bit_word_eqI not0_implies_Suc)
qed

lemma crc_bits_inj: "crc_bits n x = crc_bits n y \<Longrightarrow> x = y"
  by (induction n arbitrary: x y) (auto dest: crc_bit_inj)

lemma crc_byte_inj_state: "crc_byte x b = crc_byte y b \<Longrightarrow> x = y"
proof -
  assume "crc_byte x b = crc_byte y b"
  then have "x XOR ucast b = y XOR ucast b" unfolding crc_byte_def by (rule crc_bits_inj)
  then have "(x XOR ucast b) XOR ucast b = (y XOR ucast b) XOR ucast b" by simp
  then show ?thesis by (simp only: xor.assoc xor_self_eq xor.right_neutral)
qed

lemma ucast_u8_u16_inj: "(ucast (a :: u8) :: u16) = ucast b \<Longrightarrow> a = b"
proof (rule bit_word_eqI)
  fix n
  assume e: "(ucast a :: u16) = ucast b" and "n < LENGTH(8)"
  have "bit (ucast a :: u16) n = bit (ucast b :: u16) n" by (simp only: e)
  with \<open>n < LENGTH(8)\<close> show "bit a n = bit b n" by (simp add: bit_ucast_iff)
qed

lemma crc_byte_inj_byte: "crc_byte x a = crc_byte x b \<Longrightarrow> a = b"
proof -
  assume "crc_byte x a = crc_byte x b"
  then have "x XOR ucast a = x XOR ucast b" unfolding crc_byte_def by (rule crc_bits_inj)
  then have "x XOR (x XOR ucast a) = x XOR (x XOR ucast b)" by simp
  then have "(ucast a :: u16) = ucast b"
    by (simp only: xor.assoc [symmetric] xor_self_eq xor.left_neutral)
  then show ?thesis by (rule ucast_u8_u16_inj)
qed

lemma crc_bytes_append: "crc_bytes c (xs @ ys) = crc_bytes (crc_bytes c xs) ys"
  by (induction xs arbitrary: c) auto

lemma crc_bytes_inj_state: "crc_bytes x bs = crc_bytes y bs \<Longrightarrow> x = y"
  by (induction bs arbitrary: x y) (auto dest: crc_byte_inj_state)

lemma crc_changed_byte:
  assumes "i < length bs" and "bs ! i \<noteq> b"
  shows "frame_crc16_modbus (bs[i := b]) \<noteq> frame_crc16_modbus bs"
proof
  assume eq: "frame_crc16_modbus (bs[i := b]) = frame_crc16_modbus bs"
  let ?c = "crc_bytes 0xFFFF (take i bs)"
  have "bs = take i bs @ bs ! i # drop (Suc i) bs" using assms(1) by (rule id_take_nth_drop)
  moreover have "bs[i := b] = take i bs @ b # drop (Suc i) bs" using assms(1) by (rule upd_conv_take_nth_drop)
  ultimately have "crc_bytes (crc_byte ?c b) (drop (Suc i) bs)
      = crc_bytes (crc_byte ?c (bs ! i)) (drop (Suc i) bs)"
    using eq unfolding frame_crc16_modbus_def by (metis crc_bytes_append crc_bytes.simps(2))
  then have "crc_byte ?c b = crc_byte ?c (bs ! i)" by (rule crc_bytes_inj_state)
  then show False using assms(2) crc_byte_inj_byte by blast
qed

section \<open>The wire form of the checksum\<close>

lemma crc_received_low_high [simp]: "crc_received (crc_low c) (crc_high c) = c"
  unfolding crc_received_def crc_low_def crc_high_def
  by (rule bit_word_eqI) (auto simp: bit_or_iff bit_push_bit_iff bit_ucast_iff bit_drop_bit_eq)

lemma crc_received_inj: "crc_received lo hi = crc_received lo' hi' \<Longrightarrow> lo = lo' \<and> hi = hi'"
proof -
  assume eq: "crc_received lo hi = crc_received lo' hi'"
  have low: "crc_low (crc_received a b) = a" for a b
    unfolding crc_received_def crc_low_def
    by (rule bit_word_eqI) (auto simp: bit_or_iff bit_push_bit_iff bit_ucast_iff)
  have high: "crc_high (crc_received a b) = b" for a b
    unfolding crc_received_def crc_high_def
    by (rule bit_word_eqI) (auto simp: bit_or_iff bit_push_bit_iff bit_ucast_iff bit_drop_bit_eq impossible_bit)
  show ?thesis using eq low high by metis
qed

lemma crc_received_eqD: "c = crc_received lo hi \<Longrightarrow> lo = crc_low c \<and> hi = crc_high c"
  using crc_received_inj by (metis crc_received_low_high)

end
