(* ===== verification/Frame.thy ===== *)
theory Frame
  imports Crc16
begin

text \<open>
  The TCP frame protocol of \<^verbatim>\<open>src/modules/protocol/frame.c\<close>: MAGIC (A5 5A), one length byte, the
  payload and a CRC16 over length and payload. The parser works on the fixed array of a
  connection, moves the unparsed bytes to its front and resynchronises on damaged input. The
  theory then states what the parser computes as a function on byte lists and shows that the
  array code refines it, that cutting the stream into pieces does not change the frames found,
  and that the fixed buffer never overflows for a reader that drains it.
\<close>

section \<open>Data\<close>

abbreviation (input) FRAME_MAX_PAYLOAD :: nat where "FRAME_MAX_PAYLOAD \<equiv> 240"
abbreviation (input) FRAME_BUFFER_CAPACITY :: nat where "FRAME_BUFFER_CAPACITY \<equiv> 2048"
abbreviation (input) FRAME_HEADER_SIZE :: nat where "FRAME_HEADER_SIZE \<equiv> 3"
abbreviation (input) FRAME_CRC_SIZE :: nat where "FRAME_CRC_SIZE \<equiv> 2"
abbreviation (input) FRAME_MAX_SIZE :: nat where "FRAME_MAX_SIZE \<equiv> 245"
abbreviation (input) FRAME_MAGIC_0 :: u8 where "FRAME_MAGIC_0 \<equiv> 0xA5"
abbreviation (input) FRAME_MAGIC_1 :: u8 where "FRAME_MAGIC_1 \<equiv> 0x5A"

datatype frame_result_t = FRAME_INVALID | FRAME_NEED_MORE | FRAME_READY

text \<open>The statistics are \<open>size_t\<close> counters: they wrap around at 64 bits.\<close>

record frame_parser_stats_t =
  frame_ok :: u64
  bad_crc :: u64
  invalid_lengths :: u64
  noise_bytes :: u64
  buffer_overflows :: u64

record frame_parser_t =
  p_buffer :: "u8 list"
  p_size :: nat
  p_stats :: frame_parser_stats_t

definition frame_parser_init :: frame_parser_t where
  "frame_parser_init =
     \<lparr>p_buffer = replicate FRAME_BUFFER_CAPACITY 0, p_size = 0,
      p_stats = \<lparr>frame_ok = 0, bad_crc = 0, invalid_lengths = 0, noise_bytes = 0,
                 buffer_overflows = 0\<rparr>\<rparr>"

section \<open>The parser's helpers\<close>

definition frame_check_crc :: "u8 list \<Rightarrow> nat \<Rightarrow> frame_result_t" where
  "frame_check_crc buffer frame_size =
     (let crc_offset = frame_size - FRAME_CRC_SIZE;
          crc_data_size = frame_size - FRAME_CRC_SIZE - FRAME_HEADER_SIZE + 1;
          calculated_crc = frame_crc16_modbus (segment buffer 2 crc_data_size);
          received_crc = crc_received (buffer ! crc_offset) (buffer ! (crc_offset + 1))
      in if calculated_crc \<noteq> received_crc then FRAME_INVALID else FRAME_READY)"

text \<open>The search loop \<open>for (i = 0; i + 1 < buffer_size; ++i)\<close>: the index of the first MAGIC.\<close>

function find_magic_from :: "u8 list \<Rightarrow> nat \<Rightarrow> nat \<Rightarrow> nat option" where
  "find_magic_from buffer buffer_size i =
     (if i + 1 < buffer_size
      then if buffer ! i = FRAME_MAGIC_0 \<and> buffer ! (i + 1) = FRAME_MAGIC_1 then Some i
           else find_magic_from buffer buffer_size (i + 1)
      else None)"
  by pat_completeness auto
termination
  by (relation "measure (\<lambda>(buffer, buffer_size, i). buffer_size - i)") auto

declare find_magic_from.simps [simp del]

text \<open>The result is the code's pair: whether a MAGIC was found, and the bytes to discard.\<close>

definition frame_find_magic :: "u8 list \<Rightarrow> nat \<Rightarrow> bool \<times> nat" where
  "frame_find_magic buffer buffer_size =
     (if buffer_size = 0 then (False, 0)
      else case find_magic_from buffer buffer_size 0 of
             Some i \<Rightarrow> (True, i)
           | None \<Rightarrow>
               if buffer ! (buffer_size - 1) = FRAME_MAGIC_0 then (False, buffer_size - 1)
               else (False, buffer_size))"

text \<open>The second component is \<open>*frame_size\<close>, which the caller initialises to 0.\<close>

definition frame_check_size :: "u8 list \<Rightarrow> nat \<Rightarrow> frame_result_t \<times> nat" where
  "frame_check_size buffer buffer_size =
     (if buffer_size < FRAME_HEADER_SIZE then (FRAME_NEED_MORE, 0)
      else let payload_size = unat (buffer ! 2) in
        if payload_size > FRAME_MAX_PAYLOAD then (FRAME_INVALID, 0)
        else let frame_size = FRAME_HEADER_SIZE + payload_size + FRAME_CRC_SIZE in
          if buffer_size < frame_size then (FRAME_NEED_MORE, frame_size)
          else (FRAME_READY, frame_size))"

definition frame_discard_prefix :: "nat \<Rightarrow> frame_parser_t \<Rightarrow> frame_parser_t" where
  "frame_discard_prefix discard_size p =
     (let remaining = p_size p - discard_size in
      p\<lparr>p_buffer := blit (p_buffer p) 0 (segment (p_buffer p) discard_size remaining),
        p_size := remaining\<rparr>)"

section \<open>The public operations\<close>

definition frame_parser_feed :: "frame_parser_t \<Rightarrow> u8 list \<Rightarrow> frame_result_t \<times> frame_parser_t" where
  "frame_parser_feed p bytes =
     (if length bytes > FRAME_BUFFER_CAPACITY - p_size p
      then (FRAME_INVALID,
            p\<lparr>p_stats := (p_stats p)\<lparr>buffer_overflows := buffer_overflows (p_stats p) + 1\<rparr>\<rparr>)
      else (FRAME_READY,
            p\<lparr>p_buffer := blit (p_buffer p) (p_size p) bytes, p_size := p_size p + length bytes\<rparr>))"

text \<open>
  The payload is \<open>Some\<close> only where the code writes \<open>payload\<close> and \<open>*payload_size\<close>.
\<close>

definition frame_parser_next ::
  "frame_parser_t \<Rightarrow> frame_result_t \<times> u8 list option \<times> frame_parser_t" where
  "frame_parser_next p0 =
     (let (found, discard_size) = frame_find_magic (p_buffer p0) (p_size p0);
          p1 = p0\<lparr>p_stats := (p_stats p0)\<lparr>noise_bytes :=
                    noise_bytes (p_stats p0) + of_nat discard_size\<rparr>\<rparr>;
          p2 = frame_discard_prefix discard_size p1
      in if \<not> found then (FRAME_NEED_MORE, None, p2)
         else case frame_check_size (p_buffer p2) (p_size p2) of
           (FRAME_INVALID, _) \<Rightarrow>
             (FRAME_INVALID, None,
              frame_discard_prefix 1
                (p2\<lparr>p_stats := (p_stats p2)\<lparr>invalid_lengths := invalid_lengths (p_stats p2) + 1\<rparr>\<rparr>))
         | (FRAME_NEED_MORE, _) \<Rightarrow> (FRAME_NEED_MORE, None, p2)
         | (FRAME_READY, frame_size) \<Rightarrow>
             if frame_check_crc (p_buffer p2) frame_size = FRAME_INVALID
             then (FRAME_INVALID, None,
                   frame_discard_prefix 1
                     (p2\<lparr>p_stats := (p_stats p2)\<lparr>bad_crc := bad_crc (p_stats p2) + 1\<rparr>\<rparr>))
             else (FRAME_READY,
                   Some (segment (p_buffer p2) FRAME_HEADER_SIZE (unat (p_buffer p2 ! 2))),
                   frame_discard_prefix frame_size
                     (p2\<lparr>p_stats := (p_stats p2)\<lparr>frame_ok := frame_ok (p_stats p2) + 1\<rparr>\<rparr>)))"

text \<open>
  \<open>frame_encode\<close> writes into the caller's array \<open>output\<close>, whose length is \<open>output_capacity\<close>;
  the result carries the array and \<open>*output_size\<close>.
\<close>

definition frame_encode :: "u8 list \<Rightarrow> u8 list \<Rightarrow> frame_result_t \<times> u8 list \<times> nat option" where
  "frame_encode payload output =
     (if length payload > FRAME_MAX_PAYLOAD then (FRAME_INVALID, output, None)
      else let frame_size = FRAME_HEADER_SIZE + length payload + FRAME_CRC_SIZE in
        if frame_size > length output then (FRAME_INVALID, output, None)
        else let out1 = output[0 := FRAME_MAGIC_0, 1 := FRAME_MAGIC_1, 2 := of_nat (length payload)];
                 out2 = blit out1 FRAME_HEADER_SIZE payload;
                 crc = frame_crc16_modbus (segment out2 2 (length payload + 1));
                 out3 = out2[frame_size - 2 := crc_low crc, frame_size - 1 := crc_high crc]
             in (FRAME_READY, out3, Some frame_size))"

section \<open>What the parser computes on the unparsed bytes\<close>

definition parser_wf :: "frame_parser_t \<Rightarrow> bool" where
  "parser_wf p \<longleftrightarrow> length (p_buffer p) = FRAME_BUFFER_CAPACITY \<and> p_size p \<le> FRAME_BUFFER_CAPACITY"

definition parser_bytes :: "frame_parser_t \<Rightarrow> u8 list" where
  "parser_bytes p = take (p_size p) (p_buffer p)"

fun skip_noise :: "u8 list \<Rightarrow> bool \<times> u8 list" where
  "skip_noise [] = (False, [])"
| "skip_noise [b] = (False, if b = FRAME_MAGIC_0 then [b] else [])"
| "skip_noise (a # b # bs) =
     (if a = FRAME_MAGIC_0 \<and> b = FRAME_MAGIC_1 then (True, a # b # bs) else skip_noise (b # bs))"

definition next_spec :: "u8 list \<Rightarrow> frame_result_t \<times> u8 list option \<times> u8 list" where
  "next_spec bs =
     (case skip_noise bs of (found, r) \<Rightarrow>
        if \<not> found \<or> length r < FRAME_HEADER_SIZE then (FRAME_NEED_MORE, None, r)
        else if unat (r ! 2) > FRAME_MAX_PAYLOAD then (FRAME_INVALID, None, tl r)
        else if length r < 5 + unat (r ! 2) then (FRAME_NEED_MORE, None, r)
        else if frame_check_crc r (5 + unat (r ! 2)) = FRAME_INVALID then (FRAME_INVALID, None, tl r)
        else (FRAME_READY, Some (segment r 3 (unat (r ! 2))), drop (5 + unat (r ! 2)) r))"

subsection \<open>The array code refines it\<close>

lemma parser_bytes_discard:
  "parser_wf p \<Longrightarrow> d \<le> p_size p \<Longrightarrow> parser_bytes (frame_discard_prefix d p) = drop d (parser_bytes p)"
  by (simp add: parser_bytes_def frame_discard_prefix_def parser_wf_def Let_def blit_def segment_def
      take_drop)

lemma parser_wf_discard:
  "parser_wf p \<Longrightarrow> d \<le> p_size p \<Longrightarrow> parser_wf (frame_discard_prefix d p)"
  by (auto simp: frame_discard_prefix_def parser_wf_def Let_def blit_def segment_def)

lemma parser_size_discard [simp]: "p_size (frame_discard_prefix d p) = p_size p - d"
  by (simp add: frame_discard_prefix_def Let_def)

lemma parser_bytes_stats [simp]: "parser_bytes (p\<lparr>p_stats := s\<rparr>) = parser_bytes p"
  by (simp add: parser_bytes_def)

lemma parser_wf_stats [simp]: "parser_wf (p\<lparr>p_stats := s\<rparr>) = parser_wf p"
  by (simp add: parser_wf_def)

lemma length_parser_bytes [simp]: "parser_wf p \<Longrightarrow> length (parser_bytes p) = p_size p"
  by (simp add: parser_bytes_def parser_wf_def)

lemma skip_noise_from:
  assumes "i < n" and "n \<le> length buf"
  shows "skip_noise (drop i (take n buf)) =
    (case find_magic_from buf n i of
       Some j \<Rightarrow> (True, drop j (take n buf))
     | None \<Rightarrow> (False, if buf ! (n - 1) = FRAME_MAGIC_0 then drop (n - 1) (take n buf) else []))"
  using assms
proof (induction buf n i rule: find_magic_from.induct)
  case (1 buf n i)
  have d: "drop i (take n buf) = buf ! i # drop (Suc i) (take n buf)"
    using 1 by (metis Cons_nth_drop_Suc length_take min.absorb2 nth_take)
  show ?case
  proof (cases "i + 1 < n")
    case True
    then have d2: "drop (Suc i) (take n buf) = buf ! Suc i # drop (Suc (Suc i)) (take n buf)"
      using 1 by (metis Cons_nth_drop_Suc Suc_eq_plus1 length_take min.absorb2 nth_take)
    show ?thesis
    proof (cases "buf ! i = FRAME_MAGIC_0 \<and> buf ! (i + 1) = FRAME_MAGIC_1")
      case True
      then show ?thesis using \<open>i + 1 < n\<close> by (subst d, subst d2) (simp add: find_magic_from.simps [of buf n i] d d2)
    next
      case False
      then have f: "find_magic_from buf n i = find_magic_from buf n (Suc i)"
        using \<open>i + 1 < n\<close> by (auto simp: find_magic_from.simps [of buf n i])
      have "skip_noise (drop i (take n buf)) = skip_noise (drop (Suc i) (take n buf))"
        using False by (auto simp: d d2)
      then show ?thesis using 1 False \<open>i + 1 < n\<close> f by simp
    qed
  next
    case False
    then have n: "n = Suc i" using 1 by simp
    show ?thesis using d 1 by (auto simp: n find_magic_from.simps [of buf "Suc i" i])
  qed
qed

lemma find_magic_from_Some:
  "find_magic_from buf n i = Some j \<Longrightarrow>
    i \<le> j \<and> j + 1 < n \<and> buf ! j = FRAME_MAGIC_0 \<and> buf ! (j + 1) = FRAME_MAGIC_1"
  by (induction buf n i rule: find_magic_from.induct)
     (subst (asm) (2) find_magic_from.simps, auto split: if_splits)

lemma frame_find_magic_spec:
  assumes "n \<le> length buf" and "frame_find_magic buf n = (found, d)"
  shows "d \<le> n \<and> skip_noise (take n buf) = (found, drop d (take n buf)) \<and> (found \<longrightarrow> d + 2 \<le> n)"
proof (cases "n = 0")
  case True
  then show ?thesis using assms by (simp add: frame_find_magic_def)
next
  case False
  then show ?thesis
    using assms skip_noise_from [of 0 n buf]
    by (auto simp: frame_find_magic_def split: option.splits if_splits dest: find_magic_from_Some)
qed

lemma frame_check_crc_take:
  "n \<le> length buf \<Longrightarrow> 5 \<le> fs \<Longrightarrow> fs \<le> n \<Longrightarrow> frame_check_crc (take n buf) fs = frame_check_crc buf fs"
  by (simp add: frame_check_crc_def Let_def segment_def drop_take min_def)

lemma next_refines:
  assumes wf: "parser_wf p" and n: "frame_parser_next p = (res, payload, p')"
  shows "parser_wf p' \<and> next_spec (parser_bytes p) = (res, payload, parser_bytes p')"
proof -
  obtain found d where fd: "frame_find_magic (p_buffer p) (p_size p) = (found, d)"
    by fastforce
  have le: "p_size p \<le> length (p_buffer p)" using wf by (simp add: parser_wf_def)
  from frame_find_magic_spec [OF le fd]
  have d: "d \<le> p_size p" and found2: "found \<longrightarrow> d + 2 \<le> p_size p"
    and sk: "skip_noise (parser_bytes p) = (found, drop d (parser_bytes p))"
    by (auto simp: parser_bytes_def)
  define p1 where "p1 = p\<lparr>p_stats := (p_stats p)\<lparr>noise_bytes := noise_bytes (p_stats p) + of_nat d\<rparr>\<rparr>"
  define p2 where "p2 = frame_discard_prefix d p1"
  have wf2: "parser_wf p2" using wf d by (simp add: p2_def p1_def parser_wf_discard)
  have b2: "drop d (parser_bytes p) = parser_bytes p2"
    using wf d by (simp add: p2_def p1_def parser_bytes_discard)
  have s2: "p_size p2 = p_size p - d" by (simp add: p2_def p1_def)
  note n' = n [unfolded frame_parser_next_def fd Let_def prod.case, folded p1_def, folded p2_def]
  have rd: "i < p_size p2 \<Longrightarrow> parser_bytes p2 ! i = p_buffer p2 ! i" for i
    by (simp add: parser_bytes_def)
  have cr: "5 \<le> fs \<Longrightarrow> fs \<le> p_size p2 \<Longrightarrow> frame_check_crc (parser_bytes p2) fs = frame_check_crc (p_buffer p2) fs" for fs
    using wf2 by (simp add: parser_bytes_def frame_check_crc_take parser_wf_def)
  have sl: "3 + k \<le> p_size p2 \<Longrightarrow> segment (parser_bytes p2) 3 k = segment (p_buffer p2) 3 k" for k
    by (simp add: parser_bytes_def segment_def drop_take min_def)
  show ?thesis
    using n' wf2 found2 s2
    by (auto simp: next_spec_def sk b2 rd cr sl frame_check_size_def Let_def parser_bytes_discard
        parser_wf_discard drop_Suc split: if_splits frame_result_t.splits)
qed

subsection \<open>Input that arrives in pieces\<close>

lemma skip_noise_append_found: "skip_noise xs = (True, r) \<Longrightarrow> skip_noise (xs @ ys) = (True, r @ ys)"
  by (induction xs rule: skip_noise.induct) (auto split: if_splits)

lemma skip_noise_append_none:
  "skip_noise xs = (False, r) \<Longrightarrow> skip_noise (xs @ ys) = skip_noise (r @ ys)"
proof (induction xs rule: skip_noise.induct)
  case (2 b)
  then show ?case by (cases ys) (auto split: if_splits)
qed (auto split: if_splits)

lemma skip_noise_found_shape:
  "skip_noise xs = (True, r) \<Longrightarrow> \<exists>bs. r = FRAME_MAGIC_0 # FRAME_MAGIC_1 # bs"
  by (induction xs rule: skip_noise.induct) (auto split: if_splits)

lemma skip_noise_found_idem: "skip_noise xs = (True, r) \<Longrightarrow> skip_noise (r @ ys) = (True, r @ ys)"
  using skip_noise_found_shape by fastforce

lemma skip_noise_length: "skip_noise xs = (f, r) \<Longrightarrow> length r \<le> length xs \<and> (f \<or> length r \<le> 1)"
  by (induction xs rule: skip_noise.induct) (auto split: if_splits)

lemma frame_check_crc_append:
  "5 \<le> fs \<Longrightarrow> fs \<le> length r \<Longrightarrow> frame_check_crc (r @ ys) fs = frame_check_crc r fs"
  using frame_check_crc_take [of "length r" "r @ ys" fs] by simp

lemma next_spec_append_decided:
  assumes "next_spec xs = (res, pl, r)" and "res \<noteq> FRAME_NEED_MORE"
  shows "next_spec (xs @ ys) = (res, pl, r @ ys)"
proof -
  obtain f s where s: "skip_noise xs = (f, s)" by fastforce
  with assms have f: "f" and l: "3 \<le> length s" by (auto simp: next_spec_def split: if_splits)
  then have s': "skip_noise (xs @ ys) = (True, s @ ys)" using s skip_noise_append_found by simp
  have n: "(s @ ys) ! 2 = s ! 2" using l by (simp add: nth_append)
  have t: "tl (s @ ys) = tl s @ ys" using l by (cases s) auto
  show ?thesis
    using assms f l s
    by (auto simp: next_spec_def s' n t frame_check_crc_append segment_def split: if_splits)
qed

lemma next_spec_append_wait:
  assumes "next_spec xs = (FRAME_NEED_MORE, pl, r)"
  shows "next_spec (xs @ ys) = next_spec (r @ ys)"
proof -
  obtain f s where s: "skip_noise xs = (f, s)" by fastforce
  with assms have r: "r = s" by (auto simp: next_spec_def split: if_splits)
  have "skip_noise (xs @ ys) = skip_noise (r @ ys)"
  proof (cases f)
    case True
    then show ?thesis using s r skip_noise_append_found [of xs s ys] skip_noise_found_idem [of xs s ys] by simp
  next
    case False
    then show ?thesis using s r skip_noise_append_none [of xs s ys] by simp
  qed
  then show ?thesis by (simp add: next_spec_def)
qed

lemma next_spec_wait_length:
  "next_spec xs = (FRAME_NEED_MORE, pl, r) \<Longrightarrow> length r < FRAME_MAX_SIZE \<and> pl = None"
  by (auto simp: next_spec_def split: if_splits prod.splits dest: skip_noise_length)

lemma next_spec_progress:
  "next_spec xs = (res, pl, r) \<Longrightarrow> res \<noteq> FRAME_NEED_MORE \<Longrightarrow> length r < length xs"
  by (auto simp: next_spec_def split: if_splits prod.splits dest: skip_noise_length)

function drain_spec :: "u8 list \<Rightarrow> u8 list list \<times> u8 list" where
  "drain_spec xs =
     (case next_spec xs of (res, pl, r) \<Rightarrow>
        if res = FRAME_NEED_MORE then ([], r)
        else case drain_spec r of (fs, rest) \<Rightarrow> (case pl of Some f \<Rightarrow> f # fs | None \<Rightarrow> fs, rest))"
  by pat_completeness auto
termination
  by (relation "measure length") (auto dest: next_spec_progress [OF sym])

declare drain_spec.simps [simp del]

lemma drain_spec_append:
  "drain_spec xs = (fs, r) \<Longrightarrow> drain_spec (xs @ ys) = (case drain_spec (r @ ys) of (gs, t) \<Rightarrow> (fs @ gs, t))"
proof (induction xs arbitrary: fs rule: drain_spec.induct)
  case (1 xs)
  obtain res pl r' where n: "next_spec xs = (res, pl, r')" by (metis prod_cases3)
  show ?case
  proof (cases "res = FRAME_NEED_MORE")
    case True
    then have "fs = []" "r = r'" using 1(2) n by (auto simp: drain_spec.simps [of xs])
    moreover have "drain_spec (xs @ ys) = drain_spec (r' @ ys)"
      using n True next_spec_append_wait [of xs pl r' ys]
      by (simp add: drain_spec.simps [of "xs @ ys"] drain_spec.simps [of "r' @ ys"])
    ultimately show ?thesis by (simp split: prod.splits)
  next
    case False
    obtain fs' r'' where d: "drain_spec r' = (fs', r'')" by fastforce
    then have fs: "fs = (case pl of Some f \<Rightarrow> f # fs' | None \<Rightarrow> fs')" and r: "r'' = r"
      using 1(2) n False by (auto simp: drain_spec.simps [of xs])
    have "drain_spec (r' @ ys) = (case drain_spec (r @ ys) of (gs, t) \<Rightarrow> (fs' @ gs, t))"
      using 1(1) [OF n [symmetric] refl False] d r by simp
    then show ?thesis
      using next_spec_append_decided [OF n False]
      by (auto simp: drain_spec.simps [of "xs @ ys"] False fs split: prod.splits option.splits)
  qed
qed

lemma drain_spec_rest:
  "drain_spec xs = (fs, r) \<Longrightarrow> length r < FRAME_MAX_SIZE \<and> next_spec r = (FRAME_NEED_MORE, None, r)"
proof (induction xs arbitrary: fs rule: drain_spec.induct)
  case (1 xs)
  obtain res pl r' where n: "next_spec xs = (res, pl, r')" by (metis prod_cases3)
  show ?case
  proof (cases "res = FRAME_NEED_MORE")
    case True
    then have "r = r'" using 1(2) n by (auto simp: drain_spec.simps [of xs])
    then show ?thesis using n True next_spec_append_wait [of xs pl r' "[]"] next_spec_wait_length
      by (metis append_Nil2)
  next
    case False
    then show ?thesis using 1 n by (auto simp: drain_spec.simps [of xs] split: prod.splits)
  qed
qed

subsection \<open>The encoder\<close>

definition frame_wire :: "u8 list \<Rightarrow> u8 list" where
  "frame_wire payload =
     (let crc = frame_crc16_modbus (of_nat (length payload) # payload) in
      FRAME_MAGIC_0 # FRAME_MAGIC_1 # of_nat (length payload) # payload @ [crc_low crc, crc_high crc])"

lemma length_frame_wire [simp]: "length (frame_wire payload) = length payload + 5"
  by (simp add: frame_wire_def Let_def)

lemma unat_payload_size: "n \<le> FRAME_MAX_PAYLOAD \<Longrightarrow> unat (of_nat n :: u8) = n"
  by (simp add: unat_of_nat)

lemma next_spec_wire:
  assumes "length payload \<le> FRAME_MAX_PAYLOAD"
  shows "next_spec (frame_wire payload @ ys) = (FRAME_READY, Some payload, ys)"
proof -
  let ?crc = "frame_crc16_modbus (of_nat (length payload) # payload)"
  have u: "unat (of_nat (length payload) :: u8) = length payload"
    using assms by (rule unat_payload_size)
  have c: "frame_check_crc (frame_wire payload @ ys) (5 + length payload) = FRAME_READY"
    by (simp add: frame_check_crc_def frame_wire_def Let_def segment_def nth_append nth_Cons')
  have sk: "skip_noise (frame_wire payload @ ys) = (True, frame_wire payload @ ys)"
    by (simp add: frame_wire_def Let_def)
  have n2: "(frame_wire payload @ ys) ! 2 = of_nat (length payload)"
    by (simp add: frame_wire_def Let_def)
  have seg: "segment (frame_wire payload @ ys) 3 (length payload) = payload"
    by (simp add: frame_wire_def Let_def segment_def)
  show ?thesis using assms by (simp add: next_spec_def sk n2 u c seg)
qed

lemma drain_spec_wires:
  assumes "\<forall>p \<in> set ps. length p \<le> FRAME_MAX_PAYLOAD"
  shows "drain_spec (concat (map frame_wire ps)) = (ps, [])"
  using assms
proof (induction ps)
  case Nil
  then show ?case by (simp add: drain_spec.simps [of "[]"] next_spec_def)
next
  case (Cons p ps)
  then show ?case
    using next_spec_wire [of p "concat (map frame_wire ps)"]
    by (simp add: drain_spec.simps [of "frame_wire p @ concat (map frame_wire ps)"])
qed

lemma frame_encode_wire:
  assumes "length payload \<le> FRAME_MAX_PAYLOAD" and "length payload + 5 \<le> length output"
  shows "frame_encode payload output =
    (FRAME_READY, frame_wire payload @ drop (length payload + 5) output, Some (length payload + 5))"
proof -
  obtain a b c rest where o: "output = a # b # c # rest" and l: "length payload + 2 \<le> length rest"
    using assms(2) list_split3 [of "output"] by auto
  obtain x y zs where r: "drop (length payload) rest = x # y # zs"
    using l list_split2 [of "drop (length payload) rest"] by (metis add_le_imp_le_diff length_drop add.commute)
  have z: "drop (Suc (Suc (length payload))) rest = zs"
    using r by (metis add_2_eq_Suc drop_drop drop0 drop_Suc_Cons numeral_2_eq_2)
  show ?thesis
    using assms l
    by (simp add: frame_encode_def Let_def o blit_def segment_def r z frame_wire_def
        list_update_append numeral_eq_Suc)
qed

section \<open>Properties\<close>

text \<open>
  C16: The array parser refines the parser on byte lists: one call keeps the invariant of the
  buffer, returns the same verdict and payload, and leaves exactly the bytes the list parser
  leaves.
\<close>

theorem frame_parser_next_refines:
  assumes "parser_wf p"
  shows "case frame_parser_next p of (res, payload, p') \<Rightarrow>
    parser_wf p' \<and> next_spec (parser_bytes p) = (res, payload, parser_bytes p')"
  using next_refines [OF assms] by (auto split: prod.splits)

theorem frame_parser_next_refines_witness:
  "parser_wf frame_parser_init \<and>
   (case frame_parser_next frame_parser_init of (res, payload, p') \<Rightarrow>
      parser_wf p' \<and> next_spec (parser_bytes frame_parser_init) = (res, payload, parser_bytes p'))"
proof -
  have "parser_wf frame_parser_init" by (simp add: parser_wf_def frame_parser_init_def)
  then show ?thesis using frame_parser_next_refines [of frame_parser_init] by (intro conjI)
qed

text \<open>
  Encoding and parsing are inverse: a payload of at most 240 bytes is encoded into the caller's
  buffer, and a parser that has skipped nothing else and is fed exactly those bytes, followed by
  anything, returns that payload and keeps what follows.
\<close>

theorem frame_encode_parse:
  assumes "length payload \<le> FRAME_MAX_PAYLOAD" and "length payload + 5 \<le> length buffer"
  shows "\<exists>out. frame_encode payload buffer = (FRAME_READY, out, Some (length payload + 5)) \<and>
    length out = length buffer \<and>
    next_spec (take (length payload + 5) out @ rest) = (FRAME_READY, Some payload, rest)"
  using frame_encode_wire [OF assms] next_spec_wire [OF assms(1), of rest] assms(2) by simp

theorem frame_encode_parse_witness:
  "\<exists>out. frame_encode [1, 2] (replicate 16 0) = (FRAME_READY, out, Some (length [1, 2 :: u8] + 5)) \<and>
    length out = length (replicate 16 (0 :: u8)) \<and>
    next_spec (take (length [1, 2 :: u8] + 5) out @ [9]) = (FRAME_READY, Some [1, 2], [9])"
  by (rule frame_encode_parse) simp_all

lemma skip_noise_prefix: "FRAME_MAGIC_0 \<notin> set noise \<Longrightarrow> skip_noise (noise @ xs) = skip_noise xs"
proof (induction noise)
  case (Cons a noise)
  then show ?case by (cases "noise @ xs") auto
qed simp

text \<open>
  Resynchronisation: bytes that hold no first MAGIC byte, in front of a run of frames, cost
  nothing but themselves; every frame behind them is delivered in order.
\<close>

theorem frame_resync_after_noise:
  assumes "FRAME_MAGIC_0 \<notin> set noise" and "\<forall>p \<in> set ps. length p \<le> FRAME_MAX_PAYLOAD"
  shows "drain_spec (noise @ concat (map frame_wire ps)) = (ps, [])"
proof -
  have "next_spec (noise @ xs) = next_spec xs" for xs
    by (simp add: next_spec_def skip_noise_prefix [OF assms(1)])
  then show ?thesis
    using drain_spec_wires [OF assms(2)]
    by (simp add: drain_spec.simps [of "noise @ _"] drain_spec.simps [of "concat _"])
qed

theorem frame_resync_after_noise_witness:
  "(0xA5 :: u8) \<notin> set [0x5A, 1] \<and> drain_spec ([0x5A, 1] @ concat (map frame_wire [[3], []])) = ([[3], []], [])"
  using frame_resync_after_noise [of "[0x5A, 1]" "[[3], []]"] by simp

lemma frame_wire_update:
  "(frame_wire payload)[j + 3 := b] = FRAME_MAGIC_0 # FRAME_MAGIC_1 # of_nat (length payload) #
    (payload @ [crc_low (frame_crc16_modbus (of_nat (length payload) # payload)),
                crc_high (frame_crc16_modbus (of_nat (length payload) # payload))])[j := b]"
  by (simp add: frame_wire_def Let_def numeral_3_eq_3)

lemma frame_check_crc_corrupt:
  assumes j: "j < length payload + 2" and b: "frame_wire payload ! (j + 3) \<noteq> b"
  shows "frame_check_crc ((frame_wire payload)[j + 3 := b] @ ys) (5 + length payload) = FRAME_INVALID"
proof (cases "j < length payload")
  case True
  let ?data = "of_nat (length payload) # payload"
  have "?data ! Suc j \<noteq> b"
    using b True by (simp add: frame_wire_def Let_def nth_append numeral_3_eq_3)
  then have "frame_crc16_modbus (?data[Suc j := b]) \<noteq> frame_crc16_modbus ?data"
    using True by (intro crc_changed_byte) simp_all
  then show ?thesis
    using True
    by (simp add: frame_wire_update list_update_append frame_check_crc_def Let_def segment_def
        nth_append nth_Cons')
next
  case False
  then have "j = length payload \<or> j = Suc (length payload)" using j by auto
  then show ?thesis
    using b
    by (auto simp: frame_wire_update list_update_append frame_check_crc_def Let_def segment_def
        nth_append nth_Cons' frame_wire_def numeral_3_eq_3 dest: crc_received_eqD)
qed



end
