(* ===== verification/Net_Socket.thy ===== *)
theory Net_Socket
  imports Prelude
begin

text \<open>
  The blocking socket wrappers of \<^verbatim>\<open>src/modules/net/socket.c\<close>. A buffer argument is an option
  (\<open>None\<close> is the NULL pointer). \<open>send\<close> accepts at most the bytes it is offered and \<open>recv\<close> delivers
  at most the bytes it is asked for; the scripts of outcomes are cut to that. What a writer loop
  promises, all bytes in order or a prefix of them, is a locale, and the lemmas on a sequence of
  writes are proved there once.
\<close>

section \<open>Sending\<close>

text \<open>
  The loop of \<open>net_send_all\<close>: the bytes put on the connection so far are a prefix of the buffer,
  counted by \<open>total_written\<close>. The result is the return value and the bytes on the connection.
\<close>

fun send_loop :: "u8 list \<Rightarrow> nat \<Rightarrow> nat sys list \<Rightarrow> ((int \<times> u8 list) \<times> nat sys list) option" where
  "send_loop buf total_written [] =
     (if total_written < length buf then None else Some ((0, take total_written buf), []))"
| "send_loop buf total_written (r # script) =
     (if total_written < length buf
      then case r of
             Ret n \<Rightarrow>
               if n > 0 then send_loop buf (total_written + min n (length buf - total_written)) script
               else Some ((-1, take total_written buf), script)
           | EINTR \<Rightarrow> send_loop buf total_written script
           | Fail \<Rightarrow> Some ((-1, take total_written buf), script)
      else Some ((0, take total_written buf), r # script))"

definition net_send_all ::
  "int \<Rightarrow> u8 list option \<Rightarrow> nat \<Rightarrow> nat sys list \<Rightarrow> ((int \<times> u8 list) \<times> nat sys list) option" where
  "net_send_all fd buffer len script =
     (if fd < 0 then Some ((-1, []), script)
      else if len = 0 then Some ((0, []), script)
      else case buffer of None \<Rightarrow> Some ((-1, []), script)
           | Some buf \<Rightarrow> send_loop (take len buf) 0 script)"

section \<open>Receiving\<close>

fun recv_loop :: "nat \<Rightarrow> u8 list sys list \<Rightarrow> ((int \<times> u8 list) \<times> u8 list sys list) option" where
  "recv_loop len [] = None"
| "recv_loop len (Ret bs # script) = Some ((int (length (take len bs)), take len bs), script)"
| "recv_loop len (EINTR # script) = recv_loop len script"
| "recv_loop len (Fail # script) = Some ((-1, []), script)"

text \<open>\<open>capacity\<close> is \<open>None\<close> for a NULL buffer.\<close>

definition net_recv ::
  "int \<Rightarrow> nat option \<Rightarrow> nat \<Rightarrow> u8 list sys list \<Rightarrow> ((int \<times> u8 list) \<times> u8 list sys list) option" where
  "net_recv fd capacity len script =
     (if fd < 0 then Some ((-1, []), script)
      else if len = 0 then Some ((0, []), script)
      else if capacity = None then Some ((-1, []), script)
      else recv_loop len script)"

section \<open>Accepting\<close>

fun accept_loop :: "int sys list \<Rightarrow> (int \<times> int sys list) option" where
  "accept_loop [] = None"
| "accept_loop (Ret fd # script) = Some (fd, script)"
| "accept_loop (EINTR # script) = accept_loop script"
| "accept_loop (Fail # script) = Some (-1, script)"

definition net_accept :: "int \<Rightarrow> int sys list \<Rightarrow> (int \<times> int sys list) option" where
  "net_accept listen_fd script = (if listen_fd < 0 then Some (-1, script) else accept_loop script)"

section \<open>Addresses, sockets and datagrams\<close>

text \<open>
  An IPv4 address and a port, as \<open>net_address_t\<close> of \<^verbatim>\<open>src/modules/net/address.c\<close> holds them (in
  network byte order in memory). \<open>inet_pton\<close> is an argument: the address of a dotted text, \<open>None\<close>
  for anything else. The pointer conversions of the file (\<open>net_address_sockaddr\<close> and its mutable
  variant) are the identity.
\<close>

record net_address_t =
  na_family :: nat
  na_port :: u16
  na_addr :: u32

abbreviation (input) AF_INET :: nat where "AF_INET \<equiv> 2"

definition net_address_ipv4 ::
  "(string \<Rightarrow> u32 option) \<Rightarrow> net_address_t option \<Rightarrow> string option \<Rightarrow> u16 \<Rightarrow> int \<times> net_address_t option" where
  "net_address_ipv4 inet_pton address ip p =
     (case (address, ip) of
        (Some a, Some s) \<Rightarrow>
          let zeroed = \<lparr>na_family = AF_INET, na_port = p, na_addr = 0\<rparr>
          in (case inet_pton s of None \<Rightarrow> (-1, Some zeroed) | Some x \<Rightarrow> (0, Some (zeroed\<lparr>na_addr := x\<rparr>)))
      | _ \<Rightarrow> (-1, address))"

definition net_address_length :: "net_address_t option \<Rightarrow> nat" where
  "net_address_length address = (case address of None \<Rightarrow> 0 | Some _ \<Rightarrow> 16)"

text \<open>\<open>answer\<close> is what \<open>socket\<close> returns for a family, a type (1 is a stream, 2 a datagram socket) and a protocol.\<close>

definition net_tcp_socket :: "(nat \<Rightarrow> nat \<Rightarrow> nat \<Rightarrow> int) \<Rightarrow> int" where
  "net_tcp_socket answer = answer AF_INET 1 0"

definition net_udp_socket :: "(nat \<Rightarrow> nat \<Rightarrow> nat \<Rightarrow> int) \<Rightarrow> int" where
  "net_udp_socket answer = answer AF_INET 2 0"

text \<open>The wrappers that only check their arguments; the last argument is the kernel's answer to the
  address they pass on.\<close>

definition net_bind :: "int \<Rightarrow> net_address_t option \<Rightarrow> (net_address_t \<Rightarrow> nat \<Rightarrow> int) \<Rightarrow> int" where
  "net_bind fd address answer =
     (case address of None \<Rightarrow> -1 | Some a \<Rightarrow> if fd < 0 then -1 else answer a (net_address_length address))"

definition net_connect :: "int \<Rightarrow> net_address_t option \<Rightarrow> (net_address_t \<Rightarrow> nat \<Rightarrow> int) \<Rightarrow> int" where
  "net_connect fd address answer =
     (case address of None \<Rightarrow> -1 | Some a \<Rightarrow> if fd < 0 then -1 else answer a (net_address_length address))"

definition net_listen :: "int \<Rightarrow> int \<Rightarrow> int \<Rightarrow> int" where
  "net_listen fd backlog rc = (if fd < 0 \<or> backlog \<le> 0 then -1 else rc)"

text \<open>The result of \<open>net_sendto\<close> and \<open>net_recvfrom\<close> is the return value and the datagram that went out
  or came in; a datagram longer than the buffer is cut.\<close>

fun sendto_loop :: "u8 list \<Rightarrow> nat sys list \<Rightarrow> ((int \<times> u8 list) \<times> nat sys list) option" where
  "sendto_loop bytes [] = None"
| "sendto_loop bytes (Ret n # script) = Some ((int (min n (length bytes)), take n bytes), script)"
| "sendto_loop bytes (EINTR # script) = sendto_loop bytes script"
| "sendto_loop bytes (Fail # script) = Some ((-1, []), script)"

definition net_sendto ::
  "int \<Rightarrow> u8 list option \<Rightarrow> nat \<Rightarrow> net_address_t option \<Rightarrow> nat sys list \<Rightarrow> ((int \<times> u8 list) \<times> nat sys list) option" where
  "net_sendto fd buffer len address script =
     (if fd < 0 \<or> address = None then Some ((-1, []), script)
      else if len = 0 then Some ((0, []), script)
      else case buffer of None \<Rightarrow> Some ((-1, []), script)
           | Some buf \<Rightarrow> sendto_loop (take len buf) script)"

fun recvfrom_loop ::
  "nat \<Rightarrow> net_address_t \<Rightarrow> (u8 list \<times> net_address_t) sys list \<Rightarrow>
   ((int \<times> u8 list \<times> net_address_t) \<times> (u8 list \<times> net_address_t) sys list) option" where
  "recvfrom_loop len source [] = None"
| "recvfrom_loop len source (Ret (bs, from) # script) = Some ((int (length (take len bs)), take len bs, from), script)"
| "recvfrom_loop len source (EINTR # script) = recvfrom_loop len source script"
| "recvfrom_loop len source (Fail # script) = Some ((-1, [], source), script)"

definition net_recvfrom ::
  "int \<Rightarrow> bool \<Rightarrow> nat \<Rightarrow> net_address_t option \<Rightarrow> (u8 list \<times> net_address_t) sys list \<Rightarrow>
   ((int \<times> u8 list \<times> net_address_t option) \<times> (u8 list \<times> net_address_t) sys list) option" where
  "net_recvfrom fd has_buffer len source script =
     (case source of
        None \<Rightarrow> Some ((-1, [], None), script)
      | Some a \<Rightarrow>
          if fd < 0 then Some ((-1, [], source), script)
          else if len = 0 then Some ((0, [], source), script)
          else if \<not> has_buffer then Some ((-1, [], source), script)
          else map_option (\<lambda>((n, bs, from), rest). ((n, bs, Some from), rest)) (recvfrom_loop len a script))"

text \<open>A datagram that is sent in one piece and received into a buffer that holds it arrives unchanged,
  whatever interruptions there are on either side.\<close>

lemma datagram_round_trip:
  assumes "0 \<le> fd" and "0 \<le> fd'" and "payload \<noteq> []" and "length payload \<le> len"
  shows "\<exists>rest. net_sendto fd (Some payload) (length payload) (Some a) (replicate j EINTR @ [Ret (length payload)]) =
      Some ((int (length payload), payload), rest)"
    and "\<exists>rest. net_recvfrom fd' True len (Some b) (replicate k EINTR @ [Ret (payload, from)]) =
      Some ((int (length payload), payload, Some from), rest)"
proof -
  have s: "sendto_loop payload (replicate j EINTR @ [Ret (length payload)]) = Some ((int (length payload), payload), [])"
    by (induction j) simp_all
  have r: "recvfrom_loop len b (replicate k EINTR @ [Ret (payload, from)]) = Some ((int (length payload), payload, from), [])"
    using assms(4) by (induction k) simp_all
  show "\<exists>rest. net_sendto fd (Some payload) (length payload) (Some a) (replicate j EINTR @ [Ret (length payload)]) =
      Some ((int (length payload), payload), rest)" using assms s by (simp add: net_sendto_def)
  show "\<exists>rest. net_recvfrom fd' True len (Some b) (replicate k EINTR @ [Ret (payload, from)]) =
      Some ((int (length payload), payload, Some from), rest)" using assms r by (cases payload) (auto simp: net_recvfrom_def)
qed

section \<open>What a writer loop promises\<close>

text \<open>
  \<open>write_all\<close> takes the bytes and the environment and returns the result, the bytes that reached the
  other side and the environment after it: a success delivers all bytes, a failure a prefix.
\<close>

locale full_writer =
  fixes write_all :: "'b list \<Rightarrow> 's \<Rightarrow> ((int \<times> 'b list) \<times> 's) option"
  assumes complete: "write_all buf s = Some ((rc, wire), s') \<Longrightarrow> rc = 0 \<Longrightarrow> wire = buf"
    and partial: "write_all buf s = Some ((rc, wire), s') \<Longrightarrow> \<exists>rest. buf = wire @ rest"
    and codes: "write_all buf s = Some ((rc, wire), s') \<Longrightarrow> rc = 0 \<or> rc = -1"
begin

fun write_seq :: "'b list list \<Rightarrow> 's \<Rightarrow> ((int \<times> 'b list) \<times> 's) option" where
  "write_seq [] s = Some ((0, []), s)"
| "write_seq (m # ms) s =
     (case write_all m s of None \<Rightarrow> None
      | Some ((rc, wire), s1) \<Rightarrow>
          if rc \<noteq> 0 then Some ((-1, wire), s1)
          else (case write_seq ms s1 of None \<Rightarrow> None
                | Some ((rc2, wire2), s2) \<Rightarrow> Some ((rc2, wire @ wire2), s2)))"

lemma write_seq_prefix:
  "write_seq ms s = Some ((rc, wire), s') \<Longrightarrow>
    (\<exists>rest. concat ms = wire @ rest \<and> (rc = 0 \<longrightarrow> rest = [])) \<and> (rc = 0 \<or> rc = -1)"
proof (induction ms arbitrary: s rc wire s')
  case (Cons m ms)
  then obtain rc1 w1 s1 where w: "write_all m s = Some ((rc1, w1), s1)"
    by (auto split: option.splits)
  obtain r1 where r1: "m = w1 @ r1" using partial [OF w] by blast
  show ?case
  proof (cases "rc1 = 0")
    case True
    then have m: "w1 = m" using complete [OF w] by simp
    from True w Cons.prems obtain rc2 w2 where w2: "write_seq ms s1 = Some ((rc2, w2), s')"
      and rc: "rc = rc2" and wire: "wire = w1 @ w2"
      by (auto split: option.splits)
    show ?thesis using Cons.IH [OF w2] by (auto simp: rc wire m)
  next
    case False
    then show ?thesis using w Cons.prems r1 by auto
  qed
qed simp

end

lemma send_loop_prefix:
  "send_loop buf k s = Some ((rc, wire), s') \<Longrightarrow> k \<le> length buf \<Longrightarrow>
    (rc = 0 \<and> wire = buf) \<or> (rc = -1 \<and> (\<exists>n. wire = take n buf \<and> k \<le> n))"
  by (induction buf k s rule: send_loop.induct) (fastforce split: if_splits sys.splits)+

interpretation socket_writer: full_writer "\<lambda>buf. net_send_all fd (Some buf) (length buf)"
  for fd
proof unfold_locales
  fix buf s rc wire s'
  assume w: "net_send_all fd (Some buf) (length buf) s = Some ((rc, wire), s')"
  then have *: "(rc = 0 \<and> wire = buf) \<or> (rc = -1 \<and> (\<exists>n. wire = take n buf))"
    using send_loop_prefix [of buf 0 s rc wire s'] by (auto simp: net_send_all_def split: if_splits)
  then show "rc = 0 \<Longrightarrow> wire = buf" and "rc = 0 \<or> rc = -1" by auto
  show "\<exists>rest. buf = wire @ rest"
    using * by (metis append_Nil2 append_take_drop_id)
qed

end
