(* ===== verification/Gateway_Connection.thy ===== *)
theory Gateway_Connection
  imports Frame Net_Socket
begin

text \<open>
  The TCP connection of \<^verbatim>\<open>src/core/gateway.c\<close>: one socket with its own frame parser, the loop
  that reads a whole frame through a seven-byte receive buffer, and the sender of a frame. The
  main result is that the frames an application reads depend only on the byte stream, never on
  how the network cut it into segments.
\<close>

record gateway_connection_t =
  c_fd :: int
  c_parser :: frame_parser_t

definition gateway_connection_init :: "int \<Rightarrow> gateway_connection_t" where
  "gateway_connection_init fd = \<lparr>c_fd = fd, c_parser = frame_parser_init\<rparr>"

section \<open>Reading a frame\<close>

lemma frame_find_magic_found: "frame_find_magic buf n = (True, d) \<Longrightarrow> d + 1 < n"
  by (auto simp: frame_find_magic_def split: option.splits if_splits dest: find_magic_from_Some)

lemma frame_parser_next_shrinks:
  assumes "frame_parser_next p = (res, pl, p')" and "res \<noteq> FRAME_NEED_MORE"
  shows "p_size p' < p_size p"
proof -
  obtain found d where fd: "frame_find_magic (p_buffer p) (p_size p) = (found, d)" by fastforce
  with assms have "found" by (auto simp: frame_parser_next_def Let_def split: if_splits)
  then have "d + 1 < p_size p" using fd frame_find_magic_found by simp
  then show ?thesis
    using assms fd \<open>found\<close>
    by (auto simp: frame_parser_next_def frame_check_size_def Let_def
        split: if_splits frame_result_t.splits prod.splits)
qed

lemma recv_loop_consumes:
  "recv_loop len script = Some (r, rest) \<Longrightarrow> length rest < length script"
  by (induction len script rule: recv_loop.induct) auto

lemma net_recv_consumes:
  "net_recv fd cap len script = Some ((n, bs), rest) \<Longrightarrow> \<not> n \<le> 0 \<Longrightarrow> length rest < length script"
  by (auto simp: net_recv_def split: if_splits dest: recv_loop_consumes)

function gateway_connection_recv_frame ::
  "gateway_connection_t \<Rightarrow> u8 list sys list \<Rightarrow>
   ((int \<times> u8 list option) \<times> gateway_connection_t \<times> u8 list sys list) option" where
  "gateway_connection_recv_frame c script =
     (case frame_parser_next (c_parser c) of (parse_result, payload, p) \<Rightarrow>
        (let c1 = c\<lparr>c_parser := p\<rparr> in
         if parse_result = FRAME_READY then Some ((0, payload), c1, script)
         else if parse_result = FRAME_INVALID then gateway_connection_recv_frame c1 script
         else case net_recv (c_fd c) (Some 7) 7 script of
                None \<Rightarrow> None
              | Some ((received, recv_buffer), rest) \<Rightarrow>
                  if received \<le> 0 then Some ((-1, None), c1, rest)
                  else case frame_parser_feed p recv_buffer of (feed_result, p') \<Rightarrow>
                    (let c2 = c1\<lparr>c_parser := p'\<rparr> in
                     if feed_result \<noteq> FRAME_READY then Some ((-1, None), c2, rest)
                     else gateway_connection_recv_frame c2 rest)))"
  by pat_completeness auto
termination
  by (relation "measures [\<lambda>(c, script). length script, \<lambda>(c, script). p_size (c_parser c)]")
     (auto dest: net_recv_consumes frame_parser_next_shrinks [OF sym])

declare gateway_connection_recv_frame.simps [simp del]


section \<open>The frames depend only on the byte stream\<close>

text \<open>
  The bytes a script delivers through a seven-byte buffer before the connection fails or ends.
\<close>

fun stream :: "u8 list sys list \<Rightarrow> u8 list" where
  "stream [] = []"
| "stream (Ret bs # script) = (if bs = [] then [] else take 7 bs @ stream script)"
| "stream (EINTR # script) = stream script"
| "stream (Fail # script) = []"

lemma recv_loop_stream:
  "recv_loop 7 script = Some ((n, bs), rest) \<Longrightarrow>
    (if n \<le> 0 then stream script = [] else stream script = bs @ stream rest \<and> length bs \<le> 7)"
  by (induction "7 :: nat" script rule: recv_loop.induct) (auto simp: min_def split: if_splits)

lemma recv_loop_blocked: "recv_loop len script = None \<Longrightarrow> stream script = []"
  by (induction len script rule: recv_loop.induct) auto

lemma next_spec_payload: "next_spec xs = (res, pl, r) \<Longrightarrow> (pl \<noteq> None) = (res = FRAME_READY)"
  by (auto simp: next_spec_def split: if_splits prod.splits)

lemma drain_step:
  assumes "next_spec xs = (res, pl, r)"
  shows "fst (drain_spec (xs @ ys)) =
    (case pl of Some f \<Rightarrow> f # fst (drain_spec (r @ ys)) | None \<Rightarrow> fst (drain_spec (r @ ys)))"
proof (cases "res = FRAME_NEED_MORE")
  case True
  then have "drain_spec (xs @ ys) = drain_spec (r @ ys)" and "pl = None"
    using assms next_spec_append_wait [of xs pl r ys] next_spec_payload [OF assms]
    by (simp_all add: drain_spec.simps [of "xs @ ys"] drain_spec.simps [of "r @ ys"])
  then show ?thesis by simp
next
  case False
  then show ?thesis
    using next_spec_append_decided [OF assms, of ys]
    by (auto simp: drain_spec.simps [of "xs @ ys"] split: prod.splits option.splits)
qed

lemma drain_waiting: "next_spec xs = (FRAME_NEED_MORE, pl, r) \<Longrightarrow> fst (drain_spec xs) = []"
  by (simp add: drain_spec.simps)

lemma feed_small:
  assumes "parser_wf p" and "p_size p + length bs \<le> FRAME_BUFFER_CAPACITY"
  shows "\<exists>p'. frame_parser_feed p bs = (FRAME_READY, p') \<and> parser_wf p' \<and>
    parser_bytes p' = parser_bytes p @ bs"
  using assms by (auto simp: frame_parser_feed_def parser_wf_def parser_bytes_def take_blit_end)

text \<open>
  What one call achieves: it returns the first frame of the stream and leaves the others, or the
  stream holds no whole frame and the call blocks or fails.
\<close>

definition conn_frames :: "gateway_connection_t \<Rightarrow> u8 list sys list \<Rightarrow> u8 list list" where
  "conn_frames c script = fst (drain_spec (parser_bytes (c_parser c) @ stream script))"

definition conn_less :: "gateway_connection_t \<times> u8 list sys list \<Rightarrow> gateway_connection_t \<times> u8 list sys list \<Rightarrow> bool" where
  "conn_less a b \<longleftrightarrow>
     (a, b) \<in> measures [\<lambda>(c, script). length script, \<lambda>(c, script). p_size (c_parser c)]"

definition recv_outcome where
  "recv_outcome c script res \<longleftrightarrow> (case res of
      None \<Rightarrow> conn_frames c script = []
    | Some ((rc, payload), c', rest) \<Rightarrow>
        parser_wf (c_parser c') \<and> c_fd c' = c_fd c \<and>
        (if rc = 0 then \<exists>f. payload = Some f \<and> conn_frames c script = f # conn_frames c' rest \<and>
            conn_less (c', rest) (c, script)
         else rc = -1 \<and> payload = None \<and> conn_frames c script = []))"

lemma recv_outcome_step:
  "recv_outcome c1 s1 res \<Longrightarrow> conn_frames c s = conn_frames c1 s1 \<Longrightarrow> c_fd c1 = c_fd c \<Longrightarrow>
    conn_less (c1, s1) (c, s) \<Longrightarrow> recv_outcome c s res"
  by (auto simp: recv_outcome_def conn_less_def split: option.splits prod.splits if_splits)

lemma conn_frames_next:
  assumes "parser_wf (c_parser c)" and "frame_parser_next (c_parser c) = (res, payload, p)"
  shows "conn_frames c s =
    (case payload of Some f \<Rightarrow> f # conn_frames (c\<lparr>c_parser := p\<rparr>) s | None \<Rightarrow> conn_frames (c\<lparr>c_parser := p\<rparr>) s)"
  using next_refines [OF assms] drain_step by (auto simp: conn_frames_def split: option.splits)

lemma recv_outcome_wait:
  assumes n: "frame_parser_next (c_parser c) = (FRAME_NEED_MORE, payload, p)"
    and wf: "parser_wf (c_parser c)" and fd: "0 \<le> c_fd c"
    and rec: "\<And>k bs rest p'. net_recv (c_fd c) (Some 7) 7 script = Some ((k, bs), rest) \<Longrightarrow> \<not> k \<le> 0 \<Longrightarrow>
      frame_parser_feed p bs = (FRAME_READY, p') \<Longrightarrow> parser_wf p' \<Longrightarrow>
      recv_outcome (c\<lparr>c_parser := p'\<rparr>) rest (gateway_connection_recv_frame (c\<lparr>c_parser := p'\<rparr>) rest)"
  shows "recv_outcome c script (gateway_connection_recv_frame c script)"
proof -
  note ref = next_refines [OF wf n]
  have empty: "stream script = [] \<Longrightarrow> conn_frames c script = []"
    using ref drain_waiting by (simp add: conn_frames_def)
  show ?thesis
  proof (cases "net_recv (c_fd c) (Some 7) 7 script")
    case None
    then show ?thesis using n empty recv_loop_blocked fd
      by (auto simp: recv_outcome_def gateway_connection_recv_frame.simps [of c script] net_recv_def split: if_splits)
  next
    case (Some r)
    then obtain k bs rest where r: "net_recv (c_fd c) (Some 7) 7 script = Some ((k, bs), rest)"
      by (metis prod.collapse)
    then have st: "if k \<le> 0 then stream script = [] else stream script = bs @ stream rest \<and> length bs \<le> 7"
      using fd recv_loop_stream by (auto simp: net_recv_def split: if_splits)
    show ?thesis
    proof (cases "k \<le> 0")
      case True
      then show ?thesis using n r empty st ref
        by (simp add: recv_outcome_def gateway_connection_recv_frame.simps [of c script])
    next
      case False
      have "p_size p < FRAME_MAX_SIZE" using next_spec_wait_length ref by (metis length_parser_bytes)
      then obtain p' where f: "frame_parser_feed p bs = (FRAME_READY, p')" and wf': "parser_wf p'"
        and b': "parser_bytes p' = parser_bytes p @ bs"
        using feed_small [of p bs] ref st False by auto
      have e: "gateway_connection_recv_frame c script = gateway_connection_recv_frame (c\<lparr>c_parser := p'\<rparr>) rest"
        using n r f False by (simp add: gateway_connection_recv_frame.simps [of c script])
      have "conn_frames c script = conn_frames (c\<lparr>c_parser := p'\<rparr>) rest"
        using st False b' drain_step [OF ref [THEN conjunct2]] next_spec_payload [OF ref [THEN conjunct2]]
        by (simp add: conn_frames_def)
      then show ?thesis
        using recv_outcome_step [OF rec [OF r False f wf']] net_recv_consumes [OF r False]
        by (simp add: e conn_less_def)
    qed
  qed
qed

lemma recv_frame_first:
  assumes "parser_wf (c_parser c)" and "0 \<le> c_fd c"
  shows "recv_outcome c script (gateway_connection_recv_frame c script)"
  using assms
proof (induction c script rule: gateway_connection_recv_frame.induct)
  case (1 c script)
  obtain res payload p where n: "frame_parser_next (c_parser c) = (res, payload, p)" by (metis prod_cases3)
  note ref = next_refines [OF 1(3) n] and fr = conn_frames_next [OF 1(3) n] and wait = n
  have pl: "(payload \<noteq> None) = (res = FRAME_READY)" using next_spec_payload ref by blast
  show ?case
  proof (cases res)
    case FRAME_READY
    then show ?thesis
      using n ref fr pl frame_parser_next_shrinks [OF n]
      by (auto simp: recv_outcome_def conn_less_def gateway_connection_recv_frame.simps [of c script])
  next
    case FRAME_INVALID
    then show ?thesis
      using recv_outcome_step [OF 1(1) [OF n [symmetric] refl refl _ FRAME_INVALID]]
        1(4) ref fr pl n frame_parser_next_shrinks [OF n]
      by (auto simp: conn_less_def gateway_connection_recv_frame.simps [of c script])
  next
    case FRAME_NEED_MORE
    with n have n': "frame_parser_next (c_parser c) = (FRAME_NEED_MORE, payload, p)" by simp
    show ?thesis
    proof (rule recv_outcome_wait [OF n' 1(3) 1(4)])
      fix k bs rest p'
      assume r: "net_recv (c_fd c) (Some 7) 7 script = Some ((k, bs), rest)" and k: "\<not> k \<le> 0"
        and f: "frame_parser_feed p bs = (FRAME_READY, p')" and wf: "parser_wf p'"
      show "recv_outcome (c\<lparr>c_parser := p'\<rparr>) rest (gateway_connection_recv_frame (c\<lparr>c_parser := p'\<rparr>) rest)"
        using 1(2) [OF n' [symmetric] refl refl _ _ r refl refl k f [symmetric] refl] wf 1(4) by simp
    qed
  qed
qed

text \<open>The application that reads one frame after the other until a call blocks or fails.\<close>

partial_function (option) recv_frames ::
  "gateway_connection_t \<Rightarrow> u8 list sys list \<Rightarrow> u8 list list option" where
  "recv_frames c script =
     (case gateway_connection_recv_frame c script of
        None \<Rightarrow> Some []
      | Some ((rc, payload), c', rest) \<Rightarrow>
          if rc \<noteq> 0 then Some []
          else Option.bind (recv_frames c' rest) (\<lambda>fs. Some (the payload # fs)))"

lemma recv_frames_stream:
  assumes "parser_wf (c_parser c)" and "0 \<le> c_fd c"
  shows "recv_frames c script = Some (conn_frames c script)"
  using assms
proof (induction "(c, script)" arbitrary: c script rule:
    wf_induct_rule [OF wf_measures [of "[\<lambda>(c, script). length script, \<lambda>(c, script). p_size (c_parser c)]"]])
  case (1 c script)
  show ?case
    using recv_frame_first [OF 1(2,3), of script] 1(1) 1(3)
    by (auto simp: recv_frames.simps [of c script] recv_outcome_def conn_less_def
        split: option.splits prod.splits if_splits)
qed


section \<open>Sending frames\<close>

text \<open>
  The local array of \<open>send_frame\<close> is uninitialised in the code; only the encoded bytes of it are
  sent. Both failures (encoding and sending) are the code's \<open>-1\<close>.
\<close>

definition send_frame ::
  "int \<Rightarrow> u8 list \<Rightarrow> nat sys list \<Rightarrow> ((int \<times> u8 list) \<times> nat sys list) option" where
  "send_frame fd payload script =
     (case frame_encode payload (replicate FRAME_MAX_SIZE 0) of
        (FRAME_READY, frame, Some frame_size) \<Rightarrow> net_send_all fd (Some frame) frame_size script
      | _ \<Rightarrow> Some ((-1, []), script))"

fun send_frames ::
  "int \<Rightarrow> u8 list list \<Rightarrow> nat sys list \<Rightarrow> ((int \<times> u8 list) \<times> nat sys list) option" where
  "send_frames fd [] script = Some ((0, []), script)"
| "send_frames fd (p # ps) script =
     (case send_frame fd p script of None \<Rightarrow> None
      | Some ((rc, wire), s1) \<Rightarrow>
          if rc \<noteq> 0 then Some ((-1, wire), s1)
          else (case send_frames fd ps s1 of None \<Rightarrow> None
                | Some ((rc2, wire2), s2) \<Rightarrow> Some ((rc2, wire @ wire2), s2)))"

lemma send_frame_wire:
  "length p \<le> FRAME_MAX_PAYLOAD \<Longrightarrow>
    send_frame fd p s = net_send_all fd (Some (frame_wire p)) (length (frame_wire p)) s"
  by (simp add: send_frame_def frame_encode_wire net_send_all_def)

lemma send_frames_seq:
  "\<forall>p \<in> set ps. length p \<le> FRAME_MAX_PAYLOAD \<Longrightarrow>
    send_frames fd ps s = socket_writer.write_seq fd (map frame_wire ps) s"
  by (induction ps arbitrary: s) (auto simp: send_frame_wire split: option.splits prod.splits)

lemma connection_init_wf [simp]: "parser_wf (c_parser (gateway_connection_init fd))"
  by (simp add: gateway_connection_init_def frame_parser_init_def parser_wf_def)

lemma connection_init_frames:
  "conn_frames (gateway_connection_init fd) script = fst (drain_spec (stream script))"
  by (simp add: conn_frames_def gateway_connection_init_def frame_parser_init_def parser_bytes_def)

section \<open>Properties\<close>

text \<open>
  C15: The frames an application reads from a fresh connection are a function of the received
  byte stream alone: however the network cuts the bytes into segments, whatever signals interrupt
  the calls, the parser never overflows its fixed buffer and finds exactly the frames of the
  stream.
\<close>

theorem frames_independent_of_segmentation:
  "0 \<le> fd \<Longrightarrow>
    recv_frames (gateway_connection_init fd) script = Some (fst (drain_spec (stream script)))"
  using recv_frames_stream [of "gateway_connection_init fd" script]
  by (simp add: connection_init_frames, simp add: gateway_connection_init_def)

theorem frames_independent_of_segmentation_witness:
  "(0::int) \<le> 4 \<and>
   recv_frames (gateway_connection_init 4) [EINTR, Ret [1, 0xA5], Ret [0x5A]] =
     Some (fst (drain_spec (stream [EINTR, Ret [1, 0xA5], Ret [0x5A]])))"
  using frames_independent_of_segmentation [of 4 "[EINTR, Ret [1, 0xA5], Ret [0x5A]]"] by simp

text \<open>
  C14: End to end, the sender and the receiver agree: if a sequence of payloads is sent without an
  error, then a receiver that gets exactly those bytes, in segments of any size, reads exactly
  those payloads, in order.
\<close>

theorem frames_end_to_end:
  assumes "\<forall>p \<in> set ps. length p \<le> FRAME_MAX_PAYLOAD"
    and "send_frames fd ps s = Some ((0, wire), s')"
    and "stream script = wire" and "0 \<le> fd'"
  shows "recv_frames (gateway_connection_init fd') script = Some ps"
proof -
  have "wire = concat (map frame_wire ps)"
    using socket_writer.write_seq_prefix [of fd "map frame_wire ps" s 0 wire s'] assms(1,2)
    by (simp add: send_frames_seq)
  then show ?thesis
    using recv_frames_stream [of "gateway_connection_init fd'" script] drain_spec_wires [OF assms(1)] assms(3,4)
    by (simp add: connection_init_frames, simp add: gateway_connection_init_def)
qed

theorem frames_end_to_end_witness:
  "send_frames 3 [[7]] [Ret 4, EINTR, Ret 2] = Some ((0, [0xA5, 0x5A, 1, 7, 0x41, 0xE2]), []) \<and>
   recv_frames (gateway_connection_init 4) [Ret [0xA5, 0x5A, 1], Ret [7, 0x41, 0xE2]] = Some [[7]]"
proof -
  have w: "send_frames 3 [[7]] [Ret 4, EINTR, Ret 2] = Some ((0, [0xA5, 0x5A, 1, 7, 0x41, 0xE2]), [])"
    by (simp add: send_frame_wire frame_wire_def net_send_all_def crc_eval)
  show ?thesis
    using frames_end_to_end [OF _ w, of "[Ret [0xA5, 0x5A, 1], Ret [7, 0x41, 0xE2]]" 4] w by simp
qed

end
