(* ===== verification/Modbus.thy ===== *)
theory Modbus
  imports Crc16
begin

text \<open>
  The Modbus RTU master side of \<^verbatim>\<open>src/modules/protocol/frame.c\<close>: building a read request for
  holding (03) or input (04) registers and checking the response to it. A NULL pointer is
  \<open>None\<close>; a frame is the byte array with its length as a separate argument, as in the code.
\<close>

datatype modbus_response_result_t =
  MODBUS_RESPONSE_INVALID | MODBUS_RESPONSE_NORMAL | MODBUS_RESPONSE_EXCEPTION

section \<open>The request\<close>

text \<open>The sum \<open>(uint32_t)start + quantity\<close> of two 16-bit values cannot wrap around in 32 bits.\<close>

definition modbus_rtu_build_read_registers ::
  "u8 \<Rightarrow> u8 \<Rightarrow> u16 \<Rightarrow> u16 \<Rightarrow> u8 list option \<Rightarrow> int \<times> u8 list option" where
  "modbus_rtu_build_read_registers slave fn start quantity out =
     (case out of None \<Rightarrow> (-1, None)
      | Some buf \<Rightarrow>
          if (fn \<noteq> 0x03 \<and> fn \<noteq> 0x04) \<or> slave < 1 \<or> slave > 247 \<or> length buf < 8 \<or>
             unat start + unat quantity > 65536 \<or> quantity < 1 \<or> quantity > 125
          then (-1, Some buf)
          else let buf1 = buf[0 := slave, 1 := fn,
                              2 := ucast (drop_bit 8 start), 3 := ucast start,
                              4 := ucast (drop_bit 8 quantity), 5 := ucast quantity];
                   crc = frame_crc16_modbus (segment buf1 0 6)
               in (8, Some (buf1[6 := crc_low crc, 7 := crc_high crc])))"

definition modbus_rtu_build_read_holding ::
  "u8 \<Rightarrow> u16 \<Rightarrow> u16 \<Rightarrow> u8 list option \<Rightarrow> int \<times> u8 list option" where
  "modbus_rtu_build_read_holding slave start quantity out =
     modbus_rtu_build_read_registers slave 0x03 start quantity out"

section \<open>The response\<close>

text \<open>
  The second component is the memory \<open>exception_code\<close> points to, \<open>None\<close> for a NULL pointer. The
  code clears it on entry and writes the device's code only when the whole frame is accepted.
\<close>

definition modbus_rtu_check_read_registers ::
  "u8 list option \<Rightarrow> nat \<Rightarrow> u8 \<Rightarrow> u8 \<Rightarrow> u16 \<Rightarrow> u8 option \<Rightarrow> modbus_response_result_t \<times> u8 option" where
  "modbus_rtu_check_read_registers frame_arg len expected_slave expected_function expected_quantity
       exception_code =
     (if exception_code = None then (MODBUS_RESPONSE_INVALID, None)
      else case frame_arg of None \<Rightarrow> (MODBUS_RESPONSE_INVALID, Some 0)
      | Some frame \<Rightarrow>
        if (expected_function \<noteq> 0x03 \<and> expected_function \<noteq> 0x04) \<or> len < 5 \<or>
           expected_slave < 1 \<or> expected_slave > 247 \<or> expected_quantity < 1 \<or> expected_quantity > 125
        then (MODBUS_RESPONSE_INVALID, Some 0)
        else if frame ! 0 \<noteq> expected_slave then (MODBUS_RESPONSE_INVALID, Some 0)
        else let shape_ok =
               (if frame ! 1 = expected_function
                then unat (frame ! 2) = unat expected_quantity * 2 \<and>
                     len = 5 + unat expected_quantity * 2
                else if frame ! 1 = expected_function OR 0x80 then len = 5
                else False)
        in if \<not> shape_ok then (MODBUS_RESPONSE_INVALID, Some 0)
        else let calculated = frame_crc16_modbus (segment frame 0 (len - 2));
                 received = crc_received (frame ! (len - 2)) (frame ! (len - 1))
        in if calculated \<noteq> received then (MODBUS_RESPONSE_INVALID, Some 0)
        else if frame ! 1 = expected_function OR 0x80
        then (MODBUS_RESPONSE_EXCEPTION, Some (frame ! 2))
        else (MODBUS_RESPONSE_NORMAL, Some 0))"

definition modbus_rtu_check_read_holding ::
  "u8 list option \<Rightarrow> nat \<Rightarrow> u8 \<Rightarrow> u16 \<Rightarrow> u8 option \<Rightarrow> modbus_response_result_t \<times> u8 option" where
  "modbus_rtu_check_read_holding frame_arg len expected_slave expected_quantity exception_code =
     modbus_rtu_check_read_registers frame_arg len expected_slave 0x03 expected_quantity exception_code"

section \<open>A conforming device\<close>

text \<open>
  The bytes the Modbus specification prescribes: a request as the slave reads it, the normal
  response with the register values in big-endian order, and the exception response.
\<close>

definition be16 :: "u8 \<Rightarrow> u8 \<Rightarrow> u16" where
  "be16 hi lo = push_bit 8 (ucast hi) OR ucast lo"

definition slave_decode_request :: "u8 list \<Rightarrow> (u8 \<times> u8 \<times> u16 \<times> u16) option" where
  "slave_decode_request req =
     (if length req = 8 \<and> frame_crc16_modbus (take 6 req) = crc_received (req ! 6) (req ! 7)
      then Some (req ! 0, req ! 1, be16 (req ! 2) (req ! 3), be16 (req ! 4) (req ! 5))
      else None)"

definition with_crc :: "u8 list \<Rightarrow> u8 list" where
  "with_crc body = body @ [crc_low (frame_crc16_modbus body), crc_high (frame_crc16_modbus body)]"

fun register_bytes :: "u16 list \<Rightarrow> u8 list" where
  "register_bytes [] = []"
| "register_bytes (r # rs) = ucast (drop_bit 8 r) # ucast r # register_bytes rs"

definition slave_response :: "u8 \<Rightarrow> u8 \<Rightarrow> u16 list \<Rightarrow> u8 list" where
  "slave_response slave fn regs = with_crc (slave # fn # of_nat (2 * length regs) # register_bytes regs)"

definition slave_exception :: "u8 \<Rightarrow> u8 \<Rightarrow> u8 \<Rightarrow> u8 list" where
  "slave_exception slave fn code = with_crc [slave, fn OR 0x80, code]"

lemma be16_bytes [simp]: "be16 (ucast (drop_bit 8 w)) (ucast w) = w"
  unfolding be16_def
  by (rule bit_word_eqI) (auto simp: bit_or_iff bit_push_bit_iff bit_ucast_iff bit_drop_bit_eq)

lemma length_register_bytes [simp]: "length (register_bytes regs) = 2 * length regs"
  by (induction regs) auto

lemma register_bytes_nth:
  "i < length regs \<Longrightarrow>
    register_bytes regs ! (2 * i) = ucast (drop_bit 8 (regs ! i)) \<and>
    register_bytes regs ! (2 * i + 1) = ucast (regs ! i)"
  by (induction regs arbitrary: i) (auto simp: nth_Cons' less_Suc_eq_0_disj)

lemma length_with_crc [simp]: "length (with_crc body) = length body + 2"
  by (simp add: with_crc_def)

lemma with_crc_checks:
  "frame_crc16_modbus (segment (with_crc body) 0 (length body)) =
    crc_received (with_crc body ! length body) (with_crc body ! Suc (length body))"
  by (simp add: with_crc_def segment_def nth_append)

lemma with_crc_nth: "i < length body \<Longrightarrow> with_crc body ! i = body ! i"
  by (simp add: with_crc_def nth_append)

lemma slave_response_data:
  "k < 2 * length regs \<Longrightarrow> slave_response slave fn regs ! (3 + k) = register_bytes regs ! k"
  by (simp add: slave_response_def with_crc_def nth_append numeral_3_eq_3)

lemma function_not_exception:
  "(fn :: u8) = 3 \<or> fn = 4 \<Longrightarrow> fn \<noteq> fn OR 0x80"
  by auto

lemma update_six:
  "8 \<le> length buf \<Longrightarrow>
    buf[0 := a, 1 := b, 2 := c, 3 := d, 4 := e, 5 := f] = [a, b, c, d, e, f] @ drop 6 buf"
  by (auto simp: numeral_eq_Suc Suc_le_length_iff)

lemma update_crc:
  "8 \<le> length buf \<Longrightarrow>
    ([a, b, c, d, e, f] @ drop 6 buf)[6 := x, 7 := y] = [a, b, c, d, e, f, x, y] @ drop 8 buf"
  by (auto simp: numeral_eq_Suc Suc_le_length_iff)

section \<open>Properties\<close>

text \<open>
  A built request is what the slave decodes: on success the buffer starts with eight bytes
  with a valid CRC that carry the slave address, the function and the big-endian start and
  quantity, and the rest of the buffer is untouched; on every rejected argument the buffer is not
  written.
\<close>

theorem modbus_build_decodes:
  "case modbus_rtu_build_read_registers slave fn start quantity (Some buf) of
     (rc, out) \<Rightarrow>
       (rc = -1 \<and> out = Some buf) \<or>
       (rc = 8 \<and> (\<exists>req. out = Some (req @ drop 8 buf) \<and>
          slave_decode_request req = Some (slave, fn, start, quantity)))"
proof (cases "length buf < 8")
  case True
  then show ?thesis by (simp add: modbus_rtu_build_read_registers_def)
next
  case False
  then have l: "8 \<le> length buf" by simp
  let ?body = "[slave, fn, ucast (drop_bit 8 start), ucast start, ucast (drop_bit 8 quantity), ucast quantity]"
  have s: "segment (?body @ drop 6 buf) 0 6 = ?body" by (simp add: segment_def)
  have d: "slave_decode_request (with_crc ?body) = Some (slave, fn, start, quantity)"
    by (simp add: slave_decode_request_def with_crc_def)
  show ?thesis
    unfolding modbus_rtu_build_read_registers_def option.case Let_def update_six [OF l] update_crc [OF l] s
    using d by (auto simp: with_crc_def intro!: exI [of _ "with_crc ?body"])
qed

lemma with_crc_accepted:
  assumes "fn = 3 \<or> fn = 4" "1 \<le> slave" "slave \<le> 247" "1 \<le> q" "q \<le> 125"
    and "3 \<le> length body" and "body ! 0 = slave"
    and "body ! 1 = fn \<and> unat (body ! 2) = unat q * 2 \<and> length body = 3 + unat q * 2 \<or>
      body ! 1 = fn OR 0x80 \<and> length body = 3"
  shows "modbus_rtu_check_read_registers (Some (with_crc body)) (length body + 2) slave fn q (Some e) =
    (if body ! 1 = fn OR 0x80 then (MODBUS_RESPONSE_EXCEPTION, Some (body ! 2))
     else (MODBUS_RESPONSE_NORMAL, Some 0))"
proof -
  have b: "with_crc body ! 0 = body ! 0" "with_crc body ! 1 = body ! 1" "with_crc body ! 2 = body ! 2"
    using assms(6) by (auto intro!: with_crc_nth)
  show ?thesis
    using assms with_crc_checks [of body] function_not_exception [OF assms(1)]
    unfolding modbus_rtu_check_read_registers_def option.case Let_def b
    by (auto simp: not_less)
qed

lemma quantity_of_nat: "n \<le> 125 \<Longrightarrow> unat (of_nat n :: u16) = n"
  by (simp add: unat_of_nat)

lemma byte_count: "n \<le> 125 \<Longrightarrow> unat (of_nat (2 * n) :: u8) = 2 * n"
  by (subst unat_of_nat) simp

text \<open>
  The response check accepts what a conforming device sends: the normal response with the
  requested number of registers is accepted, and its data area gives the register values back;
  an exception response is reported with the device's exception code.
\<close>

theorem modbus_check_accepts_device:
  assumes "fn = 3 \<or> fn = 4" and "1 \<le> slave" and "slave \<le> 247"
    and "1 \<le> length regs" and "length regs \<le> 125"
  shows "modbus_rtu_check_read_registers (Some (slave_response slave fn regs)) (5 + 2 * length regs)
      slave fn (of_nat (length regs)) (Some e) = (MODBUS_RESPONSE_NORMAL, Some 0) \<and>
    (\<forall>i < length regs. be16 (slave_response slave fn regs ! (3 + 2 * i))
      (slave_response slave fn regs ! (4 + 2 * i)) = regs ! i) \<and>
    modbus_rtu_check_read_registers (Some (slave_exception slave fn code)) 5
      slave fn (of_nat (length regs)) (Some e) = (MODBUS_RESPONSE_EXCEPTION, Some code)"
proof (intro conjI allI impI)
  have q: "1 \<le> (of_nat (length regs) :: u16)" "(of_nat (length regs) :: u16) \<le> 125"
    using assms(4,5) by (simp_all add: word_le_nat_alt quantity_of_nat)
  note u = quantity_of_nat [OF assms(5)] byte_count [OF assms(5)] and ne = function_not_exception [OF assms(1)]
  let ?body = "slave # fn # of_nat (2 * length regs) # register_bytes regs"
  have len: "length ?body + 2 = 5 + 2 * length regs" by simp
  have len5: "length [slave, fn OR 0x80, code] + 2 = 5" by simp
  show "modbus_rtu_check_read_registers (Some (slave_response slave fn regs)) (5 + 2 * length regs)
      slave fn (of_nat (length regs)) (Some e) = (MODBUS_RESPONSE_NORMAL, Some 0)"
    using with_crc_accepted [OF assms(1-3) q, of ?body e, unfolded len] u ne by (simp add: slave_response_def del: of_nat_mult)
  show "modbus_rtu_check_read_registers (Some (slave_exception slave fn code)) 5
      slave fn (of_nat (length regs)) (Some e) = (MODBUS_RESPONSE_EXCEPTION, Some code)"
    using with_crc_accepted [OF assms(1-3) q, of "[slave, fn OR 0x80, code]" e, unfolded len5]
    by (simp add: slave_exception_def)
  fix i assume "i < length regs"
  then show "be16 (slave_response slave fn regs ! (3 + 2 * i)) (slave_response slave fn regs ! (4 + 2 * i)) = regs ! i"
    using register_bytes_nth [of i regs] slave_response_data [of "2 * i" regs slave fn]
      slave_response_data [of "2 * i + 1" regs slave fn]
    by simp
qed

theorem modbus_check_accepts_device_witness:
  "modbus_rtu_check_read_registers (Some (slave_response 1 4 [0x0102, 7])) (5 + 2 * length [0x0102, 7 :: u16])
      1 4 (of_nat (length [0x0102, 7 :: u16])) (Some 0) = (MODBUS_RESPONSE_NORMAL, Some 0)"
  by (rule modbus_check_accepts_device [THEN conjunct1]) simp_all

section \<open>Rejection\<close>

lemma check_accepted_crc:
  assumes "modbus_rtu_check_read_registers (Some frame) len slave fn q (Some e) = (res, code)"
    and "res \<noteq> MODBUS_RESPONSE_INVALID"
  shows "5 \<le> len \<and> frame_crc16_modbus (segment frame 0 (len - 2)) =
    crc_received (frame ! (len - 2)) (frame ! (len - 1))"
  using assms by (auto simp: modbus_rtu_check_read_registers_def Let_def split: if_splits)

text \<open>
  Any single corrupted byte of an accepted response, normal or exception, makes the check
  reject it and leaves the exception code cleared.
\<close>

theorem modbus_corruption_rejected:
  assumes "modbus_rtu_check_read_registers (Some frame) (length frame) slave fn q (Some e) = (res, code)"
    and "res \<noteq> MODBUS_RESPONSE_INVALID" and "i < length frame" and "frame ! i \<noteq> b"
  shows "modbus_rtu_check_read_registers (Some (frame[i := b])) (length frame) slave fn q (Some e') =
    (MODBUS_RESPONSE_INVALID, Some 0)"
proof -
  let ?f = "frame[i := b]" and ?n = "length frame"
  note ok = check_accepted_crc [OF assms(1,2)]
  have "frame_crc16_modbus (segment ?f 0 (?n - 2)) \<noteq> crc_received (?f ! (?n - 2)) (?f ! (?n - 1))"
  proof (cases "i < ?n - 2")
    case True
    then have "segment ?f 0 (?n - 2) = (segment frame 0 (?n - 2))[i := b]"
      by (simp add: segment_def take_update_swap)
    moreover have "frame_crc16_modbus ((segment frame 0 (?n - 2))[i := b]) \<noteq> frame_crc16_modbus (segment frame 0 (?n - 2))"
      using True assms(4) by (intro crc_changed_byte) (simp_all add: segment_def)
    ultimately show ?thesis using ok True by (simp add: nth_list_update)
  next
    case False
    then have i: "i = ?n - 2 \<or> i = ?n - 1" using assms(3) by auto
    then have "segment ?f 0 (?n - 2) = segment frame 0 (?n - 2)" by (auto simp: segment_def)
    then show ?thesis using ok i assms(4) by (auto simp: nth_list_update dest!: crc_received_inj)
  qed
  then show ?thesis
    by (auto simp: modbus_rtu_check_read_registers_def Let_def)
qed

theorem modbus_corruption_rejected_witness:
  "modbus_rtu_check_read_registers (Some [1, 0x83, 2, 0xC0, 0xF1]) (length [1 :: u8, 0x83, 2, 0xC0, 0xF1]) 1 3 2 (Some 0) =
     (MODBUS_RESPONSE_EXCEPTION, Some 2) \<and>
   modbus_rtu_check_read_registers (Some ([1, 0x83, 2, 0xC0, 0xF1][2 := 3])) (length [1 :: u8, 0x83, 2, 0xC0, 0xF1]) 1 3 2 (Some 7) =
     (MODBUS_RESPONSE_INVALID, Some 0)"
proof -
  have a: "modbus_rtu_check_read_registers (Some [1, 0x83, 2, 0xC0, 0xF1]) (length [1 :: u8, 0x83, 2, 0xC0, 0xF1]) 1 3 2 (Some 0) =
     (MODBUS_RESPONSE_EXCEPTION, Some 2)"
    by (simp add: modbus_rtu_check_read_registers_def segment_def crc_eval)
  show ?thesis using a modbus_corruption_rejected [OF a, of 2 3] by simp
qed

text \<open>
  A response is accepted only from the addressed slave and only for the requested function: a
  frame accepted for function 03 is rejected for function 04 and the other way round, and an
  accepted normal response carries exactly the requested number of registers.
\<close>

theorem modbus_functions_not_interchangeable:
  assumes "modbus_rtu_check_read_registers (Some frame) len slave 3 q (Some e) = (res, code)"
    and "res \<noteq> MODBUS_RESPONSE_INVALID"
  shows "modbus_rtu_check_read_registers (Some frame) len slave 4 q' (Some e') =
      (MODBUS_RESPONSE_INVALID, Some 0) \<and> frame ! 0 = slave \<and>
    (res = MODBUS_RESPONSE_NORMAL \<longrightarrow> unat (frame ! 2) = 2 * unat q \<and> len = 5 + 2 * unat q)"
  using assms by (auto simp: modbus_rtu_check_read_registers_def Let_def split: if_splits)

theorem modbus_functions_not_interchangeable_witness:
  "modbus_rtu_check_read_registers (Some [1, 0x83, 2, 0xC0, 0xF1]) 5 1 4 2 (Some 0) =
     (MODBUS_RESPONSE_INVALID, Some 0)"
  using modbus_functions_not_interchangeable [of "[1, 0x83, 2, 0xC0, 0xF1]" 5 1 2 0 MODBUS_RESPONSE_EXCEPTION "Some 2" 2 0]
  by (simp add: modbus_rtu_check_read_registers_def segment_def crc_eval)

end
