(* ===== verification/Serial.thy ===== *)
theory Serial
  imports Net_Socket "HOL-Library.Monad_Syntax"
begin

text \<open>
  The half-duplex RS-485 port of \<^verbatim>\<open>src/modules/serial/rs485_serial.c\<close> and the direction line of
  \<^verbatim>\<open>src/modules/serial/rse_control.c\<close>. The hardware and the kernel are a world that the functions
  pass on: the replies to each kind of system call in the order they will be given, \<open>errno\<close>, the
  level of the direction line, the bytes written to the wire and the descriptors open. A function
  whose call has no reply left has not returned (\<open>None\<close>).
\<close>

section \<open>The world\<close>

datatype errno_t = E_NONE | E_INTR | E_AGAIN | E_INVAL | E_BADF | E_IO | E_TIMEDOUT | E_CANCELED
  | E_OVERFLOW | E_NODEV | E_BUSY | E_NOBUFS | E_PROTO | E_OTHER int

text \<open>A reply of \<open>poll\<close>: a timeout, a failure, or the error and the readable bits of \<open>revents\<close>.\<close>

datatype poll_reply = PollTimeout | PollFail errno_t | PollReady bool bool

record serial_world =
  w_errno :: errno_t
  w_clock :: "(int \<times> int) option list"
  w_realtime :: "(int \<times> int) option list"
  w_stop :: "bool list"
  w_polls :: "poll_reply list"
  w_reads :: "(errno_t + u8 list) list"
  w_writes :: "(errno_t + nat) list"
  w_outq :: "(errno_t + int) list"
  w_lsr :: "(errno_t + bool) list"
  w_sleeps :: "errno_t option list"
  w_gpio :: "errno_t option list"
  w_opens :: "(errno_t + nat) list"
  w_config :: "errno_t option list"
  w_line :: "(errno_t + nat) list"
  w_tx :: bool
  w_wire :: "u8 list"
  w_open_fds :: "int list"

type_synonym 'a serial_io = "serial_world \<Rightarrow> ('a \<times> serial_world) option"

definition set_errno :: "errno_t \<Rightarrow> serial_world \<Rightarrow> serial_world" where
  "set_errno e w = w\<lparr>w_errno := e\<rparr>"

text \<open>\<open>fail e\<close> is the code's \<open>errno = e; return -1\<close>.\<close>

definition fail :: "errno_t \<Rightarrow> int serial_io" where
  "fail e w = Some (-1, set_errno e w)"

definition clock_gettime :: "(int \<times> int) option serial_io" where
  "clock_gettime w = (case w_clock w of [] \<Rightarrow> None | r # rs \<Rightarrow> Some (r, w\<lparr>w_clock := rs\<rparr>))"

definition close_fd :: "int \<Rightarrow> serial_world \<Rightarrow> serial_world" where
  "close_fd fd w = w\<lparr>w_open_fds := remove1 fd (w_open_fds w)\<rparr>"

section \<open>The direction line\<close>

record rse_control_t =
  chip_fd :: int
  line_fd :: int

definition rse_control_set_value :: "rse_control_t option \<Rightarrow> bool \<Rightarrow> int serial_io" where
  "rse_control_set_value control value w =
     (case control of
        None \<Rightarrow> fail E_INVAL w
      | Some c \<Rightarrow>
          if line_fd c < 0 then fail E_INVAL w
          else (case w_gpio w of
                  [] \<Rightarrow> None
                | None # rs \<Rightarrow> Some (0, w\<lparr>w_gpio := rs, w_tx := value\<rparr>)
                | Some e # rs \<Rightarrow> fail e (w\<lparr>w_gpio := rs\<rparr>)))"

definition rse_control_set_tx :: "rse_control_t option \<Rightarrow> int serial_io" where
  "rse_control_set_tx control = rse_control_set_value control True"

definition rse_control_set_rx :: "rse_control_t option \<Rightarrow> int serial_io" where
  "rse_control_set_rx control = rse_control_set_value control False"

text \<open>
  Opening requests the line as an output that starts low, which is the receive direction.
\<close>

definition open_device :: "int serial_io" where
  "open_device w =
     (case w_opens w of [] \<Rightarrow> None
      | Inl e # rs \<Rightarrow> fail e (w\<lparr>w_opens := rs\<rparr>)
      | Inr fd # rs \<Rightarrow> Some (int fd, w\<lparr>w_opens := rs, w_open_fds := int fd # w_open_fds w\<rparr>))"

definition rse_control_open ::
  "rse_control_t \<Rightarrow> string option \<Rightarrow> (int \<times> rse_control_t) serial_io" where
  "rse_control_open control gpiochip_path w =
     (if gpiochip_path = None then Some ((-1, control), set_errno E_INVAL w)
      else let control0 = \<lparr>chip_fd = -1, line_fd = -1\<rparr> in
        do { (chip, w1) \<leftarrow> open_device w;
             if chip < 0 then Some ((-1, control0), w1)
             else (case w_line w1 of [] \<Rightarrow> None
                   | Inl e # rs \<Rightarrow> Some ((-1, control0), set_errno e (close_fd chip (w1\<lparr>w_line := rs\<rparr>)))
                   | Inr fd # rs \<Rightarrow>
                       Some ((0, \<lparr>chip_fd = chip, line_fd = int fd\<rparr>),
                             w1\<lparr>w_line := rs, w_open_fds := int fd # w_open_fds w1, w_tx := False\<rparr>)) })"

definition rse_control_close :: "rse_control_t \<Rightarrow> serial_world \<Rightarrow> rse_control_t \<times> serial_world" where
  "rse_control_close control w =
     (let w1 = (if line_fd control \<ge> 0 then close_fd (line_fd control) w else w);
          w2 = (if chip_fd control \<ge> 0 then close_fd (chip_fd control) w1 else w1)
      in (\<lparr>chip_fd = -1, line_fd = -1\<rparr>, w2))"

section \<open>Opening and closing the port\<close>

record rs485_port_t =
  serial_fd :: int
  rse :: rse_control_t

definition RS485_PORT_INITIALIZER :: rs485_port_t where
  "RS485_PORT_INITIALIZER = \<lparr>serial_fd = -1, rse = \<lparr>chip_fd = -1, line_fd = -1\<rparr>\<rparr>"

definition rs485_port_close :: "rs485_port_t \<Rightarrow> rs485_port_t serial_io" where
  "rs485_port_close port w =
     do { (_, w1) \<leftarrow> (if line_fd (rse port) \<ge> 0 then rse_control_set_rx (Some (rse port)) w else Some (0, w));
          let (control, w2) = rse_control_close (rse port) w1;
              w3 = (if serial_fd port \<ge> 0 then close_fd (serial_fd port) w2 else w2)
          in Some (\<lparr>serial_fd = (if serial_fd port \<ge> 0 then -1 else serial_fd port), rse = control\<rparr>,
                   set_errno (w_errno w) w3) }"

text \<open>The line settings are one reply: \<open>tcgetattr\<close>, the speed and \<open>tcsetattr\<close>.\<close>

definition serial_configure :: "int serial_io" where
  "serial_configure w =
     (case w_config w of [] \<Rightarrow> None
      | None # rs \<Rightarrow> Some (0, w\<lparr>w_config := rs\<rparr>)
      | Some e # rs \<Rightarrow> fail e (w\<lparr>w_config := rs\<rparr>))"

definition rs485_port_open ::
  "rs485_port_t option \<Rightarrow> string option \<Rightarrow> string option \<Rightarrow> (int \<times> rs485_port_t option) serial_io" where
  "rs485_port_open port_arg serial_path gpiochip_path w =
     (case port_arg of
        None \<Rightarrow> Some ((-1, None), set_errno E_INVAL w)
      | Some port \<Rightarrow>
          if serial_path = None \<or> gpiochip_path = None \<or> serial_path = Some [] \<or> gpiochip_path = Some []
          then Some ((-1, Some port), set_errno E_INVAL w)
          else if serial_fd port \<noteq> -1 \<or> chip_fd (rse port) \<noteq> -1 \<or> line_fd (rse port) \<noteq> -1
          then Some ((-1, Some port), set_errno E_BUSY w)
          else do { (fd, w1) \<leftarrow> open_device w;
                    if fd < 0 then Some ((-1, Some port), w1)
                    else do { (rc, w2) \<leftarrow> serial_configure w1;
                      let pending = RS485_PORT_INITIALIZER\<lparr>serial_fd := fd\<rparr> in
                      if rc < 0
                      then do { (_, w3) \<leftarrow> rs485_port_close pending w2;
                                Some ((-1, Some port), set_errno (w_errno w2) w3) }
                      else do { ((rc2, control), w3) \<leftarrow> rse_control_open (rse pending) gpiochip_path w2;
                                let pending2 = pending\<lparr>rse := control\<rparr> in
                                if rc2 < 0
                                then do { (_, w4) \<leftarrow> rs485_port_close pending2 w3;
                                          Some ((-1, Some port), set_errno (w_errno w3) w4) }
                                else Some ((0, Some pending2), w3) } } })"


section \<open>Sending\<close>

text \<open>The loop of \<open>serial_write_full\<close>; \<open>write\<close> takes at most the bytes it is offered.\<close>

function write_loop :: "u8 list \<Rightarrow> nat \<Rightarrow> int serial_io" where
  "write_loop data written w =
     (if written < length data
      then (case w_writes w of
              [] \<Rightarrow> None
            | Inr n # rs \<Rightarrow>
                if n > 0
                then let k = min n (length data - written)
                     in write_loop data (written + k)
                          (w\<lparr>w_writes := rs, w_wire := w_wire w @ segment data written k\<rparr>)
                else fail E_IO (w\<lparr>w_writes := rs\<rparr>)
            | Inl e # rs \<Rightarrow>
                if e = E_INTR then write_loop data written (set_errno e (w\<lparr>w_writes := rs\<rparr>))
                else fail e (w\<lparr>w_writes := rs\<rparr>))
      else Some (0, w))"
  by pat_completeness auto
termination
  by (relation "measure (\<lambda>(data, written, w). length (w_writes w))") (auto simp: set_errno_def)

declare write_loop.simps [simp del]

definition serial_write_full :: "int \<Rightarrow> u8 list option \<Rightarrow> nat \<Rightarrow> int serial_io" where
  "serial_write_full fd data len w =
     (if fd < 0 then fail E_BADF w
      else (case data of None \<Rightarrow> (if len \<noteq> 0 then fail E_INVAL w else Some (0, w))
            | Some bytes \<Rightarrow> write_loop (take len bytes) 0 w))"

section \<open>Deadlines\<close>

definition serial_monotonic_ns :: "int option serial_io" where
  "serial_monotonic_ns w =
     do { (r, w1) \<leftarrow> clock_gettime w;
          Some (map_option (\<lambda>(sec, nsec). sec * 1000000000 + nsec) r, w1) }"

text \<open>The pointer argument is always valid; the deadline is \<open>Some\<close> on success.\<close>

definition serial_deadline_after_ms :: "int \<Rightarrow> (int \<times> int option) serial_io" where
  "serial_deadline_after_ms timeout_ms w =
     (if timeout_ms \<le> 0 then Some ((-1, None), set_errno E_INVAL w)
      else do { (now, w1) \<leftarrow> serial_monotonic_ns w;
                case now of
                  None \<Rightarrow> Some ((-1, None), w1)
                | Some now_ns \<Rightarrow>
                    let duration_ns = timeout_ms * 1000000 in
                    if now_ns > INT64_MAX - duration_ns then Some ((-1, None), set_errno E_OVERFLOW w1)
                    else Some ((0, Some (now_ns + duration_ns)), w1) })"

text \<open>
  One round of the polling loop of \<open>serial_wait_tx_complete\<close>, with the value it returns or \<open>None\<close>
  to go on: the loop ends when the software queue is empty and the
  transmitter reports empty, when the deadline is reached, or on a failure other than an
  interruption.
\<close>

definition tx_poll :: "int \<Rightarrow> int option serial_io" where
  "tx_poll deadline w =
     (case w_clock w of
        [] \<Rightarrow> None
      | None # rs \<Rightarrow> Some (Some (-1), w\<lparr>w_clock := rs\<rparr>)
      | Some (sec, nsec) # rs \<Rightarrow>
          let w1 = w\<lparr>w_clock := rs\<rparr> in
          if sec * 1000000000 + nsec \<ge> deadline then Some (Some (-1), set_errno E_TIMEDOUT w1)
          else (case w_outq w1 of
             [] \<Rightarrow> None
           | Inl e # qs \<Rightarrow>
               Some (if e = E_INTR then None else Some (-1), set_errno e (w1\<lparr>w_outq := qs\<rparr>))
           | Inr queued # qs \<Rightarrow>
               let w2 = w1\<lparr>w_outq := qs\<rparr> in
               (case w_lsr w2 of
                  [] \<Rightarrow> None
                | Inl e # ls \<Rightarrow>
                    Some (if e = E_INTR then None else Some (-1), set_errno e (w2\<lparr>w_lsr := ls\<rparr>))
                | Inr temt # ls \<Rightarrow>
                    let w3 = w2\<lparr>w_lsr := ls\<rparr> in
                    if queued = 0 \<and> temt then Some (Some 0, w3)
                    else (case w_sleeps w3 of
                       [] \<Rightarrow> None
                     | None # ss \<Rightarrow> Some (None, w3\<lparr>w_sleeps := ss\<rparr>)
                     | Some e # ss \<Rightarrow>
                         Some (if e = E_INTR then None else Some (-1), set_errno e (w3\<lparr>w_sleeps := ss\<rparr>))))))"

lemmas world_splits = list.splits option.splits sum.splits if_splits prod.splits

lemma tx_poll_consumes: "tx_poll d w = Some (r, w') \<Longrightarrow> length (w_clock w') < length (w_clock w)"
  by (auto simp: tx_poll_def Let_def set_errno_def split: world_splits)

function wait_tx_loop :: "int \<Rightarrow> int serial_io" where
  "wait_tx_loop deadline w =
     (case tx_poll deadline w of
        None \<Rightarrow> None
      | Some (Some rc, w1) \<Rightarrow> Some (rc, w1)
      | Some (None, w1) \<Rightarrow> wait_tx_loop deadline w1)"
  by pat_completeness auto
termination
  by (relation "measure (\<lambda>(deadline, w). length (w_clock w))") (auto dest: tx_poll_consumes)

declare wait_tx_loop.simps [simp del]

definition serial_wait_tx_complete :: "int \<Rightarrow> int \<Rightarrow> int serial_io" where
  "serial_wait_tx_complete fd timeout_ms w =
     (if fd < 0 then fail E_BADF w
      else do { ((rc, deadline), w1) \<leftarrow> serial_deadline_after_ms timeout_ms w;
                case deadline of
                  Some d \<Rightarrow> if rc < 0 then Some (-1, w1) else wait_tx_loop d w1
                | None \<Rightarrow> Some (-1, w1) })"

section \<open>Sending a frame\<close>

text \<open>
  The error path flushes what the driver has not sent yet (which changes nothing that was already
  on the wire), releases the line and restores the first \<open>errno\<close>.
\<close>

definition restore_after_error :: "rse_control_t option \<Rightarrow> int serial_io" where
  "restore_after_error control w =
     do { (_, w1) \<leftarrow> rse_control_set_rx control w; Some (-1, set_errno (w_errno w) w1) }"

definition rs485_send_frame ::
  "int \<Rightarrow> rse_control_t option \<Rightarrow> u8 list option \<Rightarrow> nat \<Rightarrow> int serial_io" where
  "rs485_send_frame fd control frame frame_length w =
     do { (rc, w1) \<leftarrow> serial_wait_tx_complete fd 100 w;
          if rc < 0 then restore_after_error control w1
          else do { (rc, w2) \<leftarrow> rse_control_set_tx control w1;
            if rc < 0 then restore_after_error control w2
            else do { (rc, w3) \<leftarrow> serial_write_full fd frame frame_length w2;
              if rc < 0 then restore_after_error control w3
              else do { (rc, w4) \<leftarrow> serial_wait_tx_complete fd 100 w3;
                if rc < 0 then restore_after_error control w4
                else do { (rc, w5) \<leftarrow> rse_control_set_rx control w4;
                          Some (if rc < 0 then -1 else 0, w5) } } } } }"

section \<open>Receiving\<close>

definition serial_wait_readable :: "int \<Rightarrow> int \<Rightarrow> int serial_io" where
  "serial_wait_readable fd timeout_ms w =
     (if fd < 0 \<or> timeout_ms < -1 then fail E_INVAL w
      else (case w_polls w of
              [] \<Rightarrow> None
            | PollTimeout # rs \<Rightarrow> Some (0, w\<lparr>w_polls := rs\<rparr>)
            | PollFail e # rs \<Rightarrow> fail e (w\<lparr>w_polls := rs\<rparr>)
            | PollReady err readable # rs \<Rightarrow>
                if err then fail E_IO (w\<lparr>w_polls := rs\<rparr>)
                else if readable then Some (1, w\<lparr>w_polls := rs\<rparr>)
                else fail E_IO (w\<lparr>w_polls := rs\<rparr>)))"

text \<open>
  \<open>serial_read_append_once\<close> appends to the array \<open>buffer\<close> of which \<open>used\<close> bytes are taken; the
  result carries the count, the array and \<open>*used\<close>.
\<close>

definition serial_read_append_once ::
  "u8 list \<Rightarrow> nat \<Rightarrow> nat \<Rightarrow> (int \<times> u8 list \<times> nat) serial_io" where
  "serial_read_append_once buffer capacity used w =
     (if used > capacity then Some ((-1, buffer, used), set_errno E_INVAL w)
      else if used = capacity then Some ((-1, buffer, used), set_errno E_NOBUFS w)
      else (case w_reads w of
              [] \<Rightarrow> None
            | Inl e # rs \<Rightarrow> Some ((-1, buffer, used), set_errno e (w\<lparr>w_reads := rs\<rparr>))
            | Inr bytes # rs \<Rightarrow>
                let got = take (capacity - used) bytes
                in Some ((int (length got), blit buffer used got, used + length got), w\<lparr>w_reads := rs\<rparr>)))"

text \<open>\<open>should_stop\<close> is \<open>None\<close> for a NULL callback; otherwise its next answer is taken.\<close>

definition stop_requested :: "bool \<Rightarrow> bool serial_io" where
  "stop_requested has_callback w =
     (if \<not> has_callback then Some (False, w)
      else (case w_stop w of [] \<Rightarrow> None | r # rs \<Rightarrow> Some (r, w\<lparr>w_stop := rs\<rparr>)))"

definition poll_wait_ms :: "bool \<Rightarrow> int \<Rightarrow> int" where
  "poll_wait_ms has_callback remaining_ns =
     (let remaining_ms = remaining_ns div 1000000 + (if remaining_ns mod 1000000 \<noteq> 0 then 1 else 0);
          wait_ms = (if remaining_ms > INT_MAX then INT_MAX else remaining_ms)
      in if has_callback \<and> wait_ms > 100 then 100 else wait_ms)"

definition retryable :: "errno_t \<Rightarrow> bool" where
  "retryable e \<longleftrightarrow> e = E_INTR \<or> e = E_AGAIN"

lemma serial_monotonic_consumes:
  "serial_monotonic_ns w = Some (r, w') \<Longrightarrow> length (w_clock w') < length (w_clock w)"
  by (auto simp: serial_monotonic_ns_def clock_gettime_def split: list.splits)

lemma stop_requested_clock [simp]: "stop_requested b w = Some (r, w') \<Longrightarrow> w_clock w' = w_clock w"
  by (auto simp: stop_requested_def split: list.splits if_splits)

lemma serial_wait_readable_clock [simp]:
  "serial_wait_readable fd t w = Some (r, w') \<Longrightarrow> w_clock w' = w_clock w"
  by (auto simp: serial_wait_readable_def fail_def set_errno_def split: list.splits if_splits poll_reply.splits)

lemma serial_read_append_once_clock [simp]:
  "serial_read_append_once buffer capacity used w = Some (r, w') \<Longrightarrow> w_clock w' = w_clock w"
  by (auto simp: serial_read_append_once_def set_errno_def Let_def split: list.splits if_splits sum.splits)


text \<open>
  One round of the receive loop of \<open>serial_read_exact_until_stop\<close>, with the value it returns or
  \<open>None\<close> to go on, and the loop. The deadline is absolute, so several calls
  can share one budget.
\<close>

definition check_budget :: "int \<Rightarrow> bool \<Rightarrow> (int + int) serial_io" where
  "check_budget deadline_ns cb w =
     do { (stop, w1) \<leftarrow> stop_requested cb w;
       if stop then Some (Inl (-1), set_errno E_CANCELED w1)
       else do { (now, w2) \<leftarrow> serial_monotonic_ns w1;
         case now of None \<Rightarrow> Some (Inl (-1), w2)
         | Some now_ns \<Rightarrow> if now_ns \<ge> deadline_ns then Some (Inl 0, w2) else Some (Inr now_ns, w2) } }"

definition read_round ::
  "int \<Rightarrow> nat \<Rightarrow> int \<Rightarrow> bool \<Rightarrow> u8 list \<Rightarrow> nat \<Rightarrow> (int option \<times> u8 list \<times> nat) serial_io" where
  "read_round fd len deadline_ns cb buffer received w =
     do { (b, w1) \<leftarrow> check_budget deadline_ns cb w;
       case b of Inl rc \<Rightarrow> Some ((Some rc, buffer, received), w1)
       | Inr now_ns \<Rightarrow>
           do { (ready, w2) \<leftarrow> serial_wait_readable fd (poll_wait_ms cb (deadline_ns - now_ns)) w1;
             if ready < 0 then
               Some ((if w_errno w2 = E_INTR then None else Some (-1), buffer, received), w2)
             else if ready = 0 then Some ((None, buffer, received), w2)
             else do { (b2, w3) \<leftarrow> check_budget deadline_ns cb w2;
               case b2 of Inl rc \<Rightarrow> Some ((Some rc, buffer, received), w3)
               | Inr _ \<Rightarrow>
                   do { ((n, buffer', received'), w4) \<leftarrow> serial_read_append_once buffer len received w3;
                     Some ((if n < 0 \<and> \<not> retryable (w_errno w4) then Some (-1) else None,
                            buffer', received'), w4) } } } }"

lemma check_budget_consumes:
  assumes "check_budget d cb w = Some (b, w')"
  shows "length (w_clock w') \<le> length (w_clock w) \<and> (isl b \<or> length (w_clock w') < length (w_clock w))"
proof -
  obtain s w1 where s: "stop_requested cb w = Some (s, w1)"
    using assms by (auto simp: check_budget_def bind_eq_Some_conv)
  show ?thesis
  proof (cases s)
    case True
    then show ?thesis using assms s stop_requested_clock [OF s] by (auto simp: check_budget_def set_errno_def)
  next
    case False
    then obtain now w2 where m: "serial_monotonic_ns w1 = Some (now, w2)"
      using assms s by (auto simp: check_budget_def bind_eq_Some_conv)
    show ?thesis
      using assms s False m stop_requested_clock [OF s] serial_monotonic_consumes [OF m]
      by (cases now) (auto simp: check_budget_def split: if_splits)
  qed
qed

lemma read_round_consumes:
  assumes "read_round fd len d cb buffer received w = Some ((None, r), w')"
  shows "length (w_clock w') < length (w_clock w)"
proof -
  obtain b w1 where b: "check_budget d cb w = Some (b, w1)" using assms by (auto simp: read_round_def bind_eq_Some_conv)
  note c = check_budget_consumes [OF this]
  obtain now where now: "b = Inr now" using assms b by (cases b) (auto simp: read_round_def)
  obtain ready w2 where p: "serial_wait_readable fd (poll_wait_ms cb (d - now)) w1 = Some (ready, w2)"
    using assms b now by (auto simp: read_round_def bind_eq_Some_conv)
  show ?thesis
  proof (cases "ready \<le> 0")
    case True
    then show ?thesis using assms b now p c by (auto simp: read_round_def split: if_splits)
  next
    case False
    then obtain b2 w3 where b2: "check_budget d cb w2 = Some (b2, w3)"
      using assms b now p by (auto simp: read_round_def bind_eq_Some_conv)
    obtain now2 where now2: "b2 = Inr now2" using assms b now p b2 False by (cases b2) (auto simp: read_round_def)
    show ?thesis
      using assms b now p b2 now2 False c check_budget_consumes [OF b2]
      by (auto simp: read_round_def bind_eq_Some_conv)
  qed
qed

function read_loop ::
  "int \<Rightarrow> nat \<Rightarrow> int \<Rightarrow> bool \<Rightarrow> u8 list \<Rightarrow> nat \<Rightarrow> (int \<times> u8 list \<times> nat) serial_io" where
  "read_loop fd len deadline_ns cb buffer received w =
     (if received < len
      then (case read_round fd len deadline_ns cb buffer received w of
              None \<Rightarrow> None
            | Some ((Some rc, buffer', received'), w1) \<Rightarrow> Some ((rc, buffer', received'), w1)
            | Some ((None, buffer', received'), w1) \<Rightarrow> read_loop fd len deadline_ns cb buffer' received' w1)
      else Some ((1, buffer, received), w))"
  by pat_completeness auto
termination
  by (relation "measure (\<lambda>(fd, len, deadline_ns, cb, buffer, received, w). length (w_clock w))")
    (auto dest: read_round_consumes)

declare read_loop.simps [simp del]

definition serial_read_exact_until_stop ::
  "int \<Rightarrow> u8 list option \<Rightarrow> nat \<Rightarrow> int \<Rightarrow> bool \<Rightarrow> (int \<times> u8 list option \<times> nat) serial_io" where
  "serial_read_exact_until_stop fd buffer len deadline_ns cb w =
     (case buffer of
        None \<Rightarrow> Some ((-1, None, 0), set_errno E_INVAL w)
      | Some buf \<Rightarrow>
          if fd < 0 \<or> len = 0 \<or> deadline_ns < 0 then Some ((-1, Some buf, 0), set_errno E_INVAL w)
          else do { ((rc, buf', received), w1) \<leftarrow> read_loop fd len deadline_ns cb buf 0 w;
                    Some ((rc, Some buf', received), w1) })"

definition serial_read_exact_timeout_stop ::
  "int \<Rightarrow> u8 list option \<Rightarrow> nat \<Rightarrow> int \<Rightarrow> bool \<Rightarrow> (int \<times> u8 list option \<times> nat) serial_io" where
  "serial_read_exact_timeout_stop fd buffer len timeout_ms cb w =
     (if fd < 0 \<or> buffer = None \<or> len = 0 then Some ((-1, buffer, 0), set_errno E_INVAL w)
      else do { ((rc, deadline), w1) \<leftarrow> serial_deadline_after_ms timeout_ms w;
                case deadline of
                  Some d \<Rightarrow> if rc < 0 then Some ((-1, buffer, 0), w1)
                            else serial_read_exact_until_stop fd buffer len d cb w1
                | None \<Rightarrow> Some ((-1, buffer, 0), w1) })"

definition serial_read_exact_timeout ::
  "int \<Rightarrow> u8 list option \<Rightarrow> nat \<Rightarrow> int \<Rightarrow> (int \<times> u8 list option \<times> nat) serial_io" where
  "serial_read_exact_timeout fd buffer len timeout_ms =
     serial_read_exact_timeout_stop fd buffer len timeout_ms False"


section \<open>Lemmas on the sender\<close>

lemma write_loop_wire:
  "write_loop data k w = Some (rc, w') \<Longrightarrow> k \<le> length data \<Longrightarrow>
    (\<exists>m. w_wire w' = w_wire w @ take m (drop k data) \<and> (rc = 0 \<longrightarrow> take m (drop k data) = drop k data)) \<and>
    (rc = 0 \<or> rc = -1) \<and> w_gpio w' = w_gpio w \<and> w_tx w' = w_tx w"
proof (induction data k w rule: write_loop.induct)
  case (1 data k w)
  show ?case
  proof (cases "k < length data")
    case False
    then show ?thesis using 1(3) [unfolded write_loop.simps [of data k w]] by auto
  next
    case True
    then obtain r rs where ws: "w_writes w = r # rs"
      using 1(3) by (auto simp: write_loop.simps [of data k w] split: list.splits)
    show ?thesis
    proof (cases "\<exists>n > 0. r = Inr n")
      case n: True
      then obtain n where r: "r = Inr n" "n > 0" by blast
      let ?m = "min n (length data - k)"
      let ?w = "w\<lparr>w_writes := rs, w_wire := w_wire w @ segment data k ?m\<rparr>"
      have e: "write_loop data (k + ?m) ?w = Some (rc, w')"
        using 1(3) True ws r by (simp add: write_loop.simps [of data k w] Let_def)
      have le: "k + ?m \<le> length data" using True by simp
      obtain m where m: "w_wire w' = w_wire ?w @ take m (drop (k + ?m) data)"
        "rc = 0 \<longrightarrow> take m (drop (k + ?m) data) = drop (k + ?m) data"
        "rc = 0 \<or> rc = -1" "w_gpio w' = w_gpio w" "w_tx w' = w_tx w"
        using 1(2) [OF True ws r(1) r(2) refl e le] by auto
      have "segment data k ?m @ take m (drop (k + ?m) data) = take (?m + m) (drop k data)"
        by (simp add: segment_def take_add add.commute [of k])
      moreover have "segment data k ?m @ drop (k + ?m) data = drop k data"
        by (simp add: segment_def) (metis append_take_drop_id drop_drop add.commute)
      ultimately show ?thesis
        using m by (intro conjI exI [of _ "?m + m"]) auto
    next
      case False
      then show ?thesis
        using 1(1) [OF True ws] 1(3,4) True ws
        by (cases r) (auto simp: write_loop.simps [of data k w] fail_def set_errno_def intro!: exI [of _ 0] split: if_splits)
    qed
  qed
qed

lemma tx_poll_frame:
  "tx_poll d w = Some (r, w') \<Longrightarrow>
    w_wire w' = w_wire w \<and> w_gpio w' = w_gpio w \<and> w_tx w' = w_tx w \<and> (\<forall>rc. r = Some rc \<longrightarrow> rc = 0 \<or> rc = -1)"
  by (auto simp: tx_poll_def Let_def set_errno_def split: world_splits)

lemma wait_tx_loop_frame:
  "wait_tx_loop d w = Some (rc, w') \<Longrightarrow>
    w_wire w' = w_wire w \<and> w_gpio w' = w_gpio w \<and> w_tx w' = w_tx w \<and> (rc = 0 \<or> rc = -1)"
proof (induction d w rule: wait_tx_loop.induct)
  case (1 d w)
  then obtain r w1 where t: "tx_poll d w = Some (r, w1)"
    by (auto simp: wait_tx_loop.simps [of d w] split: option.splits)
  show ?case
  proof (cases r)
    case None
    have "wait_tx_loop d w1 = Some (rc, w')" using 1(2) t None by (simp add: wait_tx_loop.simps [of d w])
    then show ?thesis using 1(1) [OF t refl None] tx_poll_frame [OF t] by simp
  next
    case (Some rc')
    then show ?thesis using 1(2) t tx_poll_frame [OF t] by (simp add: wait_tx_loop.simps [of d w])
  qed
qed


lemma monotonic_frame:
  "serial_monotonic_ns w = Some (r, w') \<Longrightarrow>
    w_wire w' = w_wire w \<and> w_gpio w' = w_gpio w \<and> w_tx w' = w_tx w \<and> w_reads w' = w_reads w"
  by (auto simp: serial_monotonic_ns_def clock_gettime_def bind_eq_Some_conv split: list.splits)

lemma deadline_frame:
  assumes "serial_deadline_after_ms t w = Some (r, w')"
  shows "w_wire w' = w_wire w \<and> w_gpio w' = w_gpio w \<and> w_tx w' = w_tx w \<and> w_reads w' = w_reads w"
proof (cases "t \<le> 0")
  case True
  then show ?thesis using assms by (auto simp: serial_deadline_after_ms_def set_errno_def)
next
  case False
  then obtain now w1 where m: "serial_monotonic_ns w = Some (now, w1)"
    using assms by (auto simp: serial_deadline_after_ms_def bind_eq_Some_conv)
  show ?thesis
    using assms False m monotonic_frame [OF m]
    by (cases now) (auto simp: serial_deadline_after_ms_def set_errno_def Let_def split: if_splits)
qed

lemma wait_tx_complete_frame:
  assumes "serial_wait_tx_complete fd t w = Some (rc, w')"
  shows "w_wire w' = w_wire w \<and> w_gpio w' = w_gpio w \<and> w_tx w' = w_tx w \<and> (rc = 0 \<or> rc = -1)"
proof (cases "fd < 0")
  case True
  then show ?thesis using assms by (auto simp: serial_wait_tx_complete_def fail_def set_errno_def)
next
  case False
  then obtain rc1 d w1 where s: "serial_deadline_after_ms t w = Some ((rc1, d), w1)"
    using assms by (auto simp: serial_wait_tx_complete_def bind_eq_Some_conv)
  show ?thesis
    using assms False s deadline_frame [OF s] wait_tx_loop_frame
    by (cases d) (auto simp: serial_wait_tx_complete_def split: if_splits)
qed

lemma set_value_frame:
  "rse_control_set_value c v w = Some (rc, w') \<Longrightarrow>
    w_wire w' = w_wire w \<and> (rc = 0 \<longrightarrow> w_tx w' = v) \<and> (rc = 0 \<or> rc = -1) \<and> set (w_gpio w') \<subseteq> set (w_gpio w)"
  by (auto simp: rse_control_set_value_def fail_def set_errno_def split: world_splits)

lemma set_value_works:
  "rse_control_set_value (Some c) v w = Some (rc, w') \<Longrightarrow> 0 \<le> line_fd c \<Longrightarrow>
    \<forall>r \<in> set (w_gpio w). r = None \<Longrightarrow> w_tx w' = v"
  by (auto simp: rse_control_set_value_def fail_def set_errno_def split: world_splits)

lemma write_full_wire:
  assumes "serial_write_full fd (Some bytes) n w = Some (rc, w')"
  shows "(\<exists>m. w_wire w' = w_wire w @ take m (take n bytes) \<and> (rc = 0 \<longrightarrow> w_wire w' = w_wire w @ take n bytes)) \<and>
    (rc = 0 \<or> rc = -1) \<and> w_gpio w' = w_gpio w"
proof (cases "fd < 0")
  case True
  then show ?thesis using assms by (auto simp: serial_write_full_def fail_def set_errno_def intro: exI [of _ 0])
next
  case False
  then have "write_loop (take n bytes) 0 w = Some (rc, w')" using assms by (simp add: serial_write_full_def)
  from write_loop_wire [OF this] obtain m where "w_wire w' = w_wire w @ take m (take n bytes)"
    "rc = 0 \<longrightarrow> take m (take n bytes) = take n bytes" "rc = 0 \<or> rc = -1" "w_gpio w' = w_gpio w"
    by (auto simp del: take_take)
  then show ?thesis by (intro conjI exI [of _ m]) auto
qed

lemma restore_frame:
  "restore_after_error c w = Some (rc, w') \<Longrightarrow> rc = -1 \<and> w_wire w' = w_wire w"
  by (auto simp: restore_after_error_def rse_control_set_rx_def set_errno_def bind_eq_Some_conv dest!: set_value_frame)

lemma restore_works:
  "restore_after_error (Some c) w = Some (rc, w') \<Longrightarrow> 0 \<le> line_fd c \<Longrightarrow>
    \<forall>r \<in> set (w_gpio w). r = None \<Longrightarrow> \<not> w_tx w'"
  by (auto simp: restore_after_error_def rse_control_set_rx_def set_errno_def bind_eq_Some_conv dest!: set_value_works)

text \<open>The outcome of a step of the sender: on an error the frame is abandoned.\<close>

lemma send_frame_cases:
  assumes "rs485_send_frame fd c (Some bytes) n w = Some (rc, w')"
  obtains
    (idle) w1 where "serial_wait_tx_complete fd 100 w = Some (-1, w1)" "restore_after_error c w1 = Some (rc, w')"
  | (line) w1 w2 where "serial_wait_tx_complete fd 100 w = Some (0, w1)"
      "rse_control_set_value c True w1 = Some (-1, w2)" "restore_after_error c w2 = Some (rc, w')"
  | (data) w1 w2 w3 where "serial_wait_tx_complete fd 100 w = Some (0, w1)"
      "rse_control_set_value c True w1 = Some (0, w2)" "serial_write_full fd (Some bytes) n w2 = Some (-1, w3)"
      "restore_after_error c w3 = Some (rc, w')"
  | (drain) w1 w2 w3 w4 where "serial_wait_tx_complete fd 100 w = Some (0, w1)"
      "rse_control_set_value c True w1 = Some (0, w2)" "serial_write_full fd (Some bytes) n w2 = Some (0, w3)"
      "serial_wait_tx_complete fd 100 w3 = Some (-1, w4)" "restore_after_error c w4 = Some (rc, w')"
  | (sent) w1 w2 w3 w4 where "serial_wait_tx_complete fd 100 w = Some (0, w1)"
      "rse_control_set_value c True w1 = Some (0, w2)" "serial_write_full fd (Some bytes) n w2 = Some (0, w3)"
      "serial_wait_tx_complete fd 100 w3 = Some (0, w4)" "rse_control_set_value c False w4 = Some (rc, w')"
proof -
  obtain rc1 w1 where s1: "serial_wait_tx_complete fd 100 w = Some (rc1, w1)"
    using assms by (auto simp: rs485_send_frame_def bind_eq_Some_conv)
  show thesis
  proof (cases "rc1 < 0")
    case True
    then show thesis using s1 assms wait_tx_complete_frame [OF s1] idle by (auto simp: rs485_send_frame_def)
  next
    case False
    with wait_tx_complete_frame [OF s1] have r1: "rc1 = 0" by auto
    obtain rc2 w2 where s2: "rse_control_set_value c True w1 = Some (rc2, w2)"
      using assms s1 r1 by (auto simp: rs485_send_frame_def rse_control_set_tx_def bind_eq_Some_conv)
    show thesis
    proof (cases "rc2 < 0")
      case True
      then show thesis using s1 r1 s2 assms set_value_frame [OF s2] line
        by (auto simp: rs485_send_frame_def rse_control_set_tx_def)
    next
      case False
      with set_value_frame [OF s2] have r2: "rc2 = 0" by auto
      obtain rc3 w3 where s3: "serial_write_full fd (Some bytes) n w2 = Some (rc3, w3)"
        using assms s1 r1 s2 r2 by (auto simp: rs485_send_frame_def rse_control_set_tx_def bind_eq_Some_conv)
      show thesis
      proof (cases "rc3 < 0")
        case True
        then show thesis using s1 r1 s2 r2 s3 assms write_full_wire [OF s3] data
          by (auto simp: rs485_send_frame_def rse_control_set_tx_def)
      next
        case False
        with write_full_wire [OF s3] have r3: "rc3 = 0" by auto
        obtain rc4 w4 where s4: "serial_wait_tx_complete fd 100 w3 = Some (rc4, w4)"
          using assms s1 r1 s2 r2 s3 r3 by (auto simp: rs485_send_frame_def rse_control_set_tx_def bind_eq_Some_conv)
        show thesis
        proof (cases "rc4 < 0")
          case True
          then show thesis using s1 r1 s2 r2 s3 r3 s4 assms wait_tx_complete_frame [OF s4] drain
            by (auto simp: rs485_send_frame_def rse_control_set_tx_def)
        next
          case False
          with wait_tx_complete_frame [OF s4] have r4: "rc4 = 0" by auto
          obtain rc5 w5 where s5: "rse_control_set_value c False w4 = Some (rc5, w5)"
            using assms s1 r1 s2 r2 s3 r3 s4 r4
            by (auto simp: rs485_send_frame_def rse_control_set_tx_def rse_control_set_rx_def bind_eq_Some_conv)
          then show thesis
            using s1 r1 s2 r2 s3 r3 s4 r4 assms set_value_frame [OF s5] sent
            by (auto simp: rs485_send_frame_def rse_control_set_tx_def rse_control_set_rx_def split: if_splits)
        qed
      qed
    qed
  qed
qed


lemma send_frame_rx:
  assumes "rs485_send_frame fd (Some c) (Some bytes) n w = Some (rc, w')" and "0 \<le> line_fd c"
    and g: "\<forall>r \<in> set (w_gpio w). r = None"
  shows "\<not> w_tx w'"
proof -
  have keep: "\<forall>r \<in> set (w_gpio v). r = None"
    if "serial_wait_tx_complete fd 100 u = Some (rc0, v)" "\<forall>r \<in> set (w_gpio u). r = None" for u v rc0
    using that wait_tx_complete_frame [of fd 100 u rc0 v] by auto
  have keep2: "\<forall>r \<in> set (w_gpio v). r = None"
    if "rse_control_set_value (Some c) b u = Some (rc0, v)" "\<forall>r \<in> set (w_gpio u). r = None" for u v rc0 b
    using that set_value_frame [of "Some c" b u rc0 v] by auto
  have keep3: "\<forall>r \<in> set (w_gpio v). r = None"
    if "serial_write_full fd (Some bytes) n u = Some (rc0, v)" "\<forall>r \<in> set (w_gpio u). r = None" for u v rc0
    using that write_full_wire [of fd bytes n u rc0 v] by auto
  from assms(1) show ?thesis
  proof (cases rule: send_frame_cases)
    case idle
    then show ?thesis using keep [OF idle(1) g] assms(2) restore_works by blast
  next
    case line
    then show ?thesis using keep2 [OF line(2) keep [OF line(1) g]] assms(2) restore_works by blast
  next
    case data
    then show ?thesis
      using keep3 [OF data(3) keep2 [OF data(2) keep [OF data(1) g]]] assms(2) restore_works by blast
  next
    case drain
    then show ?thesis
      using keep [OF drain(4) keep3 [OF drain(3) keep2 [OF drain(2) keep [OF drain(1) g]]]] assms(2) restore_works
      by blast
  next
    case sent
    then show ?thesis
      using keep [OF sent(4) keep3 [OF sent(3) keep2 [OF sent(2) keep [OF sent(1) g]]]] assms(2) set_value_works
      by blast
  qed
qed

section \<open>Lemmas on the receiver\<close>

text \<open>The bytes a series of \<open>read\<close> replies puts into the remaining \<open>room\<close>.\<close>

fun taken :: "nat \<Rightarrow> (errno_t + u8 list) list \<Rightarrow> u8 list" where
  "taken room [] = []"
| "taken room (Inl e # rs) = taken room rs"
| "taken room (Inr bytes # rs) = take room bytes @ taken (room - length (take room bytes)) rs"

lemma length_taken: "length (taken room rs) \<le> room"
  by (induction room rs rule: taken.induct) (auto simp: min_def split: if_splits)

lemma taken_append:
  "taken room (rs @ ss) = taken room rs @ taken (room - length (taken room rs)) ss"
  by (induction room rs rule: taken.induct) (auto simp: diff_diff_eq)

lemma check_budget_reads:
  assumes "check_budget d cb w = Some (b, w')"
  shows "w_reads w' = w_reads w"
proof -
  obtain s w1 where s: "stop_requested cb w = Some (s, w1)"
    using assms by (auto simp: check_budget_def bind_eq_Some_conv)
  then have r1: "w_reads w1 = w_reads w" by (auto simp: stop_requested_def split: if_splits list.splits)
  show ?thesis
  proof (cases s)
    case True
    then show ?thesis using assms s r1 by (auto simp: check_budget_def set_errno_def)
  next
    case False
    then obtain now w2 where m: "serial_monotonic_ns w1 = Some (now, w2)"
      using assms s by (auto simp: check_budget_def bind_eq_Some_conv)
    show ?thesis
      using assms s False m r1 monotonic_frame [OF m]
      by (cases now) (auto simp: check_budget_def split: if_splits)
  qed
qed

lemma wait_readable_reads:
  "serial_wait_readable fd t w = Some (r, w') \<Longrightarrow> w_reads w' = w_reads w"
  by (auto simp: serial_wait_readable_def fail_def set_errno_def split: list.splits if_splits poll_reply.splits)

lemma append_once_effect:
  assumes "serial_read_append_once buffer len received w = Some ((n, buffer', received'), w')" and "received < len"
  shows "\<exists>rs. w_reads w = rs @ w_reads w' \<and> buffer' = blit buffer received (taken (len - received) rs) \<and>
    received' = received + length (taken (len - received) rs)"
proof -
  obtain r rs where w: "w_reads w = r # rs"
    using assms by (auto simp: serial_read_append_once_def split: list.splits)
  then show ?thesis
    using assms by (cases r) (auto simp: serial_read_append_once_def set_errno_def Let_def intro!: exI [of _ "[r]"])
qed

lemma read_round_effect:
  assumes "read_round fd len d cb buffer received w = Some ((res, buffer', received'), w')" and "received < len"
  shows "\<exists>rs. w_reads w = rs @ w_reads w' \<and> buffer' = blit buffer received (taken (len - received) rs) \<and>
    received' = received + length (taken (len - received) rs) \<and> (\<forall>rc. res = Some rc \<longrightarrow> rc = 0 \<or> rc = -1)"
proof -
  have cb: "check_budget d cb u = Some (Inl rc, v) \<Longrightarrow> rc = 0 \<or> rc = -1" for u v rc
    by (auto simp: check_budget_def bind_eq_Some_conv split: option.splits if_splits)
  obtain b w1 where b: "check_budget d cb w = Some (b, w1)"
    using assms by (auto simp: read_round_def bind_eq_Some_conv)
  note r1 = check_budget_reads [OF b]
  show ?thesis
  proof (cases b)
    case (Inl rc)
    then show ?thesis using assms b r1 cb by (auto simp: read_round_def intro!: exI [of _ "[]"])
  next
    case (Inr now)
    obtain ready w2 where p: "serial_wait_readable fd (poll_wait_ms cb (d - now)) w1 = Some (ready, w2)"
      using assms b Inr by (auto simp: read_round_def bind_eq_Some_conv)
    note r2 = wait_readable_reads [OF p]
    show ?thesis
    proof (cases "ready \<le> 0")
      case True
      then show ?thesis using assms b Inr p r1 r2 by (auto simp: read_round_def intro!: exI [of _ "[]"] split: if_splits)
    next
      case False
      then obtain b2 w3 where b2: "check_budget d cb w2 = Some (b2, w3)"
        using assms b Inr p by (auto simp: read_round_def bind_eq_Some_conv)
      note r3 = check_budget_reads [OF b2]
      show ?thesis
      proof (cases b2)
        case (Inl rc)
        then show ?thesis using assms b Inr p False b2 r1 r2 r3 cb
          by (auto simp: read_round_def intro!: exI [of _ "[]"])
      next
        case (Inr now2)
        obtain n buf rec w4 where a: "serial_read_append_once buffer len received w3 = Some ((n, buf, rec), w4)"
          using assms b \<open>b = Inr now\<close> p False b2 Inr by (auto simp: read_round_def bind_eq_Some_conv)
        show ?thesis
          using append_once_effect [OF a assms(2)] assms b \<open>b = Inr now\<close> p False b2 Inr a r1 r2 r3
          by (auto simp: read_round_def split: if_splits)
      qed
    qed
  qed
qed


lemma read_loop_effect:
  assumes "read_loop fd len d cb buffer received w = Some ((rc, buffer', received'), w')"
    and "received \<le> len" and "len \<le> length buffer"
  shows "\<exists>rs. w_reads w = rs @ w_reads w' \<and> buffer' = blit buffer received (taken (len - received) rs) \<and>
    received' = received + length (taken (len - received) rs) \<and> (rc = 1 \<longrightarrow> received' = len) \<and>
    (rc = 1 \<or> rc = 0 \<or> rc = -1)"
  using assms
proof (induction fd len d cb buffer received w rule: read_loop.induct)
  case (1 fd len d cb buffer received w)
  show ?case
  proof (cases "received < len")
    case False
    then have "read_loop fd len d cb buffer received w = Some ((1, buffer, received), w)"
      by (simp add: read_loop.simps [of fd len d cb buffer received w])
    then have "rc = 1 \<and> buffer' = buffer \<and> received' = received \<and> w' = w" using 1(2) by simp
    then show ?thesis using 1(3) False by (intro exI [of _ "[]"]) simp
  next
    case True
    then have e0: "read_loop fd len d cb buffer received w =
        (case read_round fd len d cb buffer received w of None \<Rightarrow> None
         | Some ((Some rc, buffer', received'), w1) \<Rightarrow> Some ((rc, buffer', received'), w1)
         | Some ((None, buffer', received'), w1) \<Rightarrow> read_loop fd len d cb buffer' received' w1)"
      by (subst read_loop.simps) simp
    obtain res buf1 rec1 w1 where r: "read_round fd len d cb buffer received w = Some ((res, buf1, rec1), w1)"
      using 1(2) e0 by (cases "read_round fd len d cb buffer received w") auto
    from read_round_effect [OF r True] obtain rs where rs: "w_reads w = rs @ w_reads w1"
      "buf1 = blit buffer received (taken (len - received) rs)"
      "rec1 = received + length (taken (len - received) rs)" "\<forall>rc. res = Some rc \<longrightarrow> rc = 0 \<or> rc = -1"
      by blast
    have le: "rec1 \<le> len" using rs(3) length_taken [of "len - received" rs] True by simp
    show ?thesis
    proof (cases res)
      case (Some rc')
      then have "rc = rc' \<and> buffer' = buf1 \<and> received' = rec1 \<and> w' = w1" using 1(2) e0 r by simp
      then show ?thesis using rs(1-3) rs(4) [rule_format, OF Some]
        by (intro exI [of _ rs]) (elim conjE disjE; simp)
    next
      case None
      have e: "read_loop fd len d cb buf1 rec1 w1 = Some ((rc, buffer', received'), w')"
        using 1(2) e0 r None by simp
      have lb: "len \<le> length buf1" using 1(4) rs(2,3) le by simp
      obtain ss where ss: "w_reads w1 = ss @ w_reads w'" "buffer' = blit buf1 rec1 (taken (len - rec1) ss)"
        "received' = rec1 + length (taken (len - rec1) ss)" "rc = 1 \<longrightarrow> received' = len" "rc = 1 \<or> rc = 0 \<or> rc = -1"
        using 1(1) [OF True r refl refl None refl e le lb] by blast
      have t: "taken (len - received) (rs @ ss) = taken (len - received) rs @ taken (len - rec1) ss"
        using rs(3) by (simp add: taken_append diff_diff_eq)
      have "received + length (taken (len - received) rs) + length (taken (len - rec1) ss) \<le> length buffer"
        using length_taken [of "len - rec1" ss] rs(3) le 1(4) by simp
      then have "buffer' = blit buffer received (taken (len - received) (rs @ ss))"
        unfolding ss(2) rs(2,3) t [unfolded rs(3)] by (intro blit_blit)
      then show ?thesis using rs ss t by (intro exI [of _ "rs @ ss"]) simp
    qed
  qed
qed

section \<open>Properties\<close>


definition demo_world :: serial_world where
  "demo_world = \<lparr>w_errno = E_NONE, w_clock = replicate 8 (Some (5, 0)), w_realtime = [Some (1787623200, 5000000)], w_stop = [], w_polls = [PollReady False True, PollReady False True],
     w_reads = [Inr [1, 4], Inr [2, 9]], w_writes = [Inr 1, Inl E_INTR, Inr 5],
     w_outq = replicate 4 (Inr 0), w_lsr = [Inr True, Inr False, Inr True], w_sleeps = [None],
     w_gpio = [None, None], w_opens = [Inr 7, Inr 8], w_config = [None], w_line = [Inl E_BUSY],
     w_tx = False, w_wire = [], w_open_fds = []\<rparr>"

lemma demo_send:
  "map_option fst (rs485_send_frame 7 (Some \<lparr>chip_fd = 8, line_fd = 9\<rparr>) (Some [1, 2, 3]) 3 demo_world) = Some 0"
  by code_simp



text \<open>
  A bounded read delivers exactly what arrived: the buffer receives, from its start, the bytes
  of the consumed \<open>read\<close> replies in order, never more than asked for, and no other byte of it
  changes; the result is 1 exactly for a complete message, and a timeout or an error leaves the
  received prefix.
\<close>

theorem serial_read_exact_delivers:
  assumes "serial_read_exact_until_stop fd (Some buffer) len deadline_ns cb w = Some ((rc, out, received), w')"
    and "len \<le> length buffer"
  shows "\<exists>rs. w_reads w = rs @ w_reads w' \<and> out = Some (blit buffer 0 (taken len rs)) \<and>
    received = length (taken len rs) \<and> received \<le> len \<and> (rc = 1 \<longrightarrow> received = len) \<and>
    (rc = 1 \<or> rc = 0 \<or> rc = -1)"
proof (cases "fd < 0 \<or> len = 0 \<or> deadline_ns < 0")
  case True
  then have "rc = -1 \<and> out = Some buffer \<and> received = 0 \<and> w' = set_errno E_INVAL w"
    using assms(1) by (simp add: serial_read_exact_until_stop_def)
  then show ?thesis by (intro exI [of _ "[]"]) (simp add: set_errno_def)
next
  case False
  then obtain buf1 where r: "read_loop fd len deadline_ns cb buffer 0 w = Some ((rc, buf1, received), w')"
    and o: "out = Some buf1"
    using assms(1) by (auto simp: serial_read_exact_until_stop_def bind_eq_Some_conv)
  from read_loop_effect [OF r _ assms(2)] obtain rs where
    "w_reads w = rs @ w_reads w' \<and> buf1 = blit buffer 0 (taken len rs) \<and> received = length (taken len rs) \<and>
     (rc = 1 \<longrightarrow> received = len) \<and> (rc = 1 \<or> rc = 0 \<or> rc = -1)"
    by auto
  then show ?thesis using o length_taken [of len rs] by blast
qed

lemma demo_read:
  "map_option fst (serial_read_exact_until_stop 7 (Some [0, 0, 0, 0]) 3 6000000000 False demo_world) =
    Some (1, Some [1, 4, 2, 0], 3)"
  by code_simp

theorem serial_read_exact_delivers_witness:
  "\<exists>w' rs. serial_read_exact_until_stop 7 (Some [0, 0, 0, 0]) 3 6000000000 False demo_world =
      Some ((1, Some [1, 4, 2, 0], 3), w') \<and> w_reads demo_world = rs @ w_reads w' \<and> 3 = length (taken 3 rs)"
proof -
  obtain w' where w: "serial_read_exact_until_stop 7 (Some [0, 0, 0, 0]) 3 6000000000 False demo_world =
      Some ((1, Some [1, 4, 2, 0], 3), w')"
    using demo_read by (auto simp: map_option_case split: option.splits)
  show ?thesis using serial_read_exact_delivers [OF w] w by auto
qed

lemma close_fd_open [simp]: "w_open_fds (close_fd fd w) = remove1 fd (w_open_fds w)"
  by (simp add: close_fd_def)

lemma set_errno_open [simp]: "w_open_fds (set_errno e w) = w_open_fds w" "w_errno (set_errno e w) = e"
  by (simp_all add: set_errno_def)

lemma port_close_pending:
  assumes "rs485_port_close \<lparr>serial_fd = int fd, rse = \<lparr>chip_fd = -1, line_fd = -1\<rparr>\<rparr> w = Some (p, w')"
  shows "w_open_fds w' = remove1 (int fd) (w_open_fds w)"
  using assms by (auto simp: rs485_port_close_def rse_control_close_def Let_def)

lemma rse_open_cases:
  assumes "rse_control_open c (Some path) w = Some ((rc, c'), w')"
  shows "(rc = -1 \<and> c' = \<lparr>chip_fd = -1, line_fd = -1\<rparr> \<and> w_open_fds w' = w_open_fds w) \<or>
    (rc = 0 \<and> w_open_fds w' = line_fd c' # chip_fd c' # w_open_fds w \<and> 0 \<le> line_fd c' \<and> 0 \<le> chip_fd c' \<and> \<not> w_tx w')"
  using assms
  by (auto simp: rse_control_open_def open_device_def fail_def bind_eq_Some_conv split: list.splits sum.splits)

lemma open_device_cases:
  assumes "open_device w = Some (fd, w')"
  obtains "fd = -1" and "w_open_fds w' = w_open_fds w"
  | n where "fd = int n" and "w_open_fds w' = fd # w_open_fds w"
  using assms by (auto simp: open_device_def fail_def split: list.splits sum.splits)

lemma serial_configure_cases:
  "serial_configure w = Some (rc, w') \<Longrightarrow> w_open_fds w' = w_open_fds w \<and> (rc = 0 \<or> rc = -1)"
  by (auto simp: serial_configure_def fail_def split: list.splits option.splits)

lemma port_args_1:
  "\<not> (a \<or> b \<or> c \<or> d \<or> e \<or> f \<or> g) \<Longrightarrow> \<not> (a \<or> b \<or> c \<or> d)"
  by blast

lemma port_args_2:
  "\<not> (a \<or> b \<or> c \<or> d \<or> e \<or> f \<or> g) \<Longrightarrow> \<not> (e \<or> f \<or> g)"
  by blast

lemma port_open_cases:
  assumes "rs485_port_open (Some port) serial_path gpiochip_path w = Some ((rc, out), w')"
  shows "(rc = -1 \<and> out = Some port \<and> w_open_fds w' = w_open_fds w) \<or>
    (rc = 0 \<and> (\<exists>p. out = Some p \<and> w_open_fds w' = line_fd (rse p) # chip_fd (rse p) # serial_fd p # w_open_fds w \<and>
       0 \<le> line_fd (rse p) \<and> 0 \<le> chip_fd (rse p) \<and> 0 \<le> serial_fd p \<and> \<not> w_tx w'))"
proof -
  let ?bad = "serial_path = None \<or> gpiochip_path = None \<or> serial_path = Some [] \<or> gpiochip_path = Some [] \<or>
    serial_fd port \<noteq> -1 \<or> chip_fd (rse port) \<noteq> -1 \<or> line_fd (rse port) \<noteq> -1"
  show ?thesis
  proof (cases ?bad)
    case True
    then show ?thesis using assms by (auto simp: rs485_port_open_def split: if_splits)
  next
    case False
    then obtain gp where gp: "gpiochip_path = Some gp" by auto
    note e = assms [unfolded rs485_port_open_def option.case, unfolded if_not_P [OF False [THEN port_args_1]]
        if_not_P [OF False [THEN port_args_2]]]
    obtain fd w1 where o: "open_device w = Some (fd, w1)" using e by (auto simp: bind_eq_Some_conv)
    then show ?thesis
    proof (cases rule: open_device_cases)
      case 1
      then show ?thesis using e o by simp
    next
      case (2 n)
      let ?p = "RS485_PORT_INITIALIZER\<lparr>serial_fd := int n\<rparr>"
      obtain rc1 w2 where c: "serial_configure w1 = Some (rc1, w2)" using e o 2 by (auto simp: bind_eq_Some_conv)
      note cf = serial_configure_cases [OF c]
      show ?thesis
      proof (cases "rc1 < 0")
        case True
        then show ?thesis using e o 2 c cf
          by (auto simp: bind_eq_Some_conv Let_def RS485_PORT_INITIALIZER_def dest!: port_close_pending)
      next
        case False
        then obtain rc2 c2 w3 where r: "rse_control_open (rse ?p) (Some gp) w2 = Some ((rc2, c2), w3)"
          using e o 2 c gp by (auto simp: bind_eq_Some_conv Let_def)
        from rse_open_cases [OF r] show ?thesis
          using e o 2 c cf False r gp
          by (auto simp: bind_eq_Some_conv Let_def RS485_PORT_INITIALIZER_def dest!: port_close_pending)
      qed
    qed
  qed
qed

text \<open>Closing an open port closes the three descriptors.\<close>

lemma port_close_opened:
  assumes "rs485_port_close p w = Some (p', w')" and "w_open_fds w = line_fd (rse p) # chip_fd (rse p) # serial_fd p # fds"
    and "0 \<le> line_fd (rse p)" and "0 \<le> chip_fd (rse p)" and "0 \<le> serial_fd p"
  shows "w_open_fds w' = fds"
proof -
  have "w_open_fds w1 = w_open_fds w" if "rse_control_set_rx (Some (rse p)) w = Some (rc, w1)" for rc w1
    using that by (auto simp: rse_control_set_rx_def rse_control_set_value_def fail_def split: if_splits list.splits option.splits)
  then show ?thesis
    using assms by (auto simp: rs485_port_close_def rse_control_close_def bind_eq_Some_conv Let_def)
qed



section \<open>The sender as a writer\<close>

text \<open>The serial writer satisfies the same contract as the socket writer.\<close>

definition serial_writer :: "int \<Rightarrow> u8 list \<Rightarrow> serial_world \<Rightarrow> ((int \<times> u8 list) \<times> serial_world) option" where
  "serial_writer fd data w =
     map_option (\<lambda>(rc, w'). ((rc, drop (length (w_wire w)) (w_wire w')), w')) (serial_write_full fd (Some data) (length data) w)"

interpretation serial_line: full_writer "serial_writer fd" for fd
proof unfold_locales
  fix buf w rc wire w'
  assume "serial_writer fd buf w = Some ((rc, wire), w')"
  then have s: "serial_write_full fd (Some buf) (length buf) w = Some (rc, w')" and wire: "wire = drop (length (w_wire w)) (w_wire w')"
    by (auto simp: serial_writer_def)
  from write_full_wire [OF s] obtain m where m: "w_wire w' = w_wire w @ take m (take (length buf) buf)"
    "rc = 0 \<longrightarrow> w_wire w' = w_wire w @ take (length buf) buf" "rc = 0 \<or> rc = -1"
    by blast
  then show "rc = 0 \<Longrightarrow> wire = buf" and "rc = 0 \<or> rc = -1" by (auto simp: wire)
  show "\<exists>rest. buf = wire @ rest" using m(1) by (auto simp: wire intro: exI [of _ "drop m buf"])
qed

section \<open>The retrying read\<close>

text \<open>\<open>serial_read_append\<close> repeats an interrupted \<open>serial_read_append_once\<close>.\<close>

lemma read_append_interrupted:
  assumes "serial_read_append_once buffer capacity used w = Some ((n, buffer', used'), w')" and "n < 0" and "w_errno w' = E_INTR"
  shows "length (w_reads w') < length (w_reads w)"
  using assms by (auto simp: serial_read_append_once_def set_errno_def Let_def split: list.splits if_splits sum.splits)

function serial_read_append :: "u8 list \<Rightarrow> nat \<Rightarrow> nat \<Rightarrow> (int \<times> u8 list \<times> nat) serial_io" where
  "serial_read_append buffer capacity used w =
     (case serial_read_append_once buffer capacity used w of
        None \<Rightarrow> None
      | Some ((n, buffer', used'), w') \<Rightarrow>
          if n < 0 \<and> w_errno w' = E_INTR then serial_read_append buffer' capacity used' w'
          else Some ((n, buffer', used'), w'))"
  by pat_completeness auto
termination
  by (relation "measure (\<lambda>(buffer, capacity, used, w). length (w_reads w))") (auto dest: read_append_interrupted)

declare serial_read_append.simps [simp del]

text \<open>However often it is interrupted, it appends what the first undisturbed \<open>read\<close> delivers.\<close>

lemma serial_read_append_delivers:
  assumes "used < capacity" and "w_reads w = replicate k (Inl E_INTR) @ Inr bytes # rs"
  shows "\<exists>w'. serial_read_append buffer capacity used w =
    Some ((int (length (take (capacity - used) bytes)), blit buffer used (take (capacity - used) bytes), used + length (take (capacity - used) bytes)), w') \<and>
    w_reads w' = rs"
  using assms(2)
proof (induction k arbitrary: w)
  case 0
  then show ?case using assms(1) by (simp add: serial_read_append.simps [of _ _ _ w] serial_read_append_once_def Let_def)
next
  case (Suc k)
  then show ?case
    using assms(1) by (simp add: serial_read_append.simps [of _ _ _ w] serial_read_append_once_def Let_def set_errno_def)
qed

end
