(* ===== verification/C_Double.thy ===== *)
theory C_Double
  imports Complex_Main Prelude "HOL-Library.Log_Nat"
begin

text \<open>
  The \<open>double\<close> values the sources compute with. A finite value is the rational it stands for;
  conversions and divisions round to the nearest value with a 53-bit significand, ties to even.
  The exponent is not bounded: the program's integers have at most 64 bits and its divisor is 10,
  far from the limits of the format.
\<close>

datatype cdouble = NotANumber | Infinite bool | Finite rat

fun isfinite :: "cdouble \<Rightarrow> bool" where
  "isfinite (Finite r) = True"
| "isfinite NotANumber = False"
| "isfinite (Infinite s) = False"

fun double_eq :: "cdouble \<Rightarrow> cdouble \<Rightarrow> bool" where
  "double_eq (Finite a) (Finite b) = (a = b)"
| "double_eq (Infinite s) (Infinite t) = (s = t)"
| "double_eq _ _ = False"

section \<open>Rounding\<close>

definition pow2 :: "int \<Rightarrow> rat" where
  "pow2 e = (if 0 \<le> e then 2 ^ nat e else 1 / 2 ^ nat (- e))"

definition round_half_even :: "rat \<Rightarrow> int" where
  "round_half_even r =
     (let f = \<lfloor>r\<rfloor>; d = r - of_int f in
      if d < 1 / 2 then f else if d > 1 / 2 then f + 1 else if even f then f else f + 1)"

definition double_exponent :: "rat \<Rightarrow> int" where
  "double_exponent r =
     (case quotient_of r of (a, b) \<Rightarrow>
        let e = int (floorlog 2 (nat a)) - int (floorlog 2 (nat b)) - 53
        in if 2 ^ 53 \<le> r / pow2 e then e + 1 else e)"

definition round_double :: "rat \<Rightarrow> rat" where
  "round_double r =
     (if r = 0 then 0
      else sgn r * (of_int (round_half_even (\<bar>r\<bar> / pow2 (double_exponent \<bar>r\<bar>))) *
                    pow2 (double_exponent \<bar>r\<bar>)))"

definition double_of_int :: "int \<Rightarrow> cdouble" where
  "double_of_int n = Finite (round_double (of_int n))"

lemma round_half_even_int [simp]: "round_half_even (of_int n) = n"
  by (simp add: round_half_even_def)

lemma pow2_pos [simp]: "0 < pow2 e"
  by (simp add: pow2_def)

lemma scaled_integer:
  assumes "e \<le> 0"
  shows "of_int n / pow2 e = of_int (n * 2 ^ nat (- e))"
  using assms by (cases "e = 0") (simp_all add: pow2_def)

lemma double_exponent_small:
  assumes "0 < n" and "n < 2 ^ 53"
  shows "double_exponent (of_int n) \<le> 0"
proof -
  have "floorlog 2 (nat n) \<le> 53"
    using assms by (intro floorlog_leI) (auto simp: nat_less_iff)
  then show ?thesis
    by (simp add: double_exponent_def quotient_of_int floorlog_eq_zero_iff Let_def compute_floorlog)
qed

lemma round_double_int:
  assumes "\<bar>n\<bar> < 2 ^ 53"
  shows "round_double (of_int n) = of_int n"
proof (cases "n = 0")
  case False
  let ?m = "\<bar>n\<bar>" and ?e = "double_exponent (of_int \<bar>n\<bar>)"
  have e: "?e \<le> 0" using double_exponent_small [of ?m] assms False by simp
  have "of_int (round_half_even (of_int ?m / pow2 ?e)) * pow2 ?e = of_int ?m"
    unfolding scaled_integer [OF e] round_half_even_int
    using scaled_integer [OF e, of ?m] by (metis less_numeral_extra(3) nonzero_mult_div_cancel_right pow2_pos times_divide_eq_left)
  then have "round_double (of_int n) = sgn (of_int n) * of_int ?m"
    using False by (simp add: round_double_def)
  also have "\<dots> = of_int n" using False by (cases "n < 0") (auto simp: sgn_if)
  finally show ?thesis .
qed (simp add: round_double_def)

lemma double_of_int_exact: "\<bar>n\<bar> < 2 ^ 53 \<Longrightarrow> double_of_int n = Finite (of_int n)"
  by (simp add: double_of_int_def round_double_int)

text \<open>The first integer that a \<open>double\<close> cannot hold.\<close>

lemma round_double_tie: "round_double 9007199254740993 = 9007199254740992"
proof -
  have "\<lfloor>(9007199254740993 :: rat) / 2\<rfloor> = 4503599627370496" by (simp add: floor_eq_iff)
  then show ?thesis
    by (simp add: round_double_def double_exponent_def Let_def compute_floorlog pow2_def round_half_even_def)
qed

text \<open>The largest 64-bit integer rounds up to the next power of two.\<close>

lemma round_double_int64_max: "round_double 9223372036854775807 = 9223372036854775808"
proof -
  have "\<lfloor>(9223372036854775807 :: rat) / 1024\<rfloor> = 9007199254740991" by (simp add: floor_eq_iff)
  then show ?thesis
    by (simp add: round_double_def double_exponent_def Let_def compute_floorlog pow2_def round_half_even_def)
qed

lemma round_double_2_53: "round_double 9007199254740992 = 9007199254740992"
  by (simp add: round_double_def double_exponent_def Let_def compute_floorlog pow2_def round_half_even_def)

end
