(* ===== verification/Measurement.thy ===== *)
theory Measurement
  imports C_Double
begin

text \<open>
  The domain record of \<^verbatim>\<open>src/domain/measurement.h\<close> and its validation in
  \<^verbatim>\<open>src/domain/measurement.c\<close>, with the comparison of \<^verbatim>\<open>src/core/gateway.c\<close>. The text fields are
  the fixed character arrays of the struct; the enumeration \<open>quality\<close> is the integer C stores, so
  that a value outside the enumeration can be represented and rejected.
\<close>

section \<open>Data\<close>

abbreviation (input) MEASUREMENT_SCHEMA_VERSION :: u32 where "MEASUREMENT_SCHEMA_VERSION \<equiv> 1"
abbreviation (input) MEASUREMENT_DEVICE_ID_CAPACITY :: nat where "MEASUREMENT_DEVICE_ID_CAPACITY \<equiv> 64"
abbreviation (input) MEASUREMENT_METRIC_CAPACITY :: nat where "MEASUREMENT_METRIC_CAPACITY \<equiv> 32"
abbreviation (input) MEASUREMENT_UNIT_CAPACITY :: nat where "MEASUREMENT_UNIT_CAPACITY \<equiv> 16"

abbreviation (input) MEASUREMENT_QUALITY_GOOD :: int where "MEASUREMENT_QUALITY_GOOD \<equiv> 0"
abbreviation (input) MEASUREMENT_QUALITY_UNCERTAIN :: int where "MEASUREMENT_QUALITY_UNCERTAIN \<equiv> 1"
abbreviation (input) MEASUREMENT_QUALITY_BAD :: int where "MEASUREMENT_QUALITY_BAD \<equiv> 2"

record measurement_t =
  schema_version :: u32
  device_id :: "char list"
  sequence :: u32
  timestamp_ms :: int
  metric :: "char list"
  m_value :: cdouble
  m_unit :: "char list"
  quality :: int

datatype measurement_validation_result_t =
    MEASUREMENT_VALID
  | MEASUREMENT_INVALID_ARGUMENT
  | MEASUREMENT_UNSUPPORTED_SCHEMA
  | MEASUREMENT_INVALID_DEVICE_ID
  | MEASUREMENT_INVALID_SEQUENCE
  | MEASUREMENT_INVALID_TIMESTAMP
  | MEASUREMENT_INVALID_METRIC
  | MEASUREMENT_INVALID_VALUE
  | MEASUREMENT_INVALID_UNIT
  | MEASUREMENT_INVALID_QUALITY

text \<open>The arrays have the sizes of the struct.\<close>

definition measurement_layout :: "measurement_t \<Rightarrow> bool" where
  "measurement_layout m \<longleftrightarrow>
     length (device_id m) = MEASUREMENT_DEVICE_ID_CAPACITY \<and>
     length (metric m) = MEASUREMENT_METRIC_CAPACITY \<and>
     length (m_unit m) = MEASUREMENT_UNIT_CAPACITY"

section \<open>Validation\<close>

definition measurement_string_is_valid :: "char list option \<Rightarrow> nat \<Rightarrow> bool" where
  "measurement_string_is_valid text_arg capacity =
     (case text_arg of None \<Rightarrow> False
      | Some cs \<Rightarrow> \<not> (capacity = 0 \<or> cs ! 0 = NUL \<or> \<not> memchr_nul cs capacity))"

definition measurement_validate :: "measurement_t option \<Rightarrow> measurement_validation_result_t" where
  "measurement_validate measurement =
     (case measurement of None \<Rightarrow> MEASUREMENT_INVALID_ARGUMENT
      | Some m \<Rightarrow>
          if schema_version m \<noteq> MEASUREMENT_SCHEMA_VERSION then MEASUREMENT_UNSUPPORTED_SCHEMA
          else if \<not> measurement_string_is_valid (Some (device_id m)) MEASUREMENT_DEVICE_ID_CAPACITY
          then MEASUREMENT_INVALID_DEVICE_ID
          else if \<not> measurement_string_is_valid (Some (metric m)) MEASUREMENT_METRIC_CAPACITY
          then MEASUREMENT_INVALID_METRIC
          else if \<not> measurement_string_is_valid (Some (m_unit m)) MEASUREMENT_UNIT_CAPACITY
          then MEASUREMENT_INVALID_UNIT
          else if sequence m = 0 then MEASUREMENT_INVALID_SEQUENCE
          else if timestamp_ms m \<le> 0 then MEASUREMENT_INVALID_TIMESTAMP
          else if quality m < MEASUREMENT_QUALITY_GOOD \<or> quality m > MEASUREMENT_QUALITY_BAD
          then MEASUREMENT_INVALID_QUALITY
          else if \<not> isfinite (m_value m) then MEASUREMENT_INVALID_VALUE
          else MEASUREMENT_VALID)"

text \<open>The comparison of two measurements by their fields, \<open>strcmp\<close> on the texts.\<close>

definition measurement_equals :: "measurement_t \<Rightarrow> measurement_t \<Rightarrow> bool" where
  "measurement_equals left right \<longleftrightarrow>
     schema_version left = schema_version right \<and>
     cstr (device_id left) = cstr (device_id right) \<and>
     sequence left = sequence right \<and>
     timestamp_ms left = timestamp_ms right \<and>
     cstr (metric left) = cstr (metric right) \<and>
     double_eq (m_value left) (m_value right) \<and>
     cstr (m_unit left) = cstr (m_unit right) \<and>
     quality left = quality right"

section \<open>Lemmas\<close>

lemma cstr_empty_iff: "cs \<noteq> [] \<Longrightarrow> cstr cs = [] \<longleftrightarrow> cs ! 0 = NUL"
  by (cases cs) (auto simp: cstr_def)

lemma memchr_nul_iff: "length cs = n \<Longrightarrow> memchr_nul cs n \<longleftrightarrow> length (cstr cs) < n"
proof
  assume l: "length cs = n" and "length (cstr cs) < n"
  show "memchr_nul cs n"
  proof (rule ccontr)
    assume "\<not> memchr_nul cs n"
    then have "cstr cs = cs" using l by (auto simp: memchr_nul_def cstr_def)
    then show False using l \<open>length (cstr cs) < n\<close> by simp
  qed
qed (rule cstr_length_less)

lemma string_is_valid_iff:
  "length cs = n \<Longrightarrow> 0 < n \<Longrightarrow>
    measurement_string_is_valid (Some cs) n \<longleftrightarrow> cstr cs \<noteq> [] \<and> length (cstr cs) < n"
  using cstr_empty_iff [of cs] memchr_nul_iff [of cs n] by (auto simp: measurement_string_is_valid_def)

lemma validate_iff:
  "measurement_validate (Some m) = MEASUREMENT_VALID \<longleftrightarrow>
     schema_version m = 1 \<and> measurement_string_is_valid (Some (device_id m)) 64 \<and>
     measurement_string_is_valid (Some (metric m)) 32 \<and> measurement_string_is_valid (Some (m_unit m)) 16 \<and>
     sequence m \<noteq> 0 \<and> 0 < timestamp_ms m \<and> quality m \<in> {0, 1, 2} \<and> isfinite (m_value m)"
  by (auto simp: measurement_validate_def)

lemma validate_layout_iff:
  "measurement_layout m \<Longrightarrow> measurement_validate (Some m) = MEASUREMENT_VALID \<longleftrightarrow>
    schema_version m = 1 \<and> sequence m \<noteq> 0 \<and> 0 < timestamp_ms m \<and> quality m \<in> {0, 1, 2} \<and>
    isfinite (m_value m) \<and>
    cstr (device_id m) \<noteq> [] \<and> length (cstr (device_id m)) < 64 \<and>
    cstr (metric m) \<noteq> [] \<and> length (cstr (metric m)) < 32 \<and>
    cstr (m_unit m) \<noteq> [] \<and> length (cstr (m_unit m)) < 16"
  unfolding validate_iff measurement_layout_def by (auto simp: string_is_valid_iff)

section \<open>Properties\<close>

text \<open>
  What a valid measurement is: for a struct with its declared array sizes, the validation
  accepts exactly the measurements of schema version 1 with non-empty, terminated texts that fit
  their arrays, a positive sequence number and timestamp, a quality of the enumeration and a
  finite value.
\<close>

theorem measurement_validate_exact:
  assumes "measurement_layout m"
  shows "measurement_validate (Some m) = MEASUREMENT_VALID \<longleftrightarrow>
    schema_version m = 1 \<and> sequence m \<noteq> 0 \<and> 0 < timestamp_ms m \<and> quality m \<in> {0, 1, 2} \<and>
    isfinite (m_value m) \<and>
    cstr (device_id m) \<noteq> [] \<and> length (cstr (device_id m)) < 64 \<and>
    cstr (metric m) \<noteq> [] \<and> length (cstr (metric m)) < 32 \<and>
    cstr (m_unit m) \<noteq> [] \<and> length (cstr (m_unit m)) < 16"
  using assms by (rule validate_layout_iff)

definition sample_measurement :: measurement_t where
  "sample_measurement = \<lparr>schema_version = 1, device_id = carray 64 ''sim-temperature-01'', sequence = 7,
     timestamp_ms = 1787623200000, metric = carray 32 ''temperature'', m_value = Finite (41 / 2),
     m_unit = carray 16 ''celsius'', quality = 0\<rparr>"

lemma sample_layout: "measurement_layout sample_measurement"
  by (simp add: measurement_layout_def sample_measurement_def)

theorem measurement_validate_exact_witness:
  "measurement_validate (Some sample_measurement) = MEASUREMENT_VALID"
  using measurement_validate_exact [OF sample_layout]
  by (simp add: sample_measurement_def cstr_carray cstring_def)

lemma sample_valid: "measurement_validate (Some sample_measurement) = MEASUREMENT_VALID"
  by (simp add: validate_iff string_is_valid_iff sample_measurement_def cstr_carray cstring_def)

end
