(* ===== verification/Sources.thy ===== *)
theory Sources
  imports Serial Modbus Measurement
begin

text \<open>
  The data sources behind the one interface of \<^verbatim>\<open>src/core/measurement_source.c\<close>: the simulated
  source, the raw serial source and the STM32 Modbus source of \<^verbatim>\<open>src/modules/source\<close>. What the
  gateway relies on is the locale \<open>numbered_source\<close>: every measurement a source hands out is
  valid, and the sequence numbers run without a gap. It is interpreted on the simulated and on the
  Modbus source.
\<close>

datatype measurement_source_result_t =
  MEASUREMENT_SOURCE_OK | MEASUREMENT_SOURCE_NO_DATA | MEASUREMENT_SOURCE_ERROR

text \<open>
  The dispatch of \<open>measurement_source_next\<close>: \<open>source\<close> is the interface struct (\<open>None\<close> for NULL)
  with its function pointer; the function takes the context and the output memory.
\<close>

definition measurement_source_next ::
  "('c \<Rightarrow> measurement_t \<Rightarrow> 'w \<Rightarrow> ((measurement_source_result_t \<times> 'c \<times> measurement_t) \<times> 'w) option) option option \<Rightarrow>
   'c \<Rightarrow> measurement_t option \<Rightarrow> 'w \<Rightarrow>
   ((measurement_source_result_t \<times> 'c \<times> measurement_t option) \<times> 'w) option" where
  "measurement_source_next source context out w =
     (case (source, out) of
        (Some (Some next_fn), Some m0) \<Rightarrow>
          map_option (\<lambda>((res, c, m), w'). ((res, c, Some m), w')) (next_fn context m0 w)
      | _ \<Rightarrow> Some ((MEASUREMENT_SOURCE_ERROR, context, out), w))"

section \<open>The contract of a source\<close>

locale numbered_source =
  fixes inv :: "'s \<Rightarrow> bool" and pos :: "'s \<Rightarrow> nat"
    and next_fn :: "'s \<Rightarrow> (measurement_source_result_t \<times> measurement_t \<times> 's) option"
  assumes ok_law: "inv s \<Longrightarrow> pos s < 4294967295 \<Longrightarrow> next_fn s = Some (MEASUREMENT_SOURCE_OK, m, s') \<Longrightarrow>
      inv s' \<and> measurement_validate (Some m) = MEASUREMENT_VALID \<and> unat (sequence m) = pos s \<and> pos s' = pos s + 1"
    and idle_law: "inv s \<Longrightarrow> next_fn s = Some (res, m, s') \<Longrightarrow> res \<noteq> MEASUREMENT_SOURCE_OK \<Longrightarrow>
      inv s' \<and> pos s' = pos s"
begin

text \<open>The measurements of the successful calls among the next \<open>n\<close> ones.\<close>

fun collect :: "nat \<Rightarrow> 's \<Rightarrow> measurement_t list \<times> 's" where
  "collect 0 s = ([], s)"
| "collect (Suc n) s =
     (case next_fn s of
        None \<Rightarrow> ([], s)
      | Some (res, m, s') \<Rightarrow>
          (case collect n s' of (ms, s'') \<Rightarrow> (if res = MEASUREMENT_SOURCE_OK then m # ms else ms, s'')))"

lemma collect_numbered:
  "inv s \<Longrightarrow> pos s + n \<le> 4294967295 \<Longrightarrow> collect n s = (ms, s') \<Longrightarrow>
    inv s' \<and> map (\<lambda>m. unat (sequence m)) ms = [pos s..<pos s'] \<and> pos s \<le> pos s' \<and> pos s' \<le> pos s + n \<and>
    (\<forall>m \<in> set ms. measurement_validate (Some m) = MEASUREMENT_VALID)"
proof (induction n arbitrary: s ms)
  case (Suc n)
  show ?case
  proof (cases "next_fn s")
    case None
    then show ?thesis using Suc.prems by simp
  next
    case (Some r)
    then obtain res m s1 where r: "next_fn s = Some (res, m, s1)" by (metis prod_cases3)
    obtain ms1 where c: "collect n s1 = (ms1, s')" and ms: "ms = (if res = MEASUREMENT_SOURCE_OK then m # ms1 else ms1)"
      using Suc.prems(3) r by (auto split: prod.splits)
    show ?thesis
    proof (cases "res = MEASUREMENT_SOURCE_OK")
      case True
      have l: "inv s1 \<and> measurement_validate (Some m) = MEASUREMENT_VALID \<and> unat (sequence m) = pos s \<and> pos s1 = pos s + 1"
        using Suc.prems(1,2) r True by (intro ok_law) simp_all
      have "inv s' \<and> map (\<lambda>m. unat (sequence m)) ms1 = [pos s1..<pos s'] \<and> pos s1 \<le> pos s' \<and> pos s' \<le> pos s1 + n \<and>
          (\<forall>m \<in> set ms1. measurement_validate (Some m) = MEASUREMENT_VALID)"
        using Suc.IH [OF _ _ c] l Suc.prems(2) by simp
      then show ?thesis using l ms True by (auto simp: upt_conv_Cons)
    next
      case False
      have l: "inv s1 \<and> pos s1 = pos s" using idle_law [OF Suc.prems(1) r False] .
      then show ?thesis using Suc.IH [OF _ _ c] Suc.prems(2) ms False by auto
    qed
  qed
qed auto

end

section \<open>The simulated source\<close>

record simulated_source_t =
  sim_next_sequence :: u32
  sim_next_timestamp_ms :: int

definition simulated_source_init :: simulated_source_t where
  "simulated_source_init = \<lparr>sim_next_sequence = 1, sim_next_timestamp_ms = 1787623200000\<rparr>"

text \<open>
  \<open>next_sequence - 1\<close> wraps at 32 bits; the product with 0.125 and the sum are exact in a
  \<open>double\<close>.
\<close>

definition simulated_measurement :: "simulated_source_t \<Rightarrow> measurement_t" where
  "simulated_measurement src =
     \<lparr>schema_version = MEASUREMENT_SCHEMA_VERSION,
      device_id = carray 64 ''sim-temperature-01'',
      sequence = sim_next_sequence src,
      timestamp_ms = sim_next_timestamp_ms src,
      metric = carray 32 ''temperature'',
      m_value = Finite (20 + of_int (uint (sim_next_sequence src - 1)) / 8),
      m_unit = carray 16 ''celsius'',
      quality = MEASUREMENT_QUALITY_GOOD\<rparr>"

definition simulated_source_next ::
  "simulated_source_t option \<Rightarrow> measurement_t option \<Rightarrow>
   measurement_source_result_t \<times> simulated_source_t option \<times> measurement_t option" where
  "simulated_source_next context out =
     (case (context, out) of
        (Some src, Some _) \<Rightarrow>
          (MEASUREMENT_SOURCE_OK,
           Some \<lparr>sim_next_sequence = sim_next_sequence src + 1,
                 sim_next_timestamp_ms = sim_next_timestamp_ms src + 1\<rparr>,
           Some (simulated_measurement src))
      | _ \<Rightarrow> (MEASUREMENT_SOURCE_ERROR, context, out))"

definition sim_inv :: "simulated_source_t \<Rightarrow> bool" where
  "sim_inv src \<longleftrightarrow> sim_next_sequence src \<noteq> 0 \<and> 0 < sim_next_timestamp_ms src"

definition sim_step :: "simulated_source_t \<Rightarrow> (measurement_source_result_t \<times> measurement_t \<times> simulated_source_t) option" where
  "sim_step src =
     (case simulated_source_next (Some src) (Some sample_measurement) of
        (res, Some src', Some m) \<Rightarrow> Some (res, m, src')
      | _ \<Rightarrow> None)"

lemma simulated_measurement_valid:
  "sim_inv src \<Longrightarrow> measurement_validate (Some (simulated_measurement src)) = MEASUREMENT_VALID"
  by (simp add: validate_iff string_is_valid_iff simulated_measurement_def sim_inv_def cstr_carray cstring_def)

lemma unat_u32_plus1: "unat (w :: u32) < 4294967295 \<Longrightarrow> unat (w + 1) = unat w + 1"
  by (subst unat_add_lem [THEN iffD1]) simp_all

interpretation simulated: numbered_source sim_inv "\<lambda>s. unat (sim_next_sequence s)" sim_step
proof unfold_locales
  fix s m s'
  assume i: "sim_inv s" and p: "unat (sim_next_sequence s) < 4294967295"
    and n: "sim_step s = Some (MEASUREMENT_SOURCE_OK, m, s')"
  have m: "m = simulated_measurement s" and s': "sim_next_sequence s' = sim_next_sequence s + 1"
    "sim_next_timestamp_ms s' = sim_next_timestamp_ms s + 1"
    using n by (auto simp: sim_step_def simulated_source_next_def)
  have u: "unat (sim_next_sequence s') = unat (sim_next_sequence s) + 1"
    using unat_u32_plus1 [OF p] s' by simp
  then have "sim_next_sequence s' \<noteq> 0" by auto
  then show "sim_inv s' \<and> measurement_validate (Some m) = MEASUREMENT_VALID \<and>
      unat (sequence m) = unat (sim_next_sequence s) \<and> unat (sim_next_sequence s') = unat (sim_next_sequence s) + 1"
    using i u m s' simulated_measurement_valid by (simp add: sim_inv_def simulated_measurement_def)
qed (auto simp: sim_step_def simulated_source_next_def)


section \<open>The raw serial source\<close>

abbreviation (input) REAL_SERIAL_SOURCE_CAPACITY :: nat where "REAL_SERIAL_SOURCE_CAPACITY \<equiv> 256"

datatype real_serial_source_result_t =
    REAL_SERIAL_SOURCE_ERROR
  | REAL_SERIAL_SOURCE_CANCELED
  | REAL_SERIAL_SOURCE_TIMEOUT
  | REAL_SERIAL_SOURCE_COMPLETE

record real_serial_source_config_t =
  cfg_serial_path :: "string option"
  cfg_gpiochip_path :: "string option"
  cfg_receive_length :: nat
  cfg_timeout_ms :: int

record real_serial_source_t =
  port :: rs485_port_t
  s_buffer :: "u8 list"
  received :: nat
  receive_length :: nat
  timeout_ms :: int

definition real_serial_source_open ::
  "real_serial_source_t option \<Rightarrow> real_serial_source_config_t option \<Rightarrow> (int \<times> real_serial_source_t option) serial_io" where
  "real_serial_source_open source_arg config_arg w =
     (case (source_arg, config_arg) of
        (Some source, Some config) \<Rightarrow>
          if cfg_receive_length config = 0 \<or> cfg_receive_length config > REAL_SERIAL_SOURCE_CAPACITY \<or>
             cfg_timeout_ms config \<le> 0
          then Some ((-1, source_arg), set_errno E_INVAL w)
          else do { ((rc, p), w1) \<leftarrow> rs485_port_open (Some (port source)) (cfg_serial_path config) (cfg_gpiochip_path config) w;
                    if rc < 0 then Some ((-1, source_arg), w1)
                    else Some ((0, Some (source\<lparr>port := the p, received := 0,
                                               receive_length := cfg_receive_length config,
                                               timeout_ms := cfg_timeout_ms config\<rparr>)), w1) }
      | _ \<Rightarrow> Some ((-1, source_arg), set_errno E_INVAL w))"

definition real_serial_source_close :: "real_serial_source_t option \<Rightarrow> real_serial_source_t option serial_io" where
  "real_serial_source_close source_arg w =
     (case source_arg of None \<Rightarrow> Some (None, w)
      | Some source \<Rightarrow>
          do { (p, w1) \<leftarrow> rs485_port_close (port source) w;
               Some (Some (source\<lparr>port := p, received := 0, receive_length := 0, timeout_ms := 0\<rparr>), w1) })"

definition real_serial_source_send :: "real_serial_source_t option \<Rightarrow> u8 list option \<Rightarrow> nat \<Rightarrow> int serial_io" where
  "real_serial_source_send source_arg data len w =
     (case source_arg of None \<Rightarrow> fail E_INVAL w
      | Some source \<Rightarrow>
          if serial_fd (port source) < 0 then fail E_NODEV w
          else if data = None \<or> len = 0 then fail E_INVAL w
          else rs485_send_frame (serial_fd (port source)) (Some (rse (port source))) data len w)"

definition real_serial_source_read ::
  "real_serial_source_t option \<Rightarrow> bool \<Rightarrow> (real_serial_source_result_t \<times> real_serial_source_t option) serial_io" where
  "real_serial_source_read source_arg cb w =
     (case source_arg of None \<Rightarrow> Some ((REAL_SERIAL_SOURCE_ERROR, None), set_errno E_INVAL w)
      | Some source0 \<Rightarrow>
          let source = source0\<lparr>received := 0\<rparr> in
          if serial_fd (port source) < 0 then Some ((REAL_SERIAL_SOURCE_ERROR, Some source), set_errno E_NODEV w)
          else if receive_length source = 0 \<or> receive_length source > REAL_SERIAL_SOURCE_CAPACITY \<or> timeout_ms source \<le> 0
          then Some ((REAL_SERIAL_SOURCE_ERROR, Some source), set_errno E_INVAL w)
          else do { ((rc, buf, n), w1) \<leftarrow> serial_read_exact_timeout_stop (serial_fd (port source))
                      (Some (s_buffer source)) (receive_length source) (timeout_ms source) cb w;
                    Some ((if rc > 0 then REAL_SERIAL_SOURCE_COMPLETE
                           else if rc = 0 then REAL_SERIAL_SOURCE_TIMEOUT
                           else if w_errno w1 = E_CANCELED then REAL_SERIAL_SOURCE_CANCELED
                           else REAL_SERIAL_SOURCE_ERROR,
                           Some (source\<lparr>s_buffer := the buf, received := n\<rparr>)), w1) })"

definition placeholder_next :: "measurement_t option \<Rightarrow> measurement_source_result_t" where
  "placeholder_next out = (if out = None then MEASUREMENT_SOURCE_ERROR else MEASUREMENT_SOURCE_NO_DATA)"

section \<open>The STM32 Modbus source\<close>

abbreviation (input) STM32_RAW_VALUE_LIMIT :: u16 where "STM32_RAW_VALUE_LIMIT \<equiv> 1000"

datatype stm32_query_result_t = STM32_QUERY_ERROR | STM32_QUERY_NO_DATA | STM32_QUERY_OK

text \<open>\<open>has_stop\<close> says whether the \<open>should_stop\<close> callback is set.\<close>

record stm32_modbus_source_t =
  serial :: real_serial_source_t
  next_sequence :: u32
  pending :: measurement_t
  pending_valid :: bool
  has_stop :: bool

definition zero_measurement :: measurement_t where
  "zero_measurement = \<lparr>schema_version = 0, device_id = replicate 64 NUL, sequence = 0, timestamp_ms = 0,
     metric = replicate 32 NUL, m_value = Finite 0, m_unit = replicate 16 NUL, quality = 0\<rparr>"

text \<open>
  The tail of a transaction: the bytes after the three-byte head, into \<open>response + 3\<close>, under the
  same deadline, and the check of the whole frame.
\<close>

definition query_rest ::
  "stm32_modbus_source_t \<Rightarrow> nat \<Rightarrow> int \<Rightarrow> (stm32_query_result_t \<times> u16 \<times> u16 \<times> stm32_modbus_source_t) serial_io" where
  "query_rest source remaining deadline_ns w =
     do { ((rc, tail, part), w1) \<leftarrow> serial_read_exact_until_stop (serial_fd (port (serial source)))
            (Some (drop 3 (s_buffer (serial source)))) remaining deadline_ns (has_stop source) w;
          let s1 = (serial source)\<lparr>s_buffer := take 3 (s_buffer (serial source)) @ the tail,
                                   received := received (serial source) + part\<rparr>;
              source1 = source\<lparr>serial := s1\<rparr>;
              response = s_buffer s1
          in if rc < 0
             then Some ((if w_errno w1 = E_CANCELED then STM32_QUERY_NO_DATA else STM32_QUERY_ERROR, 0, 0, source1), w1)
             else if rc = 0 then Some ((STM32_QUERY_NO_DATA, 0, 0, source1), w1)
             else if fst (modbus_rtu_check_read_registers (Some response) (received s1) 1 0x04 2 (Some 0)) \<noteq> MODBUS_RESPONSE_NORMAL
                     \<or> received s1 \<noteq> 9
             then Some ((STM32_QUERY_NO_DATA, 0, 0, source1), w1)
             else Some ((STM32_QUERY_OK, be16 (response ! 3) (response ! 4), be16 (response ! 5) (response ! 6), source1), w1) }"

definition query_registers ::
  "stm32_modbus_source_t \<Rightarrow> (stm32_query_result_t \<times> u16 \<times> u16 \<times> stm32_modbus_source_t) serial_io" where
  "query_registers source0 w =
     (let source = source0\<lparr>serial := (serial source0)\<lparr>received := 0\<rparr>\<rparr> in
      do { (stop, w1) \<leftarrow> stop_requested (has_stop source) w;
        if stop then Some ((STM32_QUERY_NO_DATA, 0, 0, source), w1)
        else case modbus_rtu_build_read_registers 1 0x04 1 2 (Some (replicate 8 0)) of
          (rc, request) \<Rightarrow>
            if rc \<noteq> 8 then Some ((STM32_QUERY_ERROR, 0, 0, source), set_errno E_PROTO w1)
            else do { (rc, w2) \<leftarrow> real_serial_source_send (Some (serial source)) request 8 w1;
              if rc < 0 then Some ((STM32_QUERY_ERROR, 0, 0, source), w2)
              else do { ((rc, deadline), w3) \<leftarrow> serial_deadline_after_ms (timeout_ms (serial source)) w2;
                if rc < 0 then Some ((STM32_QUERY_ERROR, 0, 0, source), w3)
                else do { ((rc, buf, part), w4) \<leftarrow> serial_read_exact_until_stop (serial_fd (port (serial source)))
                            (Some (s_buffer (serial source))) 3 (the deadline) (has_stop source) w3;
                  let source1 = source\<lparr>serial := (serial source)\<lparr>s_buffer := the buf, received := part\<rparr>\<rparr>;
                      response = the buf
                  in if rc < 0
                     then Some ((if w_errno w4 = E_CANCELED then STM32_QUERY_NO_DATA else STM32_QUERY_ERROR, 0, 0, source1), w4)
                     else if rc = 0 then Some ((STM32_QUERY_NO_DATA, 0, 0, source1), w4)
                     else if response ! 0 = 1 \<and> response ! 1 = 0x04 \<and> response ! 2 = 4
                     then query_rest source1 6 (the deadline) w4
                     else if response ! 0 = 1 \<and> response ! 1 = 0x04 OR 0x80
                     then query_rest source1 2 (the deadline) w4
                     else Some ((STM32_QUERY_NO_DATA, 0, 0, source1), w4) } } } })"

text \<open>\<open>CLOCK_REALTIME\<close> in milliseconds, \<open>-1\<close> when the clock fails.\<close>

definition realtime_milliseconds :: "int serial_io" where
  "realtime_milliseconds w =
     (case w_realtime w of [] \<Rightarrow> None
      | None # rs \<Rightarrow> Some (-1, w\<lparr>w_realtime := rs\<rparr>)
      | Some (sec, nsec) # rs \<Rightarrow> Some (sec * 1000 + nsec div 1000000, w\<lparr>w_realtime := rs\<rparr>))"

definition dht11_measurement :: "u32 \<Rightarrow> int \<Rightarrow> string \<Rightarrow> u16 \<Rightarrow> string \<Rightarrow> measurement_t" where
  "dht11_measurement seqno ts metric_name raw unit_name =
     \<lparr>schema_version = MEASUREMENT_SCHEMA_VERSION, device_id = carray 64 ''stm32-dht11-01'',
      sequence = seqno, timestamp_ms = ts, metric = carray 32 metric_name,
      m_value = Finite (round_double (of_nat (unat raw) / 10)), m_unit = carray 16 unit_name,
      quality = MEASUREMENT_QUALITY_UNCERTAIN\<rparr>"

definition map_measurements ::
  "stm32_modbus_source_t \<Rightarrow> u16 \<Rightarrow> u16 \<Rightarrow> (measurement_t \<times> measurement_t) option serial_io" where
  "map_measurements source reg0 reg1 w =
     (if reg0 > STM32_RAW_VALUE_LIMIT \<or> reg1 > STM32_RAW_VALUE_LIMIT \<or>
         next_sequence source = 0 \<or> next_sequence source = 4294967295
      then Some (None, w)
      else do { (ts, w1) \<leftarrow> realtime_milliseconds w;
        if ts \<le> 0 then Some (None, w1)
        else let p0 = dht11_measurement (next_sequence source) ts ''temperature'' reg0 ''celsius'';
                 p1 = dht11_measurement (next_sequence source + 1) ts ''humidity'' reg1 ''percent''
             in if measurement_validate (Some p0) \<noteq> MEASUREMENT_VALID \<or>
                   measurement_validate (Some p1) \<noteq> MEASUREMENT_VALID
                then Some (None, w1) else Some (Some (p0, p1), w1) })"

definition stm32_next ::
  "stm32_modbus_source_t option \<Rightarrow> measurement_t option \<Rightarrow>
   (measurement_source_result_t \<times> stm32_modbus_source_t option \<times> measurement_t option) serial_io" where
  "stm32_next context out w =
     (case (context, out) of
        (Some source, Some _) \<Rightarrow>
          if serial_fd (port (serial source)) < 0 then Some ((MEASUREMENT_SOURCE_ERROR, context, out), w)
          else if pending_valid source
          then Some ((MEASUREMENT_SOURCE_OK,
                      Some (source\<lparr>pending := zero_measurement, pending_valid := False\<rparr>),
                      Some (pending source)), w)
          else do { ((query, reg0, reg1, source1), w1) \<leftarrow> query_registers source w;
            if query = STM32_QUERY_NO_DATA then Some ((MEASUREMENT_SOURCE_NO_DATA, Some source1, out), w1)
            else if query \<noteq> STM32_QUERY_OK then Some ((MEASUREMENT_SOURCE_ERROR, Some source1, out), w1)
            else do { (mapped, w2) \<leftarrow> map_measurements source1 reg0 reg1 w1;
              case mapped of
                None \<Rightarrow> Some ((MEASUREMENT_SOURCE_NO_DATA, Some source1, out), w2)
              | Some (m0, m1) \<Rightarrow>
                  Some ((MEASUREMENT_SOURCE_OK,
                         Some (source1\<lparr>pending := m1, pending_valid := True,
                                       next_sequence := next_sequence source1 + 2\<rparr>),
                         Some m0), w2) } }
      | _ \<Rightarrow> Some ((MEASUREMENT_SOURCE_ERROR, context, out), w))"


definition stm32_modbus_source_open ::
  "stm32_modbus_source_t option \<Rightarrow> (string option \<times> string option \<times> int \<times> bool) option \<Rightarrow>
   (int \<times> stm32_modbus_source_t option) serial_io" where
  "stm32_modbus_source_open source_arg config_arg w =
     (case (source_arg, config_arg) of
        (Some source, Some (serial_path, gpiochip_path, timeout, stop)) \<Rightarrow>
          if serial_path = None \<or> gpiochip_path = None \<or> timeout \<le> 0
          then Some ((-1, source_arg), set_errno E_INVAL w)
          else do { ((rc, s), w1) \<leftarrow> real_serial_source_open (Some (serial source))
                      (Some \<lparr>cfg_serial_path = serial_path, cfg_gpiochip_path = gpiochip_path,
                             cfg_receive_length = 9, cfg_timeout_ms = timeout\<rparr>) w;
                    if rc \<noteq> 0 then Some ((-1, Some (source\<lparr>serial := the s\<rparr>)), w1)
                    else Some ((0, Some \<lparr>serial = the s, next_sequence = 1, pending = zero_measurement,
                                         pending_valid = False, has_stop = stop\<rparr>), w1) }
      | _ \<Rightarrow> Some ((-1, source_arg), set_errno E_INVAL w))"

definition stm32_modbus_source_close :: "stm32_modbus_source_t option \<Rightarrow> stm32_modbus_source_t option serial_io" where
  "stm32_modbus_source_close source_arg w =
     (case source_arg of None \<Rightarrow> Some (None, w)
      | Some source \<Rightarrow>
          do { (s, w1) \<leftarrow> real_serial_source_close (Some (serial source)) w;
               Some (Some \<lparr>serial = the s, next_sequence = 1, pending = zero_measurement,
                           pending_valid = False, has_stop = False\<rparr>, w1) })"

section \<open>The Modbus source numbers its measurements without a gap\<close>

definition stm32_inv :: "stm32_modbus_source_t \<Rightarrow> bool" where
  "stm32_inv s \<longleftrightarrow> odd (unat (next_sequence s)) \<and>
     (pending_valid s \<longrightarrow> 3 \<le> unat (next_sequence s) \<and> sequence (pending s) = next_sequence s - 1 \<and>
        measurement_validate (Some (pending s)) = MEASUREMENT_VALID)"

definition stm32_pos :: "stm32_modbus_source_t \<Rightarrow> nat" where
  "stm32_pos s = unat (if pending_valid s then next_sequence s - 1 else next_sequence s)"

definition stm32_step ::
  "stm32_modbus_source_t \<times> serial_world \<Rightarrow>
   (measurement_source_result_t \<times> measurement_t \<times> (stm32_modbus_source_t \<times> serial_world)) option" where
  "stm32_step sw =
     (case stm32_next (Some (fst sw)) (Some sample_measurement) (snd sw) of
        Some ((res, Some s, Some m), w) \<Rightarrow> Some (res, m, (s, w))
      | _ \<Rightarrow> None)"

definition same_counters :: "stm32_modbus_source_t \<Rightarrow> stm32_modbus_source_t \<Rightarrow> bool" where
  "same_counters s s' \<longleftrightarrow> next_sequence s' = next_sequence s \<and> pending s' = pending s \<and> pending_valid s' = pending_valid s"

lemma query_rest_counters:
  "query_rest s n d w = Some ((q, r0, r1, s'), w') \<Longrightarrow> same_counters s s'"
  by (auto simp: query_rest_def bind_eq_Some_conv Let_def same_counters_def split: if_splits)

lemma query_registers_counters:
  assumes "query_registers s w = Some ((q, r0, r1, s'), w')"
  shows "same_counters s s'"
proof -
  have r: "query_rest (s\<lparr>serial := x\<rparr>) n d v = Some ((q, r0, r1, s'), w') \<Longrightarrow> same_counters s s'" for x n d v
    using query_rest_counters by (fastforce simp: same_counters_def)
  show ?thesis
    using assms
    by (auto simp: query_registers_def bind_eq_Some_conv Let_def same_counters_def [of s "s\<lparr>serial := _\<rparr>"]
        split: if_splits prod.splits dest!: r)
qed


lemma map_measurements_valid:
  assumes "map_measurements s r0 r1 w = Some (Some (m0, m1), w')"
  shows "measurement_validate (Some m0) = MEASUREMENT_VALID \<and> measurement_validate (Some m1) = MEASUREMENT_VALID \<and>
    sequence m0 = next_sequence s \<and> sequence m1 = next_sequence s + 1 \<and> next_sequence s \<noteq> 4294967295 \<and>
    r0 \<le> 1000 \<and> r1 \<le> 1000"
  using assms
  by (auto simp: map_measurements_def bind_eq_Some_conv Let_def dht11_measurement_def not_less split: if_splits)

lemma odd_below_max:
  assumes "odd (unat (n :: u32))" and "n \<noteq> 4294967295"
  shows "unat (n + 1) = unat n + 1 \<and> unat (n + 2) = unat n + 2"
proof -
  have "unat n < 4294967296" using unsigned_less [of n, where ?'a = nat] by simp
  moreover have "unat n \<noteq> 4294967295"
  proof
    assume "unat n = 4294967295"
    then have "n = of_nat 4294967295" by (metis of_nat_unat ucast_id)
    then show False using assms(2) by simp
  qed
  moreover have "unat n \<noteq> 4294967294" using assms(1) by auto
  ultimately have "unat n < 4294967294" by linarith
  then show ?thesis
    by (simp add: unat_word_ariths(1))
qed

text \<open>One call that hands out a measurement: the pending one, or the first of a new pair.\<close>

lemma stm32_step_ok:
  assumes inv: "stm32_inv s" and st: "stm32_step (s, w) = Some (MEASUREMENT_SOURCE_OK, m, (s', w'))"
  shows "stm32_inv s' \<and> measurement_validate (Some m) = MEASUREMENT_VALID \<and> unat (sequence m) = stm32_pos s \<and>
    stm32_pos s' = stm32_pos s + 1"
proof (cases "pending_valid s")
  case True
  have m: "m = pending s" and s': "s' = s\<lparr>pending := zero_measurement, pending_valid := False\<rparr>"
    using st True by (auto simp: stm32_step_def stm32_next_def split: if_splits)
  have "unat (next_sequence s - 1) + 1 = unat (next_sequence s)"
    using inv True by (simp add: stm32_inv_def unat_sub word_le_nat_alt)
  then show ?thesis using inv True m s' by (auto simp: stm32_inv_def stm32_pos_def)
next
  case False
  then obtain q r0 r1 s1 w1 where q: "query_registers s w = Some ((q, r0, r1, s1), w1)"
    using st by (auto simp: stm32_step_def stm32_next_def bind_eq_Some_conv split: if_splits option.splits)
  then obtain m1 w2 where mm: "map_measurements s1 r0 r1 w1 = Some (Some (m, m1), w2)"
    and s': "s' = s1\<lparr>pending := m1, pending_valid := True, next_sequence := next_sequence s1 + 2\<rparr>"
    using st False
    by (auto simp: stm32_step_def stm32_next_def bind_eq_Some_conv split: if_splits option.splits prod.splits)
  note v = map_measurements_valid [OF mm]
  have c: "next_sequence s1 = next_sequence s" using query_registers_counters [OF q] by (simp add: same_counters_def)
  have o: "odd (unat (next_sequence s))" using inv by (simp add: stm32_inv_def)
  then have p: "1 \<le> unat (next_sequence s)" by (cases "unat (next_sequence s)") auto
  have "next_sequence s \<noteq> 4294967295" using v c by simp
  note u = odd_below_max [OF o this]
  have u1: "unat (1 + next_sequence s) = Suc (unat (next_sequence s))" using u by (simp add: add.commute)
  show ?thesis using v c u u1 o p False by (simp add: s' stm32_inv_def stm32_pos_def)
qed

lemma stm32_step_idle:
  assumes "stm32_inv s" and "stm32_step (s, w) = Some (res, m, (s', w'))" and "res \<noteq> MEASUREMENT_SOURCE_OK"
  shows "stm32_inv s' \<and> stm32_pos s' = stm32_pos s"
  using assms query_registers_counters
  by (fastforce simp: stm32_step_def stm32_next_def bind_eq_Some_conv same_counters_def stm32_inv_def stm32_pos_def
      split: if_splits option.splits prod.splits)

interpretation stm32: numbered_source "\<lambda>sw. stm32_inv (fst sw)" "\<lambda>sw. stm32_pos (fst sw)" stm32_step
proof unfold_locales
  fix s m s'
  assume "stm32_inv (fst s)" "stm32_step s = Some (MEASUREMENT_SOURCE_OK, m, s')"
  then show "stm32_inv (fst s') \<and> measurement_validate (Some m) = MEASUREMENT_VALID \<and>
      unat (sequence m) = stm32_pos (fst s) \<and> stm32_pos (fst s') = stm32_pos (fst s) + 1"
    using stm32_step_ok by (cases s; cases s') auto
next
  fix s res m s'
  assume "stm32_inv (fst s)" "stm32_step s = Some (res, m, s')" "res \<noteq> MEASUREMENT_SOURCE_OK"
  then show "stm32_inv (fst s') \<and> stm32_pos (fst s') = stm32_pos (fst s)"
    using stm32_step_idle by (cases s; cases s') auto
qed


lemma query_rest_checked:
  "query_rest s n d w = Some ((STM32_QUERY_OK, r0, r1, s'), w') \<Longrightarrow>
    \<exists>frame e. modbus_rtu_check_read_registers (Some frame) 9 1 4 2 (Some 0) = (MODBUS_RESPONSE_NORMAL, e) \<and>
      r0 = be16 (frame ! 3) (frame ! 4) \<and> r1 = be16 (frame ! 5) (frame ! 6)"
  by (auto simp: query_rest_def bind_eq_Some_conv Let_def split: if_splits) (metis prod.collapse)+

lemma query_registers_checked:
  "query_registers s w = Some ((STM32_QUERY_OK, r0, r1, s'), w') \<Longrightarrow>
    \<exists>frame e. modbus_rtu_check_read_registers (Some frame) 9 1 4 2 (Some 0) = (MODBUS_RESPONSE_NORMAL, e) \<and>
      r0 = be16 (frame ! 3) (frame ! 4) \<and> r1 = be16 (frame ! 5) (frame ! 6)"
  by (auto simp: query_registers_def bind_eq_Some_conv Let_def split: if_splits prod.splits dest!: query_rest_checked)

section \<open>Properties\<close>

text \<open>A client that calls the Modbus source \<open>n\<close> times and keeps the measurements.\<close>

fun stm32_calls ::
  "nat \<Rightarrow> stm32_modbus_source_t \<Rightarrow> serial_world \<Rightarrow> measurement_t list \<times> stm32_modbus_source_t \<times> serial_world" where
  "stm32_calls 0 s w = ([], s, w)"
| "stm32_calls (Suc n) s w =
     (case stm32_next (Some s) (Some sample_measurement) w of
        Some ((res, Some s1, Some m), w1) \<Rightarrow>
          (case stm32_calls n s1 w1 of (ms, s', w') \<Rightarrow> (if res = MEASUREMENT_SOURCE_OK then m # ms else ms, s', w'))
      | _ \<Rightarrow> ([], s, w))"

lemma stm32_calls_collect: "stm32_calls n s w = stm32.collect n (s, w)"
  by (induction n arbitrary: s w) (auto simp: stm32_step_def split: option.splits prod.splits)

text \<open>
  The Modbus source numbers its measurements without a gap: whatever the device and the line do,
  the measurements of any run of calls are all valid and carry consecutive sequence numbers, in
  order, starting where the source stands; failed calls use up no number.
\<close>

theorem stm32_sequences_consecutive:
  assumes "stm32_inv s" and "stm32_pos s + n \<le> 4294967295" and "stm32_calls n s w = (ms, s', w')"
  shows "map (\<lambda>m. unat (sequence m)) ms = [stm32_pos s..<stm32_pos s'] \<and> stm32_inv s' \<and>
    (\<forall>m \<in> set ms. measurement_validate (Some m) = MEASUREMENT_VALID)"
proof -
  have c: "stm32.collect n (s, w) = (ms, (s', w'))" using assms(3) by (simp add: stm32_calls_collect)
  show ?thesis using stm32.collect_numbered [OF _ _ c] assms(1,2) by simp
qed

definition demo_source :: stm32_modbus_source_t where
  "demo_source = \<lparr>serial = \<lparr>port = RS485_PORT_INITIALIZER\<lparr>serial_fd := 3\<rparr>, s_buffer = replicate 256 0, received = 0,
     receive_length = 9, timeout_ms = 1000\<rparr>, next_sequence = 8, pending = sample_measurement\<lparr>sequence := 7\<rparr>,
     pending_valid = True, has_stop = False\<rparr>"

theorem stm32_sequences_consecutive_witness:
  "map (\<lambda>m. unat (sequence m)) (fst (stm32_calls 1 (demo_source\<lparr>next_sequence := 9,
      pending := sample_measurement\<lparr>sequence := 8\<rparr>\<rparr>) demo_world)) = [8..<9]"
proof -
  let ?s = "demo_source\<lparr>next_sequence := 9, pending := sample_measurement\<lparr>sequence := 8\<rparr>\<rparr>"
  let ?s' = "?s\<lparr>pending := zero_measurement, pending_valid := False\<rparr>"
  have v: "measurement_validate (Some (sample_measurement\<lparr>sequence := 8\<rparr>)) = MEASUREMENT_VALID"
    using sample_valid by (simp add: validate_iff)
  have i: "stm32_inv ?s" using v by (simp add: stm32_inv_def demo_source_def)
  have c: "stm32_calls 1 ?s demo_world = ([sample_measurement\<lparr>sequence := 8\<rparr>], ?s', demo_world)"
    by (simp add: stm32_next_def demo_source_def RS485_PORT_INITIALIZER_def)
  show ?thesis using stm32_sequences_consecutive [OF i _ c] c by (simp add: stm32_pos_def demo_source_def)
qed



text \<open>A transaction: the device answers 25.3 degrees and 50.0 percent.\<close>

definition dht_world :: serial_world where
  "dht_world = demo_world\<lparr>w_clock := replicate 9 (Some (5, 0)), w_reads := [Inr [1, 4, 4], Inr [0, 0xFD, 1, 0xF4, 0x6A, 0x63]],
     w_writes := [Inr 8], w_outq := [Inr 0, Inr 0], w_lsr := [Inr True, Inr True]\<rparr>"

definition dht_source :: stm32_modbus_source_t where
  "dht_source = \<lparr>serial = \<lparr>port = \<lparr>serial_fd = 3, rse = \<lparr>chip_fd = 4, line_fd = 5\<rparr>\<rparr>, s_buffer = replicate 9 0,
     received = 0, receive_length = 9, timeout_ms = 1000\<rparr>, next_sequence = 1, pending = zero_measurement,
     pending_valid = False, has_stop = False\<rparr>"

lemma dht_request:
  "modbus_rtu_build_read_registers 1 4 1 2 (Some (replicate 8 0)) = (8, Some [1, 4, 0, 1, 0, 2, 0x20, 0x0B])"
proof -
  have l: "8 \<le> length (replicate 8 (0 :: u8))" by simp
  have s: "segment ([1, 4, 0, 1, 0, 2] @ drop 6 (replicate 8 (0 :: u8))) 0 6 = [1, 4, 0, 1, 0, 2]"
    by (simp add: segment_def)
  have b: "ucast (drop_bit 8 (1 :: u16)) = (0 :: u8)" "ucast (1 :: u16) = (1 :: u8)"
    "ucast (drop_bit 8 (2 :: u16)) = (0 :: u8)" "ucast (2 :: u16) = (2 :: u8)"
    by simp_all
  show ?thesis
    unfolding modbus_rtu_build_read_registers_def option.case Let_def update_six [OF l] update_crc [OF l] b s
    by (simp add: crc_eval)
qed

lemma dht_response:
  "fst (modbus_rtu_check_read_registers (Some [1, 4, 4, 0, 0xFD, 1, 0xF4, 0x6A, 0x63]) 9 1 4 2 (Some 0)) = MODBUS_RESPONSE_NORMAL"
  by (simp add: modbus_rtu_check_read_registers_def segment_def crc_eval)

lemma dht_send:
  "rs485_send_frame 3 (Some \<lparr>chip_fd = 4, line_fd = 5\<rparr>) (Some [1, 4, 0, 1, 0, 2, 0x20, 0x0B]) 8 dht_world =
    Some (0, dht_world\<lparr>w_clock := replicate 5 (Some (5, 0)), w_writes := [], w_outq := [], w_lsr := [], w_gpio := [],
      w_wire := [1, 4, 0, 1, 0, 2, 0x20, 0x0B]\<rparr>)"
  by code_simp


definition dht_world1 :: serial_world where
  "dht_world1 = dht_world\<lparr>w_clock := replicate 4 (Some (5, 0)), w_writes := [], w_outq := [], w_lsr := [], w_gpio := [],
      w_wire := [1, 4, 0, 1, 0, 2, 0x20, 0x0B]\<rparr>"

lemma dht_deadline:
  "serial_deadline_after_ms 1000 (dht_world\<lparr>w_clock := replicate 5 (Some (5, 0)), w_writes := [], w_outq := [], w_lsr := [],
      w_gpio := [], w_wire := [1, 4, 0, 1, 0, 2, 0x20, 0x0B]\<rparr>) = Some ((0, Some 6000000000), dht_world1)"
  by code_simp

definition dht_world2 :: serial_world where
  "dht_world2 = dht_world1\<lparr>w_clock := replicate 2 (Some (5, 0)), w_reads := [Inr [0, 0xFD, 1, 0xF4, 0x6A, 0x63]],
     w_polls := [PollReady False True]\<rparr>"

lemma dht_head:
  "serial_read_exact_until_stop 3 (Some (replicate 9 0)) 3 6000000000 False dht_world1 =
    Some ((1, Some [1, 4, 4, 0, 0, 0, 0, 0, 0], 3), dht_world2)"
  by code_simp

lemma dht_tail:
  "serial_read_exact_until_stop 3 (Some [0, 0, 0, 0, 0, 0]) 6 6000000000 False dht_world2 =
    Some ((1, Some [0, 0xFD, 1, 0xF4, 0x6A, 0x63], 6), dht_world2\<lparr>w_clock := [], w_reads := [], w_polls := []\<rparr>)"
  by code_simp

lemma dht_query:
  "\<exists>s w. query_registers dht_source dht_world = Some ((STM32_QUERY_OK, 0xFD, 0x1F4, s), w) \<and>
    w_realtime w = [Some (1787623200, 5000000)]"
  using dht_response
  by (simp add: query_registers_def query_rest_def dht_source_def stop_requested_def dht_request real_serial_source_send_def
      dht_send dht_deadline dht_head dht_tail Let_def be16_def numeral_3_eq_3 [symmetric])
    (simp add: dht_world2_def dht_world1_def dht_world_def demo_world_def)


lemma dht11_valid:
  "seqno \<noteq> 0 \<Longrightarrow> 0 < ts \<Longrightarrow> cstring met \<Longrightarrow> met \<noteq> [] \<Longrightarrow> length met < 32 \<Longrightarrow> cstring un \<Longrightarrow> un \<noteq> [] \<Longrightarrow>
    length un < 16 \<Longrightarrow> measurement_validate (Some (dht11_measurement seqno ts met raw un)) = MEASUREMENT_VALID"
  by (simp add: validate_iff string_is_valid_iff dht11_measurement_def cstr_carray cstring_def)

lemma dht_next:
  "\<exists>s' m w'. stm32_next (Some dht_source) (Some sample_measurement) dht_world =
    Some ((MEASUREMENT_SOURCE_OK, Some s', Some m), w')"
proof -
  obtain s w where q: "query_registers dht_source dht_world = Some ((STM32_QUERY_OK, 0xFD, 0x1F4, s), w)"
    and r: "w_realtime w = [Some (1787623200, 5000000)]"
    using dht_query by blast
  have "next_sequence s = 1" using query_registers_counters [OF q] by (simp add: same_counters_def dht_source_def)
  then have "\<exists>m0 m1 w2. map_measurements s 0xFD 0x1F4 w = Some (Some (m0, m1), w2)"
    by (simp add: map_measurements_def realtime_milliseconds_def r Let_def dht11_valid cstring_def)
  then show ?thesis using q by (auto simp: stm32_next_def) (simp_all add: dht_source_def)
qed


text \<open>The simulated source after \<open>k\<close> calls.\<close>

fun sim_after :: "nat \<Rightarrow> simulated_source_t \<Rightarrow> simulated_source_t" where
  "sim_after 0 src = src"
| "sim_after (Suc k) src =
     (case simulated_source_next (Some src) (Some sample_measurement) of (_, Some src', _) \<Rightarrow> sim_after k src' | _ \<Rightarrow> src)"

lemma sim_after_fields:
  "sim_next_sequence (sim_after k src) = sim_next_sequence src + of_nat k \<and>
   sim_next_timestamp_ms (sim_after k src) = sim_next_timestamp_ms src + int k"
  by (induction k arbitrary: src) (auto simp: simulated_source_next_def)

text \<open>
  The simulated source produces valid measurements with consecutive sequence numbers until its
  32-bit counter is used up: after \<open>k < 2^32 - 1\<close> calls the next measurement is valid, has sequence
  \<open>k + 1\<close>, timestamp \<open>k\<close> milliseconds after the first and value \<open>20 + k / 8\<close>.
\<close>

theorem simulated_source_kth:
  assumes "k < 4294967295"
  shows "\<exists>src m. simulated_source_next (Some (sim_after k simulated_source_init)) (Some out) =
      (MEASUREMENT_SOURCE_OK, Some src, Some m) \<and>
    measurement_validate (Some m) = MEASUREMENT_VALID \<and> unat (sequence m) = k + 1 \<and>
    timestamp_ms m = 1787623200000 + int k \<and> m_value m = Finite (20 + of_nat k / 8)"
proof -
  let ?s = "sim_after k simulated_source_init"
  have s: "sim_next_sequence ?s = of_nat (k + 1)" and t: "sim_next_timestamp_ms ?s = 1787623200000 + int k"
    using sim_after_fields [of k simulated_source_init] by (simp_all add: simulated_source_init_def)
  have u: "unat (of_nat (k + 1) :: u32) = k + 1" using assms by (subst unat_of_nat) simp
  then have "sim_next_sequence ?s \<noteq> 0" using s by (metis add_is_0 one_neq_zero unat_0)
  then have "sim_inv ?s" using t by (simp add: sim_inv_def)
  moreover have "uint (sim_next_sequence ?s - 1) = int k"
    using assms by (simp add: s unsigned_of_nat take_bit_nat_eq_self)
  ultimately show ?thesis
    using simulated_measurement_valid [of ?s] u s t
    by (simp add: simulated_source_next_def simulated_measurement_def del: of_int_uint)
qed

theorem simulated_source_kth_witness:
  "\<exists>src m. simulated_source_next (Some (sim_after 3 simulated_source_init)) (Some sample_measurement) =
      (MEASUREMENT_SOURCE_OK, Some src, Some m) \<and>
    measurement_validate (Some m) = MEASUREMENT_VALID \<and> unat (sequence m) = 3 + 1 \<and>
    timestamp_ms m = 1787623200000 + int 3 \<and> m_value m = Finite (20 + of_nat 3 / 8)"
  by (rule simulated_source_kth) simp

text \<open>The bound is sharp: the counter then wraps to zero, and the source still reports success for
  a measurement that the validation rejects.\<close>

lemma simulated_source_wraps:
  "sim_next_sequence src = 4294967295 \<Longrightarrow> 0 < sim_next_timestamp_ms src \<Longrightarrow>
    \<exists>src' m. simulated_source_next (Some (sim_after 1 src)) (Some out) = (MEASUREMENT_SOURCE_OK, Some src', Some m) \<and>
      measurement_validate (Some m) = MEASUREMENT_INVALID_SEQUENCE"
  by (simp add: simulated_source_next_def simulated_measurement_def measurement_validate_def string_is_valid_iff
      cstr_carray cstring_def)

end
