(* ===== verification/Measurement_Json.thy ===== *)
theory Measurement_Json
  imports Measurement C_Text
begin

text \<open>
  The JSON codec of \<^verbatim>\<open>src/domain/measurement_json.c\<close>. cJSON's tree is a datatype; its text parser
  and printer are arguments (\<open>parse_text\<close>, \<open>print_text\<close>). The decoder reads the eight fields in the
  order of the code, with the three layers each field has there: present, of the right type, in
  range. The encoder builds the tree field by field; the k-th allocation succeeds when \<open>alloc k\<close>.
\<close>

section \<open>Data\<close>

datatype measurement_json_result_t =
    MEASUREMENT_JSON_OK
  | MEASUREMENT_JSON_INVALID_ARGUMENT
  | MEASUREMENT_JSON_PARSE_ERROR
  | MEASUREMENT_JSON_ROOT_NOT_OBJECT
  | MEASUREMENT_JSON_MISSING_FIELD
  | MEASUREMENT_JSON_WRONG_TYPE
  | MEASUREMENT_JSON_OUT_OF_RANGE
  | MEASUREMENT_JSON_UNSUPPORTED_SCHEMA
  | MEASUREMENT_JSON_INVALID_MEASUREMENT
  | MEASUREMENT_JSON_ALLOCATION_ERROR

text \<open>A string node may lack its \<open>valuestring\<close>; a raw node holds text that is printed as it is.\<close>

datatype cjson =
    JNull
  | JBool bool
  | JNumber cdouble
  | JString "string option"
  | JRaw string
  | JArray "cjson list"
  | JObject "(string \<times> cjson) list"

text \<open>\<open>cJSON_GetObjectItemCaseSensitive\<close>: the first member with exactly this name.\<close>

definition get_item :: "(string \<times> cjson) list \<Rightarrow> string \<Rightarrow> cjson option" where
  "get_item members key = map_of members key"

section \<open>Decoding\<close>

definition json_text_field ::
  "(string \<times> cjson) list \<Rightarrow> string \<Rightarrow> nat \<Rightarrow> measurement_json_result_t + string" where
  "json_text_field members key capacity =
     (case get_item members key of
        None \<Rightarrow> Inl MEASUREMENT_JSON_MISSING_FIELD
      | Some (JString (Some s)) \<Rightarrow>
          if length (cstr s) = 0 \<or> length (cstr s) \<ge> capacity then Inl MEASUREMENT_JSON_OUT_OF_RANGE
          else Inr (cstr s)
      | Some _ \<Rightarrow> Inl MEASUREMENT_JSON_WRONG_TYPE)"

definition json_number_field ::
  "(string \<times> cjson) list \<Rightarrow> string \<Rightarrow> measurement_json_result_t + cdouble" where
  "json_number_field members key =
     (case get_item members key of
        None \<Rightarrow> Inl MEASUREMENT_JSON_MISSING_FIELD
      | Some (JNumber v) \<Rightarrow> Inr v
      | Some _ \<Rightarrow> Inl MEASUREMENT_JSON_WRONG_TYPE)"

definition json_schema_version ::
  "(string \<times> cjson) list \<Rightarrow> measurement_json_result_t + u32" where
  "json_schema_version members =
     (case json_number_field members ''schema_version'' of
        Inl e \<Rightarrow> Inl e
      | Inr v \<Rightarrow>
          if \<not> double_eq v (double_of_int (uint MEASUREMENT_SCHEMA_VERSION))
          then Inl MEASUREMENT_JSON_UNSUPPORTED_SCHEMA
          else Inr MEASUREMENT_SCHEMA_VERSION)"

text \<open>The cast of a finite value in range truncates; comparing with the value again finds a
  fraction.\<close>

definition json_sequence :: "(string \<times> cjson) list \<Rightarrow> measurement_json_result_t + u32" where
  "json_sequence members =
     (case json_number_field members ''sequence'' of
        Inl e \<Rightarrow> Inl e
      | Inr (Finite r) \<Rightarrow>
          if r < 1 \<or> r > 4294967295 \<or> \<not> double_eq (Finite r) (double_of_int \<lfloor>r\<rfloor>)
          then Inl MEASUREMENT_JSON_INVALID_MEASUREMENT
          else Inr (of_int \<lfloor>r\<rfloor>)
      | Inr _ \<Rightarrow> Inl MEASUREMENT_JSON_INVALID_MEASUREMENT)"

definition json_timestamp :: "(string \<times> cjson) list \<Rightarrow> measurement_json_result_t + int" where
  "json_timestamp members =
     (case json_number_field members ''timestamp_ms'' of
        Inl e \<Rightarrow> Inl e
      | Inr (Finite r) \<Rightarrow>
          if r < 1 \<or> r \<ge> round_double (of_int INT64_MAX) \<or> \<not> double_eq (Finite r) (double_of_int \<lfloor>r\<rfloor>)
          then Inl MEASUREMENT_JSON_INVALID_MEASUREMENT
          else Inr \<lfloor>r\<rfloor>
      | Inr _ \<Rightarrow> Inl MEASUREMENT_JSON_INVALID_MEASUREMENT)"

definition json_value :: "(string \<times> cjson) list \<Rightarrow> measurement_json_result_t + cdouble" where
  "json_value members =
     (case json_number_field members ''value'' of
        Inl e \<Rightarrow> Inl e
      | Inr v \<Rightarrow> if \<not> isfinite v then Inl MEASUREMENT_JSON_INVALID_MEASUREMENT else Inr v)"

definition json_quality :: "(string \<times> cjson) list \<Rightarrow> measurement_json_result_t + int" where
  "json_quality members =
     (case get_item members ''quality'' of
        None \<Rightarrow> Inl MEASUREMENT_JSON_MISSING_FIELD
      | Some (JString (Some s)) \<Rightarrow>
          if cstr s = ''good'' then Inr MEASUREMENT_QUALITY_GOOD
          else if cstr s = ''uncertain'' then Inr MEASUREMENT_QUALITY_UNCERTAIN
          else if cstr s = ''bad'' then Inr MEASUREMENT_QUALITY_BAD
          else Inl MEASUREMENT_JSON_INVALID_MEASUREMENT
      | Some _ \<Rightarrow> Inl MEASUREMENT_JSON_WRONG_TYPE)"

text \<open>The eight fields in the code's order; the first failure decides the result.\<close>

definition decode_fields :: "(string \<times> cjson) list \<Rightarrow> measurement_json_result_t + measurement_t" where
  "decode_fields members =
     (case json_text_field members ''device_id'' MEASUREMENT_DEVICE_ID_CAPACITY of Inl e \<Rightarrow> Inl e
      | Inr dev \<Rightarrow>
     (case json_text_field members ''metric'' MEASUREMENT_METRIC_CAPACITY of Inl e \<Rightarrow> Inl e
      | Inr met \<Rightarrow>
     (case json_text_field members ''unit'' MEASUREMENT_UNIT_CAPACITY of Inl e \<Rightarrow> Inl e
      | Inr un \<Rightarrow>
     (case json_schema_version members of Inl e \<Rightarrow> Inl e
      | Inr schema \<Rightarrow>
     (case json_sequence members of Inl e \<Rightarrow> Inl e
      | Inr seqno \<Rightarrow>
     (case json_timestamp members of Inl e \<Rightarrow> Inl e
      | Inr ts \<Rightarrow>
     (case json_value members of Inl e \<Rightarrow> Inl e
      | Inr v \<Rightarrow>
     (case json_quality members of Inl e \<Rightarrow> Inl e
      | Inr q \<Rightarrow>
          Inr \<lparr>schema_version = schema,
               device_id = carray MEASUREMENT_DEVICE_ID_CAPACITY dev, sequence = seqno,
               timestamp_ms = ts, metric = carray MEASUREMENT_METRIC_CAPACITY met, m_value = v,
               m_unit = carray MEASUREMENT_UNIT_CAPACITY un, quality = q\<rparr>))))))))"

text \<open>\<open>json\<close> is \<open>None\<close> for a NULL pointer, \<open>output\<close> the memory the caller passes.\<close>

definition measurement_from_json ::
  "(char list \<Rightarrow> cjson option) \<Rightarrow> char list option \<Rightarrow> nat \<Rightarrow> measurement_t option \<Rightarrow>
   measurement_json_result_t \<times> measurement_t option" where
  "measurement_from_json parse_text json json_size out =
     (case (json, out) of
        (None, _) \<Rightarrow> (MEASUREMENT_JSON_INVALID_ARGUMENT, out)
      | (_, None) \<Rightarrow> (MEASUREMENT_JSON_INVALID_ARGUMENT, None)
      | (Some bytes, Some m0) \<Rightarrow>
          if json_size = 0 then (MEASUREMENT_JSON_INVALID_ARGUMENT, out)
          else (case parse_text (take json_size bytes) of
             None \<Rightarrow> (MEASUREMENT_JSON_PARSE_ERROR, out)
           | Some (JObject members) \<Rightarrow>
               (case decode_fields members of
                  Inl e \<Rightarrow> (e, out)
                | Inr temporary \<Rightarrow>
                    if measurement_validate (Some temporary) \<noteq> MEASUREMENT_VALID
                    then (MEASUREMENT_JSON_INVALID_MEASUREMENT, out)
                    else (MEASUREMENT_JSON_OK, Some temporary))
           | Some _ \<Rightarrow> (MEASUREMENT_JSON_ROOT_NOT_OBJECT, out)))"

section \<open>Encoding\<close>

definition quality_text :: "int \<Rightarrow> string option" where
  "quality_text q =
     (if q = MEASUREMENT_QUALITY_GOOD then Some ''good''
      else if q = MEASUREMENT_QUALITY_UNCERTAIN then Some ''uncertain''
      else if q = MEASUREMENT_QUALITY_BAD then Some ''bad''
      else None)"

definition measurement_tree :: "measurement_t \<Rightarrow> string \<Rightarrow> cjson" where
  "measurement_tree m qtext = JObject
     [(''device_id'', JString (Some (cstr (device_id m)))),
      (''metric'', JString (Some (cstr (metric m)))),
      (''unit'', JString (Some (cstr (m_unit m)))),
      (''schema_version'', JNumber (double_of_int (uint (schema_version m)))),
      (''sequence'', JNumber (double_of_int (uint (sequence m)))),
      (''timestamp_ms'', JRaw (show_int (timestamp_ms m))),
      (''value'', JNumber (m_value m)),
      (''quality'', JString (Some qtext))]"

text \<open>
  \<open>pointers_ok\<close> says that neither output pointer is NULL. The allocations are, in order, the root
  object, the eight members and the printed text. The last component is what is stored through the
  two output pointers.
\<close>

definition measurement_to_json ::
  "(nat \<Rightarrow> bool) \<Rightarrow> (cjson \<Rightarrow> string) \<Rightarrow> measurement_t option \<Rightarrow> bool \<Rightarrow>
   measurement_json_result_t \<times> (string \<times> nat) option" where
  "measurement_to_json alloc print_text measurement pointers_ok =
     (case measurement of
        None \<Rightarrow> (MEASUREMENT_JSON_INVALID_ARGUMENT, None)
      | Some m \<Rightarrow>
          if \<not> pointers_ok then (MEASUREMENT_JSON_INVALID_ARGUMENT, None)
          else if measurement_validate (Some m) \<noteq> MEASUREMENT_VALID
          then (MEASUREMENT_JSON_INVALID_MEASUREMENT, None)
          else if \<not> (\<forall>k \<in> set [0..<6]. alloc k) then (MEASUREMENT_JSON_ALLOCATION_ERROR, None)
          else if length (show_int (timestamp_ms m)) \<ge> 32 then (MEASUREMENT_JSON_ALLOCATION_ERROR, None)
          else if \<not> alloc 6 then (MEASUREMENT_JSON_ALLOCATION_ERROR, None)
          else if \<not> alloc 7 then (MEASUREMENT_JSON_ALLOCATION_ERROR, None)
          else (case quality_text (quality m) of
                  None \<Rightarrow> (MEASUREMENT_JSON_INVALID_MEASUREMENT, None)
                | Some qtext \<Rightarrow>
                    if \<not> alloc 8 then (MEASUREMENT_JSON_ALLOCATION_ERROR, None)
                    else if \<not> alloc 9 then (MEASUREMENT_JSON_ALLOCATION_ERROR, None)
                    else let json = print_text (measurement_tree m qtext)
                         in (MEASUREMENT_JSON_OK, Some (json, length (cstr json)))))"


section \<open>What the decoder accepts\<close>

lemma json_text_field_ok:
  "json_text_field members key n = Inr s \<Longrightarrow> cstring s \<and> s \<noteq> [] \<and> length s < n"
  by (auto simp: json_text_field_def split: option.splits cjson.splits if_splits)

lemma json_sequence_ok: "json_sequence members = Inr w \<Longrightarrow> w \<noteq> 0"
proof -
  assume "json_sequence members = Inr w"
  then obtain r :: rat where r: "1 \<le> r" "r \<le> 4294967295" "w = of_int \<lfloor>r\<rfloor>"
    by (auto simp: json_sequence_def not_less split: sum.splits cdouble.splits if_splits)
  then have "1 \<le> \<lfloor>r\<rfloor>" "\<lfloor>r\<rfloor> < 2 ^ 32" by (simp_all add: floor_less_iff)
  then have "uint w = \<lfloor>r\<rfloor>" using r(3) by (simp add: uint_word_of_int_eq take_bit_int_eq_self)
  then have "1 \<le> uint w" using \<open>1 \<le> \<lfloor>r\<rfloor>\<close> by (simp only:)
  then show ?thesis by auto
qed

lemma json_timestamp_ok: "json_timestamp members = Inr ts \<Longrightarrow> 0 < ts"
  by (auto simp: json_timestamp_def not_less le_floor_iff int_one_le_iff_zero_less [symmetric]
      split: sum.splits cdouble.splits if_splits)

lemma json_quality_ok: "json_quality members = Inr q \<Longrightarrow> q \<in> {0, 1, 2}"
  by (auto simp: json_quality_def split: option.splits cjson.splits if_splits)

lemma decode_fields_ok:
  assumes "decode_fields members = Inr m"
  shows "measurement_layout m \<and> measurement_validate (Some m) = MEASUREMENT_VALID"
proof -
  obtain dev met un schema seqno ts v q where
    d: "json_text_field members ''device_id'' 64 = Inr dev" "json_text_field members ''metric'' 32 = Inr met"
      "json_text_field members ''unit'' 16 = Inr un" "json_schema_version members = Inr schema"
      "json_sequence members = Inr seqno" "json_timestamp members = Inr ts" "json_value members = Inr v"
      "json_quality members = Inr q" and
    m: "m = \<lparr>schema_version = schema, device_id = carray 64 dev, sequence = seqno, timestamp_ms = ts,
      metric = carray 32 met, m_value = v, m_unit = carray 16 un, quality = q\<rparr>"
    using assms by (auto simp: decode_fields_def split: sum.splits)
  have "schema = 1" using d(4) by (auto simp: json_schema_version_def split: sum.splits if_splits)
  moreover have "isfinite v" using d(7) by (auto simp: json_value_def split: sum.splits if_splits)
  moreover have "measurement_layout m"
    using d(1-3) [THEN json_text_field_ok] by (simp add: m measurement_layout_def)
  ultimately show ?thesis
    using d(1-3) [THEN json_text_field_ok] json_sequence_ok [OF d(5)] json_timestamp_ok [OF d(6)] json_quality_ok [OF d(8)]
    by (simp add: m validate_iff string_is_valid_iff cstr_carray)
qed

text \<open>No failure of a field is reported as success.\<close>

lemma json_text_field_error [simp]: "json_text_field members key n \<noteq> Inl MEASUREMENT_JSON_OK"
  by (simp add: json_text_field_def split: option.splits cjson.splits)

lemma json_number_field_error [simp]: "json_number_field members key \<noteq> Inl MEASUREMENT_JSON_OK"
  by (simp add: json_number_field_def split: option.splits cjson.splits)

lemma json_schema_version_error [simp]: "json_schema_version members \<noteq> Inl MEASUREMENT_JSON_OK"
  using json_number_field_error [of members "''schema_version''"]
  by (auto simp: json_schema_version_def split: sum.splits)

lemma json_sequence_error [simp]: "json_sequence members \<noteq> Inl MEASUREMENT_JSON_OK"
  using json_number_field_error [of members "''sequence''"]
  by (auto simp: json_sequence_def split: sum.splits cdouble.splits)

lemma json_timestamp_error [simp]: "json_timestamp members \<noteq> Inl MEASUREMENT_JSON_OK"
  using json_number_field_error [of members "''timestamp_ms''"]
  by (auto simp: json_timestamp_def split: sum.splits cdouble.splits)

lemma json_value_error [simp]: "json_value members \<noteq> Inl MEASUREMENT_JSON_OK"
  using json_number_field_error [of members "''value''"]
  by (auto simp: json_value_def split: sum.splits)

lemma json_quality_error [simp]: "json_quality members \<noteq> Inl MEASUREMENT_JSON_OK"
  by (simp add: json_quality_def split: option.splits cjson.splits)

lemma decode_fields_error: "decode_fields members \<noteq> Inl MEASUREMENT_JSON_OK"
proof
  assume "decode_fields members = Inl MEASUREMENT_JSON_OK"
  then show False unfolding decode_fields_def by (simp split: sum.splits)
qed

section \<open>Properties\<close>

text \<open>
  Decoding commits only valid data: the caller's struct changes only when the result is OK, and
  then it holds a measurement that passes the validation; on every failure (argument, syntax, root,
  missing field, type, range, schema, invalid measurement) it is untouched.
\<close>

theorem from_json_commits_only_valid:
  "case measurement_from_json parse_text json json_size out of (res, out') \<Rightarrow>
     (res = MEASUREMENT_JSON_OK \<and> (\<exists>m. out' = Some m \<and> measurement_layout m \<and>
        measurement_validate (Some m) = MEASUREMENT_VALID)) \<or>
     (res \<noteq> MEASUREMENT_JSON_OK \<and> out' = out)"
proof -
  show ?thesis
    using decode_fields_ok decode_fields_error
    by (auto simp: measurement_from_json_def split: option.splits cjson.splits sum.splits)
qed


text \<open>
  What cJSON's parser makes of the text its printer wrote: strings come back unchanged, raw
  decimal text is read as the nearest \<open>double\<close>, and a number is the one its shortest accepted
  decimal form stands for (\<open>renumber\<close>). cJSON first tries 15 digits and accepts them when they are
  within \<open>DBL_EPSILON\<close>, so \<open>renumber\<close> need not be the identity.
\<close>

fun reparse :: "(rat \<Rightarrow> rat) \<Rightarrow> cjson \<Rightarrow> cjson" where
  "reparse renumber (JNumber (Finite r)) = JNumber (Finite (renumber r))"
| "reparse renumber (JRaw s) = JNumber (double_of_int (read_int s))"
| "reparse renumber (JObject members) = JObject (map (\<lambda>(k, v). (k, reparse renumber v)) members)"
| "reparse renumber t = t"

definition cjson_reparses ::
  "(char list \<Rightarrow> cjson option) \<Rightarrow> (cjson \<Rightarrow> string) \<Rightarrow> (rat \<Rightarrow> rat) \<Rightarrow> cjson \<Rightarrow> bool" where
  "cjson_reparses parse_text print_text renumber t \<longleftrightarrow>
     print_text t \<noteq> [] \<and> cstring (print_text t) \<and> parse_text (print_text t) = Some (reparse renumber t)"

lemma timestamp_text_length: "0 < n \<Longrightarrow> n \<le> INT64_MAX \<Longrightarrow> length (show_int n) < 32"
  using show_nat_length [of "nat n" 18] by (simp add: show_int_def nat_less_iff)

lemma to_json_ok:
  assumes "measurement_validate (Some m) = MEASUREMENT_VALID" and "timestamp_ms m \<le> INT64_MAX" and "\<forall>k. alloc k"
  shows "\<exists>qtext. quality_text (quality m) = Some qtext \<and>
    measurement_to_json alloc print_text (Some m) True =
      (MEASUREMENT_JSON_OK, Some (print_text (measurement_tree m qtext),
        length (cstr (print_text (measurement_tree m qtext)))))"
proof -
  have "quality m \<in> {0, 1, 2}" "0 < timestamp_ms m" using assms(1) by (auto simp: validate_iff)
  then show ?thesis
    using assms timestamp_text_length [of "timestamp_ms m"]
    by (auto simp: measurement_to_json_def quality_text_def Let_def)
qed

lemma uint_u32_exact [simp]: "double_of_int (uint (w :: u32)) = Finite (of_int (uint w))"
proof -
  have "uint w < 2 ^ 32" using uint_lt2p [of w] by simp
  then show ?thesis by (intro double_of_int_exact) (auto intro: order_less_trans)
qed

lemma json_sequence_int:
  "get_item members ''sequence'' = Some (JNumber (Finite (of_int k))) \<Longrightarrow> 1 \<le> k \<Longrightarrow> k < 4294967296 \<Longrightarrow>
    json_sequence members = Inr (of_int k)"
  by (simp add: json_sequence_def json_number_field_def double_of_int_exact)

lemma decode_tree:
  assumes m: "measurement_layout m" "measurement_validate (Some m) = MEASUREMENT_VALID"
    and ts: "timestamp_ms m < 2 ^ 53" and v: "m_value m = Finite r" and q: "quality_text (quality m) = Some qtext"
    and nums: "\<forall>n < 4294967296. renumber (of_nat n) = of_nat n"
  shows "\<exists>members. reparse renumber (measurement_tree m qtext) = JObject members \<and>
    decode_fields members = Inr \<lparr>schema_version = 1, device_id = carray 64 (cstr (device_id m)),
      sequence = sequence m, timestamp_ms = timestamp_ms m, metric = carray 32 (cstr (metric m)),
      m_value = Finite (renumber r), m_unit = carray 16 (cstr (m_unit m)), quality = quality m\<rparr>"
proof -
  note val = m(2) [unfolded validate_layout_iff [OF m(1)]]
  let ?d = "\<lambda>n. JNumber (Finite (of_int n))"
  let ?M = "[(''device_id'', JString (Some (cstr (device_id m)))), (''metric'', JString (Some (cstr (metric m)))),
    (''unit'', JString (Some (cstr (m_unit m)))), (''schema_version'', ?d 1), (''sequence'', ?d (uint (sequence m))),
    (''timestamp_ms'', ?d (timestamp_ms m)), (''value'', JNumber (Finite (renumber r))),
    (''quality'', JString (Some qtext))]"
  have n: "renumber (of_int (uint w)) = of_int (uint w)" for w :: u32
    using nums [rule_format, of "unat w"] unsigned_less [of w, where ?'a = nat] by simp
  have n1: "renumber 1 = 1" using nums [rule_format, of 1] by simp
  have t: "reparse renumber (measurement_tree m qtext) = JObject ?M"
    using val ts v n [of "sequence m"] n1 by (simp add: measurement_tree_def double_of_int_exact)
  have s: "1 \<le> uint (sequence m)" "uint (sequence m) < 4294967296"
    using val uint_pos uint_u32_bound by blast+
  have f1: "json_text_field ?M ''device_id'' 64 = Inr (cstr (device_id m))"
    and f2: "json_text_field ?M ''metric'' 32 = Inr (cstr (metric m))"
    and f3: "json_text_field ?M ''unit'' 16 = Inr (cstr (m_unit m))"
    using val by (simp_all add: json_text_field_def get_item_def)
  have f4: "json_schema_version ?M = Inr 1"
    by (simp add: json_schema_version_def json_number_field_def get_item_def double_of_int_exact)
  have f5: "json_sequence ?M = Inr (sequence m)"
    using json_sequence_int [OF _ s, of ?M] by (simp add: get_item_def)
  have f6: "json_timestamp ?M = Inr (timestamp_ms m)"
    using val ts by (simp add: json_timestamp_def json_number_field_def get_item_def double_of_int_exact round_double_int64_max)
  have f7: "json_value ?M = Inr (Finite (renumber r))"
    by (simp add: json_value_def json_number_field_def get_item_def)
  have f8: "json_quality ?M = Inr (quality m)"
    using q by (auto simp: json_quality_def get_item_def quality_text_def cstring_def split: if_splits)
  show ?thesis
    unfolding t by (intro exI [of _ ?M] conjI refl) (simp only: decode_fields_def f1 f2 f3 f4 f5 f6 f7 f8 sum.case)
qed


lemma encode_decode:
  assumes "measurement_layout m" and "measurement_validate (Some m) = MEASUREMENT_VALID"
    and "timestamp_ms m < 2 ^ 53" and "m_value m = Finite r" and "\<forall>k. alloc k"
    and "\<forall>n < 4294967296. renumber (of_nat n) = of_nat n"
    and "quality_text (quality m) = Some qtext"
    and "cjson_reparses parse_text print_text renumber (measurement_tree m qtext)"
  shows "\<exists>json size m'. measurement_to_json alloc print_text (Some m) True = (MEASUREMENT_JSON_OK, Some (json, size)) \<and>
    measurement_from_json parse_text (Some json) size (Some m0) = (MEASUREMENT_JSON_OK, Some m') \<and>
    measurement_equals (m\<lparr>m_value := Finite (renumber r)\<rparr>) m' \<and>
    (measurement_equals m m' \<longleftrightarrow> renumber r = r)"
proof -
  let ?t = "measurement_tree m qtext"
  have j: "print_text ?t \<noteq> []" "cstring (print_text ?t)" "parse_text (print_text ?t) = Some (reparse renumber ?t)"
    using assms(8) by (auto simp: cjson_reparses_def)
  have "timestamp_ms m \<le> INT64_MAX" using assms(3) by simp
  then have e: "measurement_to_json alloc print_text (Some m) True =
      (MEASUREMENT_JSON_OK, Some (print_text ?t, length (print_text ?t)))"
    using to_json_ok [OF assms(2) _ assms(5), of print_text] assms(7) j(2) by auto
  obtain members where t: "reparse renumber ?t = JObject members" and
    d: "decode_fields members = Inr \<lparr>schema_version = 1, device_id = carray 64 (cstr (device_id m)),
      sequence = sequence m, timestamp_ms = timestamp_ms m, metric = carray 32 (cstr (metric m)),
      m_value = Finite (renumber r), m_unit = carray 16 (cstr (m_unit m)), quality = quality m\<rparr>"
    using decode_tree [OF assms(1-4,7,6)] by blast
  note val = assms(2) [unfolded validate_layout_iff [OF assms(1)]]
  show ?thesis
    using e j t d decode_fields_ok [OF d] val assms(4)
    by (auto simp: measurement_from_json_def measurement_equals_def cstr_carray)
qed


definition demo_tree :: cjson where
  "demo_tree = measurement_tree sample_measurement ''good''"


text \<open>
  The bound on the timestamp is needed: although the encoder writes all digits of a 64-bit
  timestamp, the decoder reads it as a \<open>double\<close>, so \<open>2^53 + 1\<close> comes back as \<open>2^53\<close>, and the largest
  64-bit timestamps are refused.
\<close>

lemma timestamp_precision_lost:
  "json_timestamp [(''timestamp_ms'', reparse renumber (JRaw (show_int 9007199254740993)))] = Inr 9007199254740992"
  by (simp add: json_timestamp_def json_number_field_def get_item_def double_of_int_def
      round_double_tie round_double_int64_max round_double_2_53)

lemma timestamp_max_refused:
  "json_timestamp [(''timestamp_ms'', reparse renumber (JRaw (show_int INT64_MAX)))] =
    Inl MEASUREMENT_JSON_INVALID_MEASUREMENT"
  by (simp add: json_timestamp_def json_number_field_def get_item_def double_of_int_def round_double_int64_max)

lemma measurement_to_json_sample:
  "measurement_to_json (\<lambda>_. True) (\<lambda>_. ''{}'') (Some sample_measurement) True =
    (MEASUREMENT_JSON_OK, Some (''{}'', 2))"
proof -
  have "length (show_int 1787623200000) < 32"
    using show_nat_length [of 1787623200000 12] by (simp add: show_int_def)
  then show ?thesis
    using sample_valid
    by (simp add: measurement_to_json_def quality_text_def sample_measurement_def cstr_def)
qed

end
