(* ===== verification/Outbox_Store.thy ===== *)
theory Outbox_Store
  imports Measurement_Json
begin

text \<open>
  The persistent outbox of \<^verbatim>\<open>src/modules/storage/outbox_store.c\<close> on SQLite. The database is a
  record of its tables; the effect of every SQL statement the code sends is a definition. Every
  call into SQLite may fail: the world holds the faults of the coming calls (\<open>None\<close>: the call
  works; an empty list: all further calls work). A transaction keeps the database it started from,
  and ROLLBACK returns to it. Rowids and \<open>randomblob\<close> follow SQLite: the next rowid is one more
  than the largest, random message identifiers come from \<open>sw_rand\<close>.
\<close>

section \<open>Results\<close>

datatype outbox_store_result_t =
    OUTBOX_STORE_OK
  | OUTBOX_STORE_EMPTY
  | OUTBOX_STORE_NOT_FOUND
  | OUTBOX_STORE_INVALID_ARGUMENT
  | OUTBOX_STORE_BUSY
  | OUTBOX_STORE_DB_ERROR
  | OUTBOX_STORE_SCHEMA_ERROR
  | OUTBOX_STORE_SERIALIZATION_ERROR
  | OUTBOX_STORE_NO_MEMORY

datatype sqlite_fault = F_BUSY | F_LOCKED | F_NOMEM | F_ERR int

datatype sqlite_rc = SQLITE_OK | SQLITE_ROW | SQLITE_DONE | SQLITE_FAULT sqlite_fault

definition map_sqlite_result :: "sqlite_rc \<Rightarrow> outbox_store_result_t" where
  "map_sqlite_result rc =
     (if rc = SQLITE_OK then OUTBOX_STORE_OK
      else if rc = SQLITE_FAULT F_LOCKED \<or> rc = SQLITE_FAULT F_BUSY then OUTBOX_STORE_BUSY
      else if rc = SQLITE_FAULT F_NOMEM then OUTBOX_STORE_NO_MEMORY
      else OUTBOX_STORE_DB_ERROR)"

abbreviation (input) SQLITE_ERROR :: sqlite_rc where "SQLITE_ERROR \<equiv> SQLITE_FAULT (F_ERR 1)"
abbreviation (input) SQLITE_CONSTRAINT :: sqlite_rc where "SQLITE_CONSTRAINT \<equiv> SQLITE_FAULT (F_ERR 19)"

section \<open>The database\<close>

text \<open>
  A row of the outbox. A schema version that lacks a column gives the field no meaning; the
  migrations fill it as the SQL says.
\<close>

record outbox_row =
  o_id :: int
  o_measurement_id :: int
  o_message_id :: string
  o_topic :: string
  o_sent :: bool
  o_attempt_count :: int
  o_last_error :: "string option"
  o_sent_at_ms :: "int option"

text \<open>\<open>db_tables\<close> holds the names of the tables and indexes, which share one name space.\<close>

record database =
  db_tables :: "string list"
  db_measurements :: "(int \<times> string) list"
  db_outbox :: "outbox_row list"
  db_outbox_v3 :: "outbox_row list"
  db_interval :: "int option"
  db_version :: int

record store_world =
  sw_db :: database
  sw_txn :: "database option"
  sw_faults :: "sqlite_fault option list"
  sw_rand :: "nat \<Rightarrow> string"
  sw_rng :: nat
  sw_last_rowid :: int
  sw_changes :: nat

definition next_rowid :: "int list \<Rightarrow> int" where
  "next_rowid ids = foldr max ids 0 + 1"

section \<open>Calls into SQLite\<close>

definition next_fault :: "store_world \<Rightarrow> sqlite_fault option \<times> store_world" where
  "next_fault w = (case sw_faults w of [] \<Rightarrow> (None, w) | f # fs \<Rightarrow> (f, w\<lparr>sw_faults := fs\<rparr>))"

text \<open>A call with no effect on the data: prepare, bind, finalize, a pragma of the connection.\<close>

definition sql_call :: "store_world \<Rightarrow> sqlite_rc \<times> store_world" where
  "sql_call w = (case next_fault w of (None, w1) \<Rightarrow> (SQLITE_OK, w1) | (Some f, w1) \<Rightarrow> (SQLITE_FAULT f, w1))"

text \<open>A step that evaluates \<open>stmt\<close>; a failing step changes nothing.\<close>

definition sql_step :: "(store_world \<Rightarrow> sqlite_rc \<times> store_world) \<Rightarrow> store_world \<Rightarrow> sqlite_rc \<times> store_world" where
  "sql_step stmt w = (case next_fault w of (None, w1) \<Rightarrow> stmt w1 | (Some f, w1) \<Rightarrow> (SQLITE_FAULT f, w1))"

definition exec_begin :: "store_world \<Rightarrow> sqlite_rc \<times> store_world" where
  "exec_begin = sql_step (\<lambda>w. if sw_txn w = None then (SQLITE_OK, w\<lparr>sw_txn := Some (sw_db w)\<rparr>) else (SQLITE_ERROR, w))"

definition exec_commit :: "store_world \<Rightarrow> sqlite_rc \<times> store_world" where
  "exec_commit = sql_step (\<lambda>w. if sw_txn w = None then (SQLITE_ERROR, w) else (SQLITE_OK, w\<lparr>sw_txn := None\<rparr>))"

text \<open>The code ignores the result of ROLLBACK; when it fails, the transaction stays open.\<close>

definition exec_rollback :: "store_world \<Rightarrow> store_world" where
  "exec_rollback w =
     snd (sql_step (\<lambda>w. case sw_txn w of None \<Rightarrow> (SQLITE_ERROR, w)
                       | Some db \<Rightarrow> (SQLITE_OK, w\<lparr>sw_db := db, sw_txn := None\<rparr>)) w)"

text \<open>The database that survives a crash: the one before the open transaction.\<close>

definition durable :: "store_world \<Rightarrow> database" where
  "durable w = (case sw_txn w of None \<Rightarrow> sw_db w | Some db \<Rightarrow> db)"

section \<open>Statements\<close>

text \<open>The two inserts of a saved measurement, with the checks of the table definitions.\<close>

definition insert_measurement :: "string \<Rightarrow> store_world \<Rightarrow> sqlite_rc \<times> store_world" where
  "insert_measurement payload w =
     (if payload = [] then (SQLITE_CONSTRAINT, w)
      else let db = sw_db w; rowid = next_rowid (map fst (db_measurements db))
           in (SQLITE_DONE, w\<lparr>sw_db := db\<lparr>db_measurements := db_measurements db @ [(rowid, payload)]\<rparr>,
                              sw_last_rowid := rowid\<rparr>))"

definition insert_outbox :: "int \<Rightarrow> string \<Rightarrow> store_world \<Rightarrow> sqlite_rc \<times> store_world" where
  "insert_outbox measurement_id topic w =
     (let db = sw_db w; message_id = sw_rand w (sw_rng w); w1 = w\<lparr>sw_rng := sw_rng w + 1\<rparr> in
      if topic = [] \<or> length message_id \<noteq> 32 \<or> message_id \<in> set (map o_message_id (db_outbox db)) \<or>
         measurement_id \<in> set (map o_measurement_id (db_outbox db)) \<or>
         measurement_id \<notin> set (map fst (db_measurements db))
      then (SQLITE_CONSTRAINT, w1)
      else let rowid = next_rowid (map o_id (db_outbox db))
           in (SQLITE_DONE,
               w1\<lparr>sw_db := db\<lparr>db_outbox := db_outbox db @
                     [\<lparr>o_id = rowid, o_measurement_id = measurement_id, o_message_id = message_id,
                       o_topic = topic, o_sent = False, o_attempt_count = 0, o_last_error = None,
                       o_sent_at_ms = None\<rparr>]\<rparr>,
                  sw_last_rowid := rowid\<rparr>))"

definition mark_row :: "int \<Rightarrow> outbox_row \<Rightarrow> outbox_row" where
  "mark_row sent_at_ms r =
     r\<lparr>o_sent := True,
       o_sent_at_ms := (if \<not> o_sent r then Some sent_at_ms else o_sent_at_ms r),
       o_last_error := (if \<not> o_sent r then None else o_last_error r)\<rparr>"

definition fail_row :: "string \<Rightarrow> outbox_row \<Rightarrow> outbox_row" where
  "fail_row error_text r =
     r\<lparr>o_attempt_count := (if \<not> o_sent r then o_attempt_count r + 1 else o_attempt_count r),
       o_last_error := (if \<not> o_sent r then Some error_text else o_last_error r)\<rparr>"

definition update_outbox :: "int \<Rightarrow> (outbox_row \<Rightarrow> outbox_row) \<Rightarrow> store_world \<Rightarrow> sqlite_rc \<times> store_world" where
  "update_outbox outbox_id f w =
     (let db = sw_db w
      in (SQLITE_DONE,
          w\<lparr>sw_db := db\<lparr>db_outbox := map (\<lambda>r. if o_id r = outbox_id then f r else r) (db_outbox db)\<rparr>,
            sw_changes := length (filter (\<lambda>r. o_id r = outbox_id) (db_outbox db))\<rparr>))"

text \<open>
  The query for the earliest pending message: the joined rows in ascending order of id.
\<close>

fun insert_by_id :: "outbox_row \<Rightarrow> outbox_row list \<Rightarrow> outbox_row list" where
  "insert_by_id r [] = [r]"
| "insert_by_id r (s # rs) = (if o_id r \<le> o_id s then r # s # rs else s # insert_by_id r rs)"

definition pending_rows :: "database \<Rightarrow> (outbox_row \<times> string) list" where
  "pending_rows db =
     List.map_filter (\<lambda>r. map_option (Pair r) (map_of (db_measurements db) (o_measurement_id r)))
       (foldr insert_by_id (filter (\<lambda>r. \<not> o_sent r) (db_outbox db)) [])"

definition upsert_interval :: "int \<Rightarrow> store_world \<Rightarrow> sqlite_rc \<times> store_world" where
  "upsert_interval interval_ms w =
     (if interval_ms < 100 \<or> interval_ms > 60000 then (SQLITE_CONSTRAINT, w)
      else (SQLITE_DONE, w\<lparr>sw_db := (sw_db w)\<lparr>db_interval := Some interval_ms\<rparr>\<rparr>))"


section \<open>Saving a measurement\<close>

text \<open>Preparing a statement fails when a table it names does not exist.\<close>

definition sql_prepare :: "string list \<Rightarrow> store_world \<Rightarrow> sqlite_rc \<times> store_world" where
  "sql_prepare tables = sql_step (\<lambda>w. (if set tables \<subseteq> set (db_tables (sw_db w)) then SQLITE_OK else SQLITE_ERROR, w))"

text \<open>
  \<open>store\<close> says that the handle and its connection are not NULL. The encoder is the one of the JSON
  codec, with its allocations and cJSON's printer.
\<close>

definition prepare_save_payload ::
  "(nat \<Rightarrow> bool) \<Rightarrow> (cjson \<Rightarrow> string) \<Rightarrow> bool \<Rightarrow> measurement_t option \<Rightarrow> string option \<Rightarrow>
   outbox_store_result_t \<times> string option" where
  "prepare_save_payload alloc print_text store meas topic =
     (if \<not> store \<or> meas = None \<or> topic = None \<or> topic = Some [] then (OUTBOX_STORE_INVALID_ARGUMENT, None)
      else case measurement_to_json alloc print_text meas True of
        (MEASUREMENT_JSON_OK, Some (json, _)) \<Rightarrow> (OUTBOX_STORE_OK, Some json)
      | (MEASUREMENT_JSON_ALLOCATION_ERROR, _) \<Rightarrow> (OUTBOX_STORE_NO_MEMORY, None)
      | _ \<Rightarrow> (OUTBOX_STORE_SERIALIZATION_ERROR, None))"

text \<open>The statements between BEGIN and the end of the function body; an early \<open>goto cleanup\<close> is an early
  result.\<close>

definition save_statements :: "string \<Rightarrow> string \<Rightarrow> store_world \<Rightarrow> outbox_store_result_t \<times> store_world" where
  "save_statements json topic w =
     (let (rc, w1) = sql_prepare [''measurements''] w in if rc \<noteq> SQLITE_OK then (map_sqlite_result rc, w1) else
      let (rc, w2) = sql_call w1 in if rc \<noteq> SQLITE_OK then (map_sqlite_result rc, w2) else
      let (rc, w3) = sql_step (insert_measurement json) w2 in if rc \<noteq> SQLITE_DONE then (map_sqlite_result rc, w3) else
      let measurement_id = sw_last_rowid w3; (rc, w4) = sql_call w3 in if rc \<noteq> SQLITE_OK then (map_sqlite_result rc, w4) else
      let (rc, w5) = sql_prepare [''outbox''] w4 in if rc \<noteq> SQLITE_OK then (map_sqlite_result rc, w5) else
      let (rc, w6) = sql_call w5 in if rc \<noteq> SQLITE_OK then (map_sqlite_result rc, w6) else
      let (rc, w7) = sql_call w6 in if rc \<noteq> SQLITE_OK then (map_sqlite_result rc, w7) else
      let (rc, w8) = sql_step (insert_outbox measurement_id topic) w7 in if rc \<noteq> SQLITE_DONE then (map_sqlite_result rc, w8) else
      let (rc, w9) = sql_call w8 in if rc \<noteq> SQLITE_OK then (map_sqlite_result rc, w9) else
      let (rc, w10) = exec_commit w9 in if rc \<noteq> SQLITE_OK then (map_sqlite_result rc, w10) else (OUTBOX_STORE_OK, w10))"

definition outbox_store_save_measurement ::
  "(nat \<Rightarrow> bool) \<Rightarrow> (cjson \<Rightarrow> string) \<Rightarrow> bool \<Rightarrow> measurement_t option \<Rightarrow> string option \<Rightarrow> store_world \<Rightarrow>
   outbox_store_result_t \<times> store_world" where
  "outbox_store_save_measurement alloc print_text store meas topic w =
     (case prepare_save_payload alloc print_text store meas topic of
        (OUTBOX_STORE_OK, Some json) \<Rightarrow>
          (let (rc, w1) = exec_begin w in
           if rc \<noteq> SQLITE_OK then (map_sqlite_result rc, w1)
           else let (res, w2) = save_statements json (the topic) w1
                in if res \<noteq> OUTBOX_STORE_OK then (res, exec_rollback w2) else (res, w2))
      | (res, _) \<Rightarrow> (res, w))"

section \<open>Reading the earliest pending message\<close>

record outbox_item_t =
  item_id :: int
  item_measurement_id :: int
  item_attempt_count :: u64
  item_message_id :: string
  item_topic :: "string option"
  item_payload_json :: "string option"

definition zero_item :: outbox_item_t where
  "zero_item = \<lparr>item_id = 0, item_measurement_id = 0, item_attempt_count = 0, item_message_id = [],
     item_topic = None, item_payload_json = None\<rparr>"

definition outbox_store_free_outbox_item :: "outbox_item_t option \<Rightarrow> outbox_item_t option" where
  "outbox_store_free_outbox_item item = (case item of None \<Rightarrow> None | Some _ \<Rightarrow> Some zero_item)"

text \<open>\<open>sqlite3_column_text\<close> and \<open>malloc\<close> may fail for lack of memory; another failure of
  \<open>column_text\<close> is reported as a database error.\<close>

definition column_text_result :: "sqlite_rc \<Rightarrow> outbox_store_result_t" where
  "column_text_result rc = (if rc = SQLITE_FAULT F_NOMEM then OUTBOX_STORE_NO_MEMORY else OUTBOX_STORE_DB_ERROR)"

definition read_row :: "outbox_row \<times> string \<Rightarrow> store_world \<Rightarrow> (outbox_store_result_t \<times> outbox_item_t) \<times> store_world" where
  "read_row rp w =
     (let (r, payload) = rp in
      if o_attempt_count r < 0 then ((OUTBOX_STORE_DB_ERROR, zero_item), w) else
      let (rc, w1) = sql_call w in
      if rc \<noteq> SQLITE_OK \<or> length (o_message_id r) \<noteq> 32 then ((OUTBOX_STORE_DB_ERROR, zero_item), w1) else
      let (rc, w2) = sql_call w1 in if rc \<noteq> SQLITE_OK then ((column_text_result rc, zero_item), w2) else
      let (rc, w3) = sql_call w2 in if rc \<noteq> SQLITE_OK then ((OUTBOX_STORE_NO_MEMORY, zero_item), w3) else
      let (rc, w4) = sql_call w3 in if rc \<noteq> SQLITE_OK then ((column_text_result rc, zero_item), w4) else
      let (rc, w5) = sql_call w4 in if rc \<noteq> SQLITE_OK then ((OUTBOX_STORE_NO_MEMORY, zero_item), w5) else
      let (rc, w6) = sql_call w5 in if rc \<noteq> SQLITE_OK then ((map_sqlite_result rc, zero_item), w6) else
      ((OUTBOX_STORE_OK,
        \<lparr>item_id = o_id r, item_measurement_id = o_measurement_id r, item_attempt_count = of_int (o_attempt_count r),
         item_message_id = o_message_id r, item_topic = Some (o_topic r), item_payload_json = Some payload\<rparr>), w6))"

definition outbox_store_read_earliest_pending ::
  "bool \<Rightarrow> store_world \<Rightarrow> (outbox_store_result_t \<times> outbox_item_t) \<times> store_world" where
  "outbox_store_read_earliest_pending store w =
     (if \<not> store then ((OUTBOX_STORE_INVALID_ARGUMENT, zero_item), w) else
      let (rc, w1) = sql_prepare [''outbox'', ''measurements''] w in
      if rc \<noteq> SQLITE_OK then ((map_sqlite_result rc, zero_item), w1) else
      let (rc, w2) = sql_step (\<lambda>v. (if pending_rows (sw_db v) = [] then SQLITE_DONE else SQLITE_ROW, v)) w1 in
      if rc \<noteq> SQLITE_ROW then
        (let (frc, w3) = sql_call w2;
             result = (if rc = SQLITE_DONE then OUTBOX_STORE_EMPTY else map_sqlite_result rc)
         in ((if (result = OUTBOX_STORE_OK \<or> result = OUTBOX_STORE_EMPTY) \<and> frc \<noteq> SQLITE_OK
              then map_sqlite_result frc else result, zero_item), w3))
      else read_row (hd (pending_rows (sw_db w2))) w2)"

section \<open>Marking and counting\<close>

text \<open>The shared shape of the two updates: prepare, two binds, step, changes, finalize.\<close>

definition run_update :: "int \<Rightarrow> (outbox_row \<Rightarrow> outbox_row) \<Rightarrow> store_world \<Rightarrow> outbox_store_result_t \<times> store_world" where
  "run_update outbox_id f w =
     (let (rc, w1) = sql_prepare [''outbox''] w in
      if rc \<noteq> SQLITE_OK then (map_sqlite_result rc, w1) else
      let (rc, w2) = sql_call w1 in
      if rc \<noteq> SQLITE_OK then (map_sqlite_result rc, snd (sql_call w2)) else
      let (rc, w3) = sql_call w2 in
      if rc \<noteq> SQLITE_OK then (map_sqlite_result rc, snd (sql_call w3)) else
      let (rc, w4) = sql_step (update_outbox outbox_id f) w3 in
      if rc \<noteq> SQLITE_DONE then (map_sqlite_result rc, snd (sql_call w4)) else
      let affected_rows = sw_changes w4; (rc, w5) = sql_call w4 in
      if rc \<noteq> SQLITE_OK then (map_sqlite_result rc, w5)
      else (if affected_rows = 0 then OUTBOX_STORE_NOT_FOUND else OUTBOX_STORE_OK, w5))"

definition outbox_store_mark_sent :: "bool \<Rightarrow> int \<Rightarrow> int \<Rightarrow> store_world \<Rightarrow> outbox_store_result_t \<times> store_world" where
  "outbox_store_mark_sent store outbox_id sent_at_ms w =
     (if \<not> store then (OUTBOX_STORE_INVALID_ARGUMENT, w) else run_update outbox_id (mark_row sent_at_ms) w)"

definition outbox_store_record_delivery_failure ::
  "bool \<Rightarrow> int \<Rightarrow> string option \<Rightarrow> store_world \<Rightarrow> outbox_store_result_t \<times> store_world" where
  "outbox_store_record_delivery_failure store outbox_id error_text w =
     (if \<not> store \<or> error_text = None \<or> error_text = Some [] then (OUTBOX_STORE_INVALID_ARGUMENT, w)
      else run_update outbox_id (fail_row (the error_text)) w)"

record outbox_store_stats_t =
  measurement_total :: u64
  pending_count :: u64
  sent_count :: u64

definition zero_stats :: outbox_store_stats_t where
  "zero_stats = \<lparr>measurement_total = 0, pending_count = 0, sent_count = 0\<rparr>"

definition count_stats :: "database \<Rightarrow> outbox_store_stats_t" where
  "count_stats db =
     \<lparr>measurement_total = of_nat (length (db_measurements db)),
      pending_count = of_nat (length (filter (\<lambda>r. \<not> o_sent r) (db_outbox db))),
      sent_count = of_nat (length (filter o_sent (db_outbox db)))\<rparr>"

definition outbox_store_get_stats ::
  "bool \<Rightarrow> store_world \<Rightarrow> (outbox_store_result_t \<times> outbox_store_stats_t) \<times> store_world" where
  "outbox_store_get_stats store w =
     (if \<not> store then ((OUTBOX_STORE_INVALID_ARGUMENT, zero_stats), w) else
      let (rc, w1) = sql_prepare [''measurements'', ''outbox''] w in
      if rc \<noteq> SQLITE_OK then ((map_sqlite_result rc, zero_stats), w1) else
      let (rc, w2) = sql_step (\<lambda>v. (SQLITE_ROW, v)) w1 in
      if rc \<noteq> SQLITE_ROW
      then ((if rc = SQLITE_DONE then OUTBOX_STORE_DB_ERROR else map_sqlite_result rc, zero_stats), snd (sql_call w2)) else
      let (rc, w3) = sql_call w2 in
      if rc \<noteq> SQLITE_OK then ((map_sqlite_result rc, zero_stats), w3)
      else ((OUTBOX_STORE_OK, count_stats (sw_db w2)), w3))"

section \<open>The configured interval\<close>

definition outbox_store_save_interval :: "bool \<Rightarrow> int \<Rightarrow> store_world \<Rightarrow> outbox_store_result_t \<times> store_world" where
  "outbox_store_save_interval store interval_ms w =
     (if \<not> store \<or> interval_ms < 100 \<or> interval_ms > 60000 then (OUTBOX_STORE_INVALID_ARGUMENT, w) else
      let (rc, w1) = sql_prepare [''gateway_config''] w in
      if rc \<noteq> SQLITE_OK then (map_sqlite_result rc, w1) else
      let (rc, w2) = sql_call w1 in
      if rc \<noteq> SQLITE_OK then (map_sqlite_result rc, snd (sql_call w2)) else
      let (rc, w3) = sql_step (upsert_interval interval_ms) w2 in
      if rc \<noteq> SQLITE_DONE then (map_sqlite_result rc, snd (sql_call w3)) else
      let (rc, w4) = sql_call w3 in (map_sqlite_result rc, w4))"

text \<open>The output is \<open>*out_interval_ms\<close>, \<open>None\<close> for a NULL pointer.\<close>

definition outbox_store_load_interval ::
  "bool \<Rightarrow> int option \<Rightarrow> store_world \<Rightarrow> (outbox_store_result_t \<times> int option) \<times> store_world" where
  "outbox_store_load_interval store out w =
     (if \<not> store \<or> out = None then ((OUTBOX_STORE_INVALID_ARGUMENT, out), w) else
      let (rc, w1) = sql_prepare [''gateway_config''] w in
      if rc \<noteq> SQLITE_OK then ((map_sqlite_result rc, out), w1) else
      let (rc, w2) = sql_step (\<lambda>v. (if db_interval (sw_db v) = None then SQLITE_DONE else SQLITE_ROW, v)) w1;
          result = (if rc = SQLITE_DONE then OUTBOX_STORE_EMPTY
                    else if rc = SQLITE_ROW then
                      (case db_interval (sw_db w2) of
                         Some v \<Rightarrow> if v < 100 \<or> v > 60000 then OUTBOX_STORE_SCHEMA_ERROR else OUTBOX_STORE_OK
                       | None \<Rightarrow> OUTBOX_STORE_SCHEMA_ERROR)
                    else map_sqlite_result rc);
          (frc, w3) = sql_call w2;
          final = (if (result = OUTBOX_STORE_OK \<or> result = OUTBOX_STORE_EMPTY) \<and> frc \<noteq> SQLITE_OK
                   then map_sqlite_result frc else result)
      in ((final, if final = OUTBOX_STORE_OK then db_interval (sw_db w2) else out), w3))"


definition outbox_store_close :: "bool \<Rightarrow> store_world \<Rightarrow> outbox_store_result_t \<times> store_world" where
  "outbox_store_close store w =
     (if \<not> store then (OUTBOX_STORE_INVALID_ARGUMENT, w)
      else let (rc, w1) = sql_call w in (map_sqlite_result rc, w1))"

section \<open>Frame lemmas\<close>

lemma no_faults_left: "sw_faults w = [] \<Longrightarrow> w\<lparr>sw_faults := []\<rparr> = w"
  by (cases w) simp

lemma same_world [simp]: "\<exists>fs. w = w\<lparr>sw_faults := fs\<rparr>"
  by (rule exI [of _ "sw_faults w"]) simp

lemma sql_callE:
  assumes "sql_call w = (rc, w')"
  obtains fs where "w' = w\<lparr>sw_faults := fs\<rparr>" and "rc = SQLITE_OK \<or> (\<exists>f. rc = SQLITE_FAULT f)"
proof (cases "sw_faults w")
  case Nil
  then show ?thesis
    using assms that [of "[]"] by (simp add: sql_call_def next_fault_def no_faults_left)
next
  case (Cons f fs)
  then show ?thesis
    using assms that [of fs] by (cases f) (auto simp: sql_call_def next_fault_def)
qed

lemma sql_stepE:
  assumes "sql_step stmt w = (rc, w')"
  obtains (fault) f fs where "rc = SQLITE_FAULT f" and "w' = w\<lparr>sw_faults := fs\<rparr>"
  | (run) fs where "stmt (w\<lparr>sw_faults := fs\<rparr>) = (rc, w')"
proof (cases "sw_faults w")
  case Nil
  then show ?thesis
    using assms run [of "[]"] by (simp add: sql_step_def next_fault_def no_faults_left)
next
  case (Cons f fs)
  then show ?thesis
    using assms run [of fs] fault [of _ fs] by (cases f) (auto simp: sql_step_def next_fault_def)
qed

lemma sql_prepareE:
  assumes "sql_prepare ts w = (rc, w')"
  obtains fs where "w' = w\<lparr>sw_faults := fs\<rparr>"
    and "rc = SQLITE_OK \<and> set ts \<subseteq> set (db_tables (sw_db w)) \<or> (\<exists>f. rc = SQLITE_FAULT f)"
  using assms [unfolded sql_prepare_def]
proof (cases rule: sql_stepE)
  case (fault f fs)
  then show ?thesis using that [of fs] by simp
next
  case (run fs)
  then show ?thesis using that [of fs] by (auto split: if_splits)
qed

lemma map_sqlite_result_OK [simp]: "map_sqlite_result rc = OUTBOX_STORE_OK \<longleftrightarrow> rc = SQLITE_OK"
  by (simp add: map_sqlite_result_def)

section \<open>What a save does\<close>

text \<open>The database after a completed save.\<close>

definition saved_row :: "string \<Rightarrow> string \<Rightarrow> database \<Rightarrow> outbox_row" where
  "saved_row message_id topic db =
     \<lparr>o_id = next_rowid (map o_id (db_outbox db)), o_measurement_id = next_rowid (map fst (db_measurements db)),
      o_message_id = message_id, o_topic = topic, o_sent = False, o_attempt_count = 0,
      o_last_error = None, o_sent_at_ms = None\<rparr>"

definition saved_db :: "string \<Rightarrow> string \<Rightarrow> string \<Rightarrow> database \<Rightarrow> database" where
  "saved_db json message_id topic db =
     db\<lparr>db_measurements := db_measurements db @ [(next_rowid (map fst (db_measurements db)), json)],
        db_outbox := db_outbox db @ [saved_row message_id topic db]\<rparr>"

lemma insert_measurementE:
  assumes "sql_step (insert_measurement json) w = (rc, w')"
  obtains (fail) fs f where "w' = w\<lparr>sw_faults := fs\<rparr>" and "rc = SQLITE_FAULT f"
  | (ok) fs where "rc = SQLITE_DONE" and "json \<noteq> []"
    and "w' = w\<lparr>sw_faults := fs,
      sw_db := (sw_db w)\<lparr>db_measurements := db_measurements (sw_db w) @
        [(next_rowid (map fst (db_measurements (sw_db w))), json)]\<rparr>,
      sw_last_rowid := next_rowid (map fst (db_measurements (sw_db w)))\<rparr>"
  using assms that
  by (elim sql_stepE) (auto simp: insert_measurement_def Let_def split: if_splits)

lemma insert_outboxE:
  assumes "sql_step (insert_outbox mid topic) w = (rc, w')"
  obtains (fail) fs f n where "w' = w\<lparr>sw_faults := fs, sw_rng := n\<rparr>" and "rc = SQLITE_FAULT f"
  | (ok) fs n message_id where "rc = SQLITE_DONE"
    and "length message_id = 32" and "message_id \<notin> set (map o_message_id (db_outbox (sw_db w)))"
    and "mid \<notin> set (map o_measurement_id (db_outbox (sw_db w)))" and "topic \<noteq> []"
    and "w' = w\<lparr>sw_faults := fs, sw_rng := n,
      sw_db := (sw_db w)\<lparr>db_outbox := db_outbox (sw_db w) @
        [\<lparr>o_id = next_rowid (map o_id (db_outbox (sw_db w))), o_measurement_id = mid,
          o_message_id = message_id, o_topic = topic, o_sent = False, o_attempt_count = 0,
          o_last_error = None, o_sent_at_ms = None\<rparr>]\<rparr>,
      sw_last_rowid := next_rowid (map o_id (db_outbox (sw_db w)))\<rparr>"
  using assms
proof (cases rule: sql_stepE)
  case (fault f fs)
  then show ?thesis
    using that(1) [where fs = fs and n = "sw_rng w"] by simp
next
  case (run fs)
  then show ?thesis
    using that(1) [where fs = fs and n = "sw_rng w + 1"]
      that(2) [where fs = fs and n = "sw_rng w + 1" and message_id = "sw_rand w (sw_rng w)"]
    by (auto simp: insert_outbox_def Let_def split: if_splits)
qed

lemma exec_commitE:
  assumes "exec_commit w = (rc, w')" and "sw_txn w \<noteq> None"
  obtains (fail) fs f where "w' = w\<lparr>sw_faults := fs\<rparr>" and "rc = SQLITE_FAULT f"
  | (ok) fs where "rc = SQLITE_OK" and "w' = w\<lparr>sw_faults := fs, sw_txn := None\<rparr>"
  using assms(1) [unfolded exec_commit_def]
proof (cases rule: sql_stepE)
  case (fault f fs)
  then show ?thesis using that(1) [of fs] by simp
next
  case (run fs)
  then show ?thesis using that(2) [of fs] assms(2) by simp
qed

lemma exec_beginE:
  assumes "exec_begin w = (rc, w')" and "sw_txn w = None"
  obtains (fail) fs f where "w' = w\<lparr>sw_faults := fs\<rparr>" and "rc = SQLITE_FAULT f"
  | (ok) fs where "rc = SQLITE_OK" and "w' = w\<lparr>sw_faults := fs, sw_txn := Some (sw_db w)\<rparr>"
  using assms(1) [unfolded exec_begin_def]
proof (cases rule: sql_stepE)
  case (fault f fs)
  then show ?thesis using that(1) [of fs] by simp
next
  case (run fs)
  then show ?thesis using that(2) [of fs] assms(2) by simp
qed

lemma durable_faults [simp]: "durable (w\<lparr>sw_faults := fs\<rparr>) = durable w"
  by (simp add: durable_def split: option.split)

lemma durable_rollback [simp]: "durable (exec_rollback w) = durable w"
proof -
  obtain rc v where s: "sql_step (\<lambda>w. case sw_txn w of None \<Rightarrow> (SQLITE_ERROR, w)
      | Some db \<Rightarrow> (SQLITE_OK, w\<lparr>sw_db := db, sw_txn := None\<rparr>)) w = (rc, v)" by fastforce
  show ?thesis
    using s by (cases rule: sql_stepE) (auto simp: s exec_rollback_def durable_def split: option.splits)
qed

lemma save_statements_cases:
  assumes "save_statements json topic w = (res, w')" and "sw_txn w = Some d"
  shows "res = OUTBOX_STORE_OK \<and> sw_txn w' = None \<and> json \<noteq> [] \<and> topic \<noteq> [] \<and>
      (\<exists>message_id. length message_id = 32 \<and> message_id \<notin> set (map o_message_id (db_outbox (sw_db w))) \<and>
        next_rowid (map fst (db_measurements (sw_db w))) \<notin> set (map o_measurement_id (db_outbox (sw_db w))) \<and>
        sw_db w' = saved_db json message_id topic (sw_db w)) \<or>
    res \<noteq> OUTBOX_STORE_OK \<and> sw_txn w' = Some d"
  using assms
  by (auto simp: save_statements_def Let_def saved_db_def saved_row_def split: prod.splits if_splits
      elim!: sql_callE sql_prepareE insert_measurementE insert_outboxE exec_commitE)

lemma save_measurement_cases:
  assumes "outbox_store_save_measurement alloc print_text store meas topic w = (res, w')" and "sw_txn w = None"
  shows "res = OUTBOX_STORE_OK \<and> sw_txn w' = None \<and>
      (\<exists>m json n t message_id. meas = Some m \<and> topic = Some t \<and> json \<noteq> [] \<and> t \<noteq> [] \<and>
        measurement_to_json alloc print_text meas True = (MEASUREMENT_JSON_OK, Some (json, n)) \<and>
        length message_id = 32 \<and> message_id \<notin> set (map o_message_id (db_outbox (sw_db w))) \<and>
        next_rowid (map fst (db_measurements (sw_db w))) \<notin> set (map o_measurement_id (db_outbox (sw_db w))) \<and>
        sw_db w' = saved_db json message_id t (sw_db w)) \<or>
    res \<noteq> OUTBOX_STORE_OK \<and> durable w' = durable w"
proof (cases "prepare_save_payload alloc print_text store meas topic")
  case (Pair r j)
  show ?thesis
  proof (cases "r = OUTBOX_STORE_OK \<and> j \<noteq> None")
    case False
    then have "res \<noteq> OUTBOX_STORE_OK \<and> w' = w"
      using assms(1) Pair
      by (auto simp: outbox_store_save_measurement_def prepare_save_payload_def
          split: outbox_store_result_t.splits option.splits if_splits measurement_json_result_t.splits prod.splits)
    then show ?thesis by simp
  next
    case True
    then obtain json where j: "j = Some json" "r = OUTBOX_STORE_OK" by auto
    with Pair obtain m t n where p: "meas = Some m" "topic = Some t" "t \<noteq> []"
        "measurement_to_json alloc print_text meas True = (MEASUREMENT_JSON_OK, Some (json, n))"
      by (auto simp: prepare_save_payload_def
          split: if_splits measurement_json_result_t.splits option.splits prod.splits)
    obtain rc w1 where b: "exec_begin w = (rc, w1)" by fastforce
    show ?thesis
      using b assms(2)
    proof (cases rule: exec_beginE)
      case (fail fs f)
      then show ?thesis
        using assms Pair j b by (auto simp: outbox_store_save_measurement_def durable_def)
    next
      case (ok fs)
      obtain r2 w2 where s: "save_statements json t w1 = (r2, w2)" by fastforce
      have t1: "sw_txn w1 = Some (sw_db w)" "sw_db w1 = sw_db w" using ok by simp_all
      have w': "(res, w') = (if r2 \<noteq> OUTBOX_STORE_OK then (r2, exec_rollback w2) else (r2, w2))"
        using assms(1) Pair j b ok(1) s p(2) by (simp add: outbox_store_save_measurement_def)
      consider (good) message_id where "r2 = OUTBOX_STORE_OK" "sw_txn w2 = None" "json \<noteq> []"
          "length message_id = 32" "message_id \<notin> set (map o_message_id (db_outbox (sw_db w)))"
          "next_rowid (map fst (db_measurements (sw_db w))) \<notin> set (map o_measurement_id (db_outbox (sw_db w)))"
          "sw_db w2 = saved_db json message_id t (sw_db w)"
        | (bad) "r2 \<noteq> OUTBOX_STORE_OK" "sw_txn w2 = Some (sw_db w)"
        using save_statements_cases [OF s t1(1)] unfolding t1(2) by blast
      then show ?thesis
      proof cases
        case good
        then show ?thesis using w' p by auto
      next
        case bad
        then show ?thesis using w' assms(2) by (simp add: durable_def [of w] durable_def [of w2])
      qed
    qed
  qed
qed

section \<open>The invariant of the store\<close>

lemma next_rowid_greater: "x \<in> set ids \<Longrightarrow> x < next_rowid ids"
proof -
  have "x \<in> set ids \<Longrightarrow> x \<le> foldr max ids 0" by (induction ids) (auto simp: max_def)
  then show "x \<in> set ids \<Longrightarrow> x < next_rowid ids" by (simp add: next_rowid_def)
qed

lemma next_rowid_positive: "0 < next_rowid ids"
proof -
  have "0 \<le> foldr max ids 0" by (induction ids) (auto simp: max_def)
  then show ?thesis by (simp add: next_rowid_def)
qed

definition row_ok :: "outbox_row \<Rightarrow> bool" where
  "row_ok r \<longleftrightarrow> 0 < o_id r \<and> length (o_message_id r) = 32 \<and> o_topic r \<noteq> [] \<and> 0 \<le> o_attempt_count r \<and>
     (o_sent r \<longleftrightarrow> o_sent_at_ms r \<noteq> None)"

definition store_inv :: "database \<Rightarrow> bool" where
  "store_inv db \<longleftrightarrow>
     {''measurements'', ''outbox'', ''gateway_config''} \<subseteq> set (db_tables db) \<and>
     list_all row_ok (db_outbox db) \<and> sorted_wrt (<) (map o_id (db_outbox db)) \<and>
     distinct (map o_message_id (db_outbox db)) \<and> distinct (map o_measurement_id (db_outbox db)) \<and>
     list_all (\<lambda>(i, p). 0 < i \<and> p \<noteq> []) (db_measurements db) \<and> distinct (map fst (db_measurements db)) \<and>
     set (map o_measurement_id (db_outbox db)) = set (map fst (db_measurements db)) \<and>
     (case db_interval db of None \<Rightarrow> True | Some v \<Rightarrow> 100 \<le> v \<and> v \<le> 60000)"

lemma saved_db_inv:
  assumes "store_inv db" and "length message_id = 32" and "message_id \<notin> set (map o_message_id (db_outbox db))"
    and "json \<noteq> []" and "topic \<noteq> []"
  shows "store_inv (saved_db json message_id topic db)"
proof -
  have "next_rowid (map fst (db_measurements db)) \<notin> set (map fst (db_measurements db))"
    using next_rowid_greater by blast
  then show ?thesis
    using assms next_rowid_positive
    by (auto simp: store_inv_def saved_db_def saved_row_def row_ok_def sorted_wrt_append next_rowid_greater)
qed

section \<open>Updates\<close>

definition updated_db :: "int \<Rightarrow> (outbox_row \<Rightarrow> outbox_row) \<Rightarrow> database \<Rightarrow> database" where
  "updated_db outbox_id f db =
     db\<lparr>db_outbox := map (\<lambda>r. if o_id r = outbox_id then f r else r) (db_outbox db)\<rparr>"

lemma updated_db_absent: "outbox_id \<notin> o_id ` set (db_outbox db) \<Longrightarrow> updated_db outbox_id f db = db"
proof -
  assume "outbox_id \<notin> o_id ` set (db_outbox db)"
  then have "map (\<lambda>r. if o_id r = outbox_id then f r else r) (db_outbox db) = db_outbox db"
    by (intro map_idI) auto
  then show ?thesis by (simp add: updated_db_def)
qed

lemma update_outboxE:
  assumes "sql_step (update_outbox outbox_id f) w = (rc, w')"
  obtains (fail) fs e where "w' = w\<lparr>sw_faults := fs\<rparr>" and "rc = SQLITE_FAULT e"
  | (ok) fs where "rc = SQLITE_DONE"
    and "w' = w\<lparr>sw_faults := fs, sw_db := updated_db outbox_id f (sw_db w),
      sw_changes := length (filter (\<lambda>r. o_id r = outbox_id) (db_outbox (sw_db w)))\<rparr>"
  using assms
proof (cases rule: sql_stepE)
  case (fault e fs)
  then show ?thesis using that(1) by blast
next
  case (run fs)
  then show ?thesis
    using that(2) [of fs] by (auto simp: update_outbox_def updated_db_def Let_def)
qed

text \<open>Only a completed step changes the database; an error reported after it (by finalize) is the one
  case where the change is there although the call does not report success.\<close>

lemma run_update_cases:
  assumes "run_update outbox_id f w = (res, w')"
  shows "sw_txn w' = sw_txn w"
    and "sw_db w' = sw_db w \<or> sw_db w' = updated_db outbox_id f (sw_db w)"
    and "res = OUTBOX_STORE_OK \<Longrightarrow>
      sw_db w' = updated_db outbox_id f (sw_db w) \<and> outbox_id \<in> o_id ` set (db_outbox (sw_db w))"
    and "res = OUTBOX_STORE_NOT_FOUND \<Longrightarrow> sw_db w' = sw_db w \<and> outbox_id \<notin> o_id ` set (db_outbox (sw_db w))"
proof -
  have snd_call: "\<exists>fs. snd (sql_call v) = v\<lparr>sw_faults := fs\<rparr>" for v
    by (cases "sql_call v") (auto elim!: sql_callE)
  have nf: "map_sqlite_result rc \<noteq> OUTBOX_STORE_NOT_FOUND" for rc by (simp add: map_sqlite_result_def)
  note defs = run_update_def Let_def filter_empty_conv nf
  note elims = sql_callE sql_prepareE update_outboxE
  have ex: "sw_txn (snd (sql_call v)) = sw_txn v" "sw_db (snd (sql_call v)) = sw_db v" for v
    using snd_call [of v] by auto
  show "sw_txn w' = sw_txn w"
    using assms by (auto simp: defs ex split: prod.splits if_splits elim!: elims)
  show "sw_db w' = sw_db w \<or> sw_db w' = updated_db outbox_id f (sw_db w)"
    using assms by (auto simp: defs ex split: prod.splits if_splits elim!: elims)
  show "res = OUTBOX_STORE_OK \<Longrightarrow>
      sw_db w' = updated_db outbox_id f (sw_db w) \<and> outbox_id \<in> o_id ` set (db_outbox (sw_db w))"
    using assms by (auto simp: defs ex split: prod.splits if_splits elim!: elims)
  show "res = OUTBOX_STORE_NOT_FOUND \<Longrightarrow> sw_db w' = sw_db w \<and> outbox_id \<notin> o_id ` set (db_outbox (sw_db w))"
    using assms by (auto simp: defs ex split: prod.splits if_splits elim!: elims intro!: updated_db_absent)
qed

lemma updated_db_inv:
  assumes "store_inv db" and "\<And>r. row_ok r \<Longrightarrow> row_ok (f r)"
    and "\<And>r. o_id (f r) = o_id r" and "\<And>r. o_message_id (f r) = o_message_id r"
    and "\<And>r. o_measurement_id (f r) = o_measurement_id r"
  shows "store_inv (updated_db outbox_id f db)"
proof -
  let ?g = "\<lambda>r. if o_id r = outbox_id then f r else r"
  have keys: "map o_id (map ?g rs) = map o_id rs" "map o_message_id (map ?g rs) = map o_message_id rs"
      "map o_measurement_id (map ?g rs) = map o_measurement_id rs" for rs
    using assms(3-5) by auto
  show ?thesis
    using assms(1,2) unfolding store_inv_def updated_db_def
    by (auto simp: keys [unfolded map_map o_def] o_def list_all_iff)
qed

lemma mark_row_ok: "row_ok r \<Longrightarrow> row_ok (mark_row t r)"
  and fail_row_ok: "row_ok r \<Longrightarrow> row_ok (fail_row e r)"
  by (auto simp: row_ok_def mark_row_def fail_row_def)

lemma mark_row_keys [simp]: "o_id (mark_row t r) = o_id r" "o_message_id (mark_row t r) = o_message_id r"
    "o_measurement_id (mark_row t r) = o_measurement_id r" "o_topic (mark_row t r) = o_topic r" "o_sent (mark_row t r)"
  and fail_row_keys [simp]: "o_id (fail_row e r) = o_id r" "o_message_id (fail_row e r) = o_message_id r"
    "o_measurement_id (fail_row e r) = o_measurement_id r" "o_topic (fail_row e r) = o_topic r"
    "o_sent (fail_row e r) = o_sent r"
  by (simp_all add: mark_row_def fail_row_def)

lemmas mark_inv = updated_db_inv [of _ "mark_row t" for t, OF _ mark_row_ok mark_row_keys(1-3)]
lemmas fail_inv = updated_db_inv [of _ "fail_row e" for e, OF _ fail_row_ok fail_row_keys(1-3)]

section \<open>The query for pending messages\<close>

lemma insert_by_id_least: "(\<And>s. s \<in> set rs \<Longrightarrow> o_id r \<le> o_id s) \<Longrightarrow> insert_by_id r rs = r # rs"
  by (cases rs) auto

lemma sort_by_id_sorted: "sorted_wrt (<) (map o_id rs) \<Longrightarrow> foldr insert_by_id rs [] = rs"
proof (induction rs)
  case (Cons r rs)
  then show ?case using insert_by_id_least [of rs r] by (auto simp: less_imp_le)
qed simp

lemma sorted_wrt_map_filter: "sorted_wrt R (map f xs) \<Longrightarrow> sorted_wrt R (map f (filter P xs))"
  by (induction xs) auto

definition payload_of :: "database \<Rightarrow> outbox_row \<Rightarrow> string" where
  "payload_of db r = the (map_of (db_measurements db) (o_measurement_id r))"

lemma measurement_present:
  assumes "store_inv db" and "r \<in> set (db_outbox db)"
  shows "map_of (db_measurements db) (o_measurement_id r) = Some (payload_of db r)"
proof -
  have "o_measurement_id r \<in> fst ` set (db_measurements db)"
    using assms by (force simp: store_inv_def)
  then have "map_of (db_measurements db) (o_measurement_id r) \<noteq> None"
    by (simp add: map_of_eq_None_iff)
  then show ?thesis by (auto simp: payload_of_def)
qed

lemma pending_rows_inv:
  assumes "store_inv db"
  shows "pending_rows db = map (\<lambda>r. (r, payload_of db r)) (filter (\<lambda>r. \<not> o_sent r) (db_outbox db))"
proof -
  let ?rs = "filter (\<lambda>r. \<not> o_sent r) (db_outbox db)"
  have "foldr insert_by_id ?rs [] = ?rs"
    using assms by (intro sort_by_id_sorted sorted_wrt_map_filter) (simp add: store_inv_def)
  moreover have "List.map_filter (\<lambda>r. map_option (Pair r) (map_of (db_measurements db) (o_measurement_id r))) xs
      = map (\<lambda>r. (r, payload_of db r)) xs" if "set xs \<subseteq> set (db_outbox db)" for xs
    using that by (induction xs) (auto simp: measurement_present [OF assms])
  ultimately show ?thesis by (simp add: pending_rows_def)
qed

text \<open>Reading changes nothing and, when it succeeds, hands out the first pending row.\<close>

lemma read_rowE:
  assumes "read_row (r, payload) w = ((res, it), w')"
  shows "\<exists>fs. w' = w\<lparr>sw_faults := fs\<rparr>" and "res \<noteq> OUTBOX_STORE_EMPTY"
    and "res = OUTBOX_STORE_OK \<Longrightarrow>
      it = \<lparr>item_id = o_id r, item_measurement_id = o_measurement_id r, item_attempt_count = of_int (o_attempt_count r),
        item_message_id = o_message_id r, item_topic = Some (o_topic r), item_payload_json = Some payload\<rparr>"
    and "res \<noteq> OUTBOX_STORE_OK \<Longrightarrow> it = zero_item"
proof -
  note defs = read_row_def Let_def column_text_result_def map_sqlite_result_def
  show "\<exists>fs. w' = w\<lparr>sw_faults := fs\<rparr>"
    using assms by (auto simp: defs split: prod.splits if_splits elim!: sql_callE)
  show "res \<noteq> OUTBOX_STORE_EMPTY"
    using assms by (auto simp: defs split: prod.splits if_splits)
  show "res = OUTBOX_STORE_OK \<Longrightarrow>
      it = \<lparr>item_id = o_id r, item_measurement_id = o_measurement_id r, item_attempt_count = of_int (o_attempt_count r),
        item_message_id = o_message_id r, item_topic = Some (o_topic r), item_payload_json = Some payload\<rparr>"
    using assms by (auto simp: defs split: prod.splits if_splits)
  show "res \<noteq> OUTBOX_STORE_OK \<Longrightarrow> it = zero_item"
    using assms by (auto simp: defs split: prod.splits if_splits)
qed

lemma read_earliest_cases:
  assumes "outbox_store_read_earliest_pending store w = ((res, it), w')" and "store_inv (sw_db w)"
  shows "\<exists>fs. w' = w\<lparr>sw_faults := fs\<rparr>"
    and "res = OUTBOX_STORE_EMPTY \<Longrightarrow> filter (\<lambda>r. \<not> o_sent r) (db_outbox (sw_db w)) = []"
    and "res = OUTBOX_STORE_OK \<Longrightarrow> \<exists>r rs. filter (\<lambda>r. \<not> o_sent r) (db_outbox (sw_db w)) = r # rs \<and>
      it = \<lparr>item_id = o_id r, item_measurement_id = o_measurement_id r, item_attempt_count = of_int (o_attempt_count r),
        item_message_id = o_message_id r, item_topic = Some (o_topic r),
        item_payload_json = Some (payload_of (sw_db w) r)\<rparr>"
    and "res \<noteq> OUTBOX_STORE_OK \<Longrightarrow> it = zero_item"
proof -
  let ?P = "filter (\<lambda>r. \<not> o_sent r) (db_outbox (sw_db w))"
  have pr: "pending_rows (sw_db w) = map (\<lambda>r. (r, payload_of (sw_db w) r)) ?P"
    using pending_rows_inv [OF assms(2)] .
  have ne: "map_sqlite_result rc \<noteq> OUTBOX_STORE_EMPTY" for rc by (simp add: map_sqlite_result_def)
  have cs: "(\<exists>fs. w' = w\<lparr>sw_faults := fs\<rparr>) \<and> res \<noteq> OUTBOX_STORE_OK \<and> it = zero_item \<and>
        (res = OUTBOX_STORE_EMPTY \<longrightarrow> ?P = []) \<or>
      (\<exists>r rs fs. ?P = r # rs \<and> read_row (r, payload_of (sw_db w) r) (w\<lparr>sw_faults := fs\<rparr>) = ((res, it), w'))"
    using assms(1)
    by (cases ?P) (auto simp: outbox_store_read_earliest_pending_def Let_def pr ne split: prod.splits if_splits
        elim!: sql_prepareE sql_callE sql_stepE)
  show "\<exists>fs. w' = w\<lparr>sw_faults := fs\<rparr>"
    using cs read_rowE(1) by fastforce
  show "res = OUTBOX_STORE_EMPTY \<Longrightarrow> ?P = []"
    using cs read_rowE(2) by fastforce
  show "res = OUTBOX_STORE_OK \<Longrightarrow> \<exists>r rs. ?P = r # rs \<and>
      it = \<lparr>item_id = o_id r, item_measurement_id = o_measurement_id r, item_attempt_count = of_int (o_attempt_count r),
        item_message_id = o_message_id r, item_topic = Some (o_topic r),
        item_payload_json = Some (payload_of (sw_db w) r)\<rparr>"
    using cs read_rowE(3) by fastforce
  show "res \<noteq> OUTBOX_STORE_OK \<Longrightarrow> it = zero_item"
    using cs read_rowE(4) by fastforce
qed

section \<open>The contract of a durable outbox\<close>

text \<open>
  What the delivery pipeline relies on: a log of messages, each pending or sent, in the order in
  which they were saved. \<open>in_order\<close> says that no message is sent before an older one,
  \<open>first_pending\<close> that a message is the oldest one not yet sent.
\<close>

definition in_order :: "('k \<times> bool) list \<Rightarrow> bool" where
  "in_order msgs \<longleftrightarrow> sorted_wrt (\<lambda>a b. snd b \<longrightarrow> snd a) msgs"

definition first_pending :: "('k \<Rightarrow> int) \<Rightarrow> int \<Rightarrow> ('k \<times> bool) list \<Rightarrow> bool" where
  "first_pending ident i msgs \<longleftrightarrow>
     (\<exists>xs k ys. msgs = xs @ (k, False) # ys \<and> ident k = i \<and> (\<forall>x \<in> set xs. snd x))"

definition flag_sent :: "('k \<Rightarrow> int) \<Rightarrow> int \<Rightarrow> ('k \<times> bool) list \<Rightarrow> ('k \<times> bool) list" where
  "flag_sent ident i msgs = map (\<lambda>(k, s). (k, s \<or> ident k = i)) msgs"

lemma first_pending_append: "first_pending ident i msgs \<Longrightarrow> first_pending ident i (msgs @ more_log)"
  unfolding first_pending_def by fastforce

lemma in_order_append_pending: "in_order msgs \<Longrightarrow> in_order (msgs @ [(k, False)])"
  by (simp add: in_order_def sorted_wrt_append)

lemma in_order_constant: "(\<forall>x \<in> set msgs. snd x) \<or> (\<forall>x \<in> set msgs. \<not> snd x) \<Longrightarrow> in_order msgs"
  unfolding in_order_def by (induction msgs) auto

lemma in_order_flag_first:
  assumes "in_order msgs" and "first_pending ident i msgs" and "distinct (map (ident \<circ> fst) msgs)"
  shows "in_order (flag_sent ident i msgs)"
proof -
  from assms(2) obtain xs k ys where s: "msgs = xs @ (k, False) # ys" "ident k = i" "\<forall>x \<in> set xs. snd x"
    unfolding first_pending_def by blast
  have "ident (fst y) \<noteq> i" if "y \<in> set ys" for y
    using assms(3) s that by (auto simp: image_iff)
  moreover have "\<not> snd y" if "y \<in> set ys" for y
    using assms(1) s that by (auto simp: in_order_def sorted_wrt_append)
  ultimately have f: "\<forall>y \<in> set (flag_sent ident i ys). \<not> snd y" "\<forall>x \<in> set (flag_sent ident i xs). snd x"
    using s(3) by (fastforce simp: flag_sent_def)+
  moreover have "in_order (flag_sent ident i ys)" "in_order (flag_sent ident i xs)"
    using f in_order_constant by blast+
  ultimately show ?thesis
    using s(1,2) by (auto simp: flag_sent_def in_order_def sorted_wrt_append)
qed

locale durable_outbox =
  fixes ready :: "'w \<Rightarrow> bool"
    and msgs :: "'w \<Rightarrow> ('k \<times> bool) list"
    and ident :: "'k \<Rightarrow> int"
    and key :: "'i \<Rightarrow> 'k"
    and save :: "'m \<Rightarrow> 'w \<Rightarrow> outbox_store_result_t \<times> 'w"
    and earliest :: "'w \<Rightarrow> (outbox_store_result_t \<times> 'i) \<times> 'w"
    and mark :: "int \<Rightarrow> int \<Rightarrow> 'w \<Rightarrow> outbox_store_result_t \<times> 'w"
    and note_failure :: "int \<Rightarrow> string \<Rightarrow> 'w \<Rightarrow> outbox_store_result_t \<times> 'w"
  assumes distinct_idents: "ready w \<Longrightarrow> distinct (map (ident \<circ> fst) (msgs w))"
    and save_ok: "\<lbrakk>ready w; save m w = (OUTBOX_STORE_OK, w')\<rbrakk> \<Longrightarrow> ready w' \<and> (\<exists>k. msgs w' = msgs w @ [(k, False)])"
    and save_failed: "\<lbrakk>ready w; save m w = (res, w'); res \<noteq> OUTBOX_STORE_OK\<rbrakk> \<Longrightarrow> msgs w' = msgs w"
    and earliest_keeps: "\<lbrakk>ready w; earliest w = ((res, it), w')\<rbrakk> \<Longrightarrow> ready w' \<and> msgs w' = msgs w"
    and earliest_ok: "\<lbrakk>ready w; earliest w = ((OUTBOX_STORE_OK, it), w')\<rbrakk> \<Longrightarrow>
      (key it, False) \<in> set (msgs w) \<and> first_pending ident (ident (key it)) (msgs w)"
    and earliest_empty: "\<lbrakk>ready w; earliest w = ((OUTBOX_STORE_EMPTY, it), w')\<rbrakk> \<Longrightarrow> \<forall>x \<in> set (msgs w). snd x"
    and mark_keeps: "\<lbrakk>ready w; mark i t w = (res, w')\<rbrakk> \<Longrightarrow>
      ready w' \<and> (msgs w' = msgs w \<or> msgs w' = flag_sent ident i (msgs w))"
    and mark_ok: "\<lbrakk>ready w; mark i t w = (OUTBOX_STORE_OK, w')\<rbrakk> \<Longrightarrow> msgs w' = flag_sent ident i (msgs w)"
    and note_failure_keeps: "\<lbrakk>ready w; note_failure i e w = (res, w')\<rbrakk> \<Longrightarrow> ready w' \<and> msgs w' = msgs w"
begin

text \<open>The steps of a client that saves, and delivers only what is first pending, keep the order.\<close>

lemma save_in_order:
  assumes "ready w" and "save m w = (res, w')" and "in_order (msgs w)"
  shows "in_order (msgs w')"
  using assms save_ok [of w m w'] save_failed [of w m res w']
  by (cases "res = OUTBOX_STORE_OK") (auto intro: in_order_append_pending)

lemma save_first_pending:
  assumes "ready w" and "save m w = (res, w')" and "first_pending ident i (msgs w)"
  shows "first_pending ident i (msgs w')"
  using assms save_ok [of w m w'] save_failed [of w m res w']
  by (cases "res = OUTBOX_STORE_OK") (auto intro: first_pending_append)

lemma mark_in_order:
  assumes "ready w" and "mark i t w = (res, w')" and "in_order (msgs w)" and "first_pending ident i (msgs w)"
  shows "in_order (msgs w')"
  using mark_keeps [OF assms(1,2)] in_order_flag_first [OF assms(3,4) distinct_idents [OF assms(1)]] assms(3)
  by auto

end

subsection \<open>The store keeps the contract\<close>

definition outbox_view :: "database \<Rightarrow> ((int \<times> string \<times> string \<times> string) \<times> bool) list" where
  "outbox_view db =
     map (\<lambda>r. ((o_id r, o_message_id r, o_topic r, payload_of db r), o_sent r)) (db_outbox db)"

definition store_ready :: "store_world \<Rightarrow> bool" where
  "store_ready w \<longleftrightarrow> sw_txn w = None \<and> store_inv (sw_db w)"

definition item_key :: "outbox_item_t \<Rightarrow> int \<times> string \<times> string \<times> string" where
  "item_key it = (item_id it, item_message_id it, the (item_topic it), the (item_payload_json it))"

lemma outbox_view_saved:
  assumes "store_inv db"
  shows "outbox_view (saved_db json message_id topic db) =
    outbox_view db @ [((next_rowid (map o_id (db_outbox db)), message_id, topic, json), False)]"
proof -
  have "payload_of (saved_db json message_id topic db) r = payload_of db r" if "r \<in> set (db_outbox db)" for r
    using measurement_present [OF assms that] by (auto simp: payload_of_def saved_db_def map_add_def split: option.splits)
  moreover have "map_of (db_measurements db) (next_rowid (map fst (db_measurements db))) = None"
    using next_rowid_greater [of "next_rowid (map fst (db_measurements db))" "map fst (db_measurements db)"]
    by (auto simp: map_of_eq_None_iff)
  then have "payload_of (saved_db json message_id topic db) (saved_row message_id topic db) = json"
    by (simp add: payload_of_def saved_db_def saved_row_def map_add_def)
  ultimately show ?thesis
    by (simp add: outbox_view_def) (simp add: saved_db_def saved_row_def)
qed

lemma outbox_view_marked: "outbox_view (updated_db i (mark_row t) db) = flag_sent fst i (outbox_view db)"
  by (auto simp: outbox_view_def updated_db_def flag_sent_def payload_of_def)

lemma outbox_view_failed: "outbox_view (updated_db i (fail_row e) db) = outbox_view db"
  by (auto simp: outbox_view_def updated_db_def payload_of_def)

lemma filter_first: "filter P xs = r # rs \<Longrightarrow> \<exists>us vs. xs = us @ r # vs \<and> (\<forall>u \<in> set us. \<not> P u) \<and> P r"
  by (auto simp: filter_eq_Cons_iff)

interpretation sqlite_outbox: durable_outbox store_ready "\<lambda>w. outbox_view (durable w)" fst item_key
  "\<lambda>(meas, topic). outbox_store_save_measurement alloc print_text True meas topic"
  "outbox_store_read_earliest_pending True" "outbox_store_mark_sent True"
  "\<lambda>i e. outbox_store_record_delivery_failure True i (Some e)" for alloc print_text
proof (unfold_locales, goal_cases)
  case (1 w)
  then have "distinct (map o_id (db_outbox (sw_db w)))"
    by (simp add: store_ready_def store_inv_def strict_sorted_iff)
  then show ?case using 1 by (simp add: store_ready_def durable_def outbox_view_def comp_def)
next
  case (2 w m w')
  then show ?case
    using save_measurement_cases [of alloc print_text True "fst m" "snd m" w OUTBOX_STORE_OK w']
    by (auto simp: store_ready_def durable_def saved_db_inv outbox_view_saved split: prod.splits)
next
  case (3 w m res w')
  then show ?case
    using save_measurement_cases [of alloc print_text True "fst m" "snd m" w res w']
    by (auto simp: store_ready_def split: prod.splits)
next
  case (4 w res it w')
  then show ?case
    using read_earliest_cases(1) [of True w res it w'] by (auto simp: store_ready_def durable_def)
next
  case (5 w it w')
  then obtain r rs where r: "filter (\<lambda>r. \<not> o_sent r) (db_outbox (sw_db w)) = r # rs"
      "item_key it = (o_id r, o_message_id r, o_topic r, payload_of (sw_db w) r)"
    using read_earliest_cases(3) [of True w OUTBOX_STORE_OK it w'] by (auto simp: store_ready_def item_key_def)
  obtain us vs where "db_outbox (sw_db w) = us @ r # vs" "\<forall>u \<in> set us. o_sent u" "\<not> o_sent r"
    using filter_first [OF r(1)] by blast
  then have "outbox_view (durable w) =
      map (\<lambda>r. ((o_id r, o_message_id r, o_topic r, payload_of (sw_db w) r), o_sent r)) us @
      (item_key it, False) # map (\<lambda>r. ((o_id r, o_message_id r, o_topic r, payload_of (sw_db w) r), o_sent r)) vs"
    using 5(1) r(2) by (simp add: store_ready_def durable_def outbox_view_def)
  then show ?case
    unfolding first_pending_def using \<open>\<forall>u \<in> set us. o_sent u\<close> by fastforce
next
  case (6 w it w')
  then show ?case
    using read_earliest_cases(2) [of True w OUTBOX_STORE_EMPTY it w']
    by (auto simp: store_ready_def durable_def outbox_view_def filter_empty_conv)
next
  case (7 w i t res w')
  then show ?case
    using run_update_cases(1,2) [of i "mark_row t" w res w']
    by (auto simp: outbox_store_mark_sent_def store_ready_def durable_def outbox_view_marked mark_inv)
next
  case (8 w i t w')
  then show ?case
    using run_update_cases(1,3) [of i "mark_row t" w OUTBOX_STORE_OK w']
    by (auto simp: outbox_store_mark_sent_def store_ready_def durable_def outbox_view_marked)
next
  case (9 w i e res w')
  then show ?case
    using run_update_cases(1,2) [of i "fail_row e" w res w']
    by (auto simp: outbox_store_record_delivery_failure_def store_ready_def durable_def outbox_view_failed fail_inv
        split: if_splits)
qed

section \<open>Properties\<close>

text \<open>
  C8: Saving is atomic and durable: with no open transaction, a save reports OK exactly when it has
  committed one new measurement row with the measurement's JSON text and one new pending outbox row
  linked to it, with an unused message identifier of 32 characters; on every other result, whichever
  SQLite call failed (a failing COMMIT or ROLLBACK included), the database that survives is the one
  before the call.
\<close>

theorem outbox_save_atomic:
  assumes "sw_txn w = None"
    and "outbox_store_save_measurement alloc print_text store meas topic w = (res, w')"
  shows "if res = OUTBOX_STORE_OK
    then sw_txn w' = None \<and>
      (\<exists>json n t message_id. topic = Some t \<and>
        measurement_to_json alloc print_text meas True = (MEASUREMENT_JSON_OK, Some (json, n)) \<and>
        length message_id = 32 \<and> message_id \<notin> set (map o_message_id (db_outbox (sw_db w))) \<and>
        sw_db w' = saved_db json message_id t (sw_db w))
    else durable w' = durable w"
  using save_measurement_cases [OF assms(2,1)] by auto

definition demo_id :: "nat \<Rightarrow> string" where
  "demo_id n = replicate n CHR ''0'' @ replicate (32 - n) CHR ''f''"

definition demo_store :: store_world where
  "demo_store =
     \<lparr>sw_db = \<lparr>db_tables = [''measurements'', ''outbox'', ''idx_outbox_state_id'', ''gateway_config''],
        db_measurements = [(1, ''{}'')],
        db_outbox = [\<lparr>o_id = 1, o_measurement_id = 1, o_message_id = demo_id 0, o_topic = ''t'', o_sent = False,
          o_attempt_count = 0, o_last_error = None, o_sent_at_ms = None\<rparr>],
        db_outbox_v3 = [], db_interval = Some 500, db_version = 4\<rparr>,
      sw_txn = None, sw_faults = [], sw_rand = demo_id, sw_rng = 1, sw_last_rowid = 1, sw_changes = 0\<rparr>"

lemma demo_save:
  "outbox_store_save_measurement (\<lambda>_. True) (\<lambda>_. ''{}'') True (Some sample_measurement) (Some ''t'') (demo_store\<lparr>sw_faults := fs\<rparr>) =
    (let (rc, w1) = exec_begin (demo_store\<lparr>sw_faults := fs\<rparr>) in
     if rc \<noteq> SQLITE_OK then (map_sqlite_result rc, w1)
     else let (res, w2) = save_statements ''{}'' ''t'' w1
          in if res \<noteq> OUTBOX_STORE_OK then (res, exec_rollback w2) else (res, w2))"
  by (simp add: outbox_store_save_measurement_def prepare_save_payload_def measurement_to_json_sample
      case_prod_beta Let_def)

definition demo_saved :: store_world where
  "demo_saved = snd (save_statements ''{}'' ''t'' (snd (exec_begin demo_store)))"

lemma demo_save_ok:
  "outbox_store_save_measurement (\<lambda>_. True) (\<lambda>_. ''{}'') True (Some sample_measurement) (Some ''t'') demo_store =
    (OUTBOX_STORE_OK, demo_saved)"
proof -
  have "demo_store\<lparr>sw_faults := []\<rparr> = demo_store" by (simp add: demo_store_def)
  moreover have "fst (exec_begin demo_store) = SQLITE_OK" by code_simp
  moreover have "fst (save_statements ''{}'' ''t'' (snd (exec_begin demo_store))) = OUTBOX_STORE_OK" by code_simp
  ultimately show ?thesis
    using demo_save [of "[]"] unfolding demo_saved_def by (simp add: case_prod_beta Let_def prod_eq_iff)
qed

theorem outbox_save_atomic_witness:
  "sw_txn demo_saved = None \<and> length (db_outbox (sw_db demo_saved)) = 2"
proof -
  have "sw_txn demo_store = None" "length (db_outbox (sw_db demo_store)) = 1" by (simp_all add: demo_store_def)
  then show ?thesis
    using outbox_save_atomic [OF _ demo_save_ok] by (auto simp: saved_db_def)
qed

text \<open>Every call on a store, for statements about whole histories.\<close>

datatype store_call =
    CallSave "measurement_t option" "string option"
  | CallReadEarliest
  | CallMarkSent int int
  | CallRecordFailure int "string option"
  | CallStats
  | CallSaveInterval int
  | CallLoadInterval "int option"

fun store_call_run :: "(nat \<Rightarrow> bool) \<Rightarrow> (cjson \<Rightarrow> string) \<Rightarrow> store_call \<Rightarrow> store_world \<Rightarrow> store_world" where
  "store_call_run alloc print_text (CallSave m t) w = snd (outbox_store_save_measurement alloc print_text True m t w)"
| "store_call_run alloc print_text CallReadEarliest w = snd (outbox_store_read_earliest_pending True w)"
| "store_call_run alloc print_text (CallMarkSent i t) w = snd (outbox_store_mark_sent True i t w)"
| "store_call_run alloc print_text (CallRecordFailure i e) w = snd (outbox_store_record_delivery_failure True i e w)"
| "store_call_run alloc print_text CallStats w = snd (outbox_store_get_stats True w)"
| "store_call_run alloc print_text (CallSaveInterval v) w = snd (outbox_store_save_interval True v w)"
| "store_call_run alloc print_text (CallLoadInterval out) w = snd (outbox_store_load_interval True out w)"

lemma snd_sql_call: "\<exists>fs. snd (sql_call w) = w\<lparr>sw_faults := fs\<rparr>"
  by (cases "sql_call w") (auto elim!: sql_callE)

lemma sql_step_constE:
  assumes "sql_step (\<lambda>v. (c (sw_db v), v)) w = (rc, w')"
  obtains fs where "w' = w\<lparr>sw_faults := fs\<rparr>" and "rc = c (sw_db w) \<or> (\<exists>f. rc = SQLITE_FAULT f)"
  using assms
proof (cases rule: sql_stepE)
  case (fault f fs)
  then show ?thesis using that [of fs] by simp
next
  case (run fs)
  then show ?thesis using that [of fs] by auto
qed

lemma get_stats_keeps: "\<exists>fs. snd (outbox_store_get_stats store w) = w\<lparr>sw_faults := fs\<rparr>"
proof -
  obtain rc1 w1 where p: "sql_prepare [''measurements'', ''outbox''] w = (rc1, w1)" by fastforce
  obtain rc2 w2 where s: "sql_step (\<lambda>v. (SQLITE_ROW, v)) w1 = (rc2, w2)" by fastforce
  obtain fs where "w2 = w\<lparr>sw_faults := fs\<rparr>"
    using sql_step_constE [OF s] sql_prepareE [OF p] by (metis store_world.update_convs(3) store_world.surjective)
  then show ?thesis
    using snd_sql_call [of w2] sql_prepareE [OF p]
    by (auto simp: outbox_store_get_stats_def Let_def p s split: prod.splits)
qed

lemma upsert_intervalE:
  assumes "sql_step (upsert_interval v) w = (rc, w')"
  obtains (fail) fs e where "w' = w\<lparr>sw_faults := fs\<rparr>" and "rc = SQLITE_FAULT e"
  | (ok) fs where "rc = SQLITE_DONE" and "100 \<le> v" and "v \<le> 60000"
    and "w' = w\<lparr>sw_faults := fs, sw_db := (sw_db w)\<lparr>db_interval := Some v\<rparr>\<rparr>"
  using assms
proof (cases rule: sql_stepE)
  case (fault e fs)
  then show ?thesis using that(1) by blast
next
  case (run fs)
  then show ?thesis using that(1) [of fs] that(2) [of fs] by (auto simp: upsert_interval_def split: if_splits)
qed

lemma save_interval_cases:
  assumes "outbox_store_save_interval store v w = (res, w')"
  shows "sw_txn w' = sw_txn w"
    and "sw_db w' = sw_db w \<or> 100 \<le> v \<and> v \<le> 60000 \<and> sw_db w' = (sw_db w)\<lparr>db_interval := Some v\<rparr>"
    and "res = OUTBOX_STORE_OK \<Longrightarrow> 100 \<le> v \<and> v \<le> 60000 \<and> sw_db w' = (sw_db w)\<lparr>db_interval := Some v\<rparr>"
proof -
  have ex: "sw_txn (snd (sql_call u)) = sw_txn u" "sw_db (snd (sql_call u)) = sw_db u" for u
    using snd_sql_call [of u] by auto
  note elims = sql_callE sql_prepareE upsert_intervalE
  show "sw_txn w' = sw_txn w"
    using assms by (auto simp: outbox_store_save_interval_def Let_def ex split: prod.splits if_splits elim!: elims)
  show "sw_db w' = sw_db w \<or> 100 \<le> v \<and> v \<le> 60000 \<and> sw_db w' = (sw_db w)\<lparr>db_interval := Some v\<rparr>"
    using assms by (auto simp: outbox_store_save_interval_def Let_def ex split: prod.splits if_splits elim!: elims)
  show "res = OUTBOX_STORE_OK \<Longrightarrow> 100 \<le> v \<and> v \<le> 60000 \<and> sw_db w' = (sw_db w)\<lparr>db_interval := Some v\<rparr>"
    using assms by (auto simp: outbox_store_save_interval_def Let_def ex split: prod.splits if_splits elim!: elims)
qed

lemma load_interval_cases:
  assumes "outbox_store_load_interval store out w = ((res, out'), w')"
  shows "\<exists>fs. w' = w\<lparr>sw_faults := fs\<rparr>"
    and "res = OUTBOX_STORE_OK \<Longrightarrow> \<exists>v. db_interval (sw_db w) = Some v \<and> out' = Some v \<and> 100 \<le> v \<and> v \<le> 60000"
    and "res = OUTBOX_STORE_EMPTY \<Longrightarrow> db_interval (sw_db w) = None"
    and "res \<noteq> OUTBOX_STORE_OK \<Longrightarrow> out' = out"
proof -
  have ne: "map_sqlite_result rc \<noteq> OUTBOX_STORE_EMPTY" for rc by (simp add: map_sqlite_result_def)
  note elims = sql_callE sql_prepareE sql_step_constE [of "\<lambda>db. if db_interval db = None then SQLITE_DONE else SQLITE_ROW"]
  note defs = outbox_store_load_interval_def Let_def ne
  show "\<exists>fs. w' = w\<lparr>sw_faults := fs\<rparr>"
    using assms by (auto simp: defs split: prod.splits if_splits elim!: elims)
  show "res = OUTBOX_STORE_OK \<Longrightarrow> \<exists>v. db_interval (sw_db w) = Some v \<and> out' = Some v \<and> 100 \<le> v \<and> v \<le> 60000"
    using assms by (auto simp: defs not_less split: prod.splits if_splits option.splits elim!: elims)
  show "res = OUTBOX_STORE_EMPTY \<Longrightarrow> db_interval (sw_db w) = None"
    using assms by (auto simp: defs split: prod.splits if_splits option.splits elim!: elims)
  show "res \<noteq> OUTBOX_STORE_OK \<Longrightarrow> out' = out"
    using assms by (auto simp: defs split: prod.splits if_splits)
qed

lemma save_in_transaction:
  assumes "sw_txn w = Some d"
  shows "durable (snd (outbox_store_save_measurement alloc print_text store meas topic w)) = d"
proof (cases "prepare_save_payload alloc print_text store meas topic")
  case (Pair r j)
  obtain rc w1 where b: "exec_begin w = (rc, w1)" by fastforce
  then have "rc \<noteq> SQLITE_OK" "sw_txn w1 = Some d"
    using assms by (auto simp: exec_begin_def elim!: sql_stepE)
  then show ?thesis
    using assms Pair b
    by (auto simp: outbox_store_save_measurement_def durable_def split: outbox_store_result_t.splits option.splits)
qed

lemma read_earliest_keeps: "\<exists>fs. snd (outbox_store_read_earliest_pending store w) = w\<lparr>sw_faults := fs\<rparr>"
proof -
  obtain rc1 w1 where p: "sql_prepare [''outbox'', ''measurements''] w = (rc1, w1)" by fastforce
  obtain rc2 w2 where s: "sql_step (\<lambda>v. (if pending_rows (sw_db v) = [] then SQLITE_DONE else SQLITE_ROW, v)) w1 = (rc2, w2)"
    by fastforce
  obtain fs1 where w1: "w1 = w\<lparr>sw_faults := fs1\<rparr>" using sql_prepareE [OF p] by blast
  obtain fs2 where w2: "w2 = w\<lparr>sw_faults := fs2\<rparr>" using sql_step_constE [OF s] w1 by auto
  have "\<exists>fs. snd (read_row rp v) = v\<lparr>sw_faults := fs\<rparr>" for rp v
    using read_rowE(1) [of "fst rp" "snd rp" v] by (metis prod.collapse)
  then obtain fs3 where r: "snd (read_row (hd (pending_rows (sw_db w2))) w2) = w2\<lparr>sw_faults := fs3\<rparr>" by blast
  obtain fs4 where c: "snd (sql_call w2) = w2\<lparr>sw_faults := fs4\<rparr>" using snd_sql_call by blast
  show ?thesis
    using w1 w2 c r
    by (cases "sql_call w2") (auto simp: outbox_store_read_earliest_pending_def Let_def p s [unfolded w1])
qed

lemma interval_inv: "\<lbrakk>store_inv db; 100 \<le> v; v \<le> 60000\<rbrakk> \<Longrightarrow> store_inv (db\<lparr>db_interval := Some v\<rparr>)"
  by (simp add: store_inv_def)

lemma store_call_durable_inv:
  assumes "store_inv (durable w)"
  shows "store_inv (durable (store_call_run alloc print_text c w))"
proof -
  have frame: "durable w' = durable w" if "\<exists>fs. w' = w\<lparr>sw_faults := fs\<rparr>" for w'
    using that by (auto simp: durable_def split: option.splits)
  have upd: "store_inv (durable (snd (run_update i f w)))"
    if "store_inv (sw_db w) \<Longrightarrow> store_inv (updated_db i f (sw_db w))" for i f
    using run_update_cases(1,2) [of i f w] that assms
    by (cases "run_update i f w") (auto simp: durable_def split: option.splits)
  show ?thesis
  proof (cases c)
    case (CallSave m t)
    obtain res w' where s: "outbox_store_save_measurement alloc print_text True m t w = (res, w')" by fastforce
    show ?thesis
    proof (cases "sw_txn w")
      case None
      then have "durable w = sw_db w" by (simp add: durable_def)
      then have "store_inv (durable w')"
        using save_measurement_cases [OF s None] assms saved_db_inv by (auto simp: durable_def [of w'])
      then show ?thesis using CallSave s by simp
    next
      case (Some d)
      then have "durable w' = durable w"
        using save_in_transaction [OF Some, of alloc print_text True m t] s by (simp add: durable_def [of w])
      then show ?thesis using CallSave s assms by simp
    qed
  next
    case CallReadEarliest
    then show ?thesis using assms frame [OF read_earliest_keeps] by simp
  next
    case (CallMarkSent i t)
    then show ?thesis using upd [of i "mark_row t"] mark_inv by (simp add: outbox_store_mark_sent_def)
  next
    case (CallRecordFailure i e)
    then show ?thesis
      using upd [of i "fail_row (the e)"] fail_inv assms by (auto simp: outbox_store_record_delivery_failure_def)
  next
    case CallStats
    then show ?thesis using assms frame [OF get_stats_keeps] by simp
  next
    case (CallSaveInterval v)
    obtain res w' where l: "outbox_store_save_interval True v w = (res, w')" by fastforce
    show ?thesis
      using save_interval_cases(1,2) [OF l] assms CallSaveInterval l interval_inv [of "sw_db w" v]
      by (cases "sw_txn w") (auto simp: durable_def)
  next
    case (CallLoadInterval out)
    obtain res out' w' where l: "outbox_store_load_interval True out w = ((res, out'), w')" by (metis prod.collapse)
    show ?thesis using frame [OF load_interval_cases(1) [OF l]] assms l CallLoadInterval by simp
  qed
qed

text \<open>
  C10: The store keeps its invariant through every history of calls and faults: message rows in
  ascending order of positive ids, unique message identifiers of 32 characters, each measurement
  linked to exactly one message, a send time exactly on sent rows, an interval within its limits. It
  holds of the committed database after any sequence of calls, whatever SQLite call fails.
\<close>

theorem outbox_history_invariant:
  assumes "store_inv (durable w)"
  shows "store_inv (durable (fold (store_call_run alloc print_text) calls w))"
  using assms by (induction calls arbitrary: w) (simp_all add: store_call_durable_inv)

lemma demo_store_inv: "store_inv (sw_db demo_store)"
  by (simp add: store_inv_def row_ok_def demo_store_def demo_id_def)

theorem outbox_history_invariant_witness:
  "store_inv (durable (fold (store_call_run (\<lambda>_. True) (\<lambda>_. ''{}''))
     [CallSave (Some sample_measurement) (Some ''t''), CallMarkSent 1 5, CallSaveInterval 700] demo_store))"
proof -
  have "store_inv (durable demo_store)" using demo_store_inv by (simp add: durable_def demo_store_def)
  then show ?thesis by (rule outbox_history_invariant)
qed

text \<open>
  C35: The next message to deliver: reading reports EMPTY only when every message is sent, and OK
  exactly with the oldest pending message (the smallest id among the pending ones) and the stored
  text of the measurement linked to it; in every other case the caller's item is zeroed. Reading
  changes nothing in the database.
\<close>

theorem outbox_read_earliest_exact:
  assumes "store_inv (sw_db w)" and "outbox_store_read_earliest_pending store w = ((res, it), w')"
  shows "sw_db w' = sw_db w \<and> sw_txn w' = sw_txn w \<and>
    (res = OUTBOX_STORE_EMPTY \<longrightarrow> (\<forall>r \<in> set (db_outbox (sw_db w)). o_sent r)) \<and>
    (res = OUTBOX_STORE_OK \<longrightarrow> (\<exists>r \<in> set (db_outbox (sw_db w)). \<not> o_sent r \<and>
       (\<forall>s \<in> set (db_outbox (sw_db w)). o_sent s \<or> o_id r \<le> o_id s) \<and>
       item_id it = o_id r \<and> item_message_id it = o_message_id r \<and> item_topic it = Some (o_topic r) \<and>
       item_payload_json it = map_of (db_measurements (sw_db w)) (o_measurement_id r))) \<and>
    (res \<noteq> OUTBOX_STORE_OK \<longrightarrow> it = zero_item)"
proof -
  let ?rows = "db_outbox (sw_db w)"
  note cs = read_earliest_cases [OF assms(2,1)]
  have ok: "\<exists>r \<in> set ?rows. \<not> o_sent r \<and> (\<forall>s \<in> set ?rows. o_sent s \<or> o_id r \<le> o_id s) \<and>
       item_id it = o_id r \<and> item_message_id it = o_message_id r \<and> item_topic it = Some (o_topic r) \<and>
       item_payload_json it = map_of (db_measurements (sw_db w)) (o_measurement_id r)"
    if okres: "res = OUTBOX_STORE_OK"
  proof -
    obtain r rs where r: "filter (\<lambda>r. \<not> o_sent r) ?rows = r # rs"
        "item_id it = o_id r" "item_message_id it = o_message_id r" "item_topic it = Some (o_topic r)"
        "item_payload_json it = Some (payload_of (sw_db w) r)"
      using cs(3) [OF okres] by auto
    obtain us vs where s: "?rows = us @ r # vs" "\<forall>u \<in> set us. o_sent u" "\<not> o_sent r"
      using filter_first [OF r(1)] by blast
    have "sorted_wrt (<) (map o_id ?rows)" using assms(1) by (simp add: store_inv_def)
    then have "\<forall>v \<in> set vs. o_id r < o_id v" using s(1) by (simp add: sorted_wrt_append)
    then show ?thesis
      using r s measurement_present [OF assms(1), of r] by (auto intro!: bexI [of _ r] less_imp_le)
  qed
  show ?thesis using cs(1,2,4) ok by (auto simp: filter_empty_conv)
qed

theorem outbox_read_earliest_exact_witness:
  "item_id (snd (fst (outbox_store_read_earliest_pending True demo_store))) = 1"
proof -
  obtain res it w' where c: "outbox_store_read_earliest_pending True demo_store = ((res, it), w')"
    by (metis prod.collapse)
  have "res = OUTBOX_STORE_OK"
  proof -
    have "fst (fst (outbox_store_read_earliest_pending True demo_store)) = OUTBOX_STORE_OK" by code_simp
    then show ?thesis using c by simp
  qed
  then show ?thesis
    using outbox_read_earliest_exact [OF demo_store_inv c] c by (auto simp: demo_store_def)
qed

lemma keyed_update_other: "o_id r \<noteq> i \<Longrightarrow> r \<in> set (db_outbox db) \<Longrightarrow> r \<in> set (db_outbox (updated_db i f db))"
  by (force simp: updated_db_def)

text \<open>
  Marking a message as sent: OK is reported exactly for a known message, NOT_FOUND only for an
  unknown one (and then nothing changes). Only that message changes: a pending one becomes sent with
  the given time and its error text is cleared, an already sent one keeps the time of its first
  delivery, so that marking twice is the same as marking once. Recording a failure counts an attempt
  and stores the error text of a pending message and never touches a sent one.
\<close>

theorem outbox_updates_exact:
  assumes "outbox_store_mark_sent True i t w = (res, w')"
    and "outbox_store_record_delivery_failure True i (Some e) v = (res2, v')" and "e \<noteq> []"
  shows "(res = OUTBOX_STORE_OK \<longrightarrow> i \<in> o_id ` set (db_outbox (sw_db w)) \<and>
      db_outbox (sw_db w') = map (\<lambda>r. if o_id r = i \<and> \<not> o_sent r
        then r\<lparr>o_sent := True, o_sent_at_ms := Some t, o_last_error := None\<rparr> else r) (db_outbox (sw_db w)) \<and>
      db_measurements (sw_db w') = db_measurements (sw_db w)) \<and>
    (res = OUTBOX_STORE_NOT_FOUND \<longrightarrow> i \<notin> o_id ` set (db_outbox (sw_db w)) \<and> sw_db w' = sw_db w) \<and>
    (res2 = OUTBOX_STORE_OK \<longrightarrow> i \<in> o_id ` set (db_outbox (sw_db v)) \<and>
      db_outbox (sw_db v') = map (\<lambda>r. if o_id r = i \<and> \<not> o_sent r
        then r\<lparr>o_attempt_count := o_attempt_count r + 1, o_last_error := Some e\<rparr> else r) (db_outbox (sw_db v)) \<and>
      db_measurements (sw_db v') = db_measurements (sw_db v)) \<and>
    (res2 = OUTBOX_STORE_NOT_FOUND \<longrightarrow> i \<notin> o_id ` set (db_outbox (sw_db v)) \<and> sw_db v' = sw_db v)"
proof -
  have m: "run_update i (mark_row t) w = (res, w')" and f: "run_update i (fail_row e) v = (res2, v')"
    using assms by (simp_all add: outbox_store_mark_sent_def outbox_store_record_delivery_failure_def)
  have mark: "mark_row t r = (if \<not> o_sent r then r\<lparr>o_sent := True, o_sent_at_ms := Some t, o_last_error := None\<rparr> else r)" for r
    by (cases r) (simp add: mark_row_def)
  have failed: "fail_row e r = (if \<not> o_sent r then r\<lparr>o_attempt_count := o_attempt_count r + 1, o_last_error := Some e\<rparr> else r)" for r
    by (cases r) (simp add: fail_row_def)
  show ?thesis
    using run_update_cases(3,4) [OF m] run_update_cases(3,4) [OF f]
    by (auto simp: updated_db_def mark failed)
qed

theorem outbox_updates_exact_witness:
  "\<exists>w'. outbox_store_mark_sent True 1 9 demo_store = (OUTBOX_STORE_OK, w') \<and> map o_sent (db_outbox (sw_db w')) = [True]"
proof -
  obtain res w' where c: "outbox_store_mark_sent True 1 9 demo_store = (res, w')" by fastforce
  obtain res2 v' where d: "outbox_store_record_delivery_failure True 1 (Some ''x'') demo_store = (res2, v')" by fastforce
  have "fst (outbox_store_mark_sent True 1 9 demo_store) = OUTBOX_STORE_OK" by code_simp
  then have r: "res = OUTBOX_STORE_OK" using c by simp
  have "length (db_outbox (sw_db demo_store)) = 1 \<and> map o_id (db_outbox (sw_db demo_store)) = [1]"
    by (simp add: demo_store_def)
  then show ?thesis
    using outbox_updates_exact [OF c d] r c by (auto simp: demo_store_def)
qed

lemma rows_measurements:
  assumes "store_inv db"
  shows "length (db_outbox db) = length (db_measurements db)"
proof -
  have "card (set (map o_measurement_id (db_outbox db))) = card (set (map fst (db_measurements db)))"
    and "distinct (map o_measurement_id (db_outbox db))" and "distinct (map fst (db_measurements db))"
    using assms by (simp_all add: store_inv_def)
  then show ?thesis by (metis distinct_card length_map)
qed

lemma get_stats_cases:
  assumes "outbox_store_get_stats store w = ((res, st), w')"
  shows "res = OUTBOX_STORE_OK \<Longrightarrow> st = count_stats (sw_db w)" and "res \<noteq> OUTBOX_STORE_OK \<Longrightarrow> st = zero_stats"
proof -
  note elims = sql_prepareE sql_callE sql_step_constE [of "\<lambda>_. SQLITE_ROW"]
  show "res = OUTBOX_STORE_OK \<Longrightarrow> st = count_stats (sw_db w)"
    using assms by (auto simp: outbox_store_get_stats_def Let_def split: prod.splits if_splits elim!: elims)
  show "res \<noteq> OUTBOX_STORE_OK \<Longrightarrow> st = zero_stats"
    using assms by (auto simp: outbox_store_get_stats_def Let_def split: prod.splits if_splits)
qed

text \<open>
  The statistics are conserved: whenever they are reported for a store of fewer than \<open>2^64\<close>
  messages, every measurement is counted exactly once as pending or sent; when they are not
  reported the output is zeroed.
\<close>

theorem outbox_stats_conserved:
  assumes "store_inv (sw_db w)" and "length (db_measurements (sw_db w)) < 2 ^ 64"
    and "outbox_store_get_stats store w = ((res, st), w')"
  shows "if res = OUTBOX_STORE_OK
    then unat (pending_count st) + unat (sent_count st) = unat (measurement_total st) \<and>
         unat (measurement_total st) = length (db_measurements (sw_db w)) \<and>
         unat (sent_count st) = length (filter o_sent (db_outbox (sw_db w)))
    else st = zero_stats"
proof -
  have le: "length (filter P (db_outbox (sw_db w))) < 2 ^ 64" for P
    using length_filter_le [of P "db_outbox (sw_db w)"] rows_measurements [OF assms(1)] assms(2) by linarith
  have "length (filter (\<lambda>r. \<not> o_sent r) (db_outbox (sw_db w))) + length (filter o_sent (db_outbox (sw_db w)))
      = length (db_measurements (sw_db w))"
    using sum_length_filter_compl [of o_sent "db_outbox (sw_db w)"] rows_measurements [OF assms(1)] by simp
  then show ?thesis
    using get_stats_cases [OF assms(3)] le [of o_sent] le [of "\<lambda>r. \<not> o_sent r"] assms(2)
    by (auto simp: count_stats_def unat_of_nat)
qed

theorem outbox_stats_conserved_witness:
  "unat (pending_count (count_stats (sw_db demo_store))) + unat (sent_count (count_stats (sw_db demo_store))) = 1"
proof -
  obtain res st w' where c: "outbox_store_get_stats True demo_store = ((res, st), w')" by (metis prod.collapse)
  have "fst (fst (outbox_store_get_stats True demo_store)) = OUTBOX_STORE_OK" by code_simp
  then have r: "res = OUTBOX_STORE_OK" using c by simp
  have l: "length (db_measurements (sw_db demo_store)) = 1" by (simp add: demo_store_def)
  then show ?thesis
    using outbox_stats_conserved [OF demo_store_inv _ c] r get_stats_cases(1) [OF c r] by simp
qed

text \<open>
  The configured interval is persistent: what a successful save stored is what the next
  successful load returns; a load never hands out a value outside 100 to 60000 ms, and a value
  outside these limits is refused without touching the database.
\<close>

theorem interval_save_load:
  assumes "outbox_store_save_interval True v w = (OUTBOX_STORE_OK, w1)"
    and "outbox_store_load_interval True (Some out) w1 = ((OUTBOX_STORE_OK, out'), w2)"
  shows "out' = Some v \<and> 100 \<le> v \<and> v \<le> 60000 \<and> db_outbox (sw_db w2) = db_outbox (sw_db w) \<and>
    (\<forall>u. \<not> (100 \<le> u \<and> u \<le> 60000) \<longrightarrow> outbox_store_save_interval True u w = (OUTBOX_STORE_INVALID_ARGUMENT, w))"
  using save_interval_cases(3) [OF assms(1)] load_interval_cases(1,2) [OF assms(2)]
  by (auto simp: outbox_store_save_interval_def)

theorem interval_save_load_witness:
  "\<exists>w1 w2 out'. outbox_store_save_interval True 250 demo_store = (OUTBOX_STORE_OK, w1) \<and>
     outbox_store_load_interval True (Some 0) w1 = ((OUTBOX_STORE_OK, out'), w2) \<and> out' = Some 250"
proof -
  obtain res w1 where c: "outbox_store_save_interval True 250 demo_store = (res, w1)" by fastforce
  obtain res2 out' w2 where d: "outbox_store_load_interval True (Some 0) w1 = ((res2, out'), w2)" by (metis prod.collapse)
  have "fst (outbox_store_save_interval True 250 demo_store) = OUTBOX_STORE_OK"
    "fst (fst (outbox_store_load_interval True (Some 0) (snd (outbox_store_save_interval True 250 demo_store)))) = OUTBOX_STORE_OK"
    by code_simp+
  then have r: "res = OUTBOX_STORE_OK" "res2 = OUTBOX_STORE_OK" using c d by simp_all
  then show ?thesis using interval_save_load [of 250 demo_store w1 0 out' w2] c d by simp
qed

end
