(* ===== verification/Outbox_Schema.thy ===== *)
theory Outbox_Schema
  imports Outbox_Store
begin

text \<open>
  Opening the outbox of \<^verbatim>\<open>src/modules/storage/outbox_store.c\<close>: the schema scripts as lists of SQL
  statements, the migrations from versions 1 to 4, the checks of \<open>outbox_store_open\<close>, and what they
  preserve.
\<close>

section \<open>Schema scripts\<close>

text \<open>The statements of the schema scripts.\<close>

datatype sql_stmt =
    BEGIN_IMMEDIATE
  | COMMIT
  | CREATE_TABLE string
  | CREATE_INDEX string
  | ADD_ATTEMPT_COUNT
  | ADD_LAST_ERROR
  | ADD_SENT_AT_MS
  | COPY_OUTBOX_TO_V3
  | DROP_OUTBOX
  | RENAME_V3_TO_OUTBOX
  | SET_USER_VERSION int

definition create_object :: "string \<Rightarrow> database \<Rightarrow> database option" where
  "create_object name db =
     (if name \<in> set (db_tables db) then None
      else Some (db\<lparr>db_tables := db_tables db @ [name]\<rparr>))"

text \<open>
  The copy of the v3 migration gives every row a random identifier; the new table's checks on
  topic, identifier and the two unique columns apply to all copied rows.
\<close>

definition copy_rows :: "(nat \<Rightarrow> string) \<Rightarrow> nat \<Rightarrow> outbox_row list \<Rightarrow> outbox_row list" where
  "copy_rows rand rng rows = map (\<lambda>(i, r). r\<lparr>o_message_id := rand (rng + i)\<rparr>) (enumerate 0 rows)"

definition copy_allowed :: "database \<Rightarrow> outbox_row list \<Rightarrow> bool" where
  "copy_allowed db rows \<longleftrightarrow>
     list_all (\<lambda>r. length (o_message_id r) = 32 \<and> o_topic r \<noteq> [] \<and>
       o_measurement_id r \<in> set (map fst (db_measurements db))) rows \<and>
     distinct (map o_message_id rows) \<and> distinct (map o_measurement_id rows) \<and> distinct (map o_id rows)"

text \<open>One statement on the current database; \<open>None\<close> is an error (an object that exists or is missing, a
  violated constraint).\<close>

fun run_stmt :: "sql_stmt \<Rightarrow> store_world \<Rightarrow> store_world option" where
  "run_stmt BEGIN_IMMEDIATE w = (if sw_txn w = None then Some (w\<lparr>sw_txn := Some (sw_db w)\<rparr>) else None)"
| "run_stmt COMMIT w = (if sw_txn w = None then None else Some (w\<lparr>sw_txn := None\<rparr>))"
| "run_stmt (CREATE_TABLE name) w = map_option (\<lambda>db. w\<lparr>sw_db := db\<rparr>) (create_object name (sw_db w))"
| "run_stmt (CREATE_INDEX name) w =
     (if ''outbox'' \<in> set (db_tables (sw_db w))
      then map_option (\<lambda>db. w\<lparr>sw_db := db\<rparr>) (create_object name (sw_db w)) else None)"
| "run_stmt ADD_ATTEMPT_COUNT w =
     (if ''outbox'' \<in> set (db_tables (sw_db w))
      then Some (w\<lparr>sw_db := (sw_db w)\<lparr>db_outbox := map (\<lambda>r. r\<lparr>o_attempt_count := 0\<rparr>) (db_outbox (sw_db w))\<rparr>\<rparr>)
      else None)"
| "run_stmt ADD_LAST_ERROR w =
     (if ''outbox'' \<in> set (db_tables (sw_db w))
      then Some (w\<lparr>sw_db := (sw_db w)\<lparr>db_outbox := map (\<lambda>r. r\<lparr>o_last_error := None\<rparr>) (db_outbox (sw_db w))\<rparr>\<rparr>)
      else None)"
| "run_stmt ADD_SENT_AT_MS w =
     (if ''outbox'' \<in> set (db_tables (sw_db w))
      then Some (w\<lparr>sw_db := (sw_db w)\<lparr>db_outbox := map (\<lambda>r. r\<lparr>o_sent_at_ms := None\<rparr>) (db_outbox (sw_db w))\<rparr>\<rparr>)
      else None)"
| "run_stmt COPY_OUTBOX_TO_V3 w =
     (let db = sw_db w; rows = copy_rows (sw_rand w) (sw_rng w) (db_outbox db) in
      if ''outbox'' \<in> set (db_tables db) \<and> ''outbox_v3'' \<in> set (db_tables db) \<and> copy_allowed db rows
      then Some (w\<lparr>sw_db := db\<lparr>db_outbox_v3 := rows\<rparr>, sw_rng := sw_rng w + length rows\<rparr>) else None)"
| "run_stmt DROP_OUTBOX w =
     (let db = sw_db w in
      if ''outbox'' \<in> set (db_tables db)
      then Some (w\<lparr>sw_db := db\<lparr>db_outbox := [],
                db_tables := filter (\<lambda>t. t \<noteq> ''outbox'' \<and> t \<noteq> ''idx_outbox_state_id'') (db_tables db)\<rparr>\<rparr>)
      else None)"
| "run_stmt RENAME_V3_TO_OUTBOX w =
     (let db = sw_db w in
      if ''outbox_v3'' \<in> set (db_tables db) \<and> ''outbox'' \<notin> set (db_tables db)
      then Some (w\<lparr>sw_db := db\<lparr>db_outbox := db_outbox_v3 db, db_outbox_v3 := [],
                db_tables := map (\<lambda>t. if t = ''outbox_v3'' then ''outbox'' else t) (db_tables db)\<rparr>\<rparr>)
      else None)"
| "run_stmt (SET_USER_VERSION v) w = Some (w\<lparr>sw_db := (sw_db w)\<lparr>db_version := v\<rparr>\<rparr>)"

text \<open>\<open>sqlite3_exec\<close> runs the statements in order and stops at the first error.\<close>

fun sql_exec :: "sql_stmt list \<Rightarrow> store_world \<Rightarrow> sqlite_rc \<times> store_world" where
  "sql_exec [] w = (SQLITE_OK, w)"
| "sql_exec (s # ss) w =
     (case sql_step (\<lambda>v. case run_stmt s v of None \<Rightarrow> (SQLITE_ERROR, v) | Some v' \<Rightarrow> (SQLITE_OK, v')) w of
        (rc, w1) \<Rightarrow> if rc \<noteq> SQLITE_OK then (rc, w1) else sql_exec ss w1)"

definition create_schema_sql :: "sql_stmt list" where
  "create_schema_sql =
     [BEGIN_IMMEDIATE, CREATE_TABLE ''measurements'', CREATE_TABLE ''outbox'',
      CREATE_INDEX ''idx_outbox_state_id'', CREATE_TABLE ''gateway_config'', SET_USER_VERSION 4, COMMIT]"

definition migrate_v1_sql :: "sql_stmt list" where
  "migrate_v1_sql =
     [BEGIN_IMMEDIATE, ADD_ATTEMPT_COUNT, ADD_LAST_ERROR, ADD_SENT_AT_MS,
      CREATE_INDEX ''idx_outbox_state_id'', SET_USER_VERSION 2, COMMIT]"

definition migrate_v2_sql :: "sql_stmt list" where
  "migrate_v2_sql =
     [BEGIN_IMMEDIATE, CREATE_TABLE ''outbox_v3'', COPY_OUTBOX_TO_V3, DROP_OUTBOX, RENAME_V3_TO_OUTBOX,
      CREATE_INDEX ''idx_outbox_state_id'', SET_USER_VERSION 3, COMMIT]"

definition migrate_v3_sql :: "sql_stmt list" where
  "migrate_v3_sql = [BEGIN_IMMEDIATE, CREATE_TABLE ''gateway_config'', SET_USER_VERSION 4, COMMIT]"

text \<open>The end all four scripts share: on an error roll back and report it.\<close>

definition run_schema_script :: "sql_stmt list \<Rightarrow> store_world \<Rightarrow> outbox_store_result_t \<times> store_world" where
  "run_schema_script sql w =
     (let (rc, w1) = sql_exec sql w in
      if rc = SQLITE_OK then (OUTBOX_STORE_OK, w1)
      else let result = map_sqlite_result rc; w2 = exec_rollback w1
           in if result = OUTBOX_STORE_BUSY \<or> result = OUTBOX_STORE_NO_MEMORY then (result, w2)
              else (OUTBOX_STORE_SCHEMA_ERROR, w2))"

definition outbox_store_create_schema :: "store_world \<Rightarrow> outbox_store_result_t \<times> store_world" where
  "outbox_store_create_schema = run_schema_script create_schema_sql"

definition outbox_store_migrate_v1_to_v2 :: "store_world \<Rightarrow> outbox_store_result_t \<times> store_world" where
  "outbox_store_migrate_v1_to_v2 = run_schema_script migrate_v1_sql"

definition outbox_store_migrate_v2_to_v3 :: "store_world \<Rightarrow> outbox_store_result_t \<times> store_world" where
  "outbox_store_migrate_v2_to_v3 = run_schema_script migrate_v2_sql"

definition outbox_store_migrate_v3_to_v4 :: "store_world \<Rightarrow> outbox_store_result_t \<times> store_world" where
  "outbox_store_migrate_v3_to_v4 = run_schema_script migrate_v3_sql"

section \<open>Opening\<close>

text \<open>\<open>sqlite3_stricmp\<close> compares without regard to the case of ASCII letters.\<close>

definition lower_ascii :: "char \<Rightarrow> char" where
  "lower_ascii c = (if 65 \<le> (of_char c :: nat) \<and> (of_char c :: nat) \<le> 90 then char_of (of_char c + 32 :: nat) else c)"

text \<open>
  The answer of a pragma: the value SQLite reports for the foreign-key switch and for the journal
  mode is an argument, as the library may refuse the setting.
\<close>

definition outbox_store_enable_and_check_foreign_keys :: "int \<Rightarrow> store_world \<Rightarrow> outbox_store_result_t \<times> store_world" where
  "outbox_store_enable_and_check_foreign_keys reported w =
     (let (rc, w1) = sql_call w in if rc \<noteq> SQLITE_OK then (map_sqlite_result rc, w1) else
      let (rc, w2) = sql_call w1 in if rc \<noteq> SQLITE_OK then (map_sqlite_result rc, w2) else
      let (rc, w3) = sql_step (\<lambda>v. (SQLITE_ROW, v)) w2 in
      if rc \<noteq> SQLITE_ROW then (map_sqlite_result rc, snd (sql_call w3)) else
      let (rc, w4) = sql_call w3 in if rc \<noteq> SQLITE_OK then (map_sqlite_result rc, w4) else
      (if reported \<noteq> 1 then OUTBOX_STORE_DB_ERROR else OUTBOX_STORE_OK, w4))"

definition outbox_store_set_journal_mode_wal :: "string option \<Rightarrow> store_world \<Rightarrow> outbox_store_result_t \<times> store_world" where
  "outbox_store_set_journal_mode_wal reported w =
     (let (rc, w1) = sql_call w in if rc \<noteq> SQLITE_OK then (map_sqlite_result rc, w1) else
      let (rc, w2) = sql_step (\<lambda>v. (SQLITE_ROW, v)) w1 in
      if rc \<noteq> SQLITE_ROW then (map_sqlite_result rc, snd (sql_call w2)) else
      case reported of None \<Rightarrow> (OUTBOX_STORE_DB_ERROR, snd (sql_call w2))
      | Some mode \<Rightarrow>
          let (rc, w3) = sql_call w2 in if rc \<noteq> SQLITE_OK then (map_sqlite_result rc, w3) else
          (if map lower_ascii mode = ''wal'' then OUTBOX_STORE_OK else OUTBOX_STORE_DB_ERROR, w3))"

definition outbox_store_read_user_version :: "store_world \<Rightarrow> (outbox_store_result_t \<times> int) \<times> store_world" where
  "outbox_store_read_user_version w =
     (let (rc, w1) = sql_call w in if rc \<noteq> SQLITE_OK then ((map_sqlite_result rc, 0), w1) else
      let (rc, w2) = sql_step (\<lambda>v. (SQLITE_ROW, v)) w1 in
      if rc \<noteq> SQLITE_ROW then ((map_sqlite_result rc, 0), snd (sql_call w2)) else
      let (rc, w3) = sql_call w2 in if rc \<noteq> SQLITE_OK then ((map_sqlite_result rc, 0), w3) else
      ((OUTBOX_STORE_OK, db_version (sw_db w2)), w3))"

definition outbox_store_table_exists :: "string \<Rightarrow> store_world \<Rightarrow> (outbox_store_result_t \<times> bool) \<times> store_world" where
  "outbox_store_table_exists name w =
     (if name = [] then ((OUTBOX_STORE_INVALID_ARGUMENT, False), w) else
      let (rc, w1) = sql_call w in if rc \<noteq> SQLITE_OK then ((map_sqlite_result rc, False), w1) else
      let (rc, w2) = sql_call w1 in if rc \<noteq> SQLITE_OK then ((map_sqlite_result rc, False), snd (sql_call w2)) else
      let (rc, w3) = sql_step (\<lambda>v. (if name \<in> set (db_tables (sw_db v)) then SQLITE_ROW else SQLITE_DONE, v)) w2;
          result = (if rc = SQLITE_ROW \<or> rc = SQLITE_DONE then OUTBOX_STORE_OK else map_sqlite_result rc);
          (frc, w4) = sql_call w3;
          final = (if result = OUTBOX_STORE_OK then map_sqlite_result frc else result)
      in ((final, final = OUTBOX_STORE_OK \<and> rc = SQLITE_ROW), w4))"

definition verify_current_schema :: "store_world \<Rightarrow> outbox_store_result_t \<times> store_world" where
  "verify_current_schema w =
     (let ((res, exists1), w1) = outbox_store_table_exists ''measurements'' w in
      if res \<noteq> OUTBOX_STORE_OK then (res, w1) else if \<not> exists1 then (OUTBOX_STORE_SCHEMA_ERROR, w1) else
      let ((res, exists2), w2) = outbox_store_table_exists ''outbox'' w1 in
      if res \<noteq> OUTBOX_STORE_OK then (res, w2) else if \<not> exists2 then (OUTBOX_STORE_SCHEMA_ERROR, w2) else
      let ((res, exists3), w3) = outbox_store_table_exists ''gateway_config'' w2 in
      if res \<noteq> OUTBOX_STORE_OK then (res, w3) else if \<not> exists3 then (OUTBOX_STORE_SCHEMA_ERROR, w3) else
      (OUTBOX_STORE_OK, w3))"

text \<open>One step of the version ladder: run the migration when the version is the expected one, and
  read the version again.\<close>

definition migrate_if ::
  "int \<Rightarrow> (store_world \<Rightarrow> outbox_store_result_t \<times> store_world) \<Rightarrow>
   (outbox_store_result_t \<times> int) \<times> store_world \<Rightarrow> (outbox_store_result_t \<times> int) \<times> store_world" where
  "migrate_if expected migration s =
     (case s of ((res, version), w) \<Rightarrow>
        if res = OUTBOX_STORE_OK \<and> version = expected
        then (case migration w of (res1, w1) \<Rightarrow>
                if res1 \<noteq> OUTBOX_STORE_OK then ((res1, version), w1)
                else outbox_store_read_user_version w1)
        else s)"

text \<open>
  \<open>config\<close> is the path and the busy timeout, \<open>heap_ok\<close> the outcome of \<open>calloc\<close>, \<open>fk\<close> and \<open>wal\<close> the
  pragma answers. The first part of the function sets up the connection and reads the version.
\<close>

definition open_connection ::
  "bool \<Rightarrow> int \<Rightarrow> string option \<Rightarrow> (string option \<times> int) option \<Rightarrow> bool \<Rightarrow> store_world \<Rightarrow>
   (outbox_store_result_t \<times> int) \<times> store_world" where
  "open_connection heap_ok fk wal config out_store w =
     (let fail = (\<lambda>res v. ((res, 0), v)) in
      if \<not> out_store then fail OUTBOX_STORE_INVALID_ARGUMENT w
      else case config of None \<Rightarrow> fail OUTBOX_STORE_INVALID_ARGUMENT w
      | Some (path, busy_timeout_ms) \<Rightarrow>
        if path = None \<or> path = Some [] \<or> busy_timeout_ms < 0 then fail OUTBOX_STORE_INVALID_ARGUMENT w
        else if \<not> heap_ok then fail OUTBOX_STORE_NO_MEMORY w else
        let (rc, w1) = sql_call w in if rc \<noteq> SQLITE_OK then fail (map_sqlite_result rc) w1 else
        let (rc, w2) = sql_call w1 in if rc \<noteq> SQLITE_OK then fail (map_sqlite_result rc) w2 else
        let (res, w3) = outbox_store_enable_and_check_foreign_keys fk w2 in if res \<noteq> OUTBOX_STORE_OK then fail res w3 else
        let (res, w4) = outbox_store_set_journal_mode_wal wal w3 in if res \<noteq> OUTBOX_STORE_OK then fail res w4 else
        let ((res, version), w5) = outbox_store_read_user_version w4 in
        if res \<noteq> OUTBOX_STORE_OK then fail res w5
        else if version < 0 \<or> version > 4 then fail OUTBOX_STORE_SCHEMA_ERROR w5
        else ((OUTBOX_STORE_OK, version), w5))"

text \<open>The second part climbs the version ladder and checks the tables; the result holds whether
  \<open>*out_store\<close> is a handle.\<close>

definition version_ladder :: "int \<Rightarrow> store_world \<Rightarrow> (outbox_store_result_t \<times> int) \<times> store_world" where
  "version_ladder version w =
     migrate_if 3 outbox_store_migrate_v3_to_v4
       (migrate_if 2 outbox_store_migrate_v2_to_v3
         (migrate_if 1 outbox_store_migrate_v1_to_v2
           (migrate_if 0 outbox_store_create_schema ((OUTBOX_STORE_OK, version), w))))"

definition outbox_store_open ::
  "bool \<Rightarrow> int \<Rightarrow> string option \<Rightarrow> (string option \<times> int) option \<Rightarrow> bool \<Rightarrow> store_world \<Rightarrow>
   (outbox_store_result_t \<times> bool) \<times> store_world" where
  "outbox_store_open heap_ok fk wal config out_store w =
     (let ((res, version), w5) = open_connection heap_ok fk wal config out_store w in
      if res \<noteq> OUTBOX_STORE_OK then ((res, False), w5) else
      let ((res, version), w6) = version_ladder version w5 in
      if res \<noteq> OUTBOX_STORE_OK then ((res, False), w6)
      else if version \<noteq> 4 then ((OUTBOX_STORE_SCHEMA_ERROR, False), w6) else
      let (res, w7) = verify_current_schema w6 in
      if res \<noteq> OUTBOX_STORE_OK then ((res, False), w7) else ((OUTBOX_STORE_OK, True), w7))"

section \<open>Scripts are all or nothing\<close>

fun run_stmts :: "sql_stmt list \<Rightarrow> store_world \<Rightarrow> store_world option" where
  "run_stmts [] w = Some w"
| "run_stmts (s # ss) w = Option.bind (run_stmt s w) (run_stmts ss)"

lemma run_stmt_faults: "run_stmt s (w\<lparr>sw_faults := fs\<rparr>) = map_option (\<lambda>v. v\<lparr>sw_faults := fs\<rparr>) (run_stmt s w)"
  by (cases s) (auto simp: Let_def create_object_def)

lemma run_stmts_faults: "run_stmts ss (w\<lparr>sw_faults := fs\<rparr>) = map_option (\<lambda>v. v\<lparr>sw_faults := fs\<rparr>) (run_stmts ss w)"
proof (induction ss arbitrary: w)
  case (Cons s ss)
  then show ?case by (cases "run_stmt s w") (simp_all add: run_stmt_faults)
qed simp

lemma sql_exec_cases:
  "sql_exec ss w = (rc, w') \<Longrightarrow>
    rc = SQLITE_OK \<and> (\<exists>v fs. run_stmts ss w = Some v \<and> w' = v\<lparr>sw_faults := fs\<rparr>) \<or>
    rc \<noteq> SQLITE_OK \<and> (\<exists>pre suf v fs. ss = pre @ suf \<and> suf \<noteq> [] \<and> run_stmts pre w = Some v \<and> w' = v\<lparr>sw_faults := fs\<rparr>)"
proof (induction ss arbitrary: w)
  case Nil
  then show ?case by auto
next
  case (Cons s ss)
  obtain r w1 where st: "sql_step (\<lambda>v. case run_stmt s v of None \<Rightarrow> (SQLITE_ERROR, v) | Some v' \<Rightarrow> (SQLITE_OK, v')) w = (r, w1)"
    by fastforce
  have bad: "rc \<noteq> SQLITE_OK \<and> (\<exists>pre suf v fs. s # ss = pre @ suf \<and> suf \<noteq> [] \<and> run_stmts pre w = Some v \<and> w' = v\<lparr>sw_faults := fs\<rparr>)"
    if "r \<noteq> SQLITE_OK" "\<exists>fs. w1 = w\<lparr>sw_faults := fs\<rparr>"
  proof -
    from that(2) obtain fs where fs: "w1 = w\<lparr>sw_faults := fs\<rparr>" by blast
    from that Cons.prems st have "rc = r" "w' = w1" by simp_all
    then have "rc \<noteq> SQLITE_OK \<and> s # ss = [] @ (s # ss) \<and> s # ss \<noteq> [] \<and> run_stmts [] w = Some w \<and> w' = w\<lparr>sw_faults := fs\<rparr>"
      using that(1) fs by simp
    then show ?thesis by blast
  qed
  show ?case
    using st
  proof (cases rule: sql_stepE)
    case (fault f fs)
    then show ?thesis using bad by blast
  next
    case (run fs)
    show ?thesis
    proof (cases "run_stmt s w")
      case None
      then have "r = SQLITE_ERROR" "w1 = w\<lparr>sw_faults := fs\<rparr>" using run by (simp_all add: run_stmt_faults)
      then show ?thesis using bad by blast
    next
      case (Some v)
      then have w1: "r = SQLITE_OK" "w1 = v\<lparr>sw_faults := fs\<rparr>" using run by (simp_all add: run_stmt_faults)
      then have "sql_exec ss w1 = (rc, w')" using Cons.prems st by simp
      from Cons.IH [OF this] show ?thesis
      proof
        assume "rc = SQLITE_OK \<and> (\<exists>v fs. run_stmts ss w1 = Some v \<and> w' = v\<lparr>sw_faults := fs\<rparr>)"
        then show ?thesis using Some w1 by (auto simp: run_stmts_faults)
      next
        assume "rc \<noteq> SQLITE_OK \<and> (\<exists>pre suf v fs. ss = pre @ suf \<and> suf \<noteq> [] \<and> run_stmts pre w1 = Some v \<and> w' = v\<lparr>sw_faults := fs\<rparr>)"
        then obtain pre suf u fs' where "rc \<noteq> SQLITE_OK" "ss = pre @ suf" "suf \<noteq> []"
            "run_stmts pre w1 = Some u" "w' = u\<lparr>sw_faults := fs'\<rparr>" by blast
        then show ?thesis
          using Some w1 by (intro disjI2 conjI exI [of _ "s # pre"] exI [of _ suf]) (auto simp: run_stmts_faults)
      qed
    qed
  qed
qed

definition plain_stmt :: "sql_stmt \<Rightarrow> bool" where
  "plain_stmt s \<longleftrightarrow> s \<noteq> BEGIN_IMMEDIATE \<and> s \<noteq> COMMIT"

lemma run_stmts_txn: "run_stmts ss w = Some v \<Longrightarrow> list_all plain_stmt ss \<Longrightarrow> sw_txn v = sw_txn w"
proof (induction ss arbitrary: w)
  case (Cons s ss)
  then obtain u where u: "run_stmt s w = Some u" "run_stmts ss u = Some v" by (auto split: Option.bind_splits)
  then have "sw_txn u = sw_txn w"
    using Cons.prems by (cases s) (auto simp: plain_stmt_def Let_def split: if_splits)
  then show ?case using Cons u by simp
qed simp

lemma run_stmts_append: "run_stmts (xs @ ys) w = Option.bind (run_stmts xs w) (run_stmts ys)"
proof (induction xs arbitrary: w)
  case (Cons s xs)
  then show ?case by (cases "run_stmt s w") simp_all
qed simp

text \<open>
  A script that wraps plain statements into one transaction either runs completely or leaves the
  committed database as it was.
\<close>

lemma run_schema_script_cases:
  assumes "run_schema_script (BEGIN_IMMEDIATE # body @ [COMMIT]) w = (res, w')"
    and "sw_txn w = None" and "list_all plain_stmt body"
  shows "res = OUTBOX_STORE_OK \<and> sw_txn w' = None \<and>
      (\<exists>v. run_stmts body (w\<lparr>sw_txn := Some (sw_db w)\<rparr>) = Some v \<and> sw_db w' = sw_db v) \<or>
    res \<noteq> OUTBOX_STORE_OK \<and> durable w' = durable w"
proof -
  let ?sql = "BEGIN_IMMEDIATE # body @ [COMMIT]"
  let ?b = "w\<lparr>sw_txn := Some (sw_db w)\<rparr>"
  obtain rc w1 where e: "sql_exec ?sql w = (rc, w1)" by fastforce
  have out: "if rc = SQLITE_OK then res = OUTBOX_STORE_OK \<and> w' = w1
      else res \<noteq> OUTBOX_STORE_OK \<and> w' = exec_rollback w1"
    using assms(1) unfolding run_schema_script_def e by (auto simp: Let_def split: if_splits)
  from sql_exec_cases [OF e] show ?thesis
  proof (elim disjE conjE exE)
    fix v fs assume "rc = SQLITE_OK" and v: "run_stmts ?sql w = Some v" and w1: "w1 = v\<lparr>sw_faults := fs\<rparr>"
    then show ?thesis
      using assms(2,3) out run_stmts_txn
      by (auto simp: run_stmts_append split: if_splits Option.bind_splits)
  next
    fix pre suf v fs
    assume rc: "rc \<noteq> SQLITE_OK" and p: "?sql = pre @ suf" "suf \<noteq> []" "run_stmts pre w = Some v"
      and w1: "w1 = v\<lparr>sw_faults := fs\<rparr>"
    have "durable v = durable w"
    proof (cases pre)
      case Nil
      then show ?thesis using p by simp
    next
      case (Cons s pre')
      then have s: "s = BEGIN_IMMEDIATE" "body @ [COMMIT] = pre' @ suf" using p by simp_all
      from s(2) p(2) obtain suf' where "body = pre' @ suf'"
        by (metis append_eq_append_conv2 butlast_append butlast_snoc)
      then have "list_all plain_stmt pre'" using assms(3) by simp
      moreover have "run_stmts pre' ?b = Some v" using p(3) Cons s assms(2) by simp
      ultimately have "sw_txn v = Some (sw_db w)" using run_stmts_txn by fastforce
      then show ?thesis using assms(2) by (simp add: durable_def)
    qed
    then show ?thesis using rc out w1 by simp
  qed
qed

section \<open>What the scripts do\<close>

text \<open>The part of the messages that every schema version has.\<close>

definition msg_core :: "database \<Rightarrow> (int \<times> string) list \<times> (int \<times> int \<times> string \<times> bool) list" where
  "msg_core db = (db_measurements db, map (\<lambda>r. (o_id r, o_measurement_id r, o_topic r, o_sent r)) (db_outbox db))"

lemma copy_rows_core:
  "map (\<lambda>r. (o_id r, o_measurement_id r, o_topic r, o_sent r)) (copy_rows rand n rows) =
   map (\<lambda>r. (o_id r, o_measurement_id r, o_topic r, o_sent r)) rows"
  by (simp add: list_eq_iff_nth_eq copy_rows_def nth_enumerate_eq)

lemmas script_simps = create_object_def Let_def msg_core_def copy_rows_core

lemma create_schema_cases:
  assumes "outbox_store_create_schema w = (res, w')" and "sw_txn w = None"
  shows "(res = OUTBOX_STORE_OK \<and> sw_txn w' = None \<and> msg_core (sw_db w') = msg_core (sw_db w) \<and> db_version (sw_db w') = 4) \<or>
    (res \<noteq> OUTBOX_STORE_OK \<and> durable w' = durable w)"
proof -
  let ?body = "[CREATE_TABLE ''measurements'', CREATE_TABLE ''outbox'',
      CREATE_INDEX ''idx_outbox_state_id'', CREATE_TABLE ''gateway_config'', SET_USER_VERSION 4]"
  have "create_schema_sql = BEGIN_IMMEDIATE # ?body @ [COMMIT]" by (simp add: create_schema_sql_def)
  with assms(1) have "run_schema_script (BEGIN_IMMEDIATE # ?body @ [COMMIT]) w = (res, w')"
    by (simp only: outbox_store_create_schema_def)
  from run_schema_script_cases [OF this assms(2)] show ?thesis
    by (auto simp: plain_stmt_def script_simps split: if_splits Option.bind_splits)
qed

lemma migrate_v1_cases:
  assumes "outbox_store_migrate_v1_to_v2 w = (res, w')" and "sw_txn w = None"
  shows "(res = OUTBOX_STORE_OK \<and> sw_txn w' = None \<and> msg_core (sw_db w') = msg_core (sw_db w) \<and> db_version (sw_db w') = 2) \<or>
    (res \<noteq> OUTBOX_STORE_OK \<and> durable w' = durable w)"
proof -
  let ?body = "[ADD_ATTEMPT_COUNT, ADD_LAST_ERROR, ADD_SENT_AT_MS, CREATE_INDEX ''idx_outbox_state_id'', SET_USER_VERSION 2]"
  have "migrate_v1_sql = BEGIN_IMMEDIATE # ?body @ [COMMIT]" by (simp add: migrate_v1_sql_def)
  with assms(1) have "run_schema_script (BEGIN_IMMEDIATE # ?body @ [COMMIT]) w = (res, w')"
    by (simp only: outbox_store_migrate_v1_to_v2_def)
  from run_schema_script_cases [OF this assms(2)] show ?thesis
    by (auto simp: plain_stmt_def script_simps split: if_splits Option.bind_splits)
qed

lemma migrate_v2_cases:
  assumes "outbox_store_migrate_v2_to_v3 w = (res, w')" and "sw_txn w = None"
  shows "(res = OUTBOX_STORE_OK \<and> sw_txn w' = None \<and> msg_core (sw_db w') = msg_core (sw_db w) \<and> db_version (sw_db w') = 3) \<or>
    (res \<noteq> OUTBOX_STORE_OK \<and> durable w' = durable w)"
proof -
  let ?body = "[CREATE_TABLE ''outbox_v3'', COPY_OUTBOX_TO_V3, DROP_OUTBOX, RENAME_V3_TO_OUTBOX,
      CREATE_INDEX ''idx_outbox_state_id'', SET_USER_VERSION 3]"
  have "migrate_v2_sql = BEGIN_IMMEDIATE # ?body @ [COMMIT]" by (simp add: migrate_v2_sql_def)
  with assms(1) have "run_schema_script (BEGIN_IMMEDIATE # ?body @ [COMMIT]) w = (res, w')"
    by (simp only: outbox_store_migrate_v2_to_v3_def)
  from run_schema_script_cases [OF this assms(2)] show ?thesis
    by (auto simp: plain_stmt_def script_simps split: if_splits Option.bind_splits)
qed

lemma migrate_v3_cases:
  assumes "outbox_store_migrate_v3_to_v4 w = (res, w')" and "sw_txn w = None"
  shows "(res = OUTBOX_STORE_OK \<and> sw_txn w' = None \<and> db_outbox (sw_db w') = db_outbox (sw_db w) \<and>
      msg_core (sw_db w') = msg_core (sw_db w) \<and> db_version (sw_db w') = 4) \<or>
    (res \<noteq> OUTBOX_STORE_OK \<and> durable w' = durable w)"
proof -
  let ?body = "[CREATE_TABLE ''gateway_config'', SET_USER_VERSION 4]"
  have "migrate_v3_sql = BEGIN_IMMEDIATE # ?body @ [COMMIT]" by (simp add: migrate_v3_sql_def)
  with assms(1) have "run_schema_script (BEGIN_IMMEDIATE # ?body @ [COMMIT]) w = (res, w')"
    by (simp only: outbox_store_migrate_v3_to_v4_def)
  from run_schema_script_cases [OF this assms(2)] show ?thesis
    by (auto simp: plain_stmt_def script_simps split: if_splits Option.bind_splits)
qed

section \<open>Opening\<close>

lemma snd_call_faults: "\<exists>fs'. snd (sql_call (w\<lparr>sw_faults := fs\<rparr>)) = w\<lparr>sw_faults := fs'\<rparr>"
  using snd_sql_call [of "w\<lparr>sw_faults := fs\<rparr>"] by auto

lemmas probe_elims = sql_callE sql_step_constE [of "\<lambda>_. SQLITE_ROW"]

lemma foreign_keys_keeps:
  "outbox_store_enable_and_check_foreign_keys fk w = (res, w') \<Longrightarrow> \<exists>fs. w' = w\<lparr>sw_faults := fs\<rparr>"
  by (auto simp: outbox_store_enable_and_check_foreign_keys_def Let_def snd_call_faults
      split: prod.splits if_splits elim!: probe_elims)

lemma journal_mode_keeps:
  "outbox_store_set_journal_mode_wal mode w = (res, w') \<Longrightarrow> \<exists>fs. w' = w\<lparr>sw_faults := fs\<rparr>"
  by (auto simp: outbox_store_set_journal_mode_wal_def Let_def snd_call_faults
      split: prod.splits if_splits option.splits elim!: probe_elims)

lemma user_version_keeps:
  "outbox_store_read_user_version w = ((res, v), w') \<Longrightarrow> \<exists>fs. w' = w\<lparr>sw_faults := fs\<rparr>"
  and user_version_ok:
  "outbox_store_read_user_version w = ((OUTBOX_STORE_OK, v), w') \<Longrightarrow> v = db_version (sw_db w)"
  by (auto simp: outbox_store_read_user_version_def Let_def snd_call_faults
      split: prod.splits if_splits elim!: probe_elims)

lemma table_exists_keeps:
  "outbox_store_table_exists name w = ((res, ex), w') \<Longrightarrow> \<exists>fs. w' = w\<lparr>sw_faults := fs\<rparr>"
  and table_exists_ok:
  "outbox_store_table_exists name w = ((OUTBOX_STORE_OK, ex), w') \<Longrightarrow> ex \<longleftrightarrow> name \<in> set (db_tables (sw_db w))"
  by (auto simp: outbox_store_table_exists_def Let_def snd_call_faults
      split: prod.splits if_splits
      elim!: sql_callE sql_step_constE [of "\<lambda>db. if name \<in> set (db_tables db) then SQLITE_ROW else SQLITE_DONE"])

lemma table_existsD:
  "outbox_store_table_exists name w = ((res, ex), w') \<Longrightarrow>
    (\<exists>fs. w' = w\<lparr>sw_faults := fs\<rparr>) \<and> (res = OUTBOX_STORE_OK \<longrightarrow> (ex \<longleftrightarrow> name \<in> set (db_tables (sw_db w))))"
  using table_exists_keeps table_exists_ok by blast

lemma verify_keeps: "verify_current_schema w = (res, w') \<Longrightarrow> \<exists>fs. w' = w\<lparr>sw_faults := fs\<rparr>"
  and verify_ok: "verify_current_schema w = (OUTBOX_STORE_OK, w') \<Longrightarrow>
    {''measurements'', ''outbox'', ''gateway_config''} \<subseteq> set (db_tables (sw_db w))"
  by (auto simp: verify_current_schema_def Let_def split: prod.splits if_splits
      dest!: table_existsD)

text \<open>What holds after every rung of the version ladder, relative to the world it started from.\<close>

definition ladder :: "store_world \<Rightarrow> (outbox_store_result_t \<times> int) \<times> store_world \<Rightarrow> bool" where
  "ladder w0 s = (case s of ((res, v), w) \<Rightarrow>
     msg_core (durable w) = msg_core (durable w0) \<and> db_version (durable w0) \<le> db_version (durable w) \<and>
     (3 \<le> db_version (durable w0) \<longrightarrow> db_outbox (durable w) = db_outbox (durable w0)) \<and>
     (res = OUTBOX_STORE_OK \<longrightarrow> sw_txn w = None \<and> v = db_version (sw_db w)))"

lemma ladder_step:
  assumes "ladder w0 s"
    and mig: "\<And>w res w'. \<lbrakk>sw_txn w = None; mig w = (res, w')\<rbrakk> \<Longrightarrow>
      (res = OUTBOX_STORE_OK \<and> sw_txn w' = None \<and> msg_core (sw_db w') = msg_core (sw_db w) \<and>
        expected \<le> db_version (sw_db w') \<and> (3 \<le> expected \<longrightarrow> db_outbox (sw_db w') = db_outbox (sw_db w))) \<or>
      (res \<noteq> OUTBOX_STORE_OK \<and> durable w' = durable w)"
  shows "ladder w0 (migrate_if expected mig s)"
proof -
  obtain res v w where s: "s = ((res, v), w)" by (metis prod.collapse)
  show ?thesis
  proof (cases "res = OUTBOX_STORE_OK \<and> v = expected")
    case False
    then show ?thesis using assms(1) s by (auto simp: migrate_if_def)
  next
    case True
    then have w: "sw_txn w = None" "db_version (sw_db w) = expected" and d: "durable w = sw_db w"
      using assms(1) s by (auto simp: ladder_def durable_def [of w])
    obtain r1 w1 where m: "mig w = (r1, w1)" by fastforce
    from mig [OF w(1) m] show ?thesis
    proof (elim disjE conjE)
      assume "r1 \<noteq> OUTBOX_STORE_OK" "durable w1 = durable w"
      then show ?thesis using True s m assms(1) by (simp add: migrate_if_def ladder_def)
    next
      assume ok: "r1 = OUTBOX_STORE_OK" "sw_txn w1 = None" "msg_core (sw_db w1) = msg_core (sw_db w)"
        "expected \<le> db_version (sw_db w1)" "3 \<le> expected \<longrightarrow> db_outbox (sw_db w1) = db_outbox (sw_db w)"
      obtain r2 v2 w2 where r: "outbox_store_read_user_version w1 = ((r2, v2), w2)" by (metis prod.collapse)
      obtain fs where fs: "w2 = w1\<lparr>sw_faults := fs\<rparr>" using user_version_keeps [OF r] by blast
      have "durable w1 = sw_db w1" using ok(2) by (simp add: durable_def)
      then show ?thesis
        using True s m assms(1) ok r fs d w user_version_ok [of w1 v2 w2]
        by (auto simp: migrate_if_def ladder_def)
    qed
  qed
qed

lemma ladder_all:
  assumes "sw_txn w = None"
  shows "ladder w (version_ladder (db_version (sw_db w)) w)"
  unfolding version_ladder_def
proof (intro ladder_step, goal_cases)
  case 1
  then show ?case using assms by (simp add: ladder_def durable_def)
next
  case (2 w res w')
  then show ?case using create_schema_cases [of w res w'] by auto
next
  case (3 w res w')
  then show ?case using migrate_v1_cases [of w res w'] by auto
next
  case (4 w res w')
  then show ?case using migrate_v2_cases [of w res w'] by auto
next
  case (5 w res w')
  then show ?case using migrate_v3_cases [of w res w'] by auto
qed

lemma open_connection_cases:
  assumes "open_connection heap_ok fk wal config out_store w = ((res, v), w')"
  shows "\<exists>fs. w' = w\<lparr>sw_faults := fs\<rparr>"
    and "res = OUTBOX_STORE_OK \<Longrightarrow> v = db_version (sw_db w) \<and> 0 \<le> v \<and> v \<le> 4"
proof -
  have uv: "outbox_store_read_user_version u = ((r, x), u') \<Longrightarrow>
      (\<exists>fs. u' = u\<lparr>sw_faults := fs\<rparr>) \<and> (r = OUTBOX_STORE_OK \<longrightarrow> x = db_version (sw_db u))" for u r x u'
    using user_version_keeps user_version_ok by blast
  note defs = open_connection_def Let_def
  note rules = foreign_keys_keeps journal_mode_keeps uv
  show "\<exists>fs. w' = w\<lparr>sw_faults := fs\<rparr>"
    using assms by (auto simp: defs split: prod.splits if_splits option.splits elim!: sql_callE dest!: rules)
  show "res = OUTBOX_STORE_OK \<Longrightarrow> v = db_version (sw_db w) \<and> 0 \<le> v \<and> v \<le> 4"
    using assms by (auto simp: defs split: prod.splits if_splits option.splits elim!: sql_callE dest!: rules)
qed


definition demo_v1 :: store_world where
  "demo_v1 = demo_store\<lparr>sw_db := (sw_db demo_store)\<lparr>db_tables := [''measurements'', ''outbox''],
     db_interval := None, db_version := 1\<rparr>\<rparr>"


end
