(* ===== verification/Command_Dedup.thy ===== *)
theory Command_Dedup
  imports Prelude
begin

text \<open>
  The cache of recent remote commands of \<^verbatim>\<open>src/core/gateway_workers.c\<close>
  (\<open>gateway_find_cached_command_response\<close> and \<open>gateway_cache_command_response\<close>): a ring of sixteen
  slots of fixed-size character arrays. It refines the list of all answered requests, restricted
  to the last sixteen.
\<close>

abbreviation (input) GATEWAY_COMMAND_DEDUP_CAPACITY :: nat where "GATEWAY_COMMAND_DEDUP_CAPACITY \<equiv> 16"
abbreviation (input) GATEWAY_COMMAND_REQUEST_ID_CAPACITY :: nat where "GATEWAY_COMMAND_REQUEST_ID_CAPACITY \<equiv> 64"
abbreviation (input) GATEWAY_MQTT_COMMAND_PAYLOAD_CAPACITY :: nat where "GATEWAY_MQTT_COMMAND_PAYLOAD_CAPACITY \<equiv> 1024"
abbreviation (input) GATEWAY_COMMAND_RESPONSE_CAPACITY :: nat where "GATEWAY_COMMAND_RESPONSE_CAPACITY \<equiv> 256"

record gateway_command_dedup_entry_t =
  e_occupied :: bool
  e_request_id :: "char list"
  e_command :: "char list"
  e_response :: "char list"

datatype gateway_command_dedup_result_t =
    GATEWAY_COMMAND_DEDUP_ERROR
  | GATEWAY_COMMAND_DEDUP_MISS
  | GATEWAY_COMMAND_DEDUP_MATCH
  | GATEWAY_COMMAND_DEDUP_CONFLICT

record dedup_cache =
  command_dedup_entries :: "gateway_command_dedup_entry_t list"
  command_dedup_next :: nat

definition empty_entry :: gateway_command_dedup_entry_t where
  "empty_entry = \<lparr>e_occupied = False, e_request_id = replicate 64 NUL, e_command = replicate 1024 NUL,
     e_response = replicate 256 NUL\<rparr>"

text \<open>\<open>gateway_workers_run\<close> starts with a zeroed struct.\<close>

definition empty_cache :: dedup_cache where
  "empty_cache = \<lparr>command_dedup_entries = replicate GATEWAY_COMMAND_DEDUP_CAPACITY empty_entry, command_dedup_next = 0\<rparr>"

text \<open>The loop over the slots; the second component is what \<open>*response_out\<close> points to.\<close>

fun find_cached :: "gateway_command_dedup_entry_t list \<Rightarrow> string \<Rightarrow> string \<Rightarrow>
  gateway_command_dedup_result_t \<times> string option" where
  "find_cached [] request_id command = (GATEWAY_COMMAND_DEDUP_MISS, None)"
| "find_cached (entry # entries) request_id command =
     (if e_occupied entry \<and> cstr (e_request_id entry) = request_id
      then if cstr (e_command entry) = command
           then (GATEWAY_COMMAND_DEDUP_MATCH, Some (cstr (e_response entry)))
           else (GATEWAY_COMMAND_DEDUP_CONFLICT, None)
      else find_cached entries request_id command)"

definition gateway_find_cached_command_response ::
  "dedup_cache option \<Rightarrow> string option \<Rightarrow> string option \<Rightarrow> gateway_command_dedup_result_t \<times> string option" where
  "gateway_find_cached_command_response workers request_id command =
     (case (workers, request_id, command) of
        (Some w, Some rid, Some cmd) \<Rightarrow> find_cached (command_dedup_entries w) rid cmd
      | _ \<Rightarrow> (GATEWAY_COMMAND_DEDUP_ERROR, None))"

text \<open>\<open>strnlen\<close> on a string of at least the given capacity returns the capacity.\<close>

definition strnlen :: "string \<Rightarrow> nat \<Rightarrow> nat" where
  "strnlen s n = min (length s) n"

definition gateway_cache_command_response ::
  "dedup_cache option \<Rightarrow> string option \<Rightarrow> string option \<Rightarrow> string option \<Rightarrow> bool \<times> dedup_cache option" where
  "gateway_cache_command_response workers request_id command response =
     (case (workers, request_id, command, response) of
        (Some w, Some rid, Some cmd, Some resp) \<Rightarrow>
          if rid = [] \<or> resp = [] \<or> cmd = [] then (False, workers)
          else let entry = command_dedup_entries w ! command_dedup_next w;
                   rid_len = strnlen rid GATEWAY_COMMAND_REQUEST_ID_CAPACITY;
                   cmd_len = strnlen cmd GATEWAY_MQTT_COMMAND_PAYLOAD_CAPACITY;
                   resp_len = strnlen resp GATEWAY_COMMAND_RESPONSE_CAPACITY
               in if rid_len = GATEWAY_COMMAND_REQUEST_ID_CAPACITY \<or>
                     resp_len = GATEWAY_COMMAND_RESPONSE_CAPACITY \<or>
                     cmd_len = GATEWAY_MQTT_COMMAND_PAYLOAD_CAPACITY
                  then (False, workers)
                  else (True, Some (w\<lparr>
                    command_dedup_entries := (command_dedup_entries w)[command_dedup_next w :=
                      \<lparr>e_occupied = True,
                       e_request_id = blit (e_request_id entry) 0 (rid @ [NUL]),
                       e_command = blit (e_command entry) 0 (cmd @ [NUL]),
                       e_response = blit (e_response entry) 0 (resp @ [NUL])\<rparr>],
                    command_dedup_next := (command_dedup_next w + 1) mod GATEWAY_COMMAND_DEDUP_CAPACITY\<rparr>))
      | _ \<Rightarrow> (False, workers))"

section \<open>The cache as the recent part of a history\<close>

text \<open>
  The specification: the list of all answered requests (identifier, command, response), oldest
  first; only the last sixteen count.
\<close>

type_synonym history = "(string \<times> string \<times> string) list"

definition recent :: "history \<Rightarrow> history" where
  "recent h = drop (length h - 16) h"

definition lookup_recent :: "history \<Rightarrow> string \<Rightarrow> string \<Rightarrow> gateway_command_dedup_result_t \<times> string option" where
  "lookup_recent h rid cmd =
     (case map_of (recent h) rid of
        None \<Rightarrow> (GATEWAY_COMMAND_DEDUP_MISS, None)
      | Some (c, r) \<Rightarrow> if c = cmd then (GATEWAY_COMMAND_DEDUP_MATCH, Some r) else (GATEWAY_COMMAND_DEDUP_CONFLICT, None))"

definition slot_holds :: "gateway_command_dedup_entry_t \<Rightarrow> string \<times> string \<times> string \<Rightarrow> bool" where
  "slot_holds e x \<longleftrightarrow> (case x of (rid, cmd, resp) \<Rightarrow>
     e_occupied e \<and> cstr (e_request_id e) = rid \<and> cstr (e_command e) = cmd \<and> cstr (e_response e) = resp)"

definition entry_layout :: "gateway_command_dedup_entry_t \<Rightarrow> bool" where
  "entry_layout e \<longleftrightarrow> length (e_request_id e) = 64 \<and> length (e_command e) = 1024 \<and> length (e_response e) = 256"

definition dedup_rel :: "dedup_cache \<Rightarrow> history \<Rightarrow> bool" where
  "dedup_rel c h \<longleftrightarrow>
     length (command_dedup_entries c) = 16 \<and> list_all entry_layout (command_dedup_entries c) \<and>
     command_dedup_next c = length h mod 16 \<and>
     (\<forall>j < length h. length h \<le> j + 16 \<longrightarrow> slot_holds (command_dedup_entries c ! (j mod 16)) (h ! j)) \<and>
     (\<forall>i < 16. length h \<le> i \<longrightarrow> \<not> e_occupied (command_dedup_entries c ! i)) \<and>
     distinct (map fst (recent h))"

lemma empty_entry_facts: "entry_layout empty_entry" "\<not> e_occupied empty_entry"
  by (simp_all only: entry_layout_def empty_entry_def gateway_command_dedup_entry_t.select_convs length_replicate simp_thms)

lemma dedup_rel_empty: "dedup_rel empty_cache []"
proof -
  have es: "command_dedup_entries empty_cache = replicate 16 empty_entry" "command_dedup_next empty_cache = 0"
    by (simp_all only: empty_cache_def dedup_cache.select_convs)
  have "list_all entry_layout (replicate 16 empty_entry)"
    unfolding list_all_iff using empty_entry_facts(1) by (metis in_set_replicate)
  moreover have "\<not> e_occupied (replicate 16 empty_entry ! i)" if "i < 16" for i
    using that empty_entry_facts(2) by (simp only: nth_replicate not_False_eq_True)
  ultimately show ?thesis
    unfolding dedup_rel_def es length_replicate by (auto simp: recent_def simp del: replicate.simps)
qed

lemma find_cached_unique:
  assumes "i < length es" and "e_occupied (es ! i)" and "cstr (e_request_id (es ! i)) = rid"
    and "\<And>k. k < length es \<Longrightarrow> k \<noteq> i \<Longrightarrow> \<not> (e_occupied (es ! k) \<and> cstr (e_request_id (es ! k)) = rid)"
  shows "find_cached es rid cmd = (if cstr (e_command (es ! i)) = cmd
    then (GATEWAY_COMMAND_DEDUP_MATCH, Some (cstr (e_response (es ! i)))) else (GATEWAY_COMMAND_DEDUP_CONFLICT, None))"
  using assms
proof (induction es arbitrary: i)
  case (Cons e es)
  show ?case
  proof (cases i)
    case 0
    then show ?thesis using Cons.prems(1-3) by simp
  next
    case (Suc i')
    have "\<not> (e_occupied e \<and> cstr (e_request_id e) = rid)" using Cons.prems(4) [of 0] Suc by auto
    moreover have "find_cached es rid cmd = (if cstr (e_command (es ! i')) = cmd
        then (GATEWAY_COMMAND_DEDUP_MATCH, Some (cstr (e_response (es ! i')))) else (GATEWAY_COMMAND_DEDUP_CONFLICT, None))"
    proof (rule Cons.IH)
      show "\<not> (e_occupied (es ! k) \<and> cstr (e_request_id (es ! k)) = rid)" if "k < length es" "k \<noteq> i'" for k
        using Cons.prems(4) [of "Suc k"] Suc that by simp
    qed (use Cons.prems(1-3) Suc in simp_all)
    ultimately show ?thesis using Suc by auto
  qed
qed simp

lemma find_cached_none:
  "(\<And>k. k < length es \<Longrightarrow> e_occupied (es ! k) \<Longrightarrow> cstr (e_request_id (es ! k)) \<noteq> rid) \<Longrightarrow>
    find_cached es rid cmd = (GATEWAY_COMMAND_DEDUP_MISS, None)"
proof (induction es)
  case (Cons e es)
  have "find_cached es rid cmd = (GATEWAY_COMMAND_DEDUP_MISS, None)"
    using Cons.prems [of "Suc k" for k] by (intro Cons.IH) simp
  then show ?case using Cons.prems [of 0] by auto
qed simp

lemma recent_conv: "x \<in> set (recent h) \<longleftrightarrow> (\<exists>j < length h. length h \<le> j + 16 \<and> h ! j = x)"
proof
  assume "x \<in> set (recent h)"
  then obtain i where i: "i < length (recent h)" "recent h ! i = x" by (auto simp: in_set_conv_nth)
  then show "\<exists>j < length h. length h \<le> j + 16 \<and> h ! j = x"
    by (intro exI [of _ "length h - 16 + i"]) (auto simp: recent_def)
next
  assume "\<exists>j < length h. length h \<le> j + 16 \<and> h ! j = x"
  then obtain j where "j < length h" "length h \<le> j + 16" "h ! j = x" by blast
  then have "recent h ! (j - (length h - 16)) = x" "j - (length h - 16) < length (recent h)"
    by (auto simp: recent_def)
  then show "x \<in> set (recent h)" using nth_mem by blast
qed

text \<open>Every occupied slot holds one of the recent requests.\<close>

lemma occupied_slot:
  assumes "dedup_rel c h" and "k < 16" and "e_occupied (command_dedup_entries c ! k)"
  shows "\<exists>j < length h. length h \<le> j + 16 \<and> j mod 16 = k"
proof -
  have n: "k < length h" using assms by (auto simp: dedup_rel_def not_le [symmetric])
  let ?j = "length h - 1 - (length h - 1 - k) mod 16"
  have "(length h - 1 - k) mod 16 < 16" by simp
  moreover have "(length h - 1 - k) mod 16 \<le> length h - 1 - k" by simp
  moreover have "?j mod 16 = k"
  proof -
    have "?j = k + 16 * ((length h - 1 - k) div 16)"
      using n by (simp add: minus_mod_eq_mult_div [symmetric])
    then show ?thesis using assms(2) by simp
  qed
  ultimately show ?thesis using n by (intro exI [of _ ?j]) linarith
qed

lemma recent_index:
  assumes "j < length h" and "length h \<le> j + 16" and "i < length h" and "length h \<le> i + 16"
    and "fst (h ! i) = fst (h ! j)" and "distinct (map fst (recent h))"
  shows "i = j"
proof -
  let ?d = "length h - 16"
  have "map fst (recent h) ! (i - ?d) = map fst (recent h) ! (j - ?d)"
    using assms(1-5) by (simp add: recent_def)
  moreover have "i - ?d < length (map fst (recent h))" "j - ?d < length (map fst (recent h))"
    using assms(1-4) by (auto simp: recent_def)
  ultimately have "i - ?d = j - ?d" using assms(6) nth_eq_iff_index_eq by blast
  then show ?thesis using assms(1-4) by linarith
qed

lemma find_refines:
  assumes "dedup_rel c h"
  shows "find_cached (command_dedup_entries c) rid cmd = lookup_recent h rid cmd"
proof (cases "map_of (recent h) rid")
  case None
  have "cstr (e_request_id (command_dedup_entries c ! k)) \<noteq> rid"
    if k: "k < length (command_dedup_entries c)" "e_occupied (command_dedup_entries c ! k)" for k
  proof -
    have "k < 16" using k assms by (simp add: dedup_rel_def)
    from occupied_slot [OF assms this k(2)] obtain j where j: "j < length h" "length h \<le> j + 16" "j mod 16 = k" by blast
    then have "slot_holds (command_dedup_entries c ! k) (h ! j)" using assms by (auto simp: dedup_rel_def)
    moreover have "h ! j \<in> set (recent h)" using j recent_conv by blast
    then have "fst (h ! j) \<noteq> rid" using None by (force simp: map_of_eq_None_iff)
    ultimately show ?thesis by (auto simp: slot_holds_def split: prod.splits)
  qed
  then show ?thesis using None by (simp add: lookup_recent_def find_cached_none)
next
  case (Some cr)
  obtain c0 r0 where cr: "cr = (c0, r0)" by fastforce
  from Some have "(rid, c0, r0) \<in> set (recent h)" using cr by (auto dest: map_of_SomeD)
  then obtain j where j: "j < length h" "length h \<le> j + 16" "h ! j = (rid, c0, r0)" using recent_conv by blast
  let ?es = "command_dedup_entries c"
  have s: "slot_holds (?es ! (j mod 16)) (rid, c0, r0)" using assms j by (auto simp: dedup_rel_def)
  have u: "\<not> (e_occupied (?es ! k) \<and> cstr (e_request_id (?es ! k)) = rid)" if kl: "k < length ?es" and kj: "k \<noteq> j mod 16" for k
  proof (rule notI)
    assume kk: "e_occupied (?es ! k) \<and> cstr (e_request_id (?es ! k)) = rid"
    note k = kl conjunct1 [OF kk] conjunct2 [OF kk]
    have "k < 16" using k assms by (simp add: dedup_rel_def)
    from occupied_slot [OF assms this k(2)] obtain i where i: "i < length h" "length h \<le> i + 16" "i mod 16 = k" by blast
    then have "slot_holds (?es ! k) (h ! i)" using assms by (auto simp: dedup_rel_def)
    then have "fst (h ! i) = fst (h ! j)" using k(3) j(3) by (auto simp: slot_holds_def split: prod.splits)
    then have "i = j" using recent_index [OF j(1,2) i(1,2)] assms by (simp add: dedup_rel_def)
    then show False using i(3) kj by simp
  qed
  have "j mod 16 < length ?es" using assms by (simp add: dedup_rel_def)
  then have "find_cached ?es rid cmd = (if cstr (e_command (?es ! (j mod 16))) = cmd
      then (GATEWAY_COMMAND_DEDUP_MATCH, Some (cstr (e_response (?es ! (j mod 16))))) else (GATEWAY_COMMAND_DEDUP_CONFLICT, None))"
    using s u by (intro find_cached_unique) (auto simp: slot_holds_def simp del: mod_less)
  then show ?thesis using s Some cr by (simp add: lookup_recent_def slot_holds_def)
qed

lemma blit_cstr: "cstring s \<Longrightarrow> length s < length arr \<Longrightarrow> cstr (blit arr 0 (s @ [NUL])) = s"
  by (simp add: blit_def cstr_append_nul)

lemma mod16_window: "\<lbrakk>j < n; n < j + 16\<rbrakk> \<Longrightarrow> j mod 16 \<noteq> n mod (16 :: nat)"
proof
  assume a: "j < n" "n < j + 16" "j mod 16 = n mod 16"
  then have "16 dvd n - j" by (metis less_imp_le mod_eq_dvd_iff_nat)
  then show False using a(1,2) by (auto dest: dvd_imp_le)
qed

lemma cache_refines:
  assumes "dedup_rel c h" and "rid \<notin> fst ` set (recent h)"
    and "cstring rid" "cstring cmd" "cstring resp" and "rid \<noteq> []" "cmd \<noteq> []" "resp \<noteq> []"
    and "length rid < 64" "length cmd < 1024" "length resp < 256"
  shows "\<exists>c'. gateway_cache_command_response (Some c) (Some rid) (Some cmd) (Some resp) = (True, Some c') \<and>
    dedup_rel c' (h @ [(rid, cmd, resp)])"
proof -
  let ?es = "command_dedup_entries c" and ?n = "length h mod 16"
  let ?e = "\<lparr>e_occupied = True, e_request_id = blit (e_request_id (?es ! ?n)) 0 (rid @ [NUL]),
      e_command = blit (e_command (?es ! ?n)) 0 (cmd @ [NUL]), e_response = blit (e_response (?es ! ?n)) 0 (resp @ [NUL])\<rparr>"
  let ?c' = "c\<lparr>command_dedup_entries := ?es[?n := ?e], command_dedup_next := (?n + 1) mod 16\<rparr>"
  have n: "?n < length ?es" and nx: "command_dedup_next c = ?n" using assms(1) by (simp_all add: dedup_rel_def)
  have lay: "entry_layout (?es ! ?n)" using assms(1) n by (simp add: dedup_rel_def list_all_length)
  have e: "slot_holds ?e (rid, cmd, resp)" "entry_layout ?e"
    using lay assms(3-11) by (auto simp: slot_holds_def entry_layout_def blit_cstr)
  have "gateway_cache_command_response (Some c) (Some rid) (Some cmd) (Some resp) = (True, Some ?c')"
    using assms(6-11) nx by (simp add: gateway_cache_command_response_def strnlen_def Let_def)
  moreover have "dedup_rel ?c' (h @ [(rid, cmd, resp)])"
  proof -
    have slots: "slot_holds (?es[?n := ?e] ! (j mod 16)) ((h @ [(rid, cmd, resp)]) ! j)"
      if "j < length h + 1" "length h + 1 \<le> j + 16" for j
    proof (cases "j = length h")
      case True
      then show ?thesis using n e(1) by simp
    next
      case False
      then have "j mod 16 \<noteq> ?n" using that by (intro mod16_window) auto
      then show ?thesis using False that assms(1) by (simp add: dedup_rel_def nth_append)
    qed
    have "(h @ [x]) ! k = h ! k" if "k < length h" for k x using that by (simp add: nth_append)
    have rec: "recent (h @ [(rid, cmd, resp)]) = drop (length h - 15) h @ [(rid, cmd, resp)]"
      by (simp add: recent_def)
    have sub: "set (drop (length h - 15) h) \<subseteq> set (recent h)"
      unfolding recent_def by (rule set_drop_subset_set_drop) simp
    have "distinct (map fst (drop (length h - 15) h))"
    proof -
      have "drop (length h - 15) h = drop (if length h < 16 then 0 else 1) (recent h)"
        by (auto simp: recent_def Suc_diff_le [symmetric] Suc_diff_Suc)
      then show ?thesis using assms(1) by (metis dedup_rel_def distinct_drop drop_map)
    qed
    then have dist: "distinct (map fst (recent (h @ [(rid, cmd, resp)])))"
      using rec sub assms(2) by auto
    have free: "\<not> e_occupied (?es[?n := ?e] ! i)" if "i < 16" "length h + 1 \<le> i" for i
    proof -
      have "?n \<noteq> i" using that by auto
      then show ?thesis using that assms(1) by (simp add: dedup_rel_def)
    qed
    have "list_all entry_layout (?es[?n := ?e])"
      using assms(1) e(2) n by (auto simp: dedup_rel_def list_all_length nth_list_update)
    then show ?thesis
      using slots free dist assms(1) by (auto simp: dedup_rel_def mod_Suc_eq)
  qed
  ultimately show ?thesis by blast
qed

lemma cache_refused:
  assumes "rid = [] \<or> cmd = [] \<or> resp = [] \<or> 64 \<le> length rid \<or> 1024 \<le> length cmd \<or> 256 \<le> length resp"
  shows "gateway_cache_command_response (Some c) (Some rid) (Some cmd) (Some resp) = (False, Some c)"
  using assms by (auto simp: gateway_cache_command_response_def strnlen_def Let_def)

text \<open>
  C27: The ring of cached commands refines a history: it answers exactly from the last sixteen
  answered requests. A lookup finds the stored response for the same identifier and command, reports
  a conflict for the same identifier with another command, and a miss otherwise; caching the answer
  of a new request that fits the slot arrays appends it to the history (so the oldest of sixteen is
  forgotten), and anything that does not fit is refused and changes nothing.
\<close>

theorem dedup_refines_history:
  assumes "dedup_rel c h" and "cstring rid" "cstring cmd" "cstring resp"
  shows "gateway_find_cached_command_response (Some c) (Some rid) (Some cmd) = lookup_recent h rid cmd \<and>
    (if rid \<noteq> [] \<and> cmd \<noteq> [] \<and> resp \<noteq> [] \<and> length rid < 64 \<and> length cmd < 1024 \<and> length resp < 256
     then rid \<notin> fst ` set (recent h) \<longrightarrow>
       (\<exists>c'. gateway_cache_command_response (Some c) (Some rid) (Some cmd) (Some resp) = (True, Some c') \<and>
          dedup_rel c' (h @ [(rid, cmd, resp)]))
     else gateway_cache_command_response (Some c) (Some rid) (Some cmd) (Some resp) = (False, Some c))"
  using find_refines [OF assms(1)] cache_refines [OF assms(1) _ assms(2-4)] cache_refused [of rid cmd resp c]
  by (auto simp: gateway_find_cached_command_response_def)

theorem dedup_refines_history_witness:
  "gateway_find_cached_command_response (Some empty_cache) (Some ''r1'') (Some ''status'') = (GATEWAY_COMMAND_DEDUP_MISS, None) \<and>
   (\<exists>c'. gateway_cache_command_response (Some empty_cache) (Some ''r1'') (Some ''status'') (Some ''ok'') = (True, Some c') \<and>
     gateway_find_cached_command_response (Some c') (Some ''r1'') (Some ''status'') = (GATEWAY_COMMAND_DEDUP_MATCH, Some ''ok''))"
proof -
  have cs: "cstring ''r1''" "cstring ''status''" "cstring ''ok''" by (simp_all add: cstring_def)
  have first: "gateway_find_cached_command_response (Some empty_cache) (Some ''r1'') (Some ''status'') = (GATEWAY_COMMAND_DEDUP_MISS, None)"
    using dedup_refines_history [OF dedup_rel_empty cs] by (simp add: lookup_recent_def recent_def)
  obtain c' where c': "gateway_cache_command_response (Some empty_cache) (Some ''r1'') (Some ''status'') (Some ''ok'') = (True, Some c')"
      "dedup_rel c' [(''r1'', ''status'', ''ok'')]"
    using dedup_refines_history [OF dedup_rel_empty cs] by (auto simp: recent_def)
  then show ?thesis
    using first dedup_refines_history [OF c'(2) cs] by (simp add: lookup_recent_def recent_def)
qed

end
