(* ===== verification/Gateway_Config.thy ===== *)
theory Gateway_Config
  imports C_Text
begin

text \<open>
  The configuration of the gateway: the interval file (\<^verbatim>\<open>src/core/interval_config.c\<close>) and the
  command line (\<^verbatim>\<open>src/apps/gateway/main.c\<close>), with \<open>strtol\<close> and \<open>fgets\<close> of the C library.
\<close>

abbreviation (input) INT_MAX :: int where "INT_MAX \<equiv> 2147483647"
abbreviation (input) LONG_MAX :: int where "LONG_MAX \<equiv> 9223372036854775807"
abbreviation (input) LONG_MIN :: int where "LONG_MIN \<equiv> - 9223372036854775808"

section \<open>The C library\<close>

definition isspace :: "char \<Rightarrow> bool" where
  "isspace c \<longleftrightarrow> c \<in> {CHR '' '', CHR 0x09, CHR 0x0A, CHR 0x0B, CHR 0x0C, CHR 0x0D}"

text \<open>
  \<open>strtol (s, &end, 10)\<close>: the value, the text from \<open>end\<close> on, and whether the value was out of range
  (\<open>ERANGE\<close>, with the value clamped). With no digits the conversion does not move \<open>end\<close>.
\<close>

definition strtol :: "string \<Rightarrow> int \<times> string \<times> bool" where
  "strtol s =
     (let s1 = dropWhile isspace s;
          neg = (s1 \<noteq> [] \<and> hd s1 = CHR ''-'');
          s2 = (if s1 \<noteq> [] \<and> (hd s1 = CHR ''-'' \<or> hd s1 = CHR ''+'') then tl s1 else s1);
          ds = takeWhile is_digit s2
      in if ds = [] then (0, s, False)
         else let v = (if neg then - int (read_nat ds) else int (read_nat ds))
              in if v > LONG_MAX then (LONG_MAX, dropWhile is_digit s2, True)
                 else if v < LONG_MIN then (LONG_MIN, dropWhile is_digit s2, True)
                 else (v, dropWhile is_digit s2, False))"

text \<open>\<open>fgets (line, n, fp)\<close> on the unread content: the characters stored and the rest.\<close>

fun fgets :: "nat \<Rightarrow> string \<Rightarrow> string \<times> string" where
  "fgets 0 cs = ([], cs)"
| "fgets (Suc n) [] = ([], [])"
| "fgets (Suc n) (c # cs) =
     (if n = 0 then ([], c # cs)
      else if c = CHR 0x0A then ([c], cs)
      else (case fgets n cs of (line, rest) \<Rightarrow> (c # line, rest)))"

section \<open>The interval file\<close>

text \<open>Strings are NUL-terminated; a NULL pointer is \<open>None\<close>. The second component is \<open>*value\<close>.\<close>

definition parse_interval_ms :: "string option \<Rightarrow> int option \<Rightarrow> int \<times> int option" where
  "parse_interval_ms text val =
     (case (text, val) of
        (Some t, Some v) \<Rightarrow>
          if t = [] then (1, val)
          else if \<not> list_all is_digit t then (1, val)
          else (case strtol t of (parsed, rest, erange) \<Rightarrow>
                  if erange \<or> rest \<noteq> [] \<or> parsed > INT_MAX then (1, val) else (0, Some parsed))
      | _ \<Rightarrow> (1, val))"

definition parse_interval_line :: "string option \<Rightarrow> int option \<Rightarrow> int \<times> int option" where
  "parse_interval_line line out_ms =
     (case (line, out_ms) of
        (Some l, Some out) \<Rightarrow>
          if l = [] then (-1, out_ms)
          else if take 12 l \<noteq> ''interval_ms='' then (-1, out_ms)
          else (case parse_interval_ms (Some (drop 12 l)) (Some 0) of
                  (rc, Some v) \<Rightarrow>
                    if rc \<noteq> 0 then (-1, out_ms)
                    else if v < 100 \<or> v > 60000 then (-1, out_ms)
                    else (0, Some v)
                | (rc, None) \<Rightarrow> (-1, out_ms))
      | _ \<Rightarrow> (-1, out_ms))"

text \<open>
  The outcome of \<open>fopen\<close>: the file is missing, cannot be opened, or has the given content; the
  flags say that a later read or the close fails.
\<close>

datatype config_file = FileMissing | FileError | FileOpen string bool bool

definition strip_line_end :: "string \<Rightarrow> string" where
  "strip_line_end line =
     (let l1 = (if line \<noteq> [] \<and> last line = CHR 0x0A then butlast line else line)
      in if l1 \<noteq> [] \<and> last l1 = CHR 0x0D then butlast l1 else l1)"

definition load_interval_file :: "config_file \<Rightarrow> bool \<Rightarrow> int option \<Rightarrow> int \<times> int option" where
  "load_interval_file file path_given out_ms =
     (if \<not> path_given \<or> out_ms = None then (-1, out_ms)
      else case file of
        FileMissing \<Rightarrow> (1, out_ms)
      | FileError \<Rightarrow> (-1, out_ms)
      | FileOpen content read_fails close_fails \<Rightarrow>
          (case fgets 64 content of (line, rest) \<Rightarrow>
             if line = [] then (-1, out_ms)
             else if rest \<noteq> [] \<or> read_fails \<or> close_fails then (-1, out_ms)
             else parse_interval_line (Some (strip_line_end (cstr line))) out_ms))"

section \<open>The command line\<close>

datatype gateway_mode_t = GATEWAY_MODE_SERVICE | GATEWAY_MODE_SMOKE | GATEWAY_MODE_MQTT_SMOKE
datatype gateway_source_kind_t = GATEWAY_SOURCE_SIMULATED | GATEWAY_SOURCE_STM32_MODBUS

record gateway_config_t =
  mode :: gateway_mode_t
  log_path :: string
  log_queue_capacity :: nat
  mqtt_host :: string
  mqtt_port :: int
  storage_db_path :: string
  storage_busy_timeout_ms :: int
  source_kind :: gateway_source_kind_t
  serial_path :: string
  gpiochip_path :: string
  gpio_line_offset :: nat
  serial_timeout_ms :: int
  initial_interval_ms :: int

definition parse_port :: "string option \<Rightarrow> int option \<Rightarrow> int \<times> int option" where
  "parse_port text port_out =
     (case (text, port_out) of
        (Some t, Some _) \<Rightarrow>
          (case strtol t of (value, rest, _) \<Rightarrow>
             if rest = t \<or> rest \<noteq> [] \<or> value < 1 \<or> value > 65535 then (-1, port_out) else (0, Some value))
      | _ \<Rightarrow> (-1, port_out))"

definition default_config :: gateway_config_t where
  "default_config =
     \<lparr>mode = GATEWAY_MODE_SERVICE, log_path = ''gateway.log'', log_queue_capacity = 256,
      mqtt_host = ''127.0.0.1'', mqtt_port = 1883, storage_db_path = ''gateway.db'',
      storage_busy_timeout_ms = 3000, source_kind = GATEWAY_SOURCE_SIMULATED, serial_path = ''/dev/ttyS5'',
      gpiochip_path = ''/dev/gpiochip0'', gpio_line_offset = 22, serial_timeout_ms = 1000, initial_interval_ms = 1000\<rparr>"

text \<open>The parser returns a code and the configuration, or ends the process for \<open>--version\<close>. \<open>storage\<close>
  and \<open>mqtt\<close> are the compile-time switches.\<close>

datatype parse_result = ExitSuccess | Parsed int gateway_config_t

definition parse_arguments :: "bool \<Rightarrow> bool \<Rightarrow> string list \<Rightarrow> parse_result" where
  "parse_arguments storage mqtt argv =
     (let argc = length argv; config = default_config in
      if argc = 1 then Parsed 0 config
      else if argc = 2 \<and> argv ! 1 = ''--version'' then ExitSuccess
      else if argc \<ge> 3 \<and> argv ! 1 = ''--source'' then
        (if \<not> storage then Parsed (-1) config
         else if argc > 5 \<or> (argv ! 2 \<noteq> ''simulated'' \<and> argv ! 2 \<noteq> ''stm32'') \<or>
                 (argc \<ge> 4 \<and> argv ! 3 = []) \<or> (argc = 5 \<and> argv ! 4 = [])
         then Parsed (-1) config
         else let c1 = config\<lparr>source_kind := (if argv ! 2 = ''stm32'' then GATEWAY_SOURCE_STM32_MODBUS else GATEWAY_SOURCE_SIMULATED)\<rparr>;
                  c2 = (if argc \<ge> 4 then c1\<lparr>storage_db_path := argv ! 3\<rparr> else c1);
                  c3 = (if argc = 5 then c2\<lparr>log_path := argv ! 4\<rparr> else c2)
              in Parsed 0 c3)
      else if argc \<ge> 2 \<and> argv ! 1 = ''--db'' then
        (if \<not> storage then Parsed (-1) config
         else if argc \<noteq> 3 \<or> argv ! 2 = [] then Parsed (-1) config
         else Parsed 0 (config\<lparr>storage_db_path := argv ! 2\<rparr>))
      else if argc = 2 \<and> argv ! 1 = ''--smoke'' then
        Parsed 0 (config\<lparr>mode := GATEWAY_MODE_SMOKE, log_path := ''gateway-smoke.log''\<rparr>)
      else if mqtt \<and> argc = 2 \<and> argv ! 1 = ''--mqtt-smoke'' then
        Parsed 0 (config\<lparr>mode := GATEWAY_MODE_MQTT_SMOKE, log_path := ''gateway-mqtt-smoke.log''\<rparr>)
      else if argc = 2 then Parsed 0 (config\<lparr>log_path := argv ! 1\<rparr>)
      else if argc = 3 \<and> argv ! 1 = ''--smoke'' then
        Parsed 0 (config\<lparr>mode := GATEWAY_MODE_SMOKE, log_path := argv ! 2\<rparr>)
      else if mqtt \<and> argc = 4 \<and> argv ! 1 = ''--mqtt-smoke'' then
        (case parse_port (Some (argv ! 3)) (Some (mqtt_port config)) of (rc, port) \<Rightarrow>
           let c1 = config\<lparr>mqtt_port := the port\<rparr> in
           if argv ! 2 = [] then Parsed (-1) config
           else if rc \<noteq> 0 then Parsed (-1) c1
           else Parsed 0 (c1\<lparr>mode := GATEWAY_MODE_MQTT_SMOKE, log_path := ''gateway-mqtt-smoke.log'', mqtt_host := argv ! 2\<rparr>))
      else Parsed (-1) config)"

text \<open>\<open>main\<close>, with \<open>gateway_run\<close> as an argument; \<open>None\<close> stands for a start that never calls it.\<close>

definition gateway_main :: "bool \<Rightarrow> bool \<Rightarrow> config_file \<Rightarrow> (gateway_config_t \<Rightarrow> int) \<Rightarrow> string list \<Rightarrow> int \<times> gateway_config_t option" where
  "gateway_main storage mqtt conf gateway_run argv =
     (case parse_arguments storage mqtt argv of
        ExitSuccess \<Rightarrow> (0, None)
      | Parsed rc config \<Rightarrow>
          if rc \<noteq> 0 then (1, None)
          else if mode config = GATEWAY_MODE_SERVICE then
            (case load_interval_file conf True (Some (initial_interval_ms config)) of (lrc, ms) \<Rightarrow>
               let c1 = config\<lparr>initial_interval_ms := the ms\<rparr> in
               if lrc = -1 then (1, None)
               else (if gateway_run c1 = 0 then 0 else 1, Some c1))
          else (if gateway_run config = 0 then 0 else 1, Some config))"

section \<open>Facts\<close>

lemma is_digit_not_space: "is_digit c \<Longrightarrow> \<not> isspace c"
  by (auto simp: is_digit_def isspace_def)

lemma is_digit_not_sign: "is_digit c \<Longrightarrow> c \<noteq> CHR ''-'' \<and> c \<noteq> CHR ''+''"
  by (auto simp: is_digit_def)

lemma strtol_digits:
  assumes "t \<noteq> []" and "list_all is_digit t"
  shows "strtol t = (if int (read_nat t) > LONG_MAX then (LONG_MAX, [], True) else (int (read_nat t), [], False))"
proof -
  have h: "is_digit (hd t)" using assms by (cases t) auto
  have sp: "dropWhile isspace t = t" using h is_digit_not_space by (cases t) auto
  have tw: "takeWhile is_digit t = t" and dw: "dropWhile is_digit t = []"
    using assms(2) by (simp_all add: list_all_iff)
  show ?thesis
    using assms(1) is_digit_not_sign [OF h] by (simp add: strtol_def Let_def sp tw dw)
qed

lemma parse_interval_ms_digits:
  assumes "t \<noteq> []"
  shows "parse_interval_ms (Some t) (Some v) =
    (if list_all is_digit t \<and> int (read_nat t) \<le> INT_MAX then (0, Some (int (read_nat t))) else (1, Some v))"
  using assms strtol_digits [of t] by (auto simp: parse_interval_ms_def)

text \<open>
  The textual interval is read exactly: \<open>parse_interval_ms\<close> succeeds exactly on non-empty runs
  of decimal digits (no sign, no blank) whose value fits an \<open>int\<close>, stores that value, and leaves
  the caller's variable alone in every other case, overflow of \<open>long\<close> included; the decimal text
  of every value in range is read back.
\<close>

theorem parse_interval_ms_exact:
  "parse_interval_ms (Some t) (Some v) =
    (if t \<noteq> [] \<and> list_all is_digit t \<and> int (read_nat t) \<le> INT_MAX then (0, Some (int (read_nat t))) else (1, Some v)) \<and>
   (int n \<le> INT_MAX \<longrightarrow> parse_interval_ms (Some (show_nat n)) (Some v) = (0, Some (int n)))"
proof -
  have "list_all is_digit (show_nat n)" using show_nat_digits by (simp add: list_all_iff)
  then show ?thesis
    using parse_interval_ms_digits [of t v] parse_interval_ms_digits [of "show_nat n" v]
    by (cases "t = []") (auto simp: parse_interval_ms_def)
qed

theorem parse_interval_ms_exact_witness:
  "parse_interval_ms (Some (show_nat 2500)) (Some 7) = (0, Some 2500)"
  using parse_interval_ms_exact [of "''x''" 7 2500] by simp

lemma parse_interval_line_cases:
  "parse_interval_line line out = (rc, out') \<Longrightarrow>
    rc = 0 \<and> (\<exists>l v. line = Some l \<and> out' = Some v \<and> 100 \<le> v \<and> v \<le> 60000 \<and>
      l = ''interval_ms='' @ drop 12 l \<and> list_all is_digit (drop 12 l) \<and> v = int (read_nat (drop 12 l))) \<or>
    rc = -1 \<and> out' = out"
proof -
  assume a: "parse_interval_line line out = (rc, out')"
  have split: "l = ''interval_ms='' @ drop 12 l" if "take 12 l = ''interval_ms=''" for l
    using that append_take_drop_id [of 12 l] by simp
  show ?thesis
  proof (cases "\<exists>l w. line = Some l \<and> out = Some w \<and> l \<noteq> [] \<and> take 12 l = ''interval_ms=''")
    case False
    then show ?thesis using a by (auto simp: parse_interval_line_def split: option.splits if_splits)
  next
    case True
    then obtain l w where l: "line = Some l" "out = Some w" "l \<noteq> []" "take 12 l = ''interval_ms=''" by blast
    show ?thesis
    proof (cases "drop 12 l = []")
      case True
      then show ?thesis using a l by (simp add: parse_interval_line_def parse_interval_ms_def)
    next
      case False
      then show ?thesis
        using a l split [OF l(4)] parse_interval_ms_digits [OF False, of 0]
        by (auto simp: parse_interval_line_def split: if_splits)
    qed
  qed
qed

lemma fgets_short: "\<lbrakk>CHR 0x0A \<notin> set l; length l < n\<rbrakk> \<Longrightarrow> fgets (Suc n) l = (l, [])"
proof (induction l arbitrary: n)
  case (Cons c l)
  then obtain m where "n = Suc m" by (cases n) auto
  then show ?case using Cons by auto
qed simp

lemma fgets_line: "\<lbrakk>CHR 0x0A \<notin> set l; length l + 1 < n\<rbrakk> \<Longrightarrow> fgets (Suc n) (l @ [CHR 0x0A]) = (l @ [CHR 0x0A], [])"
proof (induction l arbitrary: n)
  case (Cons c l)
  then obtain m where "n = Suc m" by (cases n) auto
  then show ?case using Cons by auto
qed auto

lemma strip_line_end_digits:
  assumes "list_all is_digit ds" and "ds \<noteq> []" and "ending \<in> {[], [CHR 0x0A], [CHR 0x0D, CHR 0x0A]}"
  shows "strip_line_end (''interval_ms='' @ ds @ ending) = ''interval_ms='' @ ds"
proof -
  have "is_digit (last ds)" using assms(1,2) by (simp add: list_all_iff)
  then have "last ds \<noteq> CHR 0x0A" "last ds \<noteq> CHR 0x0D" by (auto simp: is_digit_def)
  then show ?thesis
    using assms(2,3) by (auto simp: strip_line_end_def Let_def butlast_append)
qed

text \<open>
  The interval file. A file that holds the line \<open>interval_ms=\<close> and the decimal text of a value
  between 100 and 60000, with no line end, LF or CRLF, sets exactly that interval; a missing file
  is reported as such; and whatever the content, success means a value within the limits and any
  other result leaves the caller's interval unchanged.
\<close>

theorem interval_file_exact:
  assumes "100 \<le> v" and "v \<le> 60000" and "ending \<in> {[], [CHR 0x0A], [CHR 0x0D, CHR 0x0A]}"
  shows "load_interval_file (FileOpen (''interval_ms='' @ show_int v @ ending) False False) True (Some old) = (0, Some v) \<and>
    load_interval_file FileMissing True (Some old) = (1, Some old) \<and>
    (\<forall>cf rc out'. load_interval_file cf True (Some old) = (rc, out') \<longrightarrow>
       (rc = 0 \<longrightarrow> (\<exists>u. out' = Some u \<and> 100 \<le> u \<and> u \<le> 60000)) \<and> (rc \<noteq> 0 \<longrightarrow> out' = Some old))"
proof (intro conjI allI impI)
  let ?ds = "show_int v"
  have ds: "?ds = show_nat (nat v)" using assms(1) by (simp add: show_int_def)
  have dig: "list_all is_digit ?ds" using show_nat_digits ds by (simp add: list_all_iff)
  have len: "length ?ds \<le> 5" using show_nat_length [of "nat v" 4] assms(1,2) ds by simp
  have nonl: "CHR 0x0A \<notin> set ?ds" and nonul: "NUL \<notin> set ?ds"
    using dig by (auto simp: list_all_iff is_digit_def)
  let ?l = "''interval_ms='' @ ?ds"
  have g: "fgets 64 (''interval_ms='' @ ?ds @ ending) = (''interval_ms='' @ ?ds @ ending, [])"
  proof -
    have "fgets (Suc 63) ?l = (?l, [])" using nonl len by (intro fgets_short) auto
    moreover have "fgets (Suc 63) (?l @ [CHR 0x0A]) = (?l @ [CHR 0x0A], [])"
      using nonl len by (intro fgets_line) auto
    moreover have "fgets (Suc 63) ((?l @ [CHR 0x0D]) @ [CHR 0x0A]) = ((?l @ [CHR 0x0D]) @ [CHR 0x0A], [])"
      using nonl len by (intro fgets_line) auto
    ultimately show ?thesis using assms(3) by (auto simp: eval_nat_numeral)
  qed
  have c: "cstr (''interval_ms='' @ ?ds @ ending) = ''interval_ms='' @ ?ds @ ending"
    using nonul assms(3) by (intro cstr_id) (auto simp: cstring_def)
  have p: "parse_interval_ms (Some ?ds) (Some 0) = (0, Some v)"
    using parse_interval_ms_digits [of ?ds 0] dig ds assms(1,2) by simp
  show "load_interval_file (FileOpen (''interval_ms='' @ ?ds @ ending) False False) True (Some old) = (0, Some v)"
  proof -
    define ftext where "ftext = ''interval_ms='' @ ?ds @ ending"
    have ne: "?ds \<noteq> []" by (simp add: ds)
    have t: "fgets 64 ftext = (ftext, [])" "cstr ftext = ftext" "strip_line_end ftext = ''interval_ms='' @ ?ds" "ftext \<noteq> []"
      using g c strip_line_end_digits [OF dig ne assms(3)] by (simp_all add: ftext_def)
    have "parse_interval_line (Some (''interval_ms='' @ ?ds)) (Some old) = (0, Some v)"
      using p assms(1,2) by (simp add: parse_interval_line_def)
    then have "load_interval_file (FileOpen ftext False False) True (Some old) = (0, Some v)"
      using t by (simp add: load_interval_file_def)
    then show ?thesis by (simp only: ftext_def)
  qed
next
  fix cf rc out'
  assume l: "load_interval_file cf True (Some old) = (rc, out')"
  show "\<exists>u. out' = Some u \<and> 100 \<le> u \<and> u \<le> 60000" if "rc = 0"
    using that l by (auto simp: load_interval_file_def split: config_file.splits prod.splits if_splits
        dest!: parse_interval_line_cases)
  show "out' = Some old" if "rc \<noteq> 0"
    using that l by (auto simp: load_interval_file_def split: config_file.splits prod.splits if_splits
        dest!: parse_interval_line_cases)
qed (simp add: load_interval_file_def)

theorem interval_file_exact_witness:
  "load_interval_file (FileOpen (''interval_ms='' @ show_int 500 @ [CHR 0x0A]) False False) True (Some 1000) = (0, Some 500)"
  using interval_file_exact [of 500 "[CHR 0x0A]" 1000] by simp

text \<open>Content behind a NUL character is not seen by the checks of the line.\<close>

lemma interval_file_ignores_after_nul:
  "load_interval_file (FileOpen (''interval_ms=500'' @ [NUL] @ ''junk'') False False) True (Some 1000) = (0, Some 500)"
  by code_simp

lemma parse_port_range: "parse_port t (Some p) = (0, q) \<Longrightarrow> \<exists>v. q = Some v \<and> 1 \<le> v \<and> v \<le> 65535"
  by (auto simp: parse_port_def split: option.splits prod.splits if_splits)

lemma parse_arguments_cases:
  assumes "parse_arguments storage mqtt argv = Parsed 0 c"
  shows "1 \<le> mqtt_port c \<and> mqtt_port c \<le> 65535" and "initial_interval_ms c = 1000" and "log_queue_capacity c = 256"
    and "storage_db_path c \<noteq> []" and "mode c = GATEWAY_MODE_MQTT_SMOKE \<longrightarrow> mqtt"
    and "source_kind c = GATEWAY_SOURCE_STM32_MODBUS \<longrightarrow> storage"
proof -
  show "1 \<le> mqtt_port c \<and> mqtt_port c \<le> 65535"
    using assms by (auto simp: parse_arguments_def Let_def default_config_def split: if_splits prod.splits dest!: parse_port_range)
  show "initial_interval_ms c = 1000"
    using assms by (auto simp: parse_arguments_def Let_def default_config_def split: if_splits prod.splits)
  show "log_queue_capacity c = 256"
    using assms by (auto simp: parse_arguments_def Let_def default_config_def split: if_splits prod.splits)
  show "storage_db_path c \<noteq> []"
    using assms by (auto simp: parse_arguments_def Let_def default_config_def split: if_splits prod.splits)
  show "mode c = GATEWAY_MODE_MQTT_SMOKE \<longrightarrow> mqtt"
    using assms by (auto simp: parse_arguments_def Let_def default_config_def split: if_splits prod.splits)
  show "source_kind c = GATEWAY_SOURCE_STM32_MODBUS \<longrightarrow> storage"
    using assms by (auto simp: parse_arguments_def Let_def default_config_def split: if_splits prod.splits)
qed

text \<open>
  C36: The gateway is started only with a usable configuration: a port within 1 to 65535, an interval
  within 100 to 60000 ms, a log queue of 256 entries, a non-empty database path; the MQTT self test
  and the STM32 source only when they are compiled in. In service mode the interval is the one of
  the interval file, or the default of 1000 ms when there is no file; a broken file prevents the
  start.
\<close>

theorem started_with_valid_config:
  assumes "gateway_main storage mqtt conf run argv = (rc, Some c)"
  shows "1 \<le> mqtt_port c \<and> mqtt_port c \<le> 65535 \<and> 100 \<le> initial_interval_ms c \<and> initial_interval_ms c \<le> 60000 \<and>
    log_queue_capacity c = 256 \<and> storage_db_path c \<noteq> [] \<and>
    (mode c = GATEWAY_MODE_MQTT_SMOKE \<longrightarrow> mqtt) \<and> (source_kind c = GATEWAY_SOURCE_STM32_MODBUS \<longrightarrow> storage) \<and>
    (mode c = GATEWAY_MODE_SERVICE \<longrightarrow>
       load_interval_file conf True (Some 1000) = (0, Some (initial_interval_ms c)) \<or>
       conf = FileMissing \<and> initial_interval_ms c = 1000) \<and>
    (rc = 0 \<longleftrightarrow> run c = 0)"
proof -
  obtain c0 where p: "parse_arguments storage mqtt argv = Parsed 0 c0"
    using assms by (auto simp: gateway_main_def split: parse_result.splits if_splits)
  note pc = parse_arguments_cases [OF p]
  obtain lrc ms where l: "load_interval_file conf True (Some 1000) = (lrc, ms)" by fastforce
  have lc: "(lrc = 0 \<and> (\<exists>u. ms = Some u \<and> 100 \<le> u \<and> u \<le> 60000)) \<or> (lrc = 1 \<and> ms = Some 1000 \<and> conf = FileMissing) \<or> lrc = -1"
    using l by (auto simp: load_interval_file_def split: config_file.splits prod.splits if_splits
        dest!: parse_interval_line_cases)
  show ?thesis
  proof (cases "mode c0 = GATEWAY_MODE_SERVICE")
    case True
    then have "lrc \<noteq> -1" "c = c0\<lparr>initial_interval_ms := the ms\<rparr>" "rc = (if run c = 0 then 0 else 1)"
      using assms p l pc(2) by (auto simp: gateway_main_def Let_def split: if_splits)
    then show ?thesis using lc l pc True by auto
  next
    case False
    then have "c = c0" "rc = (if run c = 0 then 0 else 1)"
      using assms p by (auto simp: gateway_main_def split: if_splits)
    then show ?thesis using pc False by auto
  qed
qed

theorem started_with_valid_config_witness:
  "\<exists>c. gateway_main True True FileMissing (\<lambda>_. 0) [''gateway'', ''--source'', ''stm32'', ''x.db''] = (0, Some c) \<and>
     storage_db_path c = ''x.db'' \<and> initial_interval_ms c = 1000"
proof -
  obtain rc oc where g: "gateway_main True True FileMissing (\<lambda>_. 0) [''gateway'', ''--source'', ''stm32'', ''x.db''] = (rc, oc)"
    by fastforce
  then obtain c where c: "oc = Some c" "storage_db_path c = ''x.db''" "mode c = GATEWAY_MODE_SERVICE"
    by (auto simp: gateway_main_def parse_arguments_def load_interval_file_def default_config_def Let_def)
  then show ?thesis using started_with_valid_config [OF g [unfolded c(1)]] g by (auto simp: load_interval_file_def)
qed

text \<open>An option without its argument is taken as the path of the log file.\<close>

lemma source_option_without_value:
  "parse_arguments True True [''gateway'', ''--source''] = Parsed 0 (default_config\<lparr>log_path := ''--source''\<rparr>)"
  by (simp add: parse_arguments_def)

end
