(* ===== verification/Blocking_Queue.thy ===== *)
theory Blocking_Queue
  imports Prelude
begin

text \<open>
  The bounded blocking queue of \<^verbatim>\<open>src/modules/blocking_queue/blocking_queue.c\<close> (the logger has the
  same file under \<^verbatim>\<open>src/modules/log\<close>): a ring buffer of fixed-size elements behind one mutex
  and two condition variables. A NULL pointer is \<open>None\<close>. A wait on a condition variable releases
  the mutex, so other threads run their critical sections before it returns: a wait is described by
  the return value of the pthread call and the critical sections that ran meanwhile, and a caller
  whose script of waits is used up is still blocked (\<open>None\<close>).

  The ring buffer refines a FIFO list. What a FIFO client relies on is the locale \<open>bounded_fifo\<close>,
  interpreted here on the ring buffer.
\<close>

section \<open>Data\<close>

datatype bq_result_t = BQ_OK | BQ_CLOSED | BQ_TIMEOUT | BQ_INVALID | BQ_NOMEM | BQ_SYSTEM

record bounded_queue_t =
  q_buffer :: "u8 list option"
  q_element_size :: nat
  q_capacity :: nat
  q_size :: nat
  q_head :: nat
  q_tail :: nat
  q_closed :: bool

type_synonym timespec = "int \<times> int"

text \<open>
  \<open>clock_gettime\<close> may fail (\<open>None\<close>). The function is only called for a positive timeout, where
  division and remainder of C and of HOL agree.
\<close>

definition make_deadline :: "int \<Rightarrow> timespec option \<Rightarrow> timespec option" where
  "make_deadline timeout_ms clock =
     (case clock of None \<Rightarrow> None
      | Some (sec, nsec) \<Rightarrow>
          let sec1 = sec + timeout_ms div 1000;
              nsec1 = nsec + (timeout_ms mod 1000) * 1000000
          in if nsec1 \<ge> 1000000000 then Some (sec1 + 1, nsec1 - 1000000000) else Some (sec1, nsec1))"

section \<open>Initialisation and destruction\<close>

text \<open>
  \<open>heap n\<close> is the memory \<open>malloc (n)\<close> returns; the product of the sizes is taken modulo \<open>2^64\<close>, as
  \<open>size_t\<close> computes it. The three return values are those of \<open>pthread_mutex_init\<close> and of the two
  \<open>pthread_cond_init\<close> calls.
\<close>

definition bq_init ::
  "(nat \<Rightarrow> u8 list option) \<Rightarrow> int \<times> int \<times> int \<Rightarrow> bounded_queue_t option \<Rightarrow> nat \<Rightarrow> nat \<Rightarrow>
   bq_result_t \<times> bounded_queue_t option" where
  "bq_init heap rcs q capacity element_size =
     (case q of None \<Rightarrow> (BQ_INVALID, None)
      | Some q0 \<Rightarrow>
          if capacity = 0 then (BQ_INVALID, Some q0)
          else if element_size = 0 then (BQ_INVALID, Some q0)
          else (case heap ((element_size * capacity) mod SIZE_MODULUS) of
            None \<Rightarrow> (BQ_NOMEM, Some (q0\<lparr>q_element_size := element_size, q_buffer := None\<rparr>))
          | Some buffer \<Rightarrow>
              let q1 = q0\<lparr>q_buffer := Some buffer, q_element_size := element_size,
                          q_capacity := capacity, q_size := 0, q_head := 0, q_tail := 0,
                          q_closed := False\<rparr>
              in if fst rcs \<noteq> 0 \<or> fst (snd rcs) \<noteq> 0 \<or> snd (snd rcs) \<noteq> 0
                 then (BQ_SYSTEM, Some (q1\<lparr>q_buffer := None\<rparr>))
                 else (BQ_OK, Some q1)))"

definition bq_destroy ::
  "int \<times> int \<times> int \<Rightarrow> bounded_queue_t option \<Rightarrow> bq_result_t \<times> bounded_queue_t option" where
  "bq_destroy rcs q =
     (case q of None \<Rightarrow> (BQ_INVALID, None)
      | Some q0 \<Rightarrow>
          if fst rcs \<noteq> 0 then (BQ_SYSTEM, Some q0)
          else if fst (snd rcs) \<noteq> 0 then (BQ_SYSTEM, Some q0)
          else if snd (snd rcs) \<noteq> 0 then (BQ_SYSTEM, Some q0)
          else (BQ_OK, Some (q0\<lparr>q_buffer := None\<rparr>)))"

section \<open>The critical sections\<close>

definition bq_full :: "bounded_queue_t \<Rightarrow> bool" where
  "bq_full q \<longleftrightarrow> q_size q = q_capacity q"

definition bq_enqueue :: "u8 list \<Rightarrow> bounded_queue_t \<Rightarrow> bounded_queue_t" where
  "bq_enqueue item q =
     q\<lparr>q_buffer := Some (blit (the (q_buffer q)) (q_tail q * q_element_size q)
                            (take (q_element_size q) item)),
       q_tail := (q_tail q + 1) mod q_capacity q,
       q_size := q_size q + 1\<rparr>"

definition bq_dequeue :: "bounded_queue_t \<Rightarrow> u8 list \<times> bounded_queue_t" where
  "bq_dequeue q =
     (segment (the (q_buffer q)) (q_head q * q_element_size q) (q_element_size q),
      q\<lparr>q_head := (q_head q + 1) mod q_capacity q, q_size := q_size q - 1\<rparr>)"

definition bq_set_closed :: "bounded_queue_t \<Rightarrow> bounded_queue_t" where
  "bq_set_closed q = q\<lparr>q_closed := True\<rparr>"

text \<open>What other threads do while the mutex is free: operations that find their condition false
  keep waiting and change nothing.\<close>

datatype qop = QPush "u8 list" | QPop | QClose

fun env_op :: "qop \<Rightarrow> bounded_queue_t \<Rightarrow> bounded_queue_t" where
  "env_op (QPush item) q = (if q_closed q \<or> bq_full q then q else bq_enqueue item q)"
| "env_op QPop q = (if q_size q = 0 then q else snd (bq_dequeue q))"
| "env_op QClose q = bq_set_closed q"

definition env_ops :: "qop list \<Rightarrow> bounded_queue_t \<Rightarrow> bounded_queue_t" where
  "env_ops ops q = fold env_op ops q"

type_synonym wait = "int \<times> qop list"

abbreviation (input) ETIMEDOUT :: int where "ETIMEDOUT \<equiv> 110"

section \<open>The blocking operations\<close>

text \<open>
  The wait loop of \<open>bq_push\<close> and \<open>bq_pop\<close>, for the condition each waits on. Its result is the
  code of an early return, or \<open>None\<close> when the loop ends because the condition is false.
\<close>

fun bq_wait ::
  "(bounded_queue_t \<Rightarrow> bool) \<Rightarrow> int \<Rightarrow> bounded_queue_t \<Rightarrow> wait list \<Rightarrow>
   ((bq_result_t option \<times> bounded_queue_t) \<times> wait list) option" where
  "bq_wait blocked timeout_ms q [] =
     (if \<not> blocked q then Some ((None, q), [])
      else if timeout_ms = 0 then Some ((Some BQ_TIMEOUT, q), [])
      else None)"
| "bq_wait blocked timeout_ms q ((rc, ops) # waits) =
     (if \<not> blocked q then Some ((None, q), (rc, ops) # waits)
      else if timeout_ms = 0 then Some ((Some BQ_TIMEOUT, q), (rc, ops) # waits)
      else if timeout_ms < 0 then
        (if rc \<noteq> 0 then Some ((Some BQ_SYSTEM, env_ops ops q), waits)
         else bq_wait blocked timeout_ms (env_ops ops q) waits)
      else if rc = ETIMEDOUT then Some ((Some BQ_TIMEOUT, env_ops ops q), waits)
      else if rc \<noteq> 0 then Some ((Some BQ_SYSTEM, env_ops ops q), waits)
      else bq_wait blocked timeout_ms (env_ops ops q) waits)"

definition push_blocked :: "bounded_queue_t \<Rightarrow> bool" where
  "push_blocked q \<longleftrightarrow> q_size q = q_capacity q \<and> \<not> q_closed q"

definition pop_blocked :: "bounded_queue_t \<Rightarrow> bool" where
  "pop_blocked q \<longleftrightarrow> q_size q = 0 \<and> \<not> q_closed q"

definition bq_push ::
  "bounded_queue_t option \<Rightarrow> u8 list option \<Rightarrow> int \<Rightarrow> timespec option \<Rightarrow> wait list \<Rightarrow>
   ((bq_result_t \<times> bounded_queue_t option) \<times> wait list) option" where
  "bq_push q_arg item_arg timeout_ms clock waits =
     (case (q_arg, item_arg) of
        (None, _) \<Rightarrow> Some ((BQ_INVALID, None), waits)
      | (Some q, None) \<Rightarrow> Some ((BQ_INVALID, Some q), waits)
      | (Some q, Some item) \<Rightarrow>
          if q_closed q then Some ((BQ_CLOSED, Some q), waits)
          else if timeout_ms > 0 \<and> make_deadline timeout_ms clock = None
          then Some ((BQ_SYSTEM, Some q), waits)
          else (case bq_wait push_blocked timeout_ms q waits of
                  None \<Rightarrow> None
                | Some ((Some res, q1), rest) \<Rightarrow> Some ((res, Some q1), rest)
                | Some ((None, q1), rest) \<Rightarrow>
                    if q_closed q1 then Some ((BQ_CLOSED, Some q1), rest)
                    else Some ((BQ_OK, Some (bq_enqueue item q1)), rest)))"

text \<open>The third component of the result is the memory \<open>out\<close> points to.\<close>

definition bq_pop ::
  "bounded_queue_t option \<Rightarrow> u8 list option \<Rightarrow> int \<Rightarrow> timespec option \<Rightarrow> wait list \<Rightarrow>
   ((bq_result_t \<times> bounded_queue_t option \<times> u8 list option) \<times> wait list) option" where
  "bq_pop q_arg out_arg timeout_ms clock waits =
     (case (q_arg, out_arg) of
        (None, _) \<Rightarrow> Some ((BQ_INVALID, None, out_arg), waits)
      | (Some q, None) \<Rightarrow> Some ((BQ_INVALID, Some q, None), waits)
      | (Some q, Some out) \<Rightarrow>
          if timeout_ms > 0 \<and> make_deadline timeout_ms clock = None
          then Some ((BQ_SYSTEM, Some q, Some out), waits)
          else (case bq_wait pop_blocked timeout_ms q waits of
                  None \<Rightarrow> None
                | Some ((Some res, q1), rest) \<Rightarrow> Some ((res, Some q1, Some out), rest)
                | Some ((None, q1), rest) \<Rightarrow>
                    if q_closed q1 \<and> q_size q1 = 0 then Some ((BQ_CLOSED, Some q1, Some out), rest)
                    else let (bytes, q2) = bq_dequeue q1
                         in Some ((BQ_OK, Some q2, Some (blit out 0 bytes)), rest)))"

definition bq_close :: "bounded_queue_t option \<Rightarrow> bq_result_t \<times> bounded_queue_t option" where
  "bq_close q_arg =
     (case q_arg of None \<Rightarrow> (BQ_INVALID, None) | Some q \<Rightarrow> (BQ_OK, Some (bq_set_closed q)))"

definition bq_size :: "bounded_queue_t option \<Rightarrow> nat option \<Rightarrow> bq_result_t \<times> nat option" where
  "bq_size q_arg out_size =
     (case (q_arg, out_size) of
        (None, _) \<Rightarrow> (BQ_INVALID, out_size)
      | (Some q, None) \<Rightarrow> (BQ_INVALID, None)
      | (Some q, Some _) \<Rightarrow> (BQ_OK, Some (q_size q)))"

section \<open>A bounded FIFO\<close>

text \<open>
  What a client of a bounded queue relies on: an enqueue appends, a dequeue takes the oldest
  element, closing changes no element, and each keeps the invariant.
\<close>

locale bounded_fifo =
  fixes inv :: "'q \<Rightarrow> bool" and items :: "'q \<Rightarrow> 'a list" and bound :: "'q \<Rightarrow> nat"
    and closed :: "'q \<Rightarrow> bool" and fits :: "'q \<Rightarrow> 'a \<Rightarrow> bool"
    and enq :: "'a \<Rightarrow> 'q \<Rightarrow> 'q" and deq :: "'q \<Rightarrow> 'a \<times> 'q" and shut :: "'q \<Rightarrow> 'q"
  assumes enq_law: "inv q \<Longrightarrow> fits q x \<Longrightarrow> length (items q) < bound q \<Longrightarrow>
      inv (enq x q) \<and> items (enq x q) = items q @ [x] \<and> bound (enq x q) = bound q \<and>
      closed (enq x q) = closed q \<and> fits (enq x q) = fits q"
    and deq_law: "inv q \<Longrightarrow> items q \<noteq> [] \<Longrightarrow> deq q = (x, q') \<Longrightarrow>
      inv q' \<and> items q = x # items q' \<and> bound q' = bound q \<and> closed q' = closed q \<and> fits q' = fits q"
    and shut_law: "inv q \<Longrightarrow> inv (shut q) \<and> items (shut q) = items q \<and> bound (shut q) = bound q \<and>
      closed (shut q) \<and> fits (shut q) = fits q"
    and bounded: "inv q \<Longrightarrow> length (items q) \<le> bound q"
begin

text \<open>A run of attempts: an element to enqueue, \<open>Inl\<close>, a dequeue or a close. It returns the
  accepted and the dequeued elements.\<close>

fun run :: "('a + bool) list \<Rightarrow> 'q \<Rightarrow> 'a list \<times> 'a list \<times> 'q" where
  "run [] q = ([], [], q)"
| "run (Inl x # ops) q =
     (if closed q \<or> length (items q) = bound q then run ops q
      else case run ops (enq x q) of (acc, out, q') \<Rightarrow> (x # acc, out, q'))"
| "run (Inr False # ops) q =
     (if items q = [] then run ops q
      else case deq q of (x, q1) \<Rightarrow> case run ops q1 of (acc, out, q') \<Rightarrow> (acc, x # out, q'))"
| "run (Inr True # ops) q = run ops (shut q)"

lemma run_fifo:
  assumes "inv q" and "\<And>x. Inl x \<in> set ops \<Longrightarrow> fits q x" and "run ops q = (acc, out, q')"
  shows "inv q' \<and> items q @ acc = out @ items q' \<and> bound q' = bound q \<and> (closed q \<longrightarrow> closed q' \<and> acc = [])"
  using assms
proof (induction ops q arbitrary: acc out rule: run.induct)
  case (2 x ops q)
  show ?case
  proof (cases "closed q \<or> length (items q) = bound q")
    case True
    then show ?thesis using 2(1) [OF True 2(3)] 2(4,5) by simp
  next
    case False
    then have l: "inv (enq x q) \<and> items (enq x q) = items q @ [x] \<and> bound (enq x q) = bound q \<and>
        closed (enq x q) = closed q \<and> fits (enq x q) = fits q"
      using 2(3,4) bounded [of q] by (intro enq_law) auto
    from False 2(5) obtain acc1 where r: "run ops (enq x q) = (acc1, out, q')" and acc: "acc = x # acc1"
      by (auto split: prod.splits)
    have "inv q' \<and> items (enq x q) @ acc1 = out @ items q' \<and> bound q' = bound (enq x q) \<and>
        (closed (enq x q) \<longrightarrow> closed q' \<and> acc1 = [])"
      using l 2(4) by (intro 2(2) [OF False _ _ r]) simp_all
    then show ?thesis using l False acc by simp
  qed
next
  case (3 ops q)
  show ?case
  proof (cases "items q = []")
    case True
    then show ?thesis using 3(1) [OF True 3(3)] 3(4,5) by auto
  next
    case False
    obtain x q1 where d: "deq q = (x, q1)" by fastforce
    note l = deq_law [OF 3(3) False d]
    from False d 3(5) obtain out1 where r: "run ops q1 = (acc, out1, q')" and out: "out = x # out1"
      by (auto split: prod.splits)
    have "inv q' \<and> items q1 @ acc = out1 @ items q' \<and> bound q' = bound q1 \<and>
        (closed q1 \<longrightarrow> closed q' \<and> acc = [])"
      using l 3(4) by (intro 3(2) [OF False d [symmetric] _ _ r]) simp_all
    then show ?thesis using l out by simp
  qed
next
  case (4 ops q)
  note l = shut_law [OF 4(2)]
  have "inv q' \<and> items (shut q) @ acc = out @ items q' \<and> bound q' = bound (shut q) \<and>
      (closed (shut q) \<longrightarrow> closed q' \<and> acc = [])"
    using l 4(3,4) by (intro 4(1)) simp_all
  then show ?case using l by auto
qed simp

end


section \<open>The ring buffer is a bounded FIFO\<close>

definition bq_wf :: "bounded_queue_t \<Rightarrow> bool" where
  "bq_wf q \<longleftrightarrow>
     q_capacity q > 0 \<and> q_element_size q > 0 \<and>
     (\<exists>b. q_buffer q = Some b \<and> length b = q_capacity q * q_element_size q) \<and>
     q_size q \<le> q_capacity q \<and> q_head q < q_capacity q \<and>
     q_tail q = (q_head q + q_size q) mod q_capacity q"

definition bq_slot :: "bounded_queue_t \<Rightarrow> nat \<Rightarrow> u8 list" where
  "bq_slot q i = segment (the (q_buffer q)) (i * q_element_size q) (q_element_size q)"

definition bq_items :: "bounded_queue_t \<Rightarrow> u8 list list" where
  "bq_items q = map (\<lambda>i. bq_slot q ((q_head q + i) mod q_capacity q)) [0..<q_size q]"

definition bq_fits :: "bounded_queue_t \<Rightarrow> u8 list \<Rightarrow> bool" where
  "bq_fits q item \<longleftrightarrow> length item = q_element_size q"

lemma length_bq_items [simp]: "length (bq_items q) = q_size q"
  by (simp add: bq_items_def)

lemma bq_items_empty: "bq_items q = [] \<longleftrightarrow> q_size q = 0"
  by (simp add: bq_items_def)

lemma slot_fits: "i < cap \<Longrightarrow> i * es + es \<le> cap * (es :: nat)"
  by (metis Suc_leI add.commute mult_Suc mult_le_mono1)

lemma slot_update:
  assumes "length b = cap * es" and "i < cap" and "j < cap" and "length x = es"
  shows "segment (blit b (j * es) x) (i * es) es = (if i = j then x else segment b (i * es) es)"
proof -
  have j: "j * es + length x \<le> length b" using slot_fits [OF assms(3), of es] assms by simp
  consider "i = j" | "i < j" | "j < i" by linarith
  then show ?thesis
  proof cases
    case 1
    then show ?thesis using segment_blit_same [OF j] assms(4) by simp
  next
    case 2
    then show ?thesis using segment_blit_before [of "i * es" es "j * es" x b] slot_fits [OF 2, of es] j by simp
  next
    case 3
    then show ?thesis using segment_blit_after [of "j * es" x "i * es" b es] slot_fits [OF 3, of es] j assms(4) by simp
  qed
qed

lemma ring_distinct:
  "(h :: nat) < cap \<Longrightarrow> i < n \<Longrightarrow> n < cap \<Longrightarrow> (h + i) mod cap \<noteq> (h + n) mod cap"
proof
  assume a: "h < cap" "i < n" "n < cap" and e: "(h + i) mod cap = (h + n) mod cap"
  have "cap dvd (h + n) - (h + i)" using e a(2) mod_eq_dvd_iff_nat [of "h + i" "h + n" cap] by simp
  then have "cap \<le> n - i" using a(2) by (auto dest: dvd_imp_le)
  then show False using a(3) by simp
qed

lemma bq_enqueue_law:
  assumes wf: "bq_wf q" and len: "length x = q_element_size q" and room: "q_size q < q_capacity q"
  shows "bq_wf (bq_enqueue x q) \<and> bq_items (bq_enqueue x q) = bq_items q @ [x]"
proof
  obtain b where b: "q_buffer q = Some b" and lb: "length b = q_capacity q * q_element_size q"
    using wf by (auto simp: bq_wf_def)
  have t: "q_tail q < q_capacity q" and te: "q_tail q = (q_head q + q_size q) mod q_capacity q"
    using wf by (auto simp: bq_wf_def)
  have u: "bq_slot (bq_enqueue x q) i = (if i = q_tail q then x else bq_slot q i)" if "i < q_capacity q" for i
    using slot_update [OF lb that t len] b len by (simp add: bq_slot_def bq_enqueue_def)
  show "bq_wf (bq_enqueue x q)"
    using wf room b lb len slot_fits [OF t, of "q_element_size q"]
    by (auto simp: bq_wf_def bq_enqueue_def mod_Suc_eq)
  have "bq_slot (bq_enqueue x q) ((q_head q + i) mod q_capacity q) = bq_slot q ((q_head q + i) mod q_capacity q)"
    if "i < q_size q" for i
    using that u [of "(q_head q + i) mod q_capacity q"] ring_distinct [of "q_head q" "q_capacity q" i "q_size q"] wf room te
    by (auto simp: bq_wf_def)
  moreover have "bq_slot (bq_enqueue x q) ((q_head q + q_size q) mod q_capacity q) = x"
    using u [OF t] te by simp
  ultimately show "bq_items (bq_enqueue x q) = bq_items q @ [x]"
    by (auto simp: bq_items_def bq_enqueue_def)
qed

lemma bq_dequeue_law:
  assumes wf: "bq_wf q" and ne: "q_size q \<noteq> 0" and d: "bq_dequeue q = (x, q')"
  shows "bq_wf q' \<and> bq_items q = x # bq_items q'"
proof
  have q': "q' = q\<lparr>q_head := (q_head q + 1) mod q_capacity q, q_size := q_size q - 1\<rparr>"
    and x: "x = bq_slot q (q_head q)"
    using d by (auto simp: bq_dequeue_def bq_slot_def)
  obtain n where n: "q_size q = Suc n" using ne not0_implies_Suc by blast
  show "bq_wf q'" using wf by (auto simp: bq_wf_def q' n mod_simps)
  have m: "(Suc (q_head q) mod q_capacity q + i) mod q_capacity q = (q_head q + Suc i) mod q_capacity q" for i
    by (simp add: mod_simps)
  have "[0..<q_size q] = 0 # map Suc [0..<q_size q - 1]"
    using ne by (simp add: map_Suc_upt upt_conv_Cons)
  then show "bq_items q = x # bq_items q'"
    using wf by (simp add: bq_items_def x q' m bq_slot_def bq_wf_def)
qed

lemmas bq_field_defs = bq_enqueue_def bq_dequeue_def bq_set_closed_def bq_fits_def

interpretation ring: bounded_fifo bq_wf bq_items q_capacity q_closed bq_fits bq_enqueue bq_dequeue bq_set_closed
proof unfold_locales
  fix q x
  assume "bq_wf q" "bq_fits q x" "length (bq_items q) < q_capacity q"
  then show "bq_wf (bq_enqueue x q) \<and> bq_items (bq_enqueue x q) = bq_items q @ [x] \<and>
      q_capacity (bq_enqueue x q) = q_capacity q \<and> q_closed (bq_enqueue x q) = q_closed q \<and>
      bq_fits (bq_enqueue x q) = bq_fits q"
    using bq_enqueue_law [of q x] by (auto simp: bq_fits_def bq_enqueue_def fun_eq_iff)
next
  fix q x q'
  assume "bq_wf q" "bq_items q \<noteq> []" "bq_dequeue q = (x, q')"
  then show "bq_wf q' \<and> bq_items q = x # bq_items q' \<and> q_capacity q' = q_capacity q \<and>
      q_closed q' = q_closed q \<and> bq_fits q' = bq_fits q"
    using bq_dequeue_law [of q x q'] by (auto simp: bq_dequeue_def bq_fits_def fun_eq_iff bq_items_def)
next
  fix q
  assume "bq_wf q"
  then show "bq_wf (bq_set_closed q) \<and> bq_items (bq_set_closed q) = bq_items q \<and>
      q_capacity (bq_set_closed q) = q_capacity q \<and> q_closed (bq_set_closed q) \<and>
      bq_fits (bq_set_closed q) = bq_fits q"
    by (simp add: bq_set_closed_def bq_wf_def bq_items_def bq_slot_def bq_fits_def fun_eq_iff)
next
  fix q
  assume "bq_wf q"
  then show "length (bq_items q) \<le> q_capacity q" by (simp add: bq_wf_def)
qed


text \<open>The effect of the other threads keeps the invariant, the bound and a closed flag.\<close>

definition qop_fits :: "bounded_queue_t \<Rightarrow> qop \<Rightarrow> bool" where
  "qop_fits q op \<longleftrightarrow> (case op of QPush x \<Rightarrow> bq_fits q x | _ \<Rightarrow> True)"

lemma env_op_wf:
  assumes "bq_wf q" and "qop_fits q op"
  shows "bq_wf (env_op op q) \<and> bq_fits (env_op op q) = bq_fits q \<and> q_capacity (env_op op q) = q_capacity q \<and>
    (q_closed q \<longrightarrow> q_closed (env_op op q))"
proof (cases op)
  case (QPush x)
  then show ?thesis
    using assms ring.enq_law [of q x] ring.bounded [of q] by (auto simp: qop_fits_def bq_full_def)
next
  case QPop
  obtain x q' where d: "bq_dequeue q = (x, q')" by fastforce
  show ?thesis
  proof (cases "q_size q = 0")
    case False
    then have "bq_items q \<noteq> []" by (metis length_bq_items list.size(3))
    then show ?thesis using ring.deq_law [OF assms(1) _ d] d QPop False by simp
  qed (use assms QPop in simp)
next
  case QClose
  then show ?thesis using assms ring.shut_law [of q] by simp
qed

lemma env_ops_wf:
  assumes "bq_wf q" and "\<forall>op \<in> set ops. qop_fits q op"
  shows "bq_wf (env_ops ops q) \<and> bq_fits (env_ops ops q) = bq_fits q \<and>
    q_capacity (env_ops ops q) = q_capacity q \<and> (q_closed q \<longrightarrow> q_closed (env_ops ops q))"
  using assms
proof (induction ops arbitrary: q)
  case (Cons op ops)
  then have s: "bq_wf (env_op op q) \<and> bq_fits (env_op op q) = bq_fits q \<and>
      q_capacity (env_op op q) = q_capacity q \<and> (q_closed q \<longrightarrow> q_closed (env_op op q))"
    using env_op_wf [of q op] by simp
  then have "\<forall>o' \<in> set ops. qop_fits (env_op op q) o'"
    using Cons.prems(2) by (auto simp: qop_fits_def split: qop.splits)
  then show ?case using Cons.IH [of "env_op op q"] s by (simp add: env_ops_def)
qed (simp add: env_ops_def)

text \<open>
  What a wait loop does: it uses a number \<open>k\<close> of waits, the queue it leaves is the one the other
  threads made meanwhile, and it ends normally exactly when its condition is false.
\<close>

definition after_waits :: "nat \<Rightarrow> wait list \<Rightarrow> bounded_queue_t \<Rightarrow> bounded_queue_t" where
  "after_waits k waits q = env_ops (concat (map snd (take k waits))) q"

lemma after_waits_0 [simp]: "after_waits 0 waits q = q"
  by (simp add: after_waits_def env_ops_def)

lemma after_waits_Suc [simp]: "after_waits (Suc k) ((rc, ops) # waits) q = after_waits k waits (env_ops ops q)"
  by (simp add: after_waits_def env_ops_def)

lemma bq_wait_result:
  "bq_wait blocked t q waits = Some ((res, q1), rest) \<Longrightarrow>
    \<exists>k \<le> length waits. rest = drop k waits \<and> q1 = after_waits k waits q \<and>
      (res = None \<longrightarrow> \<not> blocked q1) \<and> (res \<noteq> None \<longrightarrow> res \<in> {Some BQ_TIMEOUT, Some BQ_SYSTEM})"
proof (induction blocked t q waits rule: bq_wait.induct)
  case (1 blocked t q)
  then show ?case by (auto split: if_splits)
next
  case (2 blocked t q rc ops waits)
  show ?case
  proof (cases "\<not> blocked q \<or> t = 0")
    case True
    then show ?thesis using 2(3) by (auto intro!: exI [of _ 0] split: if_splits)
  next
    case F: False
    show ?thesis
    proof (cases "rc = 0")
      case True
      then have "bq_wait blocked t (env_ops ops q) waits = Some ((res, q1), rest)"
        using F 2(3) by (auto split: if_splits)
      then obtain k where "k \<le> length waits \<and> rest = drop k waits \<and> q1 = after_waits k waits (env_ops ops q) \<and>
          (res = None \<longrightarrow> \<not> blocked q1) \<and> (res \<noteq> None \<longrightarrow> res \<in> {Some BQ_TIMEOUT, Some BQ_SYSTEM})"
        using F True 2(1,2) by (cases "t < 0") auto
      then show ?thesis by (intro exI [of _ "Suc k"]) auto
    next
      case False
      then show ?thesis using F 2(3) by (auto intro!: exI [of _ 1] split: if_splits)
    qed
  qed
qed

lemma bq_wait_wakes:
  assumes "k \<le> length waits" and "\<not> blocked (after_waits k waits q)" and "t \<noteq> 0"
    and "\<forall>w \<in> set (take k waits). fst w = 0"
  shows "\<exists>q1 rest. bq_wait blocked t q waits = Some ((None, q1), rest)"
  using assms
proof (induction k arbitrary: q waits)
  case 0
  then show ?case by (cases waits) auto
next
  case (Suc k)
  then obtain rc ops waits' where w: "waits = (rc, ops) # waits'" by (cases waits) auto
  then show ?case using Suc.IH [of waits' "env_ops ops q"] Suc.prems by auto
qed


section \<open>Properties\<close>

text \<open>
  Callers that never wait (timeout 0): the elements accepted and the elements handed out by a
  sequence of calls.
\<close>

fun bq_trace :: "qop list \<Rightarrow> bounded_queue_t \<Rightarrow> u8 list list \<times> u8 list list \<times> bounded_queue_t" where
  "bq_trace [] q = ([], [], q)"
| "bq_trace (QPush x # ops) q =
     (case bq_push (Some q) (Some x) 0 None [] of
        Some ((BQ_OK, Some q1), _) \<Rightarrow> (case bq_trace ops q1 of (acc, out, q') \<Rightarrow> (x # acc, out, q'))
      | _ \<Rightarrow> bq_trace ops q)"
| "bq_trace (QPop # ops) q =
     (case bq_pop (Some q) (Some (replicate (q_element_size q) 0)) 0 None [] of
        Some ((BQ_OK, Some q1, Some x), _) \<Rightarrow> (case bq_trace ops q1 of (acc, out, q') \<Rightarrow> (acc, x # out, q'))
      | _ \<Rightarrow> bq_trace ops q)"
| "bq_trace (QClose # ops) q =
     (case bq_close (Some q) of (_, Some q1) \<Rightarrow> bq_trace ops q1 | _ \<Rightarrow> bq_trace ops q)"

fun qop_run :: "qop \<Rightarrow> u8 list + bool" where
  "qop_run (QPush x) = Inl x"
| "qop_run QPop = Inr False"
| "qop_run QClose = Inr True"

lemma bq_push_nowait:
  "bq_push (Some q) (Some x) 0 clock ws =
    Some ((if q_closed q then BQ_CLOSED else if bq_full q then BQ_TIMEOUT else BQ_OK,
           Some (if q_closed q \<or> bq_full q then q else bq_enqueue x q)), ws)"
  by (cases ws) (auto simp: bq_push_def push_blocked_def bq_full_def)

lemma bq_pop_nowait:
  assumes "bq_wf q" and "length out = q_element_size q"
  shows "bq_pop (Some q) (Some out) 0 clock ws =
    Some ((if q_size q = 0 then (if q_closed q then BQ_CLOSED else BQ_TIMEOUT, Some q, Some out)
           else (BQ_OK, Some (snd (bq_dequeue q)), Some (fst (bq_dequeue q)))), ws)"
proof -
  have "length (fst (bq_dequeue q)) = q_element_size q"
    using assms(1) slot_fits [of "q_head q" "q_capacity q" "q_element_size q"]
    by (auto simp: bq_dequeue_def bq_wf_def)
  then have "blit out 0 (fst (bq_dequeue q)) = fst (bq_dequeue q)"
    using assms(2) by (simp add: blit_def)
  then show ?thesis
    by (cases ws) (auto simp: bq_pop_def pop_blocked_def split: prod.splits)
qed

lemma bq_trace_run:
  assumes "bq_wf q" and "\<forall>op \<in> set ops. qop_fits q op"
  shows "bq_trace ops q = ring.run (map qop_run ops) q"
  using assms
proof (induction ops arbitrary: q)
  case (Cons op ops)
  have next_fits: "\<forall>o' \<in> set ops. qop_fits (env_op op q) o'" and wf: "bq_wf (env_op op q)"
    using env_op_wf [of q op] Cons.prems by (auto simp: qop_fits_def split: qop.splits)
  note IH = Cons.IH [OF wf next_fits]
  show ?case
  proof (cases op)
    case (QPush x)
    then show ?thesis using IH by (auto simp: bq_push_nowait bq_full_def split: prod.splits)
  next
    case QPop
    then show ?thesis
      using IH Cons.prems(1) bq_items_empty [of q] by (auto simp: bq_pop_nowait split: prod.splits)
  next
    case QClose
    then show ?thesis using IH by (simp add: bq_close_def)
  qed
qed simp

lemma bq_init_wf:
  assumes "\<And>n b. heap n = Some b \<Longrightarrow> length b = n" and "element_size * capacity < SIZE_MODULUS"
    and "bq_init heap rcs q0 capacity element_size = (BQ_OK, q)"
  shows "\<exists>q1. q = Some q1 \<and> bq_wf q1 \<and> bq_items q1 = [] \<and> q_capacity q1 = capacity \<and>
    q_element_size q1 = element_size \<and> \<not> q_closed q1"
  using assms(2,3) assms(1)
  by (auto simp: bq_init_def Let_def bq_wf_def bq_items_def split: option.splits if_splits)

text \<open>
  C25: The queue is a FIFO that loses and invents nothing: after a successful initialisation whose
  size does not overflow, for every sequence of pushes, pops and closes, the accepted elements are
  exactly the elements handed out followed by those still stored, in order, and the stored ones
  never exceed the capacity.
\<close>

theorem bq_fifo_order:
  assumes "\<And>n b. heap n = Some b \<Longrightarrow> length b = n" and "element_size * capacity < SIZE_MODULUS"
    and "bq_init heap rcs q0 capacity element_size = (BQ_OK, Some q)"
    and "\<forall>x. QPush x \<in> set ops \<longrightarrow> length x = element_size"
    and "bq_trace ops q = (accepted, handed_out, q')"
  shows "accepted = handed_out @ bq_items q' \<and> q_size q' \<le> capacity"
proof -
  from bq_init_wf [OF assms(1-3)]
  have wf: "bq_wf q" and e: "bq_items q = []" and c: "q_capacity q = capacity"
    and es: "q_element_size q = element_size"
    by auto
  have fits: "\<forall>op \<in> set ops. qop_fits q op"
    using assms(4) by (auto simp: qop_fits_def bq_fits_def es split: qop.splits)
  have qr: "qop_run op = Inl x \<longleftrightarrow> op = QPush x" for op x by (cases op) auto
  have fx: "Inl x \<in> set (map qop_run ops) \<Longrightarrow> bq_fits q x" for x
    using fits by (auto simp: qr qop_fits_def dest!: sym [of "Inl x"])
  have r: "ring.run (map qop_run ops) q = (accepted, handed_out, q')"
    using assms(5) bq_trace_run [OF wf fits] by simp
  show ?thesis
    using ring.run_fifo [OF wf fx r] ring.bounded [of q'] e c by auto
qed

definition demo_heap :: "nat \<Rightarrow> u8 list option" where
  "demo_heap n = Some (replicate n 0)"

theorem bq_fifo_order_witness:
  "\<exists>q q'. bq_init demo_heap (0, 0, 0) (Some \<lparr>q_buffer = None, q_element_size = 0, q_capacity = 0,
      q_size = 0, q_head = 0, q_tail = 0, q_closed = False\<rparr>) 2 1 = (BQ_OK, Some q) \<and>
    bq_trace [QPush [5], QPush [6], QPush [7], QPop, QPush [8]] q = ([[5], [6], [8]], [[5]], q') \<and>
    [[5], [6], [8]] = [[5]] @ bq_items q' \<and> q_size q' \<le> 2"
proof -
  let ?ops = "[QPush [5], QPush [6], QPush [7], QPop, QPush [8]]"
  let ?q = "\<lparr>q_buffer = Some [0, 0], q_element_size = 1, q_capacity = 2, q_size = 0, q_head = 0,
    q_tail = 0, q_closed = False\<rparr>"
  let ?r = "\<lparr>q_buffer = Some [8, 6], q_element_size = 1, q_capacity = 2, q_size = 2, q_head = 1,
    q_tail = 1, q_closed = False\<rparr>"
  have i: "bq_init demo_heap (0, 0, 0) (Some \<lparr>q_buffer = None, q_element_size = 0, q_capacity = 0,
      q_size = 0, q_head = 0, q_tail = 0, q_closed = False\<rparr>) 2 1 = (BQ_OK, Some ?q)"
    by (simp add: bq_init_def demo_heap_def Let_def numeral_2_eq_2)
  have t: "bq_trace ?ops ?q = ([[5], [6], [8]], [[5]], ?r)"
    by code_simp
  show ?thesis
    using bq_fifo_order [OF _ _ i _ t] i t by (auto simp: demo_heap_def)
qed


lemma after_waits_wf:
  assumes "bq_wf q" and "\<forall>w \<in> set waits. \<forall>op \<in> set (snd w). qop_fits q op"
  shows "bq_wf (after_waits k waits q) \<and> bq_fits (after_waits k waits q) = bq_fits q \<and>
    (q_closed q \<longrightarrow> q_closed (after_waits k waits q))"
  using env_ops_wf [of q "concat (map snd (take k waits))"] assms
  by (auto simp: after_waits_def dest: in_set_takeD)

text \<open>
  A push with any timeout, whatever the other threads do while it waits, either appends
  exactly its element to the queue the others left, and then the queue was open and had room, or
  leaves that queue unchanged; \<open>BQ_CLOSED\<close> is returned only for a closed queue.
\<close>

theorem bq_push_outcome:
  assumes "bq_wf q" and "\<forall>w \<in> set waits. \<forall>op \<in> set (snd w). qop_fits q op"
    and "length item = q_element_size q"
    and "bq_push (Some q) (Some item) timeout_ms clock waits = Some ((res, q'), rest)"
  shows "\<exists>k q1 q2. k \<le> length waits \<and> rest = drop k waits \<and> q1 = after_waits k waits q \<and> q' = Some q2 \<and>
    bq_wf q2 \<and> (res = BQ_CLOSED \<longrightarrow> q_closed q1) \<and>
    (if res = BQ_OK then \<not> q_closed q1 \<and> q_size q1 < q_capacity q1 \<and> bq_items q2 = bq_items q1 @ [item]
     else q2 = q1)"
proof (cases "q_closed q \<or> (timeout_ms > 0 \<and> make_deadline timeout_ms clock = None)")
  case True
  then show ?thesis using assms by (auto simp: bq_push_def intro!: exI [of _ 0] split: if_splits)
next
  case False
  then obtain r q1 where w: "bq_wait push_blocked timeout_ms q waits = Some ((r, q1), rest)"
    using assms(4) by (auto simp: bq_push_def split: option.splits if_splits)
  from bq_wait_result [OF w] obtain k where k: "k \<le> length waits" "rest = drop k waits"
    "q1 = after_waits k waits q" "r = None \<Longrightarrow> \<not> push_blocked q1"
    "r \<noteq> None \<Longrightarrow> r \<in> {Some BQ_TIMEOUT, Some BQ_SYSTEM}"
    by blast
  have wf1: "bq_wf q1" and f1: "bq_fits q1 item"
    using after_waits_wf [OF assms(1,2), of k] k(3) assms(3) by (auto simp: bq_fits_def)
  show ?thesis
  proof (cases r)
    case None
    then show ?thesis
      using assms(4) w False k wf1 f1 ring.enq_law [of q1 item] ring.bounded [OF wf1]
      by (auto simp: bq_push_def push_blocked_def split: if_splits intro!: exI [of _ k])
  next
    case (Some res')
    then show ?thesis using assms(4) w False k wf1 by (auto simp: bq_push_def)
  qed
qed

theorem bq_push_outcome_witness:
  "\<exists>k q1. k \<le> 1 \<and> q1 = after_waits k [(0, [QPop])] \<lparr>q_buffer = Some [4], q_element_size = 1,
      q_capacity = 1, q_size = 1, q_head = 0, q_tail = 0, q_closed = False\<rparr> \<and>
    bq_items \<lparr>q_buffer = Some [9], q_element_size = 1, q_capacity = 1, q_size = 1, q_head = 0,
      q_tail = 0, q_closed = False\<rparr> = bq_items q1 @ [[9]]"
proof -
  let ?q = "\<lparr>q_buffer = Some [4 :: u8], q_element_size = 1, q_capacity = 1, q_size = 1,
      q_head = 0, q_tail = 0, q_closed = False\<rparr>"
  have wf: "bq_wf ?q" by (simp add: bq_wf_def)
  have fits: "\<forall>w \<in> set [(0 :: int, [QPop])]. \<forall>op \<in> set (snd w). qop_fits ?q op" by (simp add: qop_fits_def)
  have p: "bq_push (Some ?q) (Some [9]) (-1) None [(0, [QPop])] = Some ((BQ_OK,
      Some \<lparr>q_buffer = Some [9], q_element_size = 1, q_capacity = 1, q_size = 1, q_head = 0, q_tail = 0,
      q_closed = False\<rparr>), [])"
    by code_simp
  show ?thesis using bq_push_outcome [OF wf fits _ p] by auto
qed

text \<open>
  A pop hands out the oldest element of the queue the other threads left, and reports
  \<open>BQ_CLOSED\<close> only for a queue that is closed and empty: closing loses no stored element.
\<close>

theorem bq_pop_outcome:
  assumes "bq_wf q" and "\<forall>w \<in> set waits. \<forall>op \<in> set (snd w). qop_fits q op"
    and "length out = q_element_size q"
    and "bq_pop (Some q) (Some out) timeout_ms clock waits = Some ((res, q', out'), rest)"
  shows "\<exists>k q1 q2. k \<le> length waits \<and> rest = drop k waits \<and> q1 = after_waits k waits q \<and> q' = Some q2 \<and>
    bq_wf q2 \<and> (res = BQ_CLOSED \<longrightarrow> q_closed q1 \<and> bq_items q1 = []) \<and>
    (if res = BQ_OK then \<exists>x. out' = Some x \<and> bq_items q1 = x # bq_items q2
     else q2 = q1 \<and> out' = Some out)"
proof (cases "timeout_ms > 0 \<and> make_deadline timeout_ms clock = None")
  case True
  then show ?thesis using assms by (auto simp: bq_pop_def intro!: exI [of _ 0])
next
  case False
  then obtain r q1 where w: "bq_wait pop_blocked timeout_ms q waits = Some ((r, q1), rest)"
    using assms(4) by (auto simp: bq_pop_def split: option.splits if_splits prod.splits)
  from bq_wait_result [OF w] obtain k where k: "k \<le> length waits" "rest = drop k waits"
    "q1 = after_waits k waits q" "r = None \<Longrightarrow> \<not> pop_blocked q1"
    "r \<noteq> None \<Longrightarrow> r \<in> {Some BQ_TIMEOUT, Some BQ_SYSTEM}"
    by blast
  have wf1: "bq_wf q1" and f1: "length out = q_element_size q1"
    using after_waits_wf [OF assms(1,2), of k] k(3) assms(3) by (auto simp: bq_fits_def fun_eq_iff)
  show ?thesis
  proof (cases "r = None \<and> q_size q1 \<noteq> 0")
    case True
    obtain x q2 where d: "bq_dequeue q1 = (x, q2)" by fastforce
    then have lx: "length x = q_element_size q1"
      using wf1 slot_fits [of "q_head q1" "q_capacity q1" "q_element_size q1"]
      by (auto simp: bq_dequeue_def bq_wf_def)
    then have "out' = Some x" "res = BQ_OK" "q' = Some q2"
      using assms(4) w False True d f1 by (auto simp: bq_pop_def blit_def)
    then show ?thesis using bq_dequeue_law [OF wf1 _ d] True k by (auto intro!: exI [of _ k])
  next
    case F: False
    then show ?thesis
      using assms(4) w False k wf1
      by (cases r) (auto simp: bq_pop_def pop_blocked_def bq_items_empty split: if_splits intro!: exI [of _ k])
  qed
qed

theorem bq_pop_outcome_witness:
  "\<exists>k q1. k \<le> 1 \<and> q1 = after_waits k [(0, [QPush [7], QClose])] \<lparr>q_buffer = Some [4],
      q_element_size = 1, q_capacity = 1, q_size = 0, q_head = 0, q_tail = 0, q_closed = False\<rparr> \<and>
    bq_items q1 = [7] # bq_items \<lparr>q_buffer = Some [7], q_element_size = 1, q_capacity = 1, q_size = 0,
      q_head = 0, q_tail = 0, q_closed = True\<rparr>"
proof -
  let ?q = "\<lparr>q_buffer = Some [4 :: u8], q_element_size = 1, q_capacity = 1, q_size = 0,
      q_head = 0, q_tail = 0, q_closed = False\<rparr>"
  have wf: "bq_wf ?q" by (simp add: bq_wf_def)
  have fits: "\<forall>w \<in> set [(0 :: int, [QPush [7], QClose])]. \<forall>op \<in> set (snd w). qop_fits ?q op"
    by (simp add: qop_fits_def bq_fits_def)
  have p: "bq_pop (Some ?q) (Some [0]) 100 (Some (5, 0)) [(0, [QPush [7], QClose])] = Some ((BQ_OK,
      Some \<lparr>q_buffer = Some [7], q_element_size = 1, q_capacity = 1, q_size = 0, q_head = 0, q_tail = 0,
      q_closed = True\<rparr>, Some [7]), [])"
    by code_simp
  show ?thesis using bq_pop_outcome [OF wf fits _ p] by auto
qed

text \<open>
  No lost wake-up: a consumer that waits without a deadline, or before its deadline, returns
  as soon as an element is stored or the queue is closed; it hands out an element in the first case
  and reports the end in the second.
\<close>

theorem bq_pop_wakes:
  assumes "k \<le> length waits" and "timeout_ms \<noteq> 0" and "clock \<noteq> None"
    and "\<forall>w \<in> set (take k waits). fst w = 0"
    and "q_size (after_waits k waits q) \<noteq> 0 \<or> q_closed (after_waits k waits q)"
  shows "\<exists>res q' out' rest. bq_pop (Some q) (Some out) timeout_ms clock waits = Some ((res, q', out'), rest) \<and>
    (res = BQ_OK \<or> res = BQ_CLOSED)"
proof -
  have "\<not> pop_blocked (after_waits k waits q)" using assms(5) by (auto simp: pop_blocked_def)
  from bq_wait_wakes [where blocked = pop_blocked, OF assms(1) this assms(2,4)] obtain q1 rest
    where w: "bq_wait pop_blocked timeout_ms q waits = Some ((None, q1), rest)" by blast
  have d: "make_deadline timeout_ms clock \<noteq> None"
    using assms(3) by (auto simp: make_deadline_def Let_def split: option.splits if_splits)
  then show ?thesis using w by (auto simp: bq_pop_def split: prod.splits)
qed

theorem bq_pop_wakes_witness:
  "\<exists>res q' out' rest. bq_pop (Some \<lparr>q_buffer = Some [4], q_element_size = 1, q_capacity = 1, q_size = 0,
      q_head = 0, q_tail = 0, q_closed = False\<rparr>) (Some [0]) (-1) (Some (5, 0)) [(0, []), (0, [QClose])] =
      Some ((res, q', out'), rest) \<and> (res = BQ_OK \<or> res = BQ_CLOSED)"
  by (rule bq_pop_wakes [of 2]) (simp_all add: after_waits_def env_ops_def bq_set_closed_def numeral_2_eq_2)

section \<open>Deadlines and sizes\<close>

text \<open>A deadline is normalised and lies exactly the timeout after the clock.\<close>

lemma make_deadline_exact:
  assumes "0 < t" and "0 \<le> nsec" and "nsec < 1000000000" and "make_deadline t (Some (sec, nsec)) = Some (s, n)"
  shows "0 \<le> n \<and> n < 1000000000 \<and> s * 1000000000 + n = sec * 1000000000 + nsec + t * 1000000"
proof -
  have "t mod 1000 < 1000" "0 \<le> t mod 1000" by simp_all
  moreover have "t div 1000 * 1000000000 + t mod 1000 * 1000000 = t * 1000000"
    using div_mult_mod_eq [of t 1000] by linarith
  ultimately show ?thesis
    using assms by (auto simp: make_deadline_def Let_def split: if_splits)
qed

text \<open>
  Without the bound on the product the code does not give a usable queue: for two elements of
  \<open>2^63\<close> bytes, \<open>bq_init\<close> asks for no memory at all and reports success.
\<close>

lemma bq_init_size_overflow:
  "\<exists>q. bq_init demo_heap (0, 0, 0) (Some q0) 2 9223372036854775808 = (BQ_OK, Some q) \<and> \<not> bq_wf q"
  by (simp add: bq_init_def demo_heap_def Let_def bq_wf_def)

end
