(* ===== verification/Typed_Queue.thy ===== *)
theory Typed_Queue
  imports Blocking_Queue
begin

text \<open>
  The queues between the workers of \<^verbatim>\<open>src/core/gateway_workers.c\<close> hold structs. A typed queue is
  the specification of such a queue: a list with a capacity and a closed flag. It keeps the
  contract of a bounded FIFO, and the byte ring of \<^verbatim>\<open>src/modules/blocking_queue/blocking_queue.c\<close>
  refines it for every encoding of the elements into fixed-size byte blocks.
\<close>

record 'a tqueue =
  tq_items :: "'a list"
  tq_cap :: nat
  tq_closed :: bool

definition tq_new :: "nat \<Rightarrow> 'a tqueue" where
  "tq_new cap = \<lparr>tq_items = [], tq_cap = cap, tq_closed = False\<rparr>"

definition tq_push :: "'a \<Rightarrow> 'a tqueue \<Rightarrow> bq_result_t \<times> 'a tqueue" where
  "tq_push x q =
     (if tq_closed q then (BQ_CLOSED, q)
      else if length (tq_items q) = tq_cap q then (BQ_TIMEOUT, q)
      else (BQ_OK, q\<lparr>tq_items := tq_items q @ [x]\<rparr>))"

definition tq_pop :: "'a tqueue \<Rightarrow> (bq_result_t \<times> 'a option) \<times> 'a tqueue" where
  "tq_pop q =
     (case tq_items q of
        x # xs \<Rightarrow> ((BQ_OK, Some x), q\<lparr>tq_items := xs\<rparr>)
      | [] \<Rightarrow> ((if tq_closed q then BQ_CLOSED else BQ_TIMEOUT, None), q))"

definition tq_close :: "'a tqueue \<Rightarrow> 'a tqueue" where
  "tq_close q = q\<lparr>tq_closed := True\<rparr>"

definition tq_wf :: "'a tqueue \<Rightarrow> bool" where
  "tq_wf q \<longleftrightarrow> length (tq_items q) \<le> tq_cap q"

lemma tq_push_cases:
  "tq_push x q = (res, q') \<Longrightarrow>
    (res = BQ_OK \<and> \<not> tq_closed q \<and> q' = q\<lparr>tq_items := tq_items q @ [x]\<rparr> \<and> length (tq_items q) \<noteq> tq_cap q) \<or>
    ((res = BQ_CLOSED \<and> tq_closed q \<or> res = BQ_TIMEOUT \<and> \<not> tq_closed q \<and> length (tq_items q) = tq_cap q) \<and> q' = q)"
  by (auto simp: tq_push_def split: if_splits)

lemma tq_pop_cases:
  "tq_pop q = ((res, r), q') \<Longrightarrow>
    (\<exists>x xs. tq_items q = x # xs \<and> res = BQ_OK \<and> r = Some x \<and> q' = q\<lparr>tq_items := xs\<rparr>) \<or>
    (tq_items q = [] \<and> r = None \<and> q' = q \<and> (res = BQ_CLOSED \<and> tq_closed q \<or> res = BQ_TIMEOUT \<and> \<not> tq_closed q))"
  by (auto simp: tq_pop_def split: list.splits if_splits)

interpretation typed: bounded_fifo tq_wf tq_items tq_cap tq_closed "\<lambda>_ _. True"
  "\<lambda>x q. q\<lparr>tq_items := tq_items q @ [x]\<rparr>" "\<lambda>q. (hd (tq_items q), q\<lparr>tq_items := tl (tq_items q)\<rparr>)" tq_close
  by unfold_locales (auto simp: tq_wf_def tq_close_def)

text \<open>
  \<open>represents enc q b\<close>: the byte ring \<open>b\<close> holds the encodings of the elements of \<open>q\<close>.
\<close>

definition represents :: "('a \<Rightarrow> u8 list) \<Rightarrow> 'a tqueue \<Rightarrow> bounded_queue_t \<Rightarrow> bool" where
  "represents enc q b \<longleftrightarrow> bq_wf b \<and> bq_items b = map enc (tq_items q) \<and> q_capacity b = tq_cap q \<and>
     q_closed b = tq_closed q \<and> (\<forall>x. length (enc x) = q_element_size b)"

lemma represents_size: "represents enc q b \<Longrightarrow> q_size b = length (tq_items q)"
  unfolding represents_def by (metis length_bq_items length_map)

lemma dequeue_element_size: "bq_dequeue b = (x, b') \<Longrightarrow> q_element_size b' = q_element_size b"
  by (auto simp: bq_dequeue_def)

text \<open>
  C24: The byte ring implements the typed queues of the workers: for every encoding of elements into
  blocks of the ring's element size, a push and a pop that do not wait return what the typed queue
  returns, leave a ring that represents the typed queue after the operation, and a pop stores the
  encoding of the element the typed queue hands out (and nothing otherwise); closing refines
  closing.
\<close>

theorem ring_refines_typed_queue:
  assumes "represents enc q b" and "length out = q_element_size b"
  shows "(\<exists>b'. bq_push (Some b) (Some (enc x)) 0 clock waits = Some ((fst (tq_push x q), Some b'), waits) \<and>
        represents enc (snd (tq_push x q)) b') \<and>
    (\<exists>b'. bq_pop (Some b) (Some out) 0 clock waits =
        Some ((fst (fst (tq_pop q)), Some b', Some (case snd (fst (tq_pop q)) of Some y \<Rightarrow> enc y | None \<Rightarrow> out)), waits) \<and>
        represents enc (snd (tq_pop q)) b') \<and>
    (\<exists>b'. bq_close (Some b) = (BQ_OK, Some b') \<and> represents enc (tq_close q) b')"
proof (intro conjI)
  have wf: "bq_wf b" using assms(1) by (simp add: represents_def)
  note sz = represents_size [OF assms(1)]
  have le: "q_size b \<le> q_capacity b" using ring.bounded [OF wf] by simp
  have wait: "bq_wait p 0 b waits = Some ((if p b then Some BQ_TIMEOUT else None, b), waits)" for p
    by (cases waits) auto
  have fits: "bq_fits b (enc x)" using assms(1) by (simp add: represents_def bq_fits_def)
  show "\<exists>b'. bq_push (Some b) (Some (enc x)) 0 clock waits = Some ((fst (tq_push x q), Some b'), waits) \<and>
        represents enc (snd (tq_push x q)) b'"
  proof (cases "tq_closed q \<or> length (tq_items q) = tq_cap q")
    case True
    then show ?thesis
      using assms(1) sz by (auto simp: bq_push_def tq_push_def wait push_blocked_def represents_def)
  next
    case False
    then have "length (bq_items b) < q_capacity b" using assms(1) sz le by (simp add: represents_def)
    from ring.enq_law [OF wf fits this] False show ?thesis
      using assms(1) sz
      by (auto simp: bq_push_def tq_push_def wait push_blocked_def represents_def bq_enqueue_def)
  qed
  show "\<exists>b'. bq_pop (Some b) (Some out) 0 clock waits =
        Some ((fst (fst (tq_pop q)), Some b', Some (case snd (fst (tq_pop q)) of Some y \<Rightarrow> enc y | None \<Rightarrow> out)), waits) \<and>
        represents enc (snd (tq_pop q)) b'"
  proof (cases "tq_items q")
    case Nil
    then show ?thesis
      using assms(1) sz by (auto simp: bq_pop_def tq_pop_def wait pop_blocked_def represents_def)
  next
    case (Cons y ys)
    obtain bytes b' where d: "bq_dequeue b = (bytes, b')" by fastforce
    have ne: "bq_items b \<noteq> []" using assms(1) Cons by (simp add: represents_def)
    note law = ring.deq_law [OF wf ne d]
    have "bytes = enc y" "bq_items b' = map enc ys" using law assms(1) Cons by (auto simp: represents_def)
    moreover have "length (enc y) = length out" using assms by (simp add: represents_def)
    ultimately show ?thesis
      using assms(1) sz Cons d law dequeue_element_size [OF d]
      by (auto simp: bq_pop_def tq_pop_def wait pop_blocked_def represents_def blit_def)
  qed
  show "\<exists>b'. bq_close (Some b) = (BQ_OK, Some b') \<and> represents enc (tq_close q) b'"
    using assms(1) ring.shut_law [OF wf]
    by (auto simp: bq_close_def tq_close_def represents_def bq_set_closed_def)
qed

definition demo_ring :: bounded_queue_t where
  "demo_ring = \<lparr>q_buffer = Some [4, 0], q_element_size = 1, q_capacity = 2, q_size = 1, q_head = 0, q_tail = 1, q_closed = False\<rparr>"

theorem ring_refines_typed_queue_witness:
  "\<exists>b'. bq_push (Some demo_ring) (Some [9]) 0 None [] = Some ((BQ_OK, Some b'), []) \<and>
     represents (\<lambda>x. [x]) \<lparr>tq_items = [4, 9], tq_cap = 2, tq_closed = False\<rparr> b'"
proof -
  have "represents (\<lambda>x. [x]) \<lparr>tq_items = [4], tq_cap = 2, tq_closed = False\<rparr> demo_ring"
    by (simp add: represents_def demo_ring_def bq_wf_def bq_items_def bq_slot_def segment_def)
  from ring_refines_typed_queue [OF this, of "[0]" 9 None "[]"] show ?thesis
    by (simp add: tq_push_def demo_ring_def)
qed

end
