(* ===== verification/Mqtt.thy ===== *)
theory Mqtt
  imports Measurement_Json
begin

text \<open>
  The MQTT side of the gateway: the shared library runtime
  (\<^verbatim>\<open>src/modules/mqtt/mqtt_library_runtime.c\<close>), the synchronous QoS 1 publisher
  (\<^verbatim>\<open>src/modules/mqtt/mqtt_publisher.c\<close>) and the command receiver
  (\<^verbatim>\<open>src/modules/mqtt/mqtt_command_receiver.c\<close>). libmosquitto is the environment: its return values
  are arguments, its callbacks are events that happen while a thread waits on the condition variable.
\<close>

section \<open>The library runtime\<close>

record mqtt_runtime =
  library_reference_count :: u32
  library_initialised :: bool

definition mqtt_library_acquire :: "int \<Rightarrow> mqtt_runtime \<Rightarrow> bool \<times> mqtt_runtime" where
  "mqtt_library_acquire init_rc r =
     (let first = (library_reference_count r = 0); result = (if first then init_rc else 0);
          r1 = (if first \<and> init_rc = 0 then r\<lparr>library_initialised := True\<rparr> else r)
      in if result = 0 then (True, r1\<lparr>library_reference_count := library_reference_count r1 + 1\<rparr>) else (False, r1))"

definition mqtt_library_release :: "mqtt_runtime \<Rightarrow> mqtt_runtime" where
  "mqtt_library_release r =
     (if library_reference_count r > 0
      then let r1 = r\<lparr>library_reference_count := library_reference_count r - 1\<rparr>
           in if library_reference_count r1 = 0 then r1\<lparr>library_initialised := False\<rparr> else r1
      else r)"

section \<open>Results and configuration\<close>

datatype mqtt_publisher_result_t =
    MQTT_PUBLISHER_OK
  | MQTT_PUBLISHER_INVALID_ARGUMENT
  | MQTT_PUBLISHER_NO_MEMORY
  | MQTT_PUBLISHER_LIBRARY_ERROR
  | MQTT_PUBLISHER_NOT_CONNECTED
  | MQTT_PUBLISHER_TIMEOUT
  | MQTT_PUBLISHER_SERIALIZATION_ERROR

definition publisher_code :: "mqtt_publisher_result_t \<Rightarrow> int" where
  "publisher_code r = (case r of
       MQTT_PUBLISHER_OK \<Rightarrow> 0 | MQTT_PUBLISHER_INVALID_ARGUMENT \<Rightarrow> -1 | MQTT_PUBLISHER_NO_MEMORY \<Rightarrow> -2
     | MQTT_PUBLISHER_LIBRARY_ERROR \<Rightarrow> -3 | MQTT_PUBLISHER_NOT_CONNECTED \<Rightarrow> -4 | MQTT_PUBLISHER_TIMEOUT \<Rightarrow> -5
     | MQTT_PUBLISHER_SERIALIZATION_ERROR \<Rightarrow> -6)"

record mqtt_publisher_config_t =
  cfg_host :: "string option"
  cfg_port :: int
  cfg_client_id :: "string option"
  cfg_topic_prefix :: "string option"
  cfg_keepalive_seconds :: int
  cfg_reconnect_delay_seconds :: u32
  cfg_reconnect_delay_max_seconds :: u32

definition string_fits :: "string option \<Rightarrow> nat \<Rightarrow> bool" where
  "string_fits s capacity = (case s of None \<Rightarrow> False | Some t \<Rightarrow> t \<noteq> [] \<and> length t < capacity)"

datatype mqtt_publisher_state_t =
    MQTT_PUBLISHER_STOPPED
  | MQTT_PUBLISHER_CONNECTING
  | MQTT_PUBLISHER_CONNECTED
  | MQTT_PUBLISHER_DISCONNECTED
  | MQTT_PUBLISHER_STOPPING

record mqtt_publisher =
  pb_state :: mqtt_publisher_state_t
  pb_expected_mid :: int
  pb_publish_completed :: bool
  pb_loop_started :: bool
  pb_host :: string
  pb_client_id :: string
  pb_topic_prefix :: string
  pb_port :: int
  pb_keepalive_seconds :: int
  pb_reconnect_delay_seconds :: u32
  pb_reconnect_delay_max_seconds :: u32

section \<open>Callbacks\<close>

datatype mqtt_event = OnConnect int | OnDisconnect int | OnPublish int

definition on_connect :: "int \<Rightarrow> mqtt_publisher \<Rightarrow> mqtt_publisher" where
  "on_connect result p =
     (if pb_state p \<noteq> MQTT_PUBLISHER_STOPPING
      then p\<lparr>pb_state := (if result = 0 then MQTT_PUBLISHER_CONNECTED else MQTT_PUBLISHER_DISCONNECTED)\<rparr>
      else p)"

definition on_disconnect :: "int \<Rightarrow> mqtt_publisher \<Rightarrow> mqtt_publisher" where
  "on_disconnect result p =
     p\<lparr>pb_state := (if pb_state p = MQTT_PUBLISHER_STOPPING then MQTT_PUBLISHER_STOPPED else MQTT_PUBLISHER_DISCONNECTED)\<rparr>"

definition on_publish :: "int \<Rightarrow> mqtt_publisher \<Rightarrow> mqtt_publisher" where
  "on_publish mid p = (if mid = pb_expected_mid p then p\<lparr>pb_publish_completed := True\<rparr> else p)"

fun publisher_event :: "mqtt_event \<Rightarrow> mqtt_publisher \<Rightarrow> mqtt_publisher" where
  "publisher_event (OnConnect r) p = on_connect r p"
| "publisher_event (OnDisconnect r) p = on_disconnect r p"
| "publisher_event (OnPublish mid) p = on_publish mid p"

section \<open>Creating and destroying\<close>

text \<open>
  The resources a client object holds. Every acquisition adds to the list and every destruction
  removes one; \<open>ok k\<close> is the outcome of the k-th acquisition of a constructor.
\<close>

datatype mqtt_resource = R_MEMORY | R_MUTEX | R_PUBLISH_MUTEX | R_CONDITION | R_CLIENT

record mqtt_host =
  mh_runtime :: mqtt_runtime
  mh_live :: "mqtt_resource list"

definition hold :: "mqtt_resource \<Rightarrow> mqtt_host \<Rightarrow> mqtt_host" where
  "hold r h = h\<lparr>mh_live := r # mh_live h\<rparr>"

definition drop_resource :: "mqtt_resource \<Rightarrow> mqtt_host \<Rightarrow> mqtt_host" where
  "drop_resource r h = h\<lparr>mh_live := remove1 r (mh_live h)\<rparr>"

definition release_library :: "mqtt_host \<Rightarrow> mqtt_host" where
  "release_library h = h\<lparr>mh_runtime := mqtt_library_release (mh_runtime h)\<rparr>"

text \<open>The labels of the cleanup chain; each one falls through to the next.\<close>

definition free_publisher :: "mqtt_host \<Rightarrow> mqtt_host" where
  "free_publisher h = release_library (drop_resource R_MEMORY h)"

definition destroy_mutex :: "mqtt_host \<Rightarrow> mqtt_host" where
  "destroy_mutex h = free_publisher (drop_resource R_MUTEX h)"

definition destroy_publish_mutex :: "mqtt_host \<Rightarrow> mqtt_host" where
  "destroy_publish_mutex h = destroy_mutex (drop_resource R_PUBLISH_MUTEX h)"

definition destroy_condition :: "mqtt_host \<Rightarrow> mqtt_host" where
  "destroy_condition h = destroy_publish_mutex (drop_resource R_CONDITION h)"

definition destroy_client :: "mqtt_host \<Rightarrow> mqtt_host" where
  "destroy_client h = destroy_condition (drop_resource R_CLIENT h)"

definition new_publisher :: "mqtt_publisher_config_t \<Rightarrow> mqtt_publisher" where
  "new_publisher c =
     \<lparr>pb_state = MQTT_PUBLISHER_STOPPED, pb_expected_mid = -1, pb_publish_completed = False,
      pb_loop_started = False, pb_host = the (cfg_host c), pb_client_id = the (cfg_client_id c),
      pb_topic_prefix = the (cfg_topic_prefix c), pb_port = cfg_port c,
      pb_keepalive_seconds = cfg_keepalive_seconds c,
      pb_reconnect_delay_seconds = cfg_reconnect_delay_seconds c,
      pb_reconnect_delay_max_seconds = cfg_reconnect_delay_max_seconds c\<rparr>"

definition mqtt_publisher_create ::
  "int \<Rightarrow> (nat \<Rightarrow> bool) \<Rightarrow> mqtt_publisher_config_t option \<Rightarrow> mqtt_host \<Rightarrow> mqtt_publisher option \<times> mqtt_host" where
  "mqtt_publisher_create init_rc ok config h =
     (case config of None \<Rightarrow> (None, h)
      | Some c \<Rightarrow>
        if \<not> string_fits (cfg_host c) 256 \<or> \<not> string_fits (cfg_client_id c) 128 \<or> \<not> string_fits (cfg_topic_prefix c) 128 \<or>
           cfg_port c \<le> 0 \<or> cfg_port c > 65535 \<or> cfg_keepalive_seconds c < 5 \<or>
           cfg_reconnect_delay_seconds c > cfg_reconnect_delay_max_seconds c
        then (None, h) else
        let (acquired, rt) = mqtt_library_acquire init_rc (mh_runtime h); h0 = h\<lparr>mh_runtime := rt\<rparr> in
        if \<not> acquired then (None, h0) else
        if \<not> ok 0 then (None, release_library h0) else
        let h1 = hold R_MEMORY h0 in if \<not> ok 1 then (None, free_publisher h1) else
        let h2 = hold R_MUTEX h1 in if \<not> ok 2 then (None, destroy_mutex h2) else
        let h3 = hold R_PUBLISH_MUTEX h2 in if \<not> ok 3 then (None, destroy_publish_mutex h3) else
        let h4 = hold R_CONDITION h3 in if \<not> ok 4 then (None, destroy_condition h4) else
        let h5 = hold R_CLIENT h4 in if \<not> ok 5 then (None, destroy_client h5) else
        (Some (new_publisher c), h5))"

definition mqtt_publisher_start :: "int \<Rightarrow> int \<Rightarrow> mqtt_publisher option \<Rightarrow> mqtt_publisher_result_t \<times> mqtt_publisher option" where
  "mqtt_publisher_start connect_rc loop_rc publisher =
     (case publisher of None \<Rightarrow> (MQTT_PUBLISHER_INVALID_ARGUMENT, None)
      | Some p \<Rightarrow>
          if pb_state p \<noteq> MQTT_PUBLISHER_STOPPED then (MQTT_PUBLISHER_INVALID_ARGUMENT, Some p)
          else let result = (if connect_rc = 0 then loop_rc else connect_rc)
               in if result \<noteq> 0 then (MQTT_PUBLISHER_LIBRARY_ERROR, Some (p\<lparr>pb_state := MQTT_PUBLISHER_DISCONNECTED\<rparr>))
                  else (MQTT_PUBLISHER_OK, Some (p\<lparr>pb_state := MQTT_PUBLISHER_CONNECTING, pb_loop_started := True\<rparr>)))"

text \<open>\<open>evs\<close> are the callbacks between the two locked sections of the function.\<close>

definition mqtt_publisher_stop :: "mqtt_event list \<Rightarrow> mqtt_publisher option \<Rightarrow> mqtt_publisher option" where
  "mqtt_publisher_stop evs publisher =
     (case publisher of None \<Rightarrow> None
      | Some p \<Rightarrow>
          if pb_state p = MQTT_PUBLISHER_STOPPED then Some p
          else let p1 = fold publisher_event evs (p\<lparr>pb_state := MQTT_PUBLISHER_STOPPING\<rparr>)
               in Some (p1\<lparr>pb_loop_started := False, pb_state := MQTT_PUBLISHER_STOPPED\<rparr>))"

definition mqtt_publisher_destroy :: "mqtt_event list \<Rightarrow> mqtt_publisher option \<Rightarrow> mqtt_host \<Rightarrow> mqtt_host" where
  "mqtt_publisher_destroy evs publisher h =
     (case mqtt_publisher_stop evs publisher of None \<Rightarrow> h
      | Some p \<Rightarrow> release_library (drop_resource R_MEMORY (drop_resource R_MUTEX (drop_resource R_PUBLISH_MUTEX
                    (drop_resource R_CONDITION (drop_resource R_CLIENT h))))))"

section \<open>Waiting and publishing\<close>

text \<open>A wait on the condition variable: its return value and the callbacks that ran meanwhile.\<close>

type_synonym mqtt_wait = "int \<times> mqtt_event list"

abbreviation (input) COND_ETIMEDOUT :: int where "COND_ETIMEDOUT \<equiv> 110"

text \<open>
  The loop around a timed wait: while the state is blocked, wait, let the callbacks run, and leave
  with the return value when it is not 0. The outer \<open>None\<close> is a wait that has not returned yet.
\<close>

fun timed_wait_loop :: "('s \<Rightarrow> bool) \<Rightarrow> ('e \<Rightarrow> 's \<Rightarrow> 's) \<Rightarrow> (int \<times> 'e list) list \<Rightarrow> 's \<Rightarrow>
  ((int option \<times> 's) \<times> (int \<times> 'e list) list) option" where
  "timed_wait_loop blocked event waits s =
     (if blocked s
      then (case waits of [] \<Rightarrow> None
            | (rc, evs) # rest \<Rightarrow>
                if rc \<noteq> 0 then Some ((Some rc, fold event evs s), rest)
                else timed_wait_loop blocked event rest (fold event evs s))
      else Some ((None, s), waits))"

declare timed_wait_loop.simps [simp del]

definition awaits_connection :: "mqtt_publisher \<Rightarrow> bool" where
  "awaits_connection p \<longleftrightarrow> pb_state p = MQTT_PUBLISHER_CONNECTING \<or> pb_state p = MQTT_PUBLISHER_DISCONNECTED"

definition mqtt_publisher_wait_connected ::
  "bool \<Rightarrow> int \<Rightarrow> mqtt_publisher option \<Rightarrow> mqtt_wait list \<Rightarrow>
   ((mqtt_publisher_result_t \<times> mqtt_publisher option) \<times> mqtt_wait list) option" where
  "mqtt_publisher_wait_connected clock_ok timeout_seconds publisher waits =
     (case publisher of None \<Rightarrow> Some ((MQTT_PUBLISHER_INVALID_ARGUMENT, None), waits)
      | Some p \<Rightarrow>
          if timeout_seconds \<le> 0 then Some ((MQTT_PUBLISHER_INVALID_ARGUMENT, Some p), waits)
          else if \<not> clock_ok then Some ((MQTT_PUBLISHER_LIBRARY_ERROR, Some p), waits)
          else map_option (\<lambda>((rc, p1), rest).
                 ((case rc of Some e \<Rightarrow> if e = COND_ETIMEDOUT then MQTT_PUBLISHER_TIMEOUT else MQTT_PUBLISHER_LIBRARY_ERROR
                   | None \<Rightarrow> if pb_state p1 = MQTT_PUBLISHER_CONNECTED then MQTT_PUBLISHER_OK else MQTT_PUBLISHER_NOT_CONNECTED,
                   Some p1), rest))
               (timed_wait_loop awaits_connection publisher_event waits p))"

definition awaits_puback :: "mqtt_publisher \<Rightarrow> bool" where
  "awaits_puback p \<longleftrightarrow> \<not> pb_publish_completed p \<and> pb_state p = MQTT_PUBLISHER_CONNECTED"

abbreviation (input) MOSQ_ERR_NO_CONN :: int where "MOSQ_ERR_NO_CONN \<equiv> 4"

definition mqtt_publisher_publish_json ::
  "bool \<Rightarrow> int \<times> int \<Rightarrow> mqtt_publisher option \<Rightarrow> string option \<Rightarrow> string option \<Rightarrow> int \<Rightarrow> mqtt_wait list \<Rightarrow>
   ((mqtt_publisher_result_t \<times> mqtt_publisher option) \<times> mqtt_wait list) option" where
  "mqtt_publisher_publish_json clock_ok mosq publisher topic payload timeout_seconds waits =
     (case publisher of None \<Rightarrow> Some ((MQTT_PUBLISHER_INVALID_ARGUMENT, None), waits)
      | Some p \<Rightarrow>
          if topic = None \<or> topic = Some [] \<or> payload = None \<or> payload = Some [] \<or> timeout_seconds \<le> 0
          then Some ((MQTT_PUBLISHER_INVALID_ARGUMENT, Some p), waits)
          else if int (length (the payload)) > 2147483647 then Some ((MQTT_PUBLISHER_INVALID_ARGUMENT, Some p), waits)
          else if \<not> clock_ok then Some ((MQTT_PUBLISHER_LIBRARY_ERROR, Some p), waits)
          else if pb_state p \<noteq> MQTT_PUBLISHER_CONNECTED
          then Some ((MQTT_PUBLISHER_NOT_CONNECTED, Some (p\<lparr>pb_expected_mid := -1\<rparr>)), waits)
          else let p1 = p\<lparr>pb_publish_completed := False, pb_expected_mid := -1\<rparr>; (result, mid) = mosq in
               if result \<noteq> 0
               then Some ((if result = MOSQ_ERR_NO_CONN then MQTT_PUBLISHER_NOT_CONNECTED else MQTT_PUBLISHER_LIBRARY_ERROR,
                           Some p1), waits)
               else map_option (\<lambda>((rc, p2), rest).
                      ((case rc of Some e \<Rightarrow> if e = COND_ETIMEDOUT then MQTT_PUBLISHER_TIMEOUT else MQTT_PUBLISHER_LIBRARY_ERROR
                        | None \<Rightarrow> if \<not> pb_publish_completed p2 then MQTT_PUBLISHER_NOT_CONNECTED else MQTT_PUBLISHER_OK,
                        Some (p2\<lparr>pb_expected_mid := -1\<rparr>)), rest))
                      (timed_wait_loop awaits_puback publisher_event waits (p1\<lparr>pb_expected_mid := mid\<rparr>)))"

definition mqtt_publisher_is_connected :: "mqtt_publisher option \<Rightarrow> bool" where
  "mqtt_publisher_is_connected publisher =
     (case publisher of None \<Rightarrow> False | Some p \<Rightarrow> pb_state p = MQTT_PUBLISHER_CONNECTED)"

definition measurement_topic :: "string \<Rightarrow> string \<Rightarrow> string" where
  "measurement_topic prefix device = prefix @ ''/'' @ device @ ''/measurements''"

definition mqtt_publisher_publish ::
  "(nat \<Rightarrow> bool) \<Rightarrow> (cjson \<Rightarrow> string) \<Rightarrow> bool \<Rightarrow> int \<times> int \<Rightarrow> mqtt_publisher option \<Rightarrow> measurement_t option \<Rightarrow> int \<Rightarrow>
   mqtt_wait list \<Rightarrow> ((mqtt_publisher_result_t \<times> mqtt_publisher option) \<times> mqtt_wait list) option" where
  "mqtt_publisher_publish alloc print_text clock_ok mosq publisher measurement timeout_seconds waits =
     (case (publisher, measurement) of
        (Some p, Some m) \<Rightarrow>
          if timeout_seconds \<le> 0 then Some ((MQTT_PUBLISHER_INVALID_ARGUMENT, publisher), waits)
          else (case measurement_to_json alloc print_text (Some m) True of
                  (MEASUREMENT_JSON_OK, Some (json, json_size)) \<Rightarrow>
                    (let topic = measurement_topic (pb_topic_prefix p) (cstr (device_id m)) in
                     if length topic \<ge> 384 \<or> json_size > 2147483647
                     then Some ((MQTT_PUBLISHER_INVALID_ARGUMENT, publisher), waits)
                     else mqtt_publisher_publish_json clock_ok mosq publisher (Some topic) (Some (cstr json)) timeout_seconds waits)
                | _ \<Rightarrow> Some ((MQTT_PUBLISHER_SERIALIZATION_ERROR, publisher), waits))
      | _ \<Rightarrow> Some ((MQTT_PUBLISHER_INVALID_ARGUMENT, publisher), waits))"

section \<open>The command receiver\<close>

datatype mqtt_command_receiver_result_t =
    MQTT_COMMAND_RECEIVER_OK
  | MQTT_COMMAND_RECEIVER_INVALID_ARGUMENT
  | MQTT_COMMAND_RECEIVER_NO_MEMORY
  | MQTT_COMMAND_RECEIVER_LIBRARY_ERROR
  | MQTT_COMMAND_RECEIVER_NOT_CONNECTED
  | MQTT_COMMAND_RECEIVER_TIMEOUT

datatype mqtt_command_receiver_state_t =
    MQTT_COMMAND_RECEIVER_STOPPED
  | MQTT_COMMAND_RECEIVER_CONNECTING
  | MQTT_COMMAND_RECEIVER_READY
  | MQTT_COMMAND_RECEIVER_FAILED
  | MQTT_COMMAND_RECEIVER_STOPPING

text \<open>
  \<open>rc_subscriptions\<close> are the calls of \<open>mosquitto_subscribe\<close> (topic and requested QoS), \<open>rc_context\<close> is
  what the handler context points to.
\<close>

record 'c mqtt_command_receiver =
  rc_state :: mqtt_command_receiver_state_t
  rc_loop_started :: bool
  rc_host :: string
  rc_client_id :: string
  rc_request_topic :: string
  rc_port :: int
  rc_keepalive_seconds :: int
  rc_subscriptions :: "(string \<times> int) list"
  rc_context :: 'c

definition receiver_set_state :: "mqtt_command_receiver_state_t \<Rightarrow> 'c mqtt_command_receiver \<Rightarrow> 'c mqtt_command_receiver" where
  "receiver_set_state st r = (if rc_state r \<noteq> MQTT_COMMAND_RECEIVER_STOPPING then r\<lparr>rc_state := st\<rparr> else r)"

definition receiver_on_connect :: "int \<Rightarrow> int \<Rightarrow> 'c mqtt_command_receiver \<Rightarrow> 'c mqtt_command_receiver" where
  "receiver_on_connect result subscribe_rc r =
     (if result \<noteq> 0 then receiver_set_state MQTT_COMMAND_RECEIVER_FAILED r
      else let r1 = r\<lparr>rc_subscriptions := rc_subscriptions r @ [(rc_request_topic r, 1)]\<rparr>
           in if subscribe_rc \<noteq> 0 then receiver_set_state MQTT_COMMAND_RECEIVER_FAILED r1 else r1)"

definition receiver_on_subscribe :: "int \<Rightarrow> int list option \<Rightarrow> 'c mqtt_command_receiver \<Rightarrow> 'c mqtt_command_receiver" where
  "receiver_on_subscribe count granted_qos r =
     (if count \<noteq> 1 \<or> granted_qos = None \<or> hd (the granted_qos) \<noteq> 1
      then receiver_set_state MQTT_COMMAND_RECEIVER_FAILED r
      else receiver_set_state MQTT_COMMAND_RECEIVER_READY r)"

text \<open>A message: topic, payload pointer and payload length; a NULL message is \<open>None\<close>.\<close>

type_synonym mosquitto_message = "(string option \<times> string option \<times> int) option"

type_synonym 'c message_handler = "'c \<Rightarrow> string \<Rightarrow> string option \<Rightarrow> nat \<Rightarrow> 'c"

definition receiver_on_message :: "'c message_handler \<Rightarrow> mosquitto_message \<Rightarrow> 'c mqtt_command_receiver \<Rightarrow> 'c mqtt_command_receiver" where
  "receiver_on_message handler message r =
     (case message of
        Some (Some topic, payload, payloadlen) \<Rightarrow>
          if payloadlen < 0 then r else r\<lparr>rc_context := handler (rc_context r) topic payload (nat payloadlen)\<rparr>
      | _ \<Rightarrow> r)"

datatype receiver_event =
    ROnConnect int int
  | ROnSubscribe int "int list option"
  | ROnMessage mosquitto_message

fun receiver_callback :: "'c message_handler \<Rightarrow> receiver_event \<Rightarrow> 'c mqtt_command_receiver \<Rightarrow> 'c mqtt_command_receiver" where
  "receiver_callback handler (ROnConnect result subscribe_rc) r = receiver_on_connect result subscribe_rc r"
| "receiver_callback handler (ROnSubscribe count granted) r = receiver_on_subscribe count granted r"
| "receiver_callback handler (ROnMessage message) r = receiver_on_message handler message r"

record mqtt_command_receiver_config_t =
  rcfg_host :: "string option"
  rcfg_port :: int
  rcfg_client_id :: "string option"
  rcfg_request_topic :: "string option"
  rcfg_keepalive_seconds :: int
  rcfg_has_handler :: bool

definition new_receiver :: "mqtt_command_receiver_config_t \<Rightarrow> 'c \<Rightarrow> 'c mqtt_command_receiver" where
  "new_receiver c ctx =
     \<lparr>rc_state = MQTT_COMMAND_RECEIVER_STOPPED, rc_loop_started = False, rc_host = the (rcfg_host c),
      rc_client_id = the (rcfg_client_id c), rc_request_topic = the (rcfg_request_topic c), rc_port = rcfg_port c,
      rc_keepalive_seconds = rcfg_keepalive_seconds c, rc_subscriptions = [], rc_context = ctx\<rparr>"

text \<open>The receiver's own chain of labels: it has no publish mutex.\<close>

definition mqtt_command_receiver_create ::
  "int \<Rightarrow> (nat \<Rightarrow> bool) \<Rightarrow> mqtt_command_receiver_config_t option \<Rightarrow> 'c \<Rightarrow> mqtt_host \<Rightarrow> 'c mqtt_command_receiver option \<times> mqtt_host" where
  "mqtt_command_receiver_create init_rc ok config ctx h =
     (case config of None \<Rightarrow> (None, h)
      | Some c \<Rightarrow>
        if \<not> string_fits (rcfg_client_id c) 128 \<or> \<not> string_fits (rcfg_host c) 256 \<or> \<not> string_fits (rcfg_request_topic c) 384 \<or>
           rcfg_port c < 1 \<or> rcfg_port c > 65535 \<or> rcfg_keepalive_seconds c < 5 \<or> \<not> rcfg_has_handler c
        then (None, h) else
        let (acquired, rt) = mqtt_library_acquire init_rc (mh_runtime h); h0 = h\<lparr>mh_runtime := rt\<rparr> in
        if \<not> acquired then (None, h0) else
        if \<not> ok 0 then (None, release_library h0) else
        let h1 = hold R_MEMORY h0 in if \<not> ok 1 then (None, free_publisher h1) else
        let h2 = hold R_MUTEX h1 in if \<not> ok 2 then (None, destroy_mutex h2) else
        let h3 = hold R_CONDITION h2 in if \<not> ok 3 then (None, destroy_mutex (drop_resource R_CONDITION h3)) else
        (Some (new_receiver c ctx), hold R_CLIENT h3))"

definition mqtt_command_receiver_start ::
  "int \<Rightarrow> int \<Rightarrow> 'c mqtt_command_receiver option \<Rightarrow> mqtt_command_receiver_result_t \<times> 'c mqtt_command_receiver option" where
  "mqtt_command_receiver_start connect_rc loop_rc receiver =
     (case receiver of None \<Rightarrow> (MQTT_COMMAND_RECEIVER_INVALID_ARGUMENT, None)
      | Some r \<Rightarrow>
          if rc_state r \<noteq> MQTT_COMMAND_RECEIVER_STOPPED then (MQTT_COMMAND_RECEIVER_INVALID_ARGUMENT, Some r)
          else if connect_rc \<noteq> 0 then (MQTT_COMMAND_RECEIVER_LIBRARY_ERROR, Some (r\<lparr>rc_state := MQTT_COMMAND_RECEIVER_FAILED\<rparr>))
          else if loop_rc \<noteq> 0 then (MQTT_COMMAND_RECEIVER_LIBRARY_ERROR, Some (r\<lparr>rc_state := MQTT_COMMAND_RECEIVER_FAILED\<rparr>))
          else (MQTT_COMMAND_RECEIVER_OK, Some (r\<lparr>rc_state := MQTT_COMMAND_RECEIVER_CONNECTING, rc_loop_started := True\<rparr>)))"

definition awaits_suback :: "'c mqtt_command_receiver \<Rightarrow> bool" where
  "awaits_suback r \<longleftrightarrow> rc_state r = MQTT_COMMAND_RECEIVER_CONNECTING"

definition mqtt_command_receiver_wait_ready ::
  "'c message_handler \<Rightarrow> bool \<Rightarrow> int \<Rightarrow> 'c mqtt_command_receiver option \<Rightarrow> (int \<times> receiver_event list) list \<Rightarrow>
   ((mqtt_command_receiver_result_t \<times> 'c mqtt_command_receiver option) \<times> (int \<times> receiver_event list) list) option" where
  "mqtt_command_receiver_wait_ready handler clock_ok timeout_seconds receiver waits =
     (case receiver of None \<Rightarrow> Some ((MQTT_COMMAND_RECEIVER_INVALID_ARGUMENT, None), waits)
      | Some r \<Rightarrow>
          if timeout_seconds \<le> 0 then Some ((MQTT_COMMAND_RECEIVER_INVALID_ARGUMENT, Some r), waits)
          else if \<not> clock_ok then Some ((MQTT_COMMAND_RECEIVER_LIBRARY_ERROR, Some r), waits)
          else map_option (\<lambda>((rc, r1), rest).
                 ((case rc of Some e \<Rightarrow> if e = COND_ETIMEDOUT then MQTT_COMMAND_RECEIVER_TIMEOUT else MQTT_COMMAND_RECEIVER_LIBRARY_ERROR
                   | None \<Rightarrow> if rc_state r1 = MQTT_COMMAND_RECEIVER_READY then MQTT_COMMAND_RECEIVER_OK else MQTT_COMMAND_RECEIVER_NOT_CONNECTED,
                   Some r1), rest))
               (timed_wait_loop awaits_suback (receiver_callback handler) waits r))"

text \<open>\<open>evs\<close> are the callbacks that run until the network thread is stopped; the context outlives the receiver.\<close>

definition mqtt_command_receiver_destroy ::
  "'c message_handler \<Rightarrow> receiver_event list \<Rightarrow> 'c mqtt_command_receiver option \<Rightarrow> mqtt_host \<Rightarrow> 'c option \<times> mqtt_host" where
  "mqtt_command_receiver_destroy handler evs receiver h =
     (case receiver of None \<Rightarrow> (None, h)
      | Some r \<Rightarrow>
          let r1 = r\<lparr>rc_state := MQTT_COMMAND_RECEIVER_STOPPING\<rparr>;
              r2 = fold (receiver_callback handler) evs r1
          in (Some (rc_context r2),
              release_library (drop_resource R_MEMORY (drop_resource R_MUTEX (drop_resource R_CONDITION (drop_resource R_CLIENT h))))))"

section \<open>The wait loop\<close>

lemma timed_wait_loop_returns:
  "\<exists>w\<in>set waits. fst w \<noteq> 0 \<Longrightarrow> timed_wait_loop blocked event waits s \<noteq> None"
proof (induction waits arbitrary: s)
  case (Cons w waits)
  then show ?case
    by (cases w) (auto simp: timed_wait_loop.simps [of _ _ "_ # _"])
qed simp

lemma ex_map_option: "(\<exists>y. map_option f x = Some y) \<longleftrightarrow> x \<noteq> None"
  by auto

text \<open>What a returned loop has done: it consumed a prefix of the waits and applied exactly their callbacks.\<close>

lemma timed_wait_loop_outcome:
  assumes "timed_wait_loop blocked event waits s = Some ((rc, s'), rest)"
  obtains used where "waits = used @ rest" and "s' = fold event (concat (map snd used)) s"
    and "rc = None \<Longrightarrow> \<not> blocked s'" and "rc \<noteq> Some 0"
proof -
  have "\<exists>used. waits = used @ rest \<and> s' = fold event (concat (map snd used)) s \<and> (rc = None \<longrightarrow> \<not> blocked s') \<and> rc \<noteq> Some 0"
    using assms
  proof (induction waits arbitrary: s)
    case Nil
    then show ?case by (auto simp: timed_wait_loop.simps split: if_splits)
  next
    case (Cons w waits)
    obtain k evs where w: "w = (k, evs)" by fastforce
    consider "\<not> blocked s" | "blocked s" "k \<noteq> 0" | "blocked s" "k = 0" by blast
    then show ?case
    proof cases
      case 1
      then show ?thesis using Cons.prems w by (intro exI [of _ "[]"]) (auto simp: timed_wait_loop.simps)
    next
      case 2
      then show ?thesis using Cons.prems w by (intro exI [of _ "[w]"]) (auto simp: timed_wait_loop.simps)
    next
      case 3
      then have "timed_wait_loop blocked event waits (fold event evs s) = Some ((rc, s'), rest)"
        using Cons.prems w by (simp add: timed_wait_loop.simps [of _ _ "_ # _"])
      then obtain used where "waits = used @ rest" "s' = fold event (concat (map snd used)) (fold event evs s)"
          "rc = None \<longrightarrow> \<not> blocked s'" "rc \<noteq> Some 0"
        using Cons.IH by blast
      then show ?thesis using w by (intro exI [of _ "w # used"]) simp
    qed
  qed
  then show ?thesis using that by blast
qed

lemma timed_wait_loop_first:
  assumes "blocked s" and "\<not> blocked (fold event evs s)"
  shows "timed_wait_loop blocked event ((0, evs) # waits) s = Some ((None, fold event evs s), waits)"
  using assms by (simp add: timed_wait_loop.simps)

section \<open>Publishing\<close>

lemma on_connect_fields [simp]:
  "pb_expected_mid (on_connect r p) = pb_expected_mid p" "pb_publish_completed (on_connect r p) = pb_publish_completed p"
  by (simp_all add: on_connect_def)

lemma on_disconnect_fields [simp]:
  "pb_expected_mid (on_disconnect r p) = pb_expected_mid p" "pb_publish_completed (on_disconnect r p) = pb_publish_completed p"
  by (simp_all add: on_disconnect_def)

lemma publisher_events_mid [simp]: "pb_expected_mid (fold publisher_event evs p) = pb_expected_mid p"
proof (induction evs arbitrary: p)
  case (Cons e evs)
  then show ?case by (cases e) (simp_all add: on_publish_def)
qed simp

lemma publisher_events_completed:
  "pb_publish_completed (fold publisher_event evs p) \<longleftrightarrow>
     pb_publish_completed p \<or> OnPublish (pb_expected_mid p) \<in> set evs"
proof (induction evs arbitrary: p)
  case (Cons e evs)
  then show ?case by (cases e) (auto simp: on_publish_def)
qed simp

text \<open>The callbacks a call consumed: those of the waits it used up.\<close>

definition consumed :: "(int \<times> 'e list) list \<Rightarrow> (int \<times> 'e list) list \<Rightarrow> 'e list" where
  "consumed waits rest = concat (map snd (take (length waits - length rest) waits))"

lemma consumed_append [simp]: "consumed (used @ rest) rest = concat (map snd used)"
  by (simp add: consumed_def)

text \<open>A publish either never waited, or waited for the PUBACK of the accepted message.\<close>

lemma publish_json_cases:
  assumes "mqtt_publisher_publish_json clock_ok (result, mid) (Some p) topic payload timeout_seconds waits = Some ((r, p'), rest)"
  obtains (early) q where "r \<noteq> MQTT_PUBLISHER_OK" "p' = Some q" "pb_expected_mid q = -1 \<or> pb_expected_mid q = pb_expected_mid p"
  | (waited) rc p2 where "result = 0" "pb_state p = MQTT_PUBLISHER_CONNECTED"
      "timed_wait_loop awaits_puback publisher_event waits (p\<lparr>pb_publish_completed := False, pb_expected_mid := mid\<rparr>) = Some ((rc, p2), rest)"
      "r = MQTT_PUBLISHER_OK \<longrightarrow> pb_publish_completed p2" "p' = Some (p2\<lparr>pb_expected_mid := -1\<rparr>)"
  using assms by (auto simp: mqtt_publisher_publish_json_def Let_def split: if_splits option.splits)

lemma publish_json_ok:
  assumes "mqtt_publisher_publish_json clock_ok (result, mid) (Some p) topic payload timeout_seconds waits = Some ((MQTT_PUBLISHER_OK, p'), rest)"
  shows "result = 0" and "pb_state p = MQTT_PUBLISHER_CONNECTED" and "OnPublish mid \<in> set (consumed waits rest)"
proof -
  let ?p1 = "p\<lparr>pb_publish_completed := False, pb_expected_mid := mid\<rparr>"
  from assms obtain rc p2 where w: "result = 0" "pb_state p = MQTT_PUBLISHER_CONNECTED"
      "timed_wait_loop awaits_puback publisher_event waits ?p1 = Some ((rc, p2), rest)" "pb_publish_completed p2"
    by (cases rule: publish_json_cases) auto
  from w(3) obtain used where "waits = used @ rest" "p2 = fold publisher_event (concat (map snd used)) ?p1"
    by (rule timed_wait_loop_outcome) blast
  then show "result = 0" "pb_state p = MQTT_PUBLISHER_CONNECTED" "OnPublish mid \<in> set (consumed waits rest)"
    using w by (simp_all add: publisher_events_completed)
qed

text \<open>
  C31: A publish is acknowledged or it is not reported as successful. For an idle publisher,
  \<open>mqtt_publisher_publish_json\<close> returns OK only when the library accepted the message and the PUBACK
  with this message's own identifier arrived while the call waited; the publisher is idle again
  afterwards (no identifier is awaited), so a PUBACK that arrives late changes nothing and cannot
  complete a later publish.
\<close>

theorem publish_ok_means_puback:
  assumes idle: "pb_expected_mid p = -1"
    and ret: "mqtt_publisher_publish_json clock_ok (result, mid) (Some p) topic payload timeout_seconds waits = Some ((r, p'), rest)"
  shows "(r = MQTT_PUBLISHER_OK \<longrightarrow>
           result = 0 \<and> pb_state p = MQTT_PUBLISHER_CONNECTED \<and> OnPublish mid \<in> set (consumed waits rest)) \<and>
         (\<exists>q. p' = Some q \<and> pb_expected_mid q = -1 \<and> (\<forall>late. late \<noteq> -1 \<longrightarrow> on_publish late q = q))"
proof -
  have "\<exists>q. p' = Some q \<and> pb_expected_mid q = -1"
    using ret idle by (cases rule: publish_json_cases) auto
  then show ?thesis
    using publish_json_ok ret by (auto simp: on_publish_def)
qed

definition demo_publisher :: mqtt_publisher where
  "demo_publisher =
     \<lparr>pb_state = MQTT_PUBLISHER_CONNECTED, pb_expected_mid = -1, pb_publish_completed = False, pb_loop_started = True,
      pb_host = ''127.0.0.1'', pb_client_id = ''gw'', pb_topic_prefix = ''edgevision/v1/devices'', pb_port = 1883,
      pb_keepalive_seconds = 30, pb_reconnect_delay_seconds = 1, pb_reconnect_delay_max_seconds = 8\<rparr>"

theorem publish_ok_means_puback_witness:
  "\<exists>q. mqtt_publisher_publish_json True (0, 7) (Some demo_publisher) (Some ''t'') (Some ''{}'') 3
         [(0, [OnPublish 6]), (0, [OnPublish 7, OnDisconnect 0])] = Some ((MQTT_PUBLISHER_OK, Some q), []) \<and>
       OnPublish 7 \<in> set (consumed [(0, [OnPublish 6]), (0, [OnPublish 7, OnDisconnect 0])] []) \<and> on_publish 7 q = q"
proof -
  let ?waits = "[(0, [OnPublish 6]), (0, [OnPublish 7, OnDisconnect 0])]"
  obtain q where q: "mqtt_publisher_publish_json True (0, 7) (Some demo_publisher) (Some ''t'') (Some ''{}'') 3 ?waits =
      Some ((MQTT_PUBLISHER_OK, Some q), [])"
    by (simp add: mqtt_publisher_publish_json_def timed_wait_loop.simps awaits_puback_def demo_publisher_def
          on_publish_def on_disconnect_def)
  then show ?thesis
    using publish_ok_means_puback [OF _ q] by (auto simp: demo_publisher_def)
qed



section \<open>Creating and destroying is balanced\<close>

text \<open>The library is initialised exactly while somebody holds a reference.\<close>

definition runtime_ok :: "mqtt_runtime \<Rightarrow> bool" where
  "runtime_ok r \<longleftrightarrow> (library_initialised r \<longleftrightarrow> library_reference_count r \<noteq> 0)"

lemma acquire_release:
  assumes "runtime_ok r" and "library_reference_count r < 4294967295" and "mqtt_library_acquire rc r = (True, r')"
  shows "mqtt_library_release r' = r" and "library_initialised r'" and "library_reference_count r' \<noteq> 0"
proof -
  have nz: "library_reference_count r + 1 \<noteq> 0"
  proof
    assume "library_reference_count r + 1 = 0"
    then have "library_reference_count r = - 1" by (simp add: eq_neg_iff_add_eq_0)
    then show False using assms(2) by simp
  qed
  have r': "r' = r\<lparr>library_reference_count := library_reference_count r + 1, library_initialised := True\<rparr>"
    using assms by (cases r) (auto simp: mqtt_library_acquire_def runtime_ok_def Let_def split: if_splits)
  show "mqtt_library_release r' = r" "library_initialised r'" "library_reference_count r' \<noteq> 0"
    using nz assms(1) by (cases r; auto simp: r' mqtt_library_release_def runtime_ok_def Let_def word_neq_0_conv)+
qed

lemma acquire_failed: "mqtt_library_acquire rc r = (False, r') \<Longrightarrow> r' = r"
  by (auto simp: mqtt_library_acquire_def Let_def split: if_splits)

lemma drop_hold [simp]: "drop_resource r (hold r h) = h"
  by (simp add: drop_resource_def hold_def)

lemma runtime_hold [simp]: "mh_runtime (hold r h) = mh_runtime h"
  by (simp add: hold_def)

lemma release_acquired:
  assumes "mqtt_library_release rt = mh_runtime h"
  shows "release_library (h\<lparr>mh_runtime := rt\<rparr>) = h"
  using assms by (simp add: release_library_def)

lemmas cleanup_labels =
  free_publisher_def destroy_mutex_def destroy_publish_mutex_def destroy_condition_def destroy_client_def

lemma string_fitsD: "string_fits s n \<Longrightarrow> \<exists>t. s = Some t \<and> length t < n"
  by (auto simp: string_fits_def split: option.splits)

lemma destroy_publisher:
  "mqtt_publisher_destroy evs (Some q) h = destroy_client h"
  by (auto simp: mqtt_publisher_destroy_def mqtt_publisher_stop_def cleanup_labels split: option.splits)

lemma destroy_receiver:
  "snd (mqtt_command_receiver_destroy handler evs (Some q) h) = destroy_mutex (drop_resource R_CONDITION (drop_resource R_CLIENT h))"
  by (auto simp: mqtt_command_receiver_destroy_def cleanup_labels Let_def)

lemma publisher_create_cases:
  assumes "mqtt_publisher_create init_rc ok config h = (res, h')" and "runtime_ok (mh_runtime h)"
    and "library_reference_count (mh_runtime h) < 4294967295"
  obtains (failed) "res = None" "h' = h"
  | (created) c rt where "config = Some c" "res = Some (new_publisher c)" "mqtt_library_acquire init_rc (mh_runtime h) = (True, rt)"
      "string_fits (cfg_host c) 256" "string_fits (cfg_client_id c) 128" "string_fits (cfg_topic_prefix c) 128"
      "mh_runtime h' = rt" "destroy_client h' = h"
proof (cases "mqtt_library_acquire init_rc (mh_runtime h)")
  case (Pair acquired rt)
  have restored: "release_library (h\<lparr>mh_runtime := rt\<rparr>) = h" if "acquired = True"
    using release_acquired [OF acquire_release(1) [OF assms(2,3)]] Pair that by simp
  have same: "h\<lparr>mh_runtime := rt\<rparr> = h" if "\<not> acquired"
    using acquire_failed Pair that by simp
  show thesis
    using assms(1) Pair restored same failed created
    by (cases config; cases acquired)
      (auto simp: mqtt_publisher_create_def Let_def cleanup_labels split: if_splits)
qed

lemma receiver_create_cases:
  assumes "mqtt_command_receiver_create init_rc ok config ctx h = (res, h')" and "runtime_ok (mh_runtime h)"
    and "library_reference_count (mh_runtime h) < 4294967295"
  obtains (failed) "res = None" "h' = h"
  | (created) c rt where "config = Some c" "res = Some (new_receiver c ctx)" "mqtt_library_acquire init_rc (mh_runtime h) = (True, rt)"
      "string_fits (rcfg_request_topic c) 384"
      "mh_runtime h' = rt" "destroy_mutex (drop_resource R_CONDITION (drop_resource R_CLIENT h')) = h"
proof (cases "mqtt_library_acquire init_rc (mh_runtime h)")
  case (Pair acquired rt)
  have restored: "release_library (h\<lparr>mh_runtime := rt\<rparr>) = h" if "acquired = True"
    using release_acquired [OF acquire_release(1) [OF assms(2,3)]] Pair that by simp
  have same: "h\<lparr>mh_runtime := rt\<rparr> = h" if "\<not> acquired"
    using acquire_failed Pair that by simp
  show thesis
    using assms(1) Pair restored same failed created
    by (cases config; cases acquired)
      (auto simp: mqtt_command_receiver_create_def Let_def cleanup_labels split: if_splits)
qed

text \<open>
  C33: The constructors are all or nothing and the destructors give everything back. When creating a
  publisher or a command receiver fails, at whichever acquisition, the library reference count, the
  library's initialisation and the live resources are those before the call; when it succeeds, the
  library is initialised, the object is stopped and holds the configured strings, and destroying it
  later, whatever callbacks still run, restores them exactly.
\<close>

theorem mqtt_create_destroy_balanced:
  assumes "runtime_ok (mh_runtime h)" and "library_reference_count (mh_runtime h) < 4294967295"
  shows "(case mqtt_publisher_create init_rc ok config h of
            (None, h') \<Rightarrow> h' = h
          | (Some p, h') \<Rightarrow> library_initialised (mh_runtime h') \<and> pb_state p = MQTT_PUBLISHER_STOPPED \<and> pb_expected_mid p = -1 \<and>
              (\<exists>c. config = Some c \<and> cfg_host c = Some (pb_host p) \<and> cfg_topic_prefix c = Some (pb_topic_prefix p) \<and>
                 cfg_client_id c = Some (pb_client_id p) \<and> length (pb_topic_prefix p) < 128) \<and>
              (\<forall>evs q. mqtt_publisher_destroy evs (Some q) h' = h)) \<and>
         (case mqtt_command_receiver_create init_rc ok rconfig (ctx :: 'c) h of
            (None, h') \<Rightarrow> h' = h
          | (Some r, h') \<Rightarrow> library_initialised (mh_runtime h') \<and> rc_state r = MQTT_COMMAND_RECEIVER_STOPPED \<and>
              (\<exists>c. rconfig = Some c \<and> rcfg_request_topic c = Some (rc_request_topic r)) \<and> rc_context r = ctx \<and>
              (\<forall>handler evs q. snd (mqtt_command_receiver_destroy handler evs (Some (q :: 'c mqtt_command_receiver)) h') = h))"
proof (intro conjI)
  show "case mqtt_publisher_create init_rc ok config h of
            (None, h') \<Rightarrow> h' = h
          | (Some p, h') \<Rightarrow> library_initialised (mh_runtime h') \<and> pb_state p = MQTT_PUBLISHER_STOPPED \<and> pb_expected_mid p = -1 \<and>
              (\<exists>c. config = Some c \<and> cfg_host c = Some (pb_host p) \<and> cfg_topic_prefix c = Some (pb_topic_prefix p) \<and>
                 cfg_client_id c = Some (pb_client_id p) \<and> length (pb_topic_prefix p) < 128) \<and>
              (\<forall>evs q. mqtt_publisher_destroy evs (Some q) h' = h)"
  proof (cases "mqtt_publisher_create init_rc ok config h")
    case (Pair res h')
    from Pair assms show ?thesis
    proof (cases rule: publisher_create_cases)
      case (created c rt)
      then show ?thesis
        using Pair acquire_release(2) [OF assms] string_fitsD [OF created(4)] string_fitsD [OF created(5)] string_fitsD [OF created(6)]
        by (auto simp: destroy_publisher new_publisher_def)
    qed (simp add: Pair)
  qed
  show "case mqtt_command_receiver_create init_rc ok rconfig (ctx :: 'c) h of
            (None, h') \<Rightarrow> h' = h
          | (Some r, h') \<Rightarrow> library_initialised (mh_runtime h') \<and> rc_state r = MQTT_COMMAND_RECEIVER_STOPPED \<and>
              (\<exists>c. rconfig = Some c \<and> rcfg_request_topic c = Some (rc_request_topic r)) \<and> rc_context r = ctx \<and>
              (\<forall>handler evs q. snd (mqtt_command_receiver_destroy handler evs (Some (q :: 'c mqtt_command_receiver)) h') = h)"
  proof (cases "mqtt_command_receiver_create init_rc ok rconfig ctx h")
    case (Pair res h')
    from Pair assms show ?thesis
    proof (cases rule: receiver_create_cases)
      case (created c rt)
      then show ?thesis
        using Pair acquire_release(2) [OF assms] string_fitsD [OF created(4)]
        by (auto simp: destroy_receiver new_receiver_def)
    qed (simp add: Pair)
  qed
qed

definition demo_mqtt_host :: mqtt_host where
  "demo_mqtt_host = \<lparr>mh_runtime = \<lparr>library_reference_count = 0, library_initialised = False\<rparr>, mh_live = []\<rparr>"

definition demo_mqtt_config :: mqtt_publisher_config_t where
  "demo_mqtt_config =
     \<lparr>cfg_host = Some ''h'', cfg_port = 1883, cfg_client_id = Some ''c'', cfg_topic_prefix = Some ''t'', cfg_keepalive_seconds = 30,
      cfg_reconnect_delay_seconds = 1, cfg_reconnect_delay_max_seconds = 8\<rparr>"

theorem mqtt_create_destroy_balanced_witness:
  "mqtt_publisher_create 0 (\<lambda>k. k \<noteq> 4) (Some demo_mqtt_config) demo_mqtt_host = (None, demo_mqtt_host) \<and>
   (\<exists>h. mqtt_publisher_create 0 (\<lambda>k. True) (Some demo_mqtt_config) demo_mqtt_host = (Some (new_publisher demo_mqtt_config), h) \<and>
        h \<noteq> demo_mqtt_host \<and> mqtt_publisher_destroy [OnDisconnect 0] (Some (new_publisher demo_mqtt_config)) h = demo_mqtt_host)"
proof -
  have ok: "runtime_ok (mh_runtime demo_mqtt_host)" "library_reference_count (mh_runtime demo_mqtt_host) < 4294967295"
    by (simp_all add: demo_mqtt_host_def runtime_ok_def)
  note both = mqtt_create_destroy_balanced [OF ok, where init_rc = 0 and config = "Some demo_mqtt_config" and rconfig = None and ctx = "()"]
  have bad: "fst (mqtt_publisher_create 0 (\<lambda>k. k \<noteq> 4) (Some demo_mqtt_config) demo_mqtt_host) = None"
    by (simp add: mqtt_publisher_create_def string_fits_def mqtt_library_acquire_def demo_mqtt_config_def demo_mqtt_host_def Let_def)
  obtain h where h: "mqtt_publisher_create 0 (\<lambda>k. True) (Some demo_mqtt_config) demo_mqtt_host = (Some (new_publisher demo_mqtt_config), h)"
      "mh_live h \<noteq> []"
    by (simp add: mqtt_publisher_create_def string_fits_def mqtt_library_acquire_def demo_mqtt_config_def demo_mqtt_host_def Let_def hold_def)
  then have "h \<noteq> demo_mqtt_host" by (auto simp: demo_mqtt_host_def)
  then show ?thesis
    using both [where ok = "\<lambda>k. k \<noteq> 4"] both [where ok = "\<lambda>k. True"] bad h
    by (auto split: prod.splits option.splits)
qed

section \<open>Topics\<close>

text \<open>
  The topic of a measurement is never truncated: for a publisher whose prefix was accepted by
  the constructor, publishing a measurement hands the encoded text to the library under exactly the
  topic \<open>prefix/device/measurements\<close> (at most 204 of the 384 bytes of the buffer), so the truncation
  branch is unreachable; a measurement that fails validation is never sent.
\<close>

theorem publish_topic_exact:
  assumes "length (pb_topic_prefix p) < 128" and "0 < timeout_seconds"
  shows "case measurement_to_json alloc print_text (Some m) True of
           (MEASUREMENT_JSON_OK, Some (json, json_size)) \<Rightarrow>
             length (measurement_topic (pb_topic_prefix p) (cstr (device_id m))) \<le> 204 \<and>
             (json_size \<le> 2147483647 \<longrightarrow>
              mqtt_publisher_publish alloc print_text clock_ok mosq (Some p) (Some m) timeout_seconds waits =
              mqtt_publisher_publish_json clock_ok mosq (Some p)
                (Some (pb_topic_prefix p @ ''/'' @ cstr (device_id m) @ ''/measurements'')) (Some (cstr json)) timeout_seconds waits)
         | _ \<Rightarrow> mqtt_publisher_publish alloc print_text clock_ok mosq (Some p) (Some m) timeout_seconds waits =
             Some ((MQTT_PUBLISHER_SERIALIZATION_ERROR, Some p), waits)"
proof (cases "measurement_to_json alloc print_text (Some m) True")
  case (Pair res out)
  have len: "length (measurement_topic (pb_topic_prefix p) (cstr (device_id m))) \<le> 204" if "res = MEASUREMENT_JSON_OK"
  proof -
    have "measurement_validate (Some m) = MEASUREMENT_VALID"
      using Pair that by (auto simp: measurement_to_json_def split: if_splits)
    then have "memchr_nul (device_id m) 64" by (auto simp: validate_iff measurement_string_is_valid_def)
    then have "length (cstr (device_id m)) < 64" by (rule cstr_length_less)
    then show ?thesis using assms(1) by (simp add: measurement_topic_def)
  qed
  show ?thesis
    using Pair len assms
    by (auto simp: mqtt_publisher_publish_def measurement_topic_def Let_def
        split: measurement_json_result_t.splits option.splits)
qed

theorem publish_topic_exact_witness:
  "mqtt_publisher_publish (\<lambda>_. True) (\<lambda>_. ''{}'') True (4, 0) (Some demo_publisher) (Some sample_measurement) 3 [] =
   mqtt_publisher_publish_json True (4, 0) (Some demo_publisher)
     (Some ''edgevision/v1/devices/sim-temperature-01/measurements'') (Some ''{}'') 3 []"
proof -
  have "length (pb_topic_prefix demo_publisher) < 128" by (simp add: demo_publisher_def)
  moreover have "cstr (device_id sample_measurement) = ''sim-temperature-01''"
    by (simp add: sample_measurement_def cstr_carray cstring_def)
  moreover have "cstr ''{}'' = ''{}''" by (simp add: cstr_def)
  ultimately show ?thesis
    using publish_topic_exact [where p = demo_publisher and timeout_seconds = 3 and alloc = "\<lambda>_. True" and print_text = "\<lambda>_. ''{}''" and
        m = sample_measurement and clock_ok = True and mosq = "(4, 0)" and waits = "[]"]
    by (simp add: measurement_to_json_sample demo_publisher_def)
qed

section \<open>The receiver's readiness\<close>

lemma receiver_stopping:
  "rc_state r = MQTT_COMMAND_RECEIVER_STOPPING \<Longrightarrow> rc_state (receiver_callback handler e r) = MQTT_COMMAND_RECEIVER_STOPPING"
  by (cases e) (auto simp: receiver_on_connect_def receiver_on_subscribe_def receiver_on_message_def receiver_set_state_def Let_def
      split: option.splits)

lemma receiver_stopping_events:
  "rc_state r = MQTT_COMMAND_RECEIVER_STOPPING \<Longrightarrow> rc_state (fold (receiver_callback handler) evs r) = MQTT_COMMAND_RECEIVER_STOPPING"
  by (induction evs arbitrary: r) (simp_all add: receiver_stopping)

text \<open>A late connection callback does bring a stopping publisher back to CONNECTED, after the
  disconnect callback has moved it on to STOPPED.\<close>

lemma late_connect_after_stop:
  assumes "pb_state p = MQTT_PUBLISHER_STOPPING"
  shows "pb_state (fold publisher_event [OnDisconnect 0, OnConnect 0] p) = MQTT_PUBLISHER_CONNECTED"
  using assms by (simp add: on_disconnect_def on_connect_def)

definition granted_suback :: "receiver_event \<Rightarrow> bool" where
  "granted_suback e = (case e of ROnSubscribe count (Some qs) \<Rightarrow> count = 1 \<and> hd qs = 1 | _ \<Rightarrow> False)"

lemma receiver_subscriptions_step:
  "set (rc_subscriptions (receiver_callback handler e r)) \<subseteq> set (rc_subscriptions r) \<union> {(rc_request_topic r, 1)}"
  "rc_request_topic (receiver_callback handler e r) = rc_request_topic r"
  by (cases e; auto simp: receiver_on_connect_def receiver_on_subscribe_def receiver_on_message_def receiver_set_state_def Let_def
      split: option.splits)+

lemma receiver_subscriptions:
  "set (rc_subscriptions (fold (receiver_callback handler) evs r)) \<subseteq> set (rc_subscriptions r) \<union> {(rc_request_topic r, 1)}"
proof (induction evs arbitrary: r)
  case (Cons e evs)
  then show ?case using receiver_subscriptions_step [of handler e r] Cons.IH [of "receiver_callback handler e r"] by auto
qed auto

lemma receiver_ready_step:
  "rc_state (receiver_callback handler e r) = MQTT_COMMAND_RECEIVER_READY \<Longrightarrow>
   rc_state r = MQTT_COMMAND_RECEIVER_READY \<or> granted_suback e"
  by (cases e) (auto simp: receiver_on_connect_def receiver_on_subscribe_def receiver_on_message_def receiver_set_state_def Let_def
      granted_suback_def split: option.splits if_splits)

lemma receiver_ready_events:
  "rc_state (fold (receiver_callback handler) evs r) = MQTT_COMMAND_RECEIVER_READY \<Longrightarrow>
   rc_state r = MQTT_COMMAND_RECEIVER_READY \<or> (\<exists>e\<in>set evs. granted_suback e)"
proof (induction evs arbitrary: r)
  case (Cons e evs)
  then show ?case using receiver_ready_step [of handler e r] by fastforce
qed simp

text \<open>
  The receiver is ready only with a confirmed subscription. \<open>wait_ready\<close> on a started receiver
  returns OK only after a SUBACK that granted exactly one subscription with QoS 1; every subscription
  it asked for is the configured request topic with QoS 1. Once stopping has begun, no late callback
  makes it ready again, but messages that still arrive reach the handler.
\<close>

theorem receiver_ready_only_after_suback:
  assumes start: "mqtt_command_receiver_start connect_rc loop_rc (Some r) = (MQTT_COMMAND_RECEIVER_OK, Some r1)"
    and wait: "mqtt_command_receiver_wait_ready handler clock_ok timeout_seconds (Some (fold (receiver_callback handler) before r1)) waits =
      Some ((MQTT_COMMAND_RECEIVER_OK, Some r2), rest)"
    and fresh: "rc_subscriptions r = []"
  shows "(\<exists>e\<in>set before \<union> set (consumed waits rest). granted_suback e) \<and>
         set (rc_subscriptions r2) \<subseteq> {(rc_request_topic r, 1)} \<and>
         rc_state (fold (receiver_callback handler) late (r2\<lparr>rc_state := MQTT_COMMAND_RECEIVER_STOPPING\<rparr>)) = MQTT_COMMAND_RECEIVER_STOPPING"
proof -
  have r1: "rc_state r1 = MQTT_COMMAND_RECEIVER_CONNECTING" "rc_subscriptions r1 = []" "rc_request_topic r1 = rc_request_topic r"
    using start fresh by (auto simp: mqtt_command_receiver_start_def split: if_splits)
  have none: "a = None" if "\<forall>x2. (x2 = COND_ETIMEDOUT \<longrightarrow> a \<noteq> Some COND_ETIMEDOUT) \<and> (x2 = COND_ETIMEDOUT \<or> a \<noteq> Some x2)" for a :: "int option"
    using that by (cases a) auto
  from wait have loop: "timed_wait_loop awaits_suback (receiver_callback handler) waits (fold (receiver_callback handler) before r1) =
      Some ((None, r2), rest)" and ready: "rc_state r2 = MQTT_COMMAND_RECEIVER_READY"
    by (auto simp: mqtt_command_receiver_wait_ready_def none split: if_splits option.splits)
  from loop obtain used where used: "waits = used @ rest"
      "r2 = fold (receiver_callback handler) (concat (map snd used)) (fold (receiver_callback handler) before r1)"
    by (rule timed_wait_loop_outcome) blast
  then have r2: "r2 = fold (receiver_callback handler) (before @ consumed waits rest) r1" by simp
  then have "\<exists>e\<in>set (before @ consumed waits rest). granted_suback e"
    using receiver_ready_events [of handler "before @ consumed waits rest" r1] ready r1 by simp
  moreover have "set (rc_subscriptions r2) \<subseteq> {(rc_request_topic r, 1)}"
    unfolding r2 using receiver_subscriptions [of handler "before @ consumed waits rest" r1] r1 by auto
  ultimately show ?thesis by (simp add: receiver_stopping_events)
qed

definition demo_receiver :: "nat mqtt_command_receiver" where
  "demo_receiver =
     \<lparr>rc_state = MQTT_COMMAND_RECEIVER_STOPPED, rc_loop_started = False, rc_host = ''h'', rc_client_id = ''c'',
      rc_request_topic = ''cmd'', rc_port = 1883, rc_keepalive_seconds = 30, rc_subscriptions = [], rc_context = 0\<rparr>"

theorem receiver_ready_only_after_suback_witness:
  "\<exists>r1 r2 h. mqtt_command_receiver_start 0 0 (Some demo_receiver) = (MQTT_COMMAND_RECEIVER_OK, Some r1) \<and>
     mqtt_command_receiver_wait_ready h True 3 (Some r1) [(0, [ROnConnect 0 0]), (0, [ROnSubscribe 1 (Some [1])])] =
       Some ((MQTT_COMMAND_RECEIVER_OK, Some r2), []) \<and>
     set (rc_subscriptions r2) \<subseteq> {(''cmd'', 1)}"
proof -
  let ?h = "\<lambda>(c :: nat) (t :: string) (p :: string option) (n :: nat). c"
  let ?waits = "[(0, [ROnConnect 0 0]), (0, [ROnSubscribe 1 (Some [1])])]"
  define r1 where "r1 = demo_receiver\<lparr>rc_state := MQTT_COMMAND_RECEIVER_CONNECTING, rc_loop_started := True\<rparr>"
  have start: "mqtt_command_receiver_start 0 0 (Some demo_receiver) = (MQTT_COMMAND_RECEIVER_OK, Some r1)"
    by (simp add: mqtt_command_receiver_start_def demo_receiver_def r1_def)
  obtain r2 where r2: "mqtt_command_receiver_wait_ready ?h True 3 (Some (fold (receiver_callback ?h) [] r1)) ?waits =
      Some ((MQTT_COMMAND_RECEIVER_OK, Some r2), [])"
    by (simp add: mqtt_command_receiver_wait_ready_def timed_wait_loop.simps awaits_suback_def r1_def demo_receiver_def
        receiver_on_connect_def receiver_on_subscribe_def receiver_set_state_def)
  have "rc_subscriptions demo_receiver = []" "rc_request_topic demo_receiver = ''cmd''" by (simp_all add: demo_receiver_def)
  then show ?thesis
    using receiver_ready_only_after_suback [OF start r2] start r2 by auto
qed

end
