(* ===== verification/Gateway_Commands.thy ===== *)
theory Gateway_Commands
  imports Command_Dedup Gateway_Config Outbox_Store Typed_Queue Mqtt
begin

text \<open>
  The commands of \<^verbatim>\<open>src/core/gateway_workers.c\<close>: the shared status and the execution of one command.
  The environment of a call is part of its state: the results of the successive mutex operations,
  the stop flags other threads raise (seen as shutdown at a poll), the answers of the storage worker,
  and, for the remote commands, the MQTT publisher with what happens while it waits.
\<close>

section \<open>Shared state\<close>

datatype gateway_storage_control_kind_t = GATEWAY_STORAGE_CONTROL_SET_INTERVAL | GATEWAY_STORAGE_CONTROL_GET_STATS

record gateway_storage_control_request_t =
  req_kind :: gateway_storage_control_kind_t
  req_interval_ms :: int

record gateway_storage_control_result_t =
  res_kind :: gateway_storage_control_kind_t
  res_storage_result :: outbox_store_result_t
  res_interval_ms :: int
  res_stats :: outbox_store_stats_t

record gateway_workers_t =
  wk_stop_requested :: bool
  wk_fatal_error :: bool
  wk_collected_count :: u64
  wk_interval_ms :: int
  wk_collection_paused :: bool
  wk_dedup :: dedup_cache

record gateway_status_snapshot_t =
  snap_interval_ms :: int
  snap_collected_count :: u64
  snap_collection_paused :: bool

record command_world =
  cw_workers :: gateway_workers_t
  cw_locks :: "bool list"
  cw_shutdown :: "bool list"
  cw_control_push :: "bq_result_t list"
  cw_control_polls :: "(bq_result_t \<times> gateway_storage_control_result_t) list"
  cw_requested :: "gateway_storage_control_request_t list"
  cw_publisher :: "mqtt_publisher option"
  cw_clock :: "bool list"
  cw_mosq :: "(int \<times> int) list"
  cw_waits :: "mqtt_wait list"
  cw_responses :: "string list"

text \<open>A lock or unlock: the next result, success when none is given.\<close>

definition mutex_op :: "command_world \<Rightarrow> bool \<times> command_world" where
  "mutex_op w = (case cw_locks w of [] \<Rightarrow> (True, w) | b # bs \<Rightarrow> (b, w\<lparr>cw_locks := bs\<rparr>))"

definition graceful_shutdown_requested :: "command_world \<Rightarrow> bool \<times> command_world" where
  "graceful_shutdown_requested w =
     (case cw_shutdown w of [] \<Rightarrow> (False, w) | b # bs \<Rightarrow> (b, w\<lparr>cw_shutdown := bs\<rparr>))"

abbreviation (input) upd_workers :: "(gateway_workers_t \<Rightarrow> gateway_workers_t) \<Rightarrow> command_world \<Rightarrow> command_world" where
  "upd_workers f w \<equiv> w\<lparr>cw_workers := f (cw_workers w)\<rparr>"

section \<open>Status\<close>

definition gateway_workers_get_status :: "command_world \<Rightarrow> (int \<times> gateway_status_snapshot_t option) \<times> command_world" where
  "gateway_workers_get_status w =
     (let (locked, w1) = mutex_op w in
      if \<not> locked then ((-1, None), w1) else
      let wk = cw_workers w1;
          snapshot = \<lparr>snap_interval_ms = wk_interval_ms wk, snap_collected_count = wk_collected_count wk,
                      snap_collection_paused = wk_collection_paused wk\<rparr>;
          (unlocked, w2) = mutex_op w1
      in if \<not> unlocked then ((-1, Some snapshot), w2) else ((0, Some snapshot), w2))"

definition gateway_workers_set_interval :: "int \<Rightarrow> command_world \<Rightarrow> int \<times> command_world" where
  "gateway_workers_set_interval requested_ms w =
     (if requested_ms < 100 \<or> requested_ms > 60000 then (1, w) else
      let (locked, w1) = mutex_op w in
      if \<not> locked then (-1, w1) else
      let w2 = upd_workers (\<lambda>wk. wk\<lparr>wk_interval_ms := requested_ms\<rparr>) w1;
          (unlocked, w3) = mutex_op w2
      in (if unlocked then 0 else -1, w3))"

definition gateway_workers_set_collection_paused :: "bool \<Rightarrow> command_world \<Rightarrow> int \<times> command_world" where
  "gateway_workers_set_collection_paused paused w =
     (let (locked, w1) = mutex_op w in
      if \<not> locked then (-1, w1) else
      let w2 = upd_workers (\<lambda>wk. wk\<lparr>wk_collection_paused := paused\<rparr>) w1;
          (unlocked, w3) = mutex_op w2
      in (if unlocked then 0 else -1, w3))"

text \<open>This function ignores the results of the mutex calls.\<close>

definition gateway_workers_should_stop :: "command_world \<Rightarrow> bool \<times> command_world" where
  "gateway_workers_should_stop w =
     (let w1 = snd (mutex_op w); requested = wk_stop_requested (cw_workers w1); w2 = snd (mutex_op w1)
      in if requested then (True, w2) else graceful_shutdown_requested w2)"

definition gateway_workers_request_stop :: "bool \<Rightarrow> command_world \<Rightarrow> command_world" where
  "gateway_workers_request_stop fatal w =
     (let w1 = snd (mutex_op w);
          w2 = upd_workers (\<lambda>wk. wk\<lparr>wk_stop_requested := True, wk_fatal_error := (fatal \<or> wk_fatal_error wk)\<rparr>) w1
      in snd (mutex_op w2))"

definition gateway_workers_failed :: "command_world \<Rightarrow> bool \<times> command_world" where
  "gateway_workers_failed w =
     (let w1 = snd (mutex_op w); failed = wk_fatal_error (cw_workers w1) in (failed, snd (mutex_op w1)))"

definition gateway_worker_fail :: "command_world \<Rightarrow> command_world" where
  "gateway_worker_fail w = gateway_workers_request_stop True w"

section \<open>The storage worker's answer\<close>

text \<open>One control request, as the storage worker serves it on the store.\<close>

definition storage_control :: "gateway_storage_control_request_t \<Rightarrow> store_world \<Rightarrow> gateway_storage_control_result_t \<times> store_world" where
  "storage_control req w =
     (case req_kind req of
        GATEWAY_STORAGE_CONTROL_SET_INTERVAL \<Rightarrow>
          (let (r, w1) = outbox_store_save_interval True (req_interval_ms req) w
           in (\<lparr>res_kind = GATEWAY_STORAGE_CONTROL_SET_INTERVAL, res_storage_result = r,
                res_interval_ms = req_interval_ms req, res_stats = zero_stats\<rparr>, w1))
      | GATEWAY_STORAGE_CONTROL_GET_STATS \<Rightarrow>
          (let ((r, stats), w1) = outbox_store_get_stats True w
           in (\<lparr>res_kind = GATEWAY_STORAGE_CONTROL_GET_STATS, res_storage_result = r, res_interval_ms = 0, res_stats = stats\<rparr>, w1)))"

section \<open>Commands\<close>

text \<open>\<open>snprintf\<close> into a buffer of the given size: the length it returns and the text stored.\<close>

definition snprintf_reply :: "nat \<Rightarrow> string \<Rightarrow> int \<times> string" where
  "snprintf_reply reply_size text = (int (length text), take (reply_size - 1) text)"

definition status_text :: "gateway_status_snapshot_t \<Rightarrow> string" where
  "status_text s = ''interval_ms='' @ show_int (snap_interval_ms s) @ '' collected_count='' @
     show_nat (unat (snap_collected_count s)) @ '' collection='' @ (if snap_collection_paused s then ''paused'' else ''running'')"

definition stats_text :: "outbox_store_stats_t \<Rightarrow> string" where
  "stats_text s = ''measurements='' @ show_nat (unat (measurement_total s)) @ '' pending='' @
     show_nat (unat (pending_count s)) @ '' sent='' @ show_nat (unat (sent_count s))"

text \<open>
  The exchange with the storage worker: push a request, then poll for the result until it arrives,
  the queue reports something other than a timeout, or a stop is requested. \<open>None\<close> outside means that
  the polls of the environment are used up and the call still waits.
\<close>

fun await_control :: "(bq_result_t \<times> gateway_storage_control_result_t) list \<Rightarrow> command_world \<Rightarrow>
  (gateway_storage_control_result_t option \<times> command_world) option" where
  "await_control [] w = None"
| "await_control ((queue_result, control_result) # polls) w =
     (let w0 = w\<lparr>cw_control_polls := polls\<rparr> in
      if queue_result = BQ_OK then Some (Some control_result, w0)
      else if queue_result \<noteq> BQ_TIMEOUT then Some (None, w0)
      else let (stop, w1) = gateway_workers_should_stop w0
           in if stop then Some (None, w1) else await_control polls w1)"

definition control_exchange :: "gateway_storage_control_request_t \<Rightarrow> command_world \<Rightarrow>
  (gateway_storage_control_result_t option \<times> command_world) option" where
  "control_exchange req w =
     (case cw_control_push w of
        [] \<Rightarrow> (let w1 = w\<lparr>cw_requested := cw_requested w @ [req]\<rparr> in await_control (cw_control_polls w1) w1)
      | r # rs \<Rightarrow>
          (let w0 = w\<lparr>cw_control_push := rs\<rparr> in
           if r \<noteq> BQ_OK then Some (None, w0)
           else let w1 = w0\<lparr>cw_requested := cw_requested w0 @ [req]\<rparr> in await_control (cw_control_polls w1) w1))"

definition is_set_interval :: "string \<Rightarrow> bool" where
  "is_set_interval command \<longleftrightarrow> command = ''set_interval'' \<or> take 13 command = ''set_interval ''"

definition requested_interval :: "string \<Rightarrow> int option" where
  "requested_interval command =
     (if command = ''set_interval'' then None
      else case parse_interval_ms (Some (drop 13 command)) (Some 0) of
        (rc, Some v) \<Rightarrow> if rc \<noteq> 0 \<or> v < 100 \<or> v > 60000 then None else Some v
      | (rc, None) \<Rightarrow> None)"

text \<open>
  The branches of the command dispatch: the text of the reply, or \<open>None\<close> for the code's \<open>return -1\<close>.
\<close>

type_synonym command_effect = "command_world \<Rightarrow> (string option \<times> command_world) option"

definition status_command :: "(gateway_status_snapshot_t \<Rightarrow> string) \<Rightarrow> command_effect" where
  "status_command show w =
     (case gateway_workers_get_status w of
        ((rc, Some s), w1) \<Rightarrow> if rc \<noteq> 0 then Some (None, w1) else Some (Some (show s), w1)
      | ((rc, None), w1) \<Rightarrow> Some (None, w1))"

definition set_interval_command :: "string \<Rightarrow> command_effect" where
  "set_interval_command command w =
     (case requested_interval command of
        None \<Rightarrow> Some (Some ''error=invalid_interval'', w)
      | Some v \<Rightarrow>
          (case control_exchange \<lparr>req_kind = GATEWAY_STORAGE_CONTROL_SET_INTERVAL, req_interval_ms = v\<rparr> w of
             None \<Rightarrow> None
           | Some (None, w1) \<Rightarrow> Some (None, w1)
           | Some (Some r, w1) \<Rightarrow>
               if res_kind r \<noteq> GATEWAY_STORAGE_CONTROL_SET_INTERVAL then Some (None, w1)
               else if res_storage_result r \<noteq> OUTBOX_STORE_OK then Some (Some ''error=persist_failed'', w1)
               else (case gateway_workers_set_interval (res_interval_ms r) w1 of (rc, w2) \<Rightarrow>
                       if rc \<noteq> 0 then Some (None, w2)
                       else Some (Some (''ok interval_ms='' @ show_int (res_interval_ms r)), w2))))"

definition pause_command :: "bool \<Rightarrow> command_effect" where
  "pause_command collection w =
     (case gateway_workers_set_collection_paused collection w of (rc, w1) \<Rightarrow>
        if rc \<noteq> 0 then Some (None, w1)
        else Some (Some (''ok collection='' @ (if collection then ''paused'' else ''running'')), w1))"

definition stats_command :: command_effect where
  "stats_command w =
     (case control_exchange \<lparr>req_kind = GATEWAY_STORAGE_CONTROL_GET_STATS, req_interval_ms = 0\<rparr> w of
        None \<Rightarrow> None
      | Some (None, w1) \<Rightarrow> Some (None, w1)
      | Some (Some r, w1) \<Rightarrow>
          if res_kind r \<noteq> GATEWAY_STORAGE_CONTROL_GET_STATS then Some (None, w1)
          else if res_storage_result r \<noteq> OUTBOX_STORE_OK then Some (Some ''error=stats_failed'', w1)
          else Some (Some (stats_text (res_stats r)), w1))"

text \<open>\<open>version\<close> is the build's version string.\<close>

definition command_text :: "string \<Rightarrow> string \<Rightarrow> command_effect" where
  "command_text version command w =
     (if command = ''status'' then status_command status_text w
      else if is_set_interval command then set_interval_command command w
      else if command = ''get_config'' then status_command (\<lambda>s. ''interval_ms='' @ show_int (snap_interval_ms s)) w
      else if command = ''pause_collection'' \<or> command = ''resume_collection''
      then pause_command (command = ''pause_collection'') w
      else if command = ''get_storage_stats'' then stats_command w
      else if command = ''get_version'' then Some (Some (''ok version='' @ version), w)
      else Some (Some ''error=unknown_command'', w))"

definition gateway_handle_command ::
  "string \<Rightarrow> string option \<Rightarrow> nat \<Rightarrow> command_world \<Rightarrow> ((int \<times> string) \<times> command_world) option" where
  "gateway_handle_command version command reply_size w =
     (case command of
        None \<Rightarrow> Some ((-1, []), w)
      | Some cmd \<Rightarrow>
          if cmd = [] \<or> reply_size = 0 then Some ((-1, []), w)
          else (case command_text version cmd w of
                  None \<Rightarrow> None
                | Some (None, w1) \<Rightarrow> Some ((-1, []), w1)
                | Some (Some text, w1) \<Rightarrow>
                    (case snprintf_reply reply_size text of (n, reply) \<Rightarrow>
                       Some ((if n < 0 \<or> n \<ge> int reply_size then -1 else 0, reply), w1))))"

definition gateway_execute_command ::
  "string \<Rightarrow> string \<Rightarrow> nat \<Rightarrow> command_world \<Rightarrow> ((int \<times> string) \<times> command_world) option" where
  "gateway_execute_command version command reply_size w =
     (let (locked, w1) = mutex_op w in
      if \<not> locked then Some ((-1, []), w1)
      else case gateway_handle_command version (Some command) reply_size w1 of
             None \<Rightarrow> None
           | Some ((rc, reply), w2) \<Rightarrow>
               (let (unlocked, w3) = mutex_op w2 in Some ((if unlocked then rc else -1, reply), w3)))"

section \<open>Frame lemmas\<close>

lemma mutex_opE:
  assumes "mutex_op w = (b, w')"
  obtains ls where "w' = w\<lparr>cw_locks := ls\<rparr>"
proof -
  have "w' = w\<lparr>cw_locks := cw_locks w'\<rparr>" using assms by (auto simp: mutex_op_def split: list.splits)
  then show ?thesis by (rule that)
qed

lemma mutex_op_fields [simp]:
  "cw_workers (snd (mutex_op w)) = cw_workers w" "cw_requested (snd (mutex_op w)) = cw_requested w"
  "cw_publisher (snd (mutex_op w)) = cw_publisher w" "cw_responses (snd (mutex_op w)) = cw_responses w"
  by (simp_all add: mutex_op_def split: list.split)

lemma worker_fail_workers [simp]:
  "cw_workers (gateway_worker_fail w) = (cw_workers w)\<lparr>wk_stop_requested := True, wk_fatal_error := True\<rparr>"
  "cw_publisher (gateway_worker_fail w) = cw_publisher w" "cw_responses (gateway_worker_fail w) = cw_responses w"
  by (simp_all add: gateway_worker_fail_def gateway_workers_request_stop_def Let_def)

lemma mutex_op_free [simp]: "cw_locks w = [] \<Longrightarrow> mutex_op w = (True, w)"
  by (simp add: mutex_op_def)

text \<open>The updates of the environment a call may make without touching the shared state.\<close>

definition env_step :: "command_world \<Rightarrow> command_world \<Rightarrow> bool" where
  "env_step w w' \<longleftrightarrow>
     cw_workers w' = cw_workers w \<and> cw_requested w' = cw_requested w \<and> cw_publisher w' = cw_publisher w \<and>
     cw_responses w' = cw_responses w"

lemma env_step_refl [simp]: "env_step w w"
  by (simp add: env_step_def)

lemma env_step_trans: "env_step a b \<Longrightarrow> env_step b c \<Longrightarrow> env_step a c"
  by (simp add: env_step_def)

lemma env_step_mutex: "mutex_op w = (b, w') \<Longrightarrow> env_step w w'"
  by (auto simp: env_step_def elim: mutex_opE)

lemma env_step_mutex_snd [simp]: "env_step w (snd (mutex_op w))"
  by (rule env_step_mutex) (rule prod.collapse [symmetric])

lemma env_step_shutdown: "graceful_shutdown_requested w = (b, w') \<Longrightarrow> env_step w w'"
  by (auto simp: env_step_def graceful_shutdown_requested_def split: list.splits)

lemma env_step_should_stop: "gateway_workers_should_stop w = (b, w') \<Longrightarrow> env_step w w'"
  by (auto simp: gateway_workers_should_stop_def Let_def split: if_splits
      dest: env_step_shutdown intro: env_step_trans [OF env_step_trans] env_step_mutex_snd)

lemma env_step_polls [simp]: "env_step w (w\<lparr>cw_control_polls := ps\<rparr>)"
  by (simp add: env_step_def)

lemma get_status_cases:
  assumes "gateway_workers_get_status w = ((rc, snap), w')"
  shows "env_step w w' \<and>
    (rc = 0 \<longrightarrow> snap = Some \<lparr>snap_interval_ms = wk_interval_ms (cw_workers w), snap_collected_count = wk_collected_count (cw_workers w),
       snap_collection_paused = wk_collection_paused (cw_workers w)\<rparr>)"
  using assms
  by (auto simp: gateway_workers_get_status_def Let_def env_step_def split: prod.splits if_splits elim!: mutex_opE)

lemma set_interval_cases:
  assumes "gateway_workers_set_interval v w = (rc, w')"
  shows "(env_step w w' \<and> rc \<noteq> 0) \<or>
    (100 \<le> v \<and> v \<le> 60000 \<and> env_step (upd_workers (\<lambda>wk. wk\<lparr>wk_interval_ms := v\<rparr>) w) w')"
  using assms
  by (auto simp: gateway_workers_set_interval_def Let_def env_step_def split: prod.splits if_splits elim!: mutex_opE)

lemma set_paused_cases:
  assumes "gateway_workers_set_collection_paused v w = (rc, w')"
  shows "(env_step w w' \<and> rc \<noteq> 0) \<or> env_step (upd_workers (\<lambda>wk. wk\<lparr>wk_collection_paused := v\<rparr>) w) w'"
  using assms
  by (auto simp: gateway_workers_set_collection_paused_def Let_def env_step_def split: prod.splits if_splits elim!: mutex_opE)

lemma await_control_cases:
  "await_control polls w = Some (r, w') \<Longrightarrow> env_step w w' \<and> (\<forall>c. r = Some c \<longrightarrow> (BQ_OK, c) \<in> set polls)"
proof (induction polls arbitrary: w)
  case (Cons poll polls)
  obtain q c where poll: "poll = (q, c)" by fastforce
  obtain stop w1 where stop: "gateway_workers_should_stop (w\<lparr>cw_control_polls := polls\<rparr>) = (stop, w1)" by fastforce
  then have "env_step w w1" using env_step_should_stop env_step_trans env_step_polls by blast
  then show ?case
    using Cons.prems poll stop Cons.IH [of w1]
    by (auto simp: Let_def split: if_splits intro: env_step_trans)
qed simp

lemma control_exchange_cases:
  assumes "control_exchange req w = Some (r, w')"
  shows "(r = None \<and> env_step w w') \<or>
    (env_step (w\<lparr>cw_requested := cw_requested w @ [req]\<rparr>) w' \<and> (\<forall>c. r = Some c \<longrightarrow> (BQ_OK, c) \<in> set (cw_control_polls w)))"
  using assms
  by (auto simp: control_exchange_def Let_def env_step_def split: list.splits if_splits
      dest!: await_control_cases)

section \<open>What a command may change\<close>

text \<open>
  The effect of a command on the shared state: none, the interval of an accepted \<open>set_interval\<close> that the
  storage worker confirmed, or the pause flag.
\<close>

definition interval_ok :: "gateway_workers_t \<Rightarrow> bool" where
  "interval_ok wk \<longleftrightarrow> 100 \<le> wk_interval_ms wk \<and> wk_interval_ms wk \<le> 60000"

definition confirmed :: "command_world \<Rightarrow> int \<Rightarrow> bool" where
  "confirmed w v \<longleftrightarrow>
     (\<exists>c. (BQ_OK, c) \<in> set (cw_control_polls w) \<and> res_kind c = GATEWAY_STORAGE_CONTROL_SET_INTERVAL \<and>
        res_storage_result c = OUTBOX_STORE_OK \<and> res_interval_ms c = v)"

definition command_effect_ok :: "string \<Rightarrow> command_world \<Rightarrow> command_world \<Rightarrow> bool" where
  "command_effect_ok command w w' \<longleftrightarrow>
     (cw_workers w' = cw_workers w \<or>
      (\<exists>v. is_set_interval command \<and> 100 \<le> v \<and> v \<le> 60000 \<and> confirmed w v \<and> cw_workers w' = (cw_workers w)\<lparr>wk_interval_ms := v\<rparr>) \<or>
      (\<exists>b. command = (if b then ''pause_collection'' else ''resume_collection'') \<and>
         cw_workers w' = (cw_workers w)\<lparr>wk_collection_paused := b\<rparr>)) \<and>
     cw_publisher w' = cw_publisher w \<and> cw_responses w' = cw_responses w"

lemma env_step_effect: "env_step w w' \<Longrightarrow> command_effect_ok command w w'"
  by (simp add: env_step_def command_effect_ok_def)

lemma status_command_cases:
  assumes "status_command show w = Some (r, w')"
  shows "env_step w w'" and "r = Some t \<Longrightarrow> t = show \<lparr>snap_interval_ms = wk_interval_ms (cw_workers w),
      snap_collected_count = wk_collected_count (cw_workers w), snap_collection_paused = wk_collection_paused (cw_workers w)\<rparr>"
  using assms by (auto simp: status_command_def split: prod.splits option.splits if_splits dest!: get_status_cases)

lemma set_interval_command_cases:
  assumes "set_interval_command command w = Some (r, w')" and "is_set_interval command"
  shows "command_effect_ok command w w'"
proof (cases "requested_interval command")
  case None
  then show ?thesis using assms by (simp add: set_interval_command_def env_step_effect)
next
  case (Some v)
  with assms(1) obtain c w1 where ex: "control_exchange \<lparr>req_kind = GATEWAY_STORAGE_CONTROL_SET_INTERVAL, req_interval_ms = v\<rparr> w = Some (c, w1)"
    by (auto simp: set_interval_command_def split: option.splits)
  have w1: "cw_workers w1 = cw_workers w" "cw_publisher w1 = cw_publisher w" "cw_responses w1 = cw_responses w"
    "\<And>x. c = Some x \<Longrightarrow> (BQ_OK, x) \<in> set (cw_control_polls w)"
    using control_exchange_cases [OF ex] by (auto simp: env_step_def)
  consider "w' = w1" | x rc where "c = Some x" "res_kind x = GATEWAY_STORAGE_CONTROL_SET_INTERVAL" "res_storage_result x = OUTBOX_STORE_OK"
      "gateway_workers_set_interval (res_interval_ms x) w1 = (rc, w')"
    using assms(1) Some ex by (auto simp: set_interval_command_def split: option.splits if_splits prod.splits)
  then show ?thesis
  proof cases
    case 1
    then show ?thesis using w1 by (simp add: command_effect_ok_def)
  next
    case 2
    from set_interval_cases [OF 2(4)] show ?thesis
    proof (elim disjE conjE)
      assume "env_step w1 w'"
      then show ?thesis using w1 by (simp add: command_effect_ok_def env_step_def)
    next
      assume v: "100 \<le> res_interval_ms x" "res_interval_ms x \<le> 60000"
        and "env_step (upd_workers (\<lambda>wk. wk\<lparr>wk_interval_ms := res_interval_ms x\<rparr>) w1) w'"
      then have "cw_workers w' = (cw_workers w)\<lparr>wk_interval_ms := res_interval_ms x\<rparr>"
          "cw_publisher w' = cw_publisher w" "cw_responses w' = cw_responses w"
        using w1 by (simp_all add: env_step_def)
      moreover have "confirmed w (res_interval_ms x)" using w1(4) 2 by (auto simp: confirmed_def)
      ultimately show ?thesis using v assms(2) unfolding command_effect_ok_def by blast
    qed
  qed
qed

lemma pause_command_cases:
  assumes "pause_command b w = Some (r, w')" and "command = (if b then ''pause_collection'' else ''resume_collection'')"
  shows "command_effect_ok command w w'"
proof -
  obtain rc where rc: "gateway_workers_set_collection_paused b w = (rc, w')"
    using assms(1) by (auto simp: pause_command_def split: prod.splits if_splits)
  from set_paused_cases [OF rc] show ?thesis
  proof
    assume "env_step (upd_workers (\<lambda>wk. wk\<lparr>wk_collection_paused := b\<rparr>) w) w'"
    then have "cw_workers w' = (cw_workers w)\<lparr>wk_collection_paused := b\<rparr>" "cw_publisher w' = cw_publisher w"
        "cw_responses w' = cw_responses w" by (simp_all add: env_step_def)
    then show ?thesis using assms(2) unfolding command_effect_ok_def by blast
  qed (simp add: env_step_effect)
qed

lemma stats_command_cases:
  assumes "stats_command w = Some (r, w')"
  shows "command_effect_ok command w w'"
proof -
  obtain c where c: "control_exchange \<lparr>req_kind = GATEWAY_STORAGE_CONTROL_GET_STATS, req_interval_ms = 0\<rparr> w = Some (c, w')"
    using assms by (auto simp: stats_command_def split: option.splits if_splits)
  show ?thesis using control_exchange_cases [OF c] by (auto simp: command_effect_ok_def env_step_def)
qed

lemma command_text_effect:
  assumes "command_text version command w = Some (r, w')"
  shows "command_effect_ok command w w'"
proof -
  consider (status) f where "status_command f w = Some (r, w')"
    | (set) "is_set_interval command" "set_interval_command command w = Some (r, w')"
    | (pause) b where "pause_command b w = Some (r, w')" "command = (if b then ''pause_collection'' else ''resume_collection'')"
    | (stats) "stats_command w = Some (r, w')" | (same) "w' = w"
    using assms by (cases "command = ''pause_collection''") (simp_all add: command_text_def split: if_splits)
  then show ?thesis
    by cases (auto intro: env_step_effect status_command_cases(1) set_interval_command_cases pause_command_cases stats_command_cases)
qed

lemma handle_command_cases:
  assumes "gateway_handle_command version command n w = Some ((rc, reply), w')"
  shows "(rc = -1 \<and> w' = w) \<or> (\<exists>cmd r. command = Some cmd \<and> cmd \<noteq> [] \<and> command_text version cmd w = Some (r, w') \<and>
    (rc = 0 \<longrightarrow> (r = Some reply \<and> length reply < n)) \<and> (rc = 0 \<or> rc = -1))"
  using assms
  by (auto simp: gateway_handle_command_def snprintf_reply_def split: option.splits if_splits)

section \<open>Replies fit their buffer\<close>

lemma show_u64_length: "length (show_nat (unat (x :: u64))) \<le> 20"
proof -
  have "unat x < 2 ^ 64" using unsigned_less [of x, where ?'a = nat] by simp
  then have "unat x < 10 ^ Suc 19" by simp
  then show ?thesis using show_nat_length [of "unat x" 19] by simp
qed

lemma show_interval_length:
  assumes "100 \<le> v" "v \<le> 60000" shows "length (show_int v) \<le> 5"
proof -
  have "nat v < 10 ^ Suc 4" using assms by simp
  then show ?thesis using show_nat_length [of "nat v" 4] assms by (simp add: show_int_def)
qed

lemma reply_text_length:
  assumes "command_text version command w = Some (Some t, w')" and "interval_ok (cw_workers w)" and "length version \<le> 100"
  shows "length t \<le> 111"
proof -
  let ?snap = "\<lparr>snap_interval_ms = wk_interval_ms (cw_workers w), snap_collected_count = wk_collected_count (cw_workers w),
      snap_collection_paused = wk_collection_paused (cw_workers w)\<rparr>"
  have iv: "length (show_int (wk_interval_ms (cw_workers w))) \<le> 5"
    using assms(2) by (intro show_interval_length) (simp_all add: interval_ok_def)
  have stats_len: "length (stats_text x) \<le> 88" for x
    using show_u64_length [of "measurement_total x"] show_u64_length [of "pending_count x"] show_u64_length [of "sent_count x"]
    by (simp add: stats_text_def)
  consider (status) "status_command status_text w = Some (Some t, w')"
    | (config) "status_command (\<lambda>s. ''interval_ms='' @ show_int (snap_interval_ms s)) w = Some (Some t, w')"
    | (set) "set_interval_command command w = Some (Some t, w')"
    | (pause) b where "pause_command b w = Some (Some t, w')"
    | (stats) "stats_command w = Some (Some t, w')"
    | (fixed) "t = ''ok version='' @ version \<or> t = ''error=unknown_command''"
    using assms(1) by (simp add: command_text_def split: if_splits)
  then show ?thesis
  proof cases
    case status
    then have "t = status_text ?snap" by (rule status_command_cases(2)) simp
    then show ?thesis using iv show_u64_length [of "wk_collected_count (cw_workers w)"] by (simp add: status_text_def)
  next
    case config
    then have "t = ''interval_ms='' @ show_int (wk_interval_ms (cw_workers w))" using status_command_cases(2) by fastforce
    then show ?thesis using iv by simp
  next
    case set
    then consider "t = ''error=invalid_interval''" | "t = ''error=persist_failed''"
      | v w1 where "t = ''ok interval_ms='' @ show_int v" "gateway_workers_set_interval v w1 = (0, w')"
      by (auto simp: set_interval_command_def split: option.splits if_splits prod.splits)
    then show ?thesis
    proof cases
      case (3 v w1)
      then show ?thesis using set_interval_cases [OF 3(2)] show_interval_length [of v] by auto
    qed simp_all
  next
    case (pause b)
    then show ?thesis by (auto simp: pause_command_def split: prod.splits if_splits)
  next
    case stats
    then have "t = ''error=stats_failed'' \<or> (\<exists>x. t = stats_text x)"
      by (auto simp: stats_command_def split: option.splits if_splits)
    then show ?thesis
    proof
      assume "\<exists>x. t = stats_text x"
      then obtain x where "t = stats_text x" by blast
      then show ?thesis using stats_len [of x] by simp
    qed simp
  next
    case fixed
    then show ?thesis using assms(3) by auto
  qed
qed

text \<open>
  A reply is never truncated: with a version text of at most 100 characters and an interval within
  its limits, the text of every reply to every command is at most 111 characters long, so that
  \<open>gateway_handle_command\<close> on the 128-byte buffer of its callers succeeds exactly when the command
  itself does, and hands out the complete text.
\<close>

theorem command_reply_fits:
  assumes "interval_ok (cw_workers w)" and "length version \<le> 100" and "command \<noteq> []"
  shows "case command_text version command w of
           None \<Rightarrow> gateway_handle_command version (Some command) 128 w = None
         | Some (None, w') \<Rightarrow> gateway_handle_command version (Some command) 128 w = Some ((-1, []), w')
         | Some (Some t, w') \<Rightarrow> length t \<le> 111 \<and> gateway_handle_command version (Some command) 128 w = Some ((0, t), w')"
proof (cases "command_text version command w")
  case (Some a)
  obtain r w' where a: "a = (r, w')" by fastforce
  show ?thesis
  proof (cases r)
    case (Some t)
    then show ?thesis
      using reply_text_length [of version command w t w'] \<open>command_text version command w = Some a\<close> a assms
      by (simp add: gateway_handle_command_def snprintf_reply_def)
  qed (use a Some assms(3) in \<open>simp add: gateway_handle_command_def\<close>)
qed (use assms(3) in \<open>simp add: gateway_handle_command_def\<close>)

definition demo_command_world :: command_world where
  "demo_command_world =
     \<lparr>cw_workers = \<lparr>wk_stop_requested = False, wk_fatal_error = False, wk_collected_count = 42, wk_interval_ms = 1000,
        wk_collection_paused = False, wk_dedup = empty_cache\<rparr>,
      cw_locks = [], cw_shutdown = [], cw_control_push = [],
      cw_control_polls = [], cw_requested = [], cw_publisher = None, cw_clock = [], cw_mosq = [], cw_waits = [], cw_responses = []\<rparr>"

theorem command_reply_fits_witness:
  "\<exists>w'. gateway_handle_command ''1.0'' (Some ''get_version'') 128 demo_command_world = Some ((0, ''ok version=1.0''), w')"
proof -
  have "interval_ok (cw_workers demo_command_world)" by (simp add: interval_ok_def demo_command_world_def)
  then show ?thesis
    using command_reply_fits [of demo_command_world "''1.0''" "''get_version''"]
    by (simp add: command_text_def is_set_interval_def)
qed

section \<open>The interval\<close>



text \<open>A run of commands; each one meets its own environment, the shared state is passed on.\<close>

fun run_commands :: "string \<Rightarrow> (string \<times> command_world) list \<Rightarrow> gateway_workers_t \<Rightarrow> gateway_workers_t option" where
  "run_commands version [] wk = Some wk"
| "run_commands version ((command, env) # rest) wk =
     (case gateway_execute_command version command 128 (env\<lparr>cw_workers := wk\<rparr>) of
        None \<Rightarrow> None | Some (_, w') \<Rightarrow> run_commands version rest (cw_workers w'))"

lemma execute_effect:
  assumes "gateway_execute_command version command n w = Some ((rc, reply), w')"
  shows "command_effect_ok command w w'"
proof -
  have *: "command_effect_ok command w w''" if "env_step w w1" "command_effect_ok command w1 w2" "env_step w2 w''"
    "cw_control_polls w1 = cw_control_polls w" for w1 w2 w''
    using that unfolding command_effect_ok_def env_step_def confirmed_def by auto
  obtain l w1 where l: "mutex_op w = (l, w1)" by fastforce
  have polls: "cw_control_polls w1 = cw_control_polls w" using l by (auto elim: mutex_opE)
  show ?thesis
  proof (cases "l \<and> gateway_handle_command version (Some command) n w1 \<noteq> None")
    case True
    then obtain rc2 reply2 w2 where h: "gateway_handle_command version (Some command) n w1 = Some ((rc2, reply2), w2)" by auto
    have e: "command_effect_ok command w1 w2"
      using handle_command_cases [OF h] by (auto intro: command_text_effect env_step_effect)
    have "env_step w2 w'" using assms l True h by (auto simp: gateway_execute_command_def Let_def split: prod.splits dest: env_step_mutex)
    then show ?thesis using * [OF env_step_mutex [OF l] e _ polls] by blast
  next
    case False
    then have "w' = w1"
      using assms l by (auto simp: gateway_execute_command_def split: if_splits option.splits)
    then show ?thesis using env_step_effect env_step_mutex [OF l] by blast
  qed
qed

text \<open>
  What commands may change, over every run of commands on every environment: the interval stays
  within 100 to 60000 ms, it moves only to a value the storage worker confirmed as stored, and a
  command never touches the stop flags, the sample counter or the cache of remote answers; pausing
  changes only by the two commands that name it.
\<close>

theorem commands_keep_status:
  assumes "run_commands version cmds wk = Some wk'" and "interval_ok wk"
  shows "interval_ok wk' \<and>
    (wk_interval_ms wk' = wk_interval_ms wk \<or> (\<exists>ce\<in>set cmds. is_set_interval (fst ce) \<and> confirmed (snd ce) (wk_interval_ms wk'))) \<and>
    (wk_collection_paused wk' = wk_collection_paused wk \<or>
      (\<exists>env. (if wk_collection_paused wk' then ''pause_collection'' else ''resume_collection'', env) \<in> set cmds)) \<and>
    wk_stop_requested wk' = wk_stop_requested wk \<and> wk_fatal_error wk' = wk_fatal_error wk \<and>
    wk_collected_count wk' = wk_collected_count wk \<and> wk_dedup wk' = wk_dedup wk"
  using assms
proof (induction cmds arbitrary: wk)
  case (Cons ce cmds)
  obtain c env where ce: "ce = (c, env)" by fastforce
  with Cons.prems obtain rc reply w' where ex: "gateway_execute_command version c 128 (env\<lparr>cw_workers := wk\<rparr>) = Some ((rc, reply), w')"
    and rest: "run_commands version cmds (cw_workers w') = Some wk'" by (auto split: option.splits)
  have eff: "command_effect_ok c (env\<lparr>cw_workers := wk\<rparr>) w'" using ex by (rule execute_effect)
  have conf: "confirmed (env\<lparr>cw_workers := wk\<rparr>) v = confirmed env v" for v by (simp add: confirmed_def)
  from eff consider (same) "cw_workers w' = wk"
    | (interval) v where "is_set_interval c" "100 \<le> v" "v \<le> 60000" "confirmed env v" "cw_workers w' = wk\<lparr>wk_interval_ms := v\<rparr>"
    | (pause) b where "c = (if b then ''pause_collection'' else ''resume_collection'')" "cw_workers w' = wk\<lparr>wk_collection_paused := b\<rparr>"
    unfolding command_effect_ok_def conf by auto
  then show ?case
  proof cases
    case same
    then show ?thesis using Cons.IH [of wk] rest Cons.prems(2) by auto
  next
    case interval
    then show ?thesis using Cons.IH [OF rest] by (auto simp: ce interval_ok_def)
  next
    case pause
    then have ok: "interval_ok (cw_workers w')" using Cons.prems(2) by (simp add: interval_ok_def)
    from Cons.IH [OF rest ok] show ?thesis using pause by (cases b) (auto simp: ce)
  qed
qed simp

theorem commands_keep_status_witness:
  "\<exists>wk'. run_commands ''1.0'' [(''pause_collection'', demo_command_world)] (cw_workers demo_command_world) = Some wk' \<and>
     interval_ok wk' \<and> wk_dedup wk' = empty_cache"
proof -
  let ?wk = "(cw_workers demo_command_world)\<lparr>wk_collection_paused := True\<rparr>"
  have run: "run_commands ''1.0'' [(''pause_collection'', demo_command_world)] (cw_workers demo_command_world) = Some ?wk"
    by (simp add: gateway_execute_command_def gateway_handle_command_def command_text_def is_set_interval_def pause_command_def
        gateway_workers_set_collection_paused_def demo_command_world_def snprintf_reply_def)
  have "interval_ok (cw_workers demo_command_world)" by (simp add: interval_ok_def demo_command_world_def)
  from commands_keep_status [OF run this] run show ?thesis by (simp add: demo_command_world_def)
qed

end
