(* ===== verification/Command_Socket.thy ===== *)
theory Command_Socket
  imports Gateway_Commands Net_Socket
begin

text \<open>
  The local command socket of \<^verbatim>\<open>src/core/gateway_workers.c\<close>: reading a command line, sending the reply,
  serving one client, and the worker that accepts clients. What the socket calls return is given by
  scripts; a script that is used up stands for a call that still blocks.
\<close>

section \<open>Reading a line\<close>

text \<open>\<open>read\<close> of one byte: a byte, end of file (\<open>Ret None\<close>), interruption or failure. The result is the
  return value and the bytes stored in the buffer.\<close>

type_synonym byte_script = "char option sys list"

fun recv_line_loop :: "nat \<Rightarrow> string \<Rightarrow> byte_script \<Rightarrow> command_world \<Rightarrow> ((int \<times> string) \<times> byte_script \<times> command_world) option" where
  "recv_line_loop capacity line [] w =
     (let (stop, w1) = gateway_workers_should_stop w in
      if stop \<or> length line + 1 \<ge> capacity then Some ((-1, line), [], w1) else None)"
| "recv_line_loop capacity line (r # script) w =
     (let (stop, w1) = gateway_workers_should_stop w in
      if stop \<or> length line + 1 \<ge> capacity then Some ((-1, line), r # script, w1)
      else case r of
             Ret (Some c) \<Rightarrow>
               if c = CHR 0x0A then Some ((0, line), script, w1) else recv_line_loop capacity (line @ [c]) script w1
           | Ret None \<Rightarrow> Some ((-1, line), script, w1)
           | EINTR \<Rightarrow> recv_line_loop capacity line script w1
           | Fail \<Rightarrow> Some ((-1, line), script, w1))"

definition recv_line :: "int \<Rightarrow> nat \<Rightarrow> byte_script \<Rightarrow> command_world \<Rightarrow> ((int \<times> string) \<times> byte_script \<times> command_world) option" where
  "recv_line fd capacity script w =
     (if fd < 0 \<or> capacity = 0 then Some ((-1, []), script, w) else recv_line_loop capacity [] script w)"

section \<open>Sending a text\<close>

fun send_all_loop :: "string \<Rightarrow> nat \<Rightarrow> nat sys list \<Rightarrow> command_world \<Rightarrow> ((int \<times> string) \<times> nat sys list \<times> command_world) option" where
  "send_all_loop data sent [] w =
     (if sent < length data
      then (let (stop, w1) = gateway_workers_should_stop w in if stop then Some ((-1, take sent data), [], w1) else None)
      else Some ((0, take sent data), [], w))"
| "send_all_loop data sent (r # script) w =
     (if sent < length data
      then (let (stop, w1) = gateway_workers_should_stop w in
            if stop then Some ((-1, take sent data), r # script, w1)
            else case r of
                   Ret n \<Rightarrow> if n > 0 then send_all_loop data (sent + min n (length data - sent)) script w1
                            else Some ((-1, take sent data), script, w1)
                 | EINTR \<Rightarrow> send_all_loop data sent script w1
                 | Fail \<Rightarrow> Some ((-1, take sent data), script, w1))
      else Some ((0, take sent data), r # script, w))"

definition send_all :: "string \<Rightarrow> nat sys list \<times> command_world \<Rightarrow> ((int \<times> string) \<times> nat sys list \<times> command_world) option" where
  "send_all data s = send_all_loop data 0 (fst s) (snd s)"

section \<open>Serving a client\<close>

text \<open>A client: its descriptor, the results of the two \<open>setsockopt\<close> calls of \<open>set_io_timeout\<close>, and
  what its reads and writes return.\<close>

record client =
  cl_fd :: int
  cl_timeouts :: "int \<times> int"
  cl_input :: byte_script
  cl_output :: "nat sys list"

definition set_io_timeout :: "int \<times> int \<Rightarrow> int" where
  "set_io_timeout rcs = (if fst rcs = -1 then -1 else if snd rcs = -1 then -1 else 0)"

lemma set_io_timeout_cases [simp]: "set_io_timeout (0, 0) = 0" "set_io_timeout (-1, n) = -1" "set_io_timeout (n, -1) = -1"
  by (simp_all add: set_io_timeout_def)

text \<open>The result is the return value and the text that reached the client. The end of the function sends
  the reply and a line end.\<close>

definition send_reply :: "string \<Rightarrow> nat sys list \<times> command_world \<Rightarrow> ((int \<times> string) \<times> nat sys list \<times> command_world) option" where
  "send_reply reply s =
     (case send_all reply s of
        None \<Rightarrow> None
      | Some ((rc, wire), s1) \<Rightarrow>
          if rc = -1 then Some ((-1, wire), s1)
          else (case send_all [CHR 0x0A] s1 of
                  None \<Rightarrow> None
                | Some ((rc, wire2), s2) \<Rightarrow> Some ((if rc = -1 then -1 else 0, wire @ wire2), s2)))"

definition gateway_serve_client :: "string \<Rightarrow> client \<Rightarrow> command_world \<Rightarrow> ((int \<times> string) \<times> command_world) option" where
  "gateway_serve_client version c w =
     (if cl_fd c < 0 \<or> set_io_timeout (cl_timeouts c) = -1 then Some ((-1, []), w)
      else case recv_line (cl_fd c) 64 (cl_input c) w of
        None \<Rightarrow> None
      | Some ((rc, line), _, w1) \<Rightarrow>
          if rc \<noteq> 0 then Some ((-1, []), w1) else
          let (stop, w2) = gateway_workers_should_stop w1 in
          if stop then Some ((-1, []), w2)
          else (case gateway_execute_command version (cstr line) 128 w2 of
                  None \<Rightarrow> None
                | Some ((rc, reply), w3) \<Rightarrow>
                    if rc = -1 then Some ((-1, []), w3)
                    else map_option (\<lambda>(res, s). (res, snd s)) (send_reply reply (cl_output c, w3))))"

section \<open>The worker\<close>

datatype accept_result = Accepted client | AcceptRetry | AcceptFailed

text \<open>One return of \<open>poll\<close>: an error, an interruption, no event, or the event bits of the listener with the
  result of the \<open>accept\<close> that may follow.\<close>

datatype poll_result = PollFailed | PollEintr | PollTimeout | PollEvents bool bool accept_result

record listener_world =
  lw_commands :: command_world
  lw_listen_open :: bool
  lw_path_bound :: bool
  lw_open_clients :: "int list"
  lw_answers :: "(int \<times> string) list"

abbreviation (input) lw_fail :: "listener_world \<Rightarrow> listener_world" where
  "lw_fail l \<equiv> l\<lparr>lw_commands := gateway_worker_fail (lw_commands l)\<rparr>"

text \<open>From \<open>accept\<close> to \<open>close\<close>; the second \<open>should_stop\<close> only decides whether a message is printed.\<close>

definition attend_client :: "string \<Rightarrow> client \<Rightarrow> listener_world \<Rightarrow> listener_world option" where
  "attend_client version c l =
     (let l0 = l\<lparr>lw_open_clients := cl_fd c # lw_open_clients l\<rparr>;
          (stop, w1) = gateway_workers_should_stop (lw_commands l0);
          served = (if stop then Some (lw_answers l0, w1)
                    else map_option (\<lambda>((rc, wire), w2).
                           (lw_answers l0 @ [(rc, wire)], if rc \<noteq> 0 then snd (gateway_workers_should_stop w2) else w2))
                         (gateway_serve_client version c w1))
      in map_option (\<lambda>(answers, w3).
           l0\<lparr>lw_commands := w3, lw_answers := answers, lw_open_clients := remove1 (cl_fd c) (lw_open_clients l0)\<rparr>) served)"

text \<open>\<open>None\<close> while the worker is still serving.\<close>

fun command_loop :: "string \<Rightarrow> poll_result list \<Rightarrow> listener_world \<Rightarrow> listener_world option" where
  "command_loop version [] l =
     (let (stop, w1) = gateway_workers_should_stop (lw_commands l); l1 = l\<lparr>lw_commands := w1\<rparr>
      in if stop then Some l1 else None)"
| "command_loop version (p # polls) l =
     (let (stop, w1) = gateway_workers_should_stop (lw_commands l); l1 = l\<lparr>lw_commands := w1\<rparr> in
      if stop then Some l1 else
      case p of
        PollEintr \<Rightarrow> command_loop version polls l1
      | PollFailed \<Rightarrow> Some (lw_fail l1)
      | PollTimeout \<Rightarrow>
          (let (stop, w2) = gateway_workers_should_stop w1; l2 = l1\<lparr>lw_commands := w2\<rparr>
           in if stop then Some l2 else command_loop version polls l2)
      | PollEvents err readable accepted \<Rightarrow>
          (let (stop, w2) = gateway_workers_should_stop w1; l2 = l1\<lparr>lw_commands := w2\<rparr> in
           if stop then Some l2
           else if err then Some (lw_fail l2)
           else if \<not> readable then command_loop version polls l2
           else case accepted of
                  AcceptRetry \<Rightarrow> command_loop version polls l2
                | AcceptFailed \<Rightarrow> Some (lw_fail l2)
                | Accepted c \<Rightarrow>
                    (case attend_client version c l2 of None \<Rightarrow> None
                     | Some l3 \<Rightarrow> command_loop version polls l3)))"

text \<open>The results of the set-up calls and of \<open>unlink\<close> at the end.\<close>

record command_setup =
  cs_socket_ok :: bool
  cs_path_length :: nat
  cs_bind_ok :: bool
  cs_listen_ok :: bool
  cs_nonblock_ok :: bool
  cs_unlink_ok :: bool

definition command_cleanup :: "command_setup \<Rightarrow> listener_world \<Rightarrow> listener_world" where
  "command_cleanup cs l =
     (let l1 = l\<lparr>lw_listen_open := False\<rparr> in
      if lw_path_bound l1
      then if cs_unlink_ok cs then l1\<lparr>lw_path_bound := False\<rparr> else lw_fail l1
      else l1)"

definition gateway_command_worker :: "string \<Rightarrow> command_setup \<Rightarrow> poll_result list \<Rightarrow> listener_world \<Rightarrow> listener_world option" where
  "gateway_command_worker version cs polls l =
     (if \<not> cs_socket_ok cs then Some (lw_fail l) else
      let l1 = l\<lparr>lw_listen_open := True, lw_path_bound := False\<rparr> in
      if cs_path_length cs \<ge> 108 then Some (command_cleanup cs (lw_fail l1))
      else if \<not> cs_bind_ok cs then Some (command_cleanup cs (lw_fail l1))
      else let l2 = l1\<lparr>lw_path_bound := True\<rparr> in
           if \<not> cs_listen_ok cs \<or> \<not> cs_nonblock_ok cs then Some (command_cleanup cs (lw_fail l2))
           else map_option (command_cleanup cs) (command_loop version polls l2))"

section \<open>Lemmas on the loops\<close>

text \<open>The bytes a prefix of the script delivered.\<close>

definition delivered :: "byte_script \<Rightarrow> string" where
  "delivered used = concat (map (\<lambda>r. case r of Ret (Some c) \<Rightarrow> [c] | _ \<Rightarrow> []) used)"

lemma delivered_simps [simp]:
  "delivered [] = []" "delivered (Ret (Some c) # rs) = c # delivered rs" "delivered (Ret None # rs) = delivered rs"
  "delivered (EINTR # rs) = delivered rs" "delivered (Fail # rs) = delivered rs"
  by (simp_all add: delivered_def)

lemma recv_line_loop_cases:
  "recv_line_loop capacity line script w = Some ((rc, buf), rest, w') \<Longrightarrow> length line < capacity \<Longrightarrow> CHR 0x0A \<notin> set line \<Longrightarrow>
   env_step w w' \<and> (rc = 0 \<or> rc = -1) \<and> CHR 0x0A \<notin> set buf \<and> length buf < capacity \<and> (rc = 0 \<longrightarrow> length buf + 1 < capacity) \<and>
   (\<exists>used. script = used @ rest \<and> line @ delivered used = buf @ (if rc = 0 then [CHR 0x0A] else []))"
proof (induction script arbitrary: line w)
  case Nil
  then show ?case by (auto simp: Let_def split: prod.splits if_splits dest: env_step_should_stop)
next
  case (Cons r script)
  obtain stop w1 where st: "gateway_workers_should_stop w = (stop, w1)" by fastforce
  have e: "env_step w w1" using st by (rule env_step_should_stop)
  show ?case
  proof (cases "stop \<or> length line + 1 \<ge> capacity")
    case True
    then show ?thesis using Cons.prems st e by (intro conjI exI [of _ "[]"]) (auto simp: Let_def)
  next
    case False
    note step = Cons.prems(1) [unfolded recv_line_loop.simps(2) Let_def st prod.case, simplified False if_False]
    consider (byte) c where "r = Ret (Some c)" "c \<noteq> CHR 0x0A" | (newline) "r = Ret (Some (CHR 0x0A))" | (eof) "r = Ret None \<or> r = Fail" | (eintr) "r = EINTR"
      by (cases r) (use option.exhaust in \<open>metis+\<close>)
    then show ?thesis
    proof cases
      case byte
      then have "recv_line_loop capacity (line @ [c]) script w1 = Some ((rc, buf), rest, w')" using step by simp
      from Cons.IH [OF this] False Cons.prems(3) byte(2) have ih: "env_step w1 w'" "rc = 0 \<or> rc = -1" "CHR 0x0A \<notin> set buf"
          "length buf < capacity" "rc = 0 \<longrightarrow> length buf + 1 < capacity"
          "\<exists>used. script = used @ rest \<and> (line @ [c]) @ delivered used = buf @ (if rc = 0 then [CHR 0x0A] else [])"
        by auto
      then obtain used where "script = used @ rest" "(line @ [c]) @ delivered used = buf @ (if rc = 0 then [CHR 0x0A] else [])" by blast
      then have "r # script = (r # used) @ rest \<and> line @ delivered (r # used) = buf @ (if rc = 0 then [CHR 0x0A] else [])"
        using byte by simp
      then show ?thesis using ih env_step_trans [OF e ih(1)] by blast
    next
      case newline
      then have "rc = 0" "buf = line" "rest = script" "w' = w1" using step by simp_all
      then show ?thesis using newline e False Cons.prems by (intro conjI exI [of _ "[r]"]) auto
    next
      case eof
      then have "rc = -1" "buf = line" "rest = script" "w' = w1" using step by auto
      then show ?thesis using eof e False Cons.prems by (intro conjI exI [of _ "[r]"]) auto
    next
      case eintr
      then have "recv_line_loop capacity line script w1 = Some ((rc, buf), rest, w')" using step by simp
      from Cons.IH [OF this Cons.prems(2,3)] obtain used where ih: "env_step w1 w'" "rc = 0 \<or> rc = -1" "CHR 0x0A \<notin> set buf"
          "length buf < capacity" "rc = 0 \<longrightarrow> length buf + 1 < capacity" "script = used @ rest"
          "line @ delivered used = buf @ (if rc = 0 then [CHR 0x0A] else [])" by blast
      then have "r # script = (r # used) @ rest \<and> line @ delivered (r # used) = buf @ (if rc = 0 then [CHR 0x0A] else [])"
        using eintr by simp
      then show ?thesis using ih env_step_trans [OF e ih(1)] by blast
    qed
  qed
qed

lemma should_stop_free:
  "\<not> wk_stop_requested (cw_workers w) \<Longrightarrow> cw_shutdown w = [] \<Longrightarrow> cw_locks w = [] \<Longrightarrow> gateway_workers_should_stop w = (False, w)"
  by (simp add: gateway_workers_should_stop_def graceful_shutdown_requested_def)

lemma recv_line_loop_line:
  assumes "\<not> wk_stop_requested (cw_workers w)" "cw_shutdown w = []" "cw_locks w = []"
  shows "length line + length rest_line + 1 < capacity \<Longrightarrow> CHR 0x0A \<notin> set rest_line \<Longrightarrow>
    recv_line_loop capacity line (map (Ret \<circ> Some) rest_line @ Ret (Some (CHR 0x0A)) # script) w = Some ((0, line @ rest_line), script, w)"
proof (induction rest_line arbitrary: line)
  case (Cons c cs)
  then show ?case using should_stop_free [OF assms] Cons.IH [of "line @ [c]"] by auto
qed (simp add: should_stop_free [OF assms])

lemma send_all_loop_cases:
  "send_all_loop data sent script w = Some ((rc, wire), rest, w') \<Longrightarrow> sent \<le> length data \<Longrightarrow>
   env_step w w' \<and> ((rc = 0 \<and> wire = data) \<or> (rc = -1 \<and> (\<exists>n. wire = take n data)))"
proof (induction script arbitrary: sent w)
  case Nil
  then show ?case by (auto simp: Let_def split: prod.splits if_splits dest: env_step_should_stop)
next
  case (Cons r script)
  obtain stop w1 where st: "gateway_workers_should_stop w = (stop, w1)" by fastforce
  have e: "env_step w w1" using st by (rule env_step_should_stop)
  show ?case
  proof (cases "sent < length data \<and> \<not> stop")
    case False
    then show ?thesis using Cons.prems st e by (auto simp: Let_def split: if_splits)
  next
    case True
    then show ?thesis
      using Cons.prems st e Cons.IH [of "sent + min n (length data - sent)" w1 for n] Cons.IH [of sent w1]
      by (cases r) (auto simp: Let_def split: if_splits intro: env_step_trans [OF e])
  qed
qed

interpretation client_writer: full_writer send_all
proof unfold_locales
  fix buf s rc wire s'
  assume "send_all buf s = Some ((rc, wire), s')"
  then have *: "(rc = 0 \<and> wire = buf) \<or> (rc = -1 \<and> (\<exists>n. wire = take n buf))"
    using send_all_loop_cases [of buf 0 "fst s" "snd s" rc wire "fst s'" "snd s'"] by (simp add: send_all_def)
  then show "rc = 0 \<Longrightarrow> wire = buf" and "rc = 0 \<or> rc = -1" by auto
  show "\<exists>rest. buf = wire @ rest" using * by (metis append_Nil2 append_take_drop_id)
qed

section \<open>A client is answered\<close>

lemma execute_code: "gateway_execute_command version cmd n w = Some ((rc, reply), w') \<Longrightarrow> rc = 0 \<or> rc = -1"
  by (auto simp: gateway_execute_command_def Let_def split: prod.splits if_splits option.splits dest!: handle_command_cases)

lemma send_all_env: "send_all data s = Some ((rc, wire), s') \<Longrightarrow> env_step (snd s) (snd s')"
  using send_all_loop_cases [of data 0 "fst s" "snd s" rc wire "fst s'" "snd s'"] by (simp add: send_all_def)

text \<open>What the two sends put on the socket is the locale's sequence of writes.\<close>

lemma send_reply_seq: "send_reply reply s = client_writer.write_seq [reply, [CHR 0x0A]] s"
  by (auto simp: send_reply_def split: option.splits dest: client_writer.codes)

lemma send_reply_cases:
  assumes "send_reply reply s = Some ((rc, wire), s')"
  shows "env_step (snd s) (snd s')" and "\<exists>more. reply @ [CHR 0x0A] = wire @ more \<and> (rc = 0 \<longrightarrow> more = [])" and "rc = 0 \<or> rc = -1"
proof -
  show "env_step (snd s) (snd s')"
    using assms by (auto simp: send_reply_def split: option.splits if_splits dest!: send_all_env) (metis env_step_trans)+
  show "\<exists>more. reply @ [CHR 0x0A] = wire @ more \<and> (rc = 0 \<longrightarrow> more = [])" "rc = 0 \<or> rc = -1"
    using client_writer.write_seq_prefix [OF assms [unfolded send_reply_seq]] by auto
qed

lemma serve_client_cases:
  assumes "gateway_serve_client version c w = Some ((rc, wire), w')"
  shows "(rc = -1 \<and> wire = [] \<and> cw_workers w' = cw_workers w) \<or>
    (\<exists>line used rest we erc reply w3.
       cl_input c = used @ rest \<and> delivered used = line @ [CHR 0x0A] \<and> CHR 0x0A \<notin> set line \<and> length line \<le> 62 \<and>
       env_step w we \<and> gateway_execute_command version (cstr line) 128 we = Some ((erc, reply), w3) \<and> env_step w3 w' \<and>
       (erc = -1 \<longrightarrow> rc = -1 \<and> wire = []) \<and> (rc = 0 \<longrightarrow> erc = 0 \<and> wire = reply @ [CHR 0x0A]) \<and>
       (rc = 0 \<or> rc = -1) \<and> (\<exists>more. reply @ [CHR 0x0A] = wire @ more))"
proof (cases "recv_line (cl_fd c) 64 (cl_input c) w")
  case None
  then show ?thesis using assms by (auto simp: gateway_serve_client_def split: if_splits)
next
  case (Some a)
  obtain lrc line rest w1 where a: "a = ((lrc, line), rest, w1)" by (metis prod.collapse)
  obtain stop w2 where st: "gateway_workers_should_stop w1 = (stop, w2)" by fastforce
  have e12: "env_step w1 w2" using st by (rule env_step_should_stop)
  consider (bad) "cl_fd c < 0 \<or> set_io_timeout (cl_timeouts c) = -1" | (fd) "\<not> (cl_fd c < 0 \<or> set_io_timeout (cl_timeouts c) = -1)" by blast
  then show ?thesis
  proof cases
    case bad
    then show ?thesis using assms by (simp add: gateway_serve_client_def)
  next
    case fd
    then have "recv_line_loop 64 [] (cl_input c) w = Some ((lrc, line), rest, w1)"
      using Some a by (simp add: recv_line_def)
    from recv_line_loop_cases [OF this] obtain used where l: "env_step w w1" "CHR 0x0A \<notin> set line"
        "lrc = 0 \<longrightarrow> length line \<le> 62" "cl_input c = used @ rest" "delivered used = line @ (if lrc = 0 then [CHR 0x0A] else [])"
      by auto
    have e: "env_step w w2" using l(1) e12 by (rule env_step_trans)
    show ?thesis
    proof (cases "lrc = 0 \<and> \<not> stop")
      case False
      then have "rc = -1" "wire = []" "w' = w1 \<or> w' = w2"
        using assms Some a st fd by (auto simp: gateway_serve_client_def Let_def split: if_splits)
      then show ?thesis using l(1) e by (auto simp: env_step_def)
    next
      case True
      then obtain erc reply w3 where ex: "gateway_execute_command version (cstr line) 128 w2 = Some ((erc, reply), w3)"
        using assms Some a st fd by (auto simp: gateway_serve_client_def Let_def split: option.splits)
      have "env_step w3 w' \<and> (erc = -1 \<longrightarrow> rc = -1 \<and> wire = []) \<and> (rc = 0 \<longrightarrow> erc = 0 \<and> wire = reply @ [CHR 0x0A]) \<and>
          (rc = 0 \<or> rc = -1) \<and> (\<exists>more. reply @ [CHR 0x0A] = wire @ more)"
      proof (cases "erc = -1")
        case True
        then show ?thesis
          using assms Some a st fd ex \<open>lrc = 0 \<and> \<not> stop\<close> by (auto simp: gateway_serve_client_def Let_def)
      next
        case False
        then obtain s2 where s2: "send_reply reply (cl_output c, w3) = Some ((rc, wire), s2)" "w' = snd s2"
          using assms Some a st fd ex \<open>lrc = 0 \<and> \<not> stop\<close> by (auto simp: gateway_serve_client_def Let_def)
        then show ?thesis using send_reply_cases [OF s2(1)] execute_code [OF ex] False by auto
      qed
      moreover have "delivered used = line @ [CHR 0x0A]" "length line \<le> 62" using l True by simp_all
      ultimately show ?thesis
        using l e ex by (intro disjI2 exI [of _ line] exI [of _ used] exI [of _ rest] exI [of _ w2] exI [of _ erc] exI [of _ reply] exI [of _ w3]) simp
    qed
  qed
qed

text \<open>
  Serving a client of the command socket. Success means that one line of at most 62 bytes was read
  from the client (and nothing after its line end), the command it holds was executed once, and exactly
  the reply and a line end reached the client. On a failure the client has received a prefix of the
  reply of the executed command, or nothing. The line buffer of 64 bytes is never overrun, and serving
  itself changes the shared state only through the executed command.
\<close>

theorem serve_client_exact:
  assumes "gateway_serve_client version c w = Some ((rc, wire), w')"
  shows "(rc = -1 \<and> wire = [] \<and> cw_workers w' = cw_workers w) \<or>
    (\<exists>line used rest we erc reply w3.
       cl_input c = used @ rest \<and> delivered used = line @ [CHR 0x0A] \<and> CHR 0x0A \<notin> set line \<and> length line \<le> 62 \<and>
       env_step w we \<and> gateway_execute_command version (cstr line) 128 we = Some ((erc, reply), w3) \<and> env_step w3 w' \<and>
       (erc = -1 \<longrightarrow> rc = -1 \<and> wire = []) \<and> (rc = 0 \<longrightarrow> erc = 0 \<and> wire = reply @ [CHR 0x0A]) \<and>
       (rc = 0 \<or> rc = -1) \<and> (\<exists>more. reply @ [CHR 0x0A] = wire @ more))"
  using assms by (rule serve_client_cases)

definition demo_client :: client where
  "demo_client = \<lparr>cl_fd = 9, cl_timeouts = (0, 0), cl_input = map (Ret \<circ> Some) ''get_version'' @ [Ret (Some (CHR 0x0A))],
     cl_output = [Ret 5, EINTR, Ret 100, Ret 1]\<rparr>"

lemma demo_client_served:
  "gateway_serve_client ''1.0'' demo_client demo_command_world = Some ((0, ''ok version=1.0'' @ [CHR 0x0A]), demo_command_world)"
proof -
  have w: "\<not> wk_stop_requested (cw_workers demo_command_world)" "cw_shutdown demo_command_world = []" "cw_locks demo_command_world = []"
    by (simp_all add: demo_command_world_def)
  have line: "recv_line 9 64 (cl_input demo_client) demo_command_world = Some ((0, ''get_version''), [], demo_command_world)"
    using recv_line_loop_line [OF w, of "[]" "''get_version''" 64 "[]"] by (simp add: recv_line_def demo_client_def)
  have c: "cstr ''get_version'' = ''get_version''" by (simp add: cstr_def)
  have demo_fields: "cl_fd demo_client = 9" "cl_timeouts demo_client = (0, 0)" "cl_output demo_client = [Ret 5, EINTR, Ret 100, Ret 1]"
    by (simp_all add: demo_client_def)
  have ex: "gateway_execute_command ''1.0'' ''get_version'' 128 demo_command_world = Some ((0, ''ok version=1.0''), demo_command_world)"
    using w by (simp add: gateway_execute_command_def gateway_handle_command_def command_text_def is_set_interval_def snprintf_reply_def)
  have send: "send_reply ''ok version=1.0'' ([Ret 5, EINTR, Ret 100, Ret 1], demo_command_world) =
      Some ((0, ''ok version=1.0'' @ [CHR 0x0A]), ([], demo_command_world))"
    by (simp add: send_reply_def send_all_def should_stop_free [OF w])
  show ?thesis
    using line ex send should_stop_free [OF w] by (simp only: gateway_serve_client_def demo_fields) (simp add: c)
qed

theorem serve_client_exact_witness:
  "\<exists>w'. gateway_serve_client ''1.0'' demo_client demo_command_world = Some ((0, ''ok version=1.0'' @ [CHR 0x0A]), w') \<and>
     (\<exists>line used rest. cl_input demo_client = used @ rest \<and> delivered used = line @ [CHR 0x0A] \<and> length line \<le> 62)"
  using serve_client_exact [OF demo_client_served] demo_client_served by blast

section \<open>The worker gives everything back\<close>

lemma attend_client_cases:
  assumes "attend_client version c l = Some l'"
  shows "lw_open_clients l' = lw_open_clients l" and "lw_listen_open l' = lw_listen_open l" and "lw_path_bound l' = lw_path_bound l"
    and "wk_fatal_error (cw_workers (lw_commands l')) = wk_fatal_error (cw_workers (lw_commands l))"
    and "\<exists>ans. lw_answers l' = lw_answers l @ ans"
proof -
  obtain stop w1 where st: "gateway_workers_should_stop (lw_commands l) = (stop, w1)" by fastforce
  have e1: "cw_workers w1 = cw_workers (lw_commands l)" using env_step_should_stop [OF st] by (simp add: env_step_def)
  have fatal: "wk_fatal_error (cw_workers w2) = wk_fatal_error (cw_workers (lw_commands l))"
    if serve: "gateway_serve_client version c w1 = Some ((rc, wire), w2)" for rc wire w2
  proof -
    from serve_client_exact [OF serve] consider "cw_workers w2 = cw_workers w1"
      | line we erc reply w3 where "env_step w1 we" "env_step w3 w2" "gateway_execute_command version (cstr line) 128 we = Some ((erc, reply), w3)"
      by blast
    then show ?thesis
    proof cases
      case 2
      show ?thesis using execute_effect [OF 2(3)] 2(1,2) e1 by (auto simp: command_effect_ok_def env_step_def)
    qed (simp add: e1)
  qed
  have again: "cw_workers (snd (gateway_workers_should_stop w)) = cw_workers w" for w
    using env_step_should_stop [OF prod.collapse [symmetric], of w] by (simp add: env_step_def)
  show "lw_open_clients l' = lw_open_clients l" "lw_listen_open l' = lw_listen_open l" "lw_path_bound l' = lw_path_bound l"
    "\<exists>ans. lw_answers l' = lw_answers l @ ans"
    using assms st by (auto simp: attend_client_def Let_def split: if_splits)
  show "wk_fatal_error (cw_workers (lw_commands l')) = wk_fatal_error (cw_workers (lw_commands l))"
    using assms st fatal e1 by (auto simp: attend_client_def Let_def again split: if_splits)
qed

definition worker_resources :: "listener_world \<Rightarrow> bool \<times> bool \<times> int list" where
  "worker_resources l = (lw_listen_open l, lw_path_bound l, lw_open_clients l)"

lemma command_loop_resources:
  "command_loop version polls l = Some l' \<Longrightarrow> worker_resources l' = worker_resources l"
proof (induction polls arbitrary: l)
  case Nil
  then show ?case by (auto simp: Let_def worker_resources_def split: prod.splits if_splits)
next
  case (Cons p polls)
  obtain stop w1 where st: "gateway_workers_should_stop (lw_commands l) = (stop, w1)" by fastforce
  obtain stop2 w2 where st2: "gateway_workers_should_stop w1 = (stop2, w2)" by fastforce
  have upd: "worker_resources (l\<lparr>lw_commands := w\<rparr>) = worker_resources l" for w by (simp add: worker_resources_def)
  show ?case
  proof (cases p)
    case (PollEvents err readable accepted)
    show ?thesis
    proof (cases accepted)
      case (Accepted c)
      have "worker_resources l3 = worker_resources l" if "attend_client version c (l\<lparr>lw_commands := w2\<rparr>) = Some l3" for l3
        using attend_client_cases(1-3) [OF that] by (simp add: worker_resources_def)
      then show ?thesis
        using Cons.prems PollEvents Accepted st st2 Cons.IH upd
        by (auto simp: Let_def split: if_splits option.splits)
    next
      case AcceptRetry
      then show ?thesis using Cons.prems PollEvents st st2 Cons.IH upd by (auto simp: Let_def split: if_splits)
    next
      case AcceptFailed
      then show ?thesis using Cons.prems PollEvents st st2 Cons.IH upd by (auto simp: Let_def split: if_splits)
    qed
  next
    case PollFailed
    then show ?thesis using Cons.prems st upd by (auto simp: Let_def split: if_splits)
  next
    case PollEintr
    then show ?thesis using Cons.prems st Cons.IH upd by (auto simp: Let_def split: if_splits)
  next
    case PollTimeout
    then show ?thesis using Cons.prems st st2 Cons.IH upd by (auto simp: Let_def split: if_splits)
  qed
qed

text \<open>A poll result that is no failure of the listening socket itself.\<close>

definition listener_fine :: "poll_result \<Rightarrow> bool" where
  "listener_fine p \<longleftrightarrow>
     (case p of PollFailed \<Rightarrow> False | PollEvents err readable accepted \<Rightarrow> \<not> err \<and> (readable \<longrightarrow> accepted \<noteq> AcceptFailed) | _ \<Rightarrow> True)"

abbreviation (input) fatal :: "listener_world \<Rightarrow> bool" where
  "fatal l \<equiv> wk_fatal_error (cw_workers (lw_commands l))"

lemma command_loop_not_fatal:
  "command_loop version polls l = Some l' \<Longrightarrow> list_all listener_fine polls \<Longrightarrow> fatal l' = fatal l"
proof (induction polls arbitrary: l)
  case Nil
  then show ?case by (auto simp: Let_def env_step_def split: prod.splits if_splits dest!: env_step_should_stop)
next
  case (Cons p polls)
  obtain stop w1 where st: "gateway_workers_should_stop (lw_commands l) = (stop, w1)" by fastforce
  obtain stop2 w2 where st2: "gateway_workers_should_stop w1 = (stop2, w2)" by fastforce
  have e: "cw_workers w1 = cw_workers (lw_commands l)" "cw_workers w2 = cw_workers (lw_commands l)"
    using env_step_should_stop [OF st] env_step_should_stop [OF st2] by (simp_all add: env_step_def)
  note step = Cons.prems st st2 e Cons.IH
  show ?case
  proof (cases p)
    case (PollEvents err readable accepted)
    show ?thesis
    proof (cases accepted)
      case (Accepted c)
      have "fatal l3 = fatal l" if "attend_client version c (l\<lparr>lw_commands := w2\<rparr>) = Some l3" for l3
        using attend_client_cases(4) [OF that] e by simp
      then show ?thesis
        using step PollEvents Accepted by (auto simp: Let_def listener_fine_def split: if_splits option.splits)
    next
      case AcceptRetry
      then show ?thesis using step PollEvents by (auto simp: Let_def listener_fine_def split: if_splits)
    next
      case AcceptFailed
      then show ?thesis using step PollEvents by (auto simp: Let_def listener_fine_def split: if_splits)
    qed
  next
    case PollFailed
    then show ?thesis using step by (simp add: listener_fine_def)
  next
    case PollEintr
    then show ?thesis using step by (auto simp: Let_def split: if_splits)
  next
    case PollTimeout
    then show ?thesis using step by (auto simp: Let_def split: if_splits)
  qed
qed

definition setup_fine :: "command_setup \<Rightarrow> bool" where
  "setup_fine cs \<longleftrightarrow> cs_socket_ok cs \<and> cs_path_length cs < 108 \<and> cs_bind_ok cs \<and> cs_listen_ok cs \<and> cs_nonblock_ok cs"

text \<open>
  C34: The command worker gives everything back and is not brought down by its clients. Whenever it
  returns, the listening socket is closed, every accepted client is closed, and the socket file is
  gone unless \<open>unlink\<close> itself failed. A failing set-up call or a failing \<open>unlink\<close> is reported as a fatal
  error of the gateway; if the set-up works and the listening socket stays healthy, no behaviour of
  the clients (broken connections, overlong lines, unknown or failing commands) raises the fatal
  error flag.
\<close>

theorem command_worker_cleans_up:
  assumes "gateway_command_worker version cs polls l = Some l'" and "\<not> lw_listen_open l" and "\<not> lw_path_bound l"
  shows "\<not> lw_listen_open l' \<and> lw_open_clients l' = lw_open_clients l \<and> (lw_path_bound l' \<longrightarrow> \<not> cs_unlink_ok cs \<and> fatal l') \<and>
    (\<not> setup_fine cs \<longrightarrow> fatal l') \<and>
    (setup_fine cs \<and> cs_unlink_ok cs \<and> list_all listener_fine polls \<longrightarrow> fatal l' = fatal l)"
proof (cases "setup_fine cs")
  case False
  then show ?thesis
    using assms by (auto simp: gateway_command_worker_def setup_fine_def command_cleanup_def Let_def split: if_splits)
next
  case True
  then obtain l2 where l2: "command_loop version polls (l\<lparr>lw_listen_open := True, lw_path_bound := True\<rparr>) = Some l2"
    and l': "l' = command_cleanup cs l2"
    using assms by (auto simp: gateway_command_worker_def setup_fine_def Let_def)
  have "lw_path_bound l2" "lw_open_clients l2 = lw_open_clients l"
    using command_loop_resources [OF l2] by (simp_all add: worker_resources_def)
  moreover have "list_all listener_fine polls \<Longrightarrow> fatal l2 = fatal l"
    using command_loop_not_fatal [OF l2] by simp
  ultimately show ?thesis using True by (auto simp: l' command_cleanup_def Let_def)
qed

theorem command_worker_cleans_up_witness:
  "\<exists>l'. gateway_command_worker ''1.0'' \<lparr>cs_socket_ok = True, cs_path_length = 20, cs_bind_ok = True, cs_listen_ok = True,
        cs_nonblock_ok = True, cs_unlink_ok = True\<rparr> [PollEvents False True (Accepted \<lparr>cl_fd = 9, cl_timeouts = (-1, 0), cl_input = [], cl_output = []\<rparr>)]
      \<lparr>lw_commands = demo_command_world\<lparr>cw_shutdown := [False, False, False, False, True]\<rparr>, lw_listen_open = False, lw_path_bound = False,
       lw_open_clients = [], lw_answers = []\<rparr> = Some l' \<and> lw_answers l' = [(-1, [])] \<and> \<not> lw_listen_open l' \<and> \<not> fatal l'"
proof -
  let ?cs = "\<lparr>cs_socket_ok = True, cs_path_length = 20, cs_bind_ok = True, cs_listen_ok = True, cs_nonblock_ok = True, cs_unlink_ok = True\<rparr>"
  let ?polls = "[PollEvents False True (Accepted \<lparr>cl_fd = 9, cl_timeouts = (-1, 0), cl_input = [], cl_output = []\<rparr>)]"
  let ?l = "\<lparr>lw_commands = demo_command_world\<lparr>cw_shutdown := [False, False, False, False, True]\<rparr>, lw_listen_open = False, lw_path_bound = False,
       lw_open_clients = [], lw_answers = []\<rparr>"
  obtain l' where l': "gateway_command_worker ''1.0'' ?cs ?polls ?l = Some l'" "lw_answers l' = [(-1, [])]"
    by (simp add: gateway_command_worker_def gateway_workers_should_stop_def graceful_shutdown_requested_def demo_command_world_def
        attend_client_def gateway_serve_client_def command_cleanup_def mutex_op_def Let_def)
  then show ?thesis
    using command_worker_cleans_up [OF l'(1)] by (simp add: setup_fine_def listener_fine_def demo_command_world_def)
qed

end
