(* ===== verification/Remote_Commands.thy ===== *)
theory Remote_Commands
  imports Gateway_Commands
begin

text \<open>
  The remote commands of \<^verbatim>\<open>src/core/gateway_workers.c\<close>: the handler the MQTT receiver calls, the worker
  that parses a request, answers it from the cache or executes it, and publishes the response. cJSON's
  parser and printer are arguments, as in the measurement codec; \<open>alloc k\<close> is the outcome of the k-th
  allocation of a response.
\<close>

section \<open>Receiving\<close>

record gateway_mqtt_command_request_t =
  rq_topic :: string
  rq_payload :: string
  rq_payload_length :: nat

text \<open>The context of the handler is the queue of requests. The payload need not be terminated; the zeroed
  struct terminates the copy.\<close>

definition gateway_mqtt_command_received ::
  "gateway_mqtt_command_request_t tqueue \<Rightarrow> string \<Rightarrow> string option \<Rightarrow> nat \<Rightarrow> gateway_mqtt_command_request_t tqueue" where
  "gateway_mqtt_command_received queue topic payload payload_length =
     (if payload_length > 0 \<and> payload = None then queue
      else if strnlen topic 384 = 384 \<or> payload_length \<ge> GATEWAY_MQTT_COMMAND_PAYLOAD_CAPACITY then queue
      else snd (tq_push \<lparr>rq_topic = topic,
                         rq_payload = carray GATEWAY_MQTT_COMMAND_PAYLOAD_CAPACITY
                           (if payload_length > 0 then take payload_length (the payload) else []),
                         rq_payload_length = payload_length\<rparr> queue))"

section \<open>Responses\<close>

definition gateway_create_command_response ::
  "(nat \<Rightarrow> bool) \<Rightarrow> (cjson \<Rightarrow> string) \<Rightarrow> string \<Rightarrow> string \<Rightarrow> string \<Rightarrow> string \<Rightarrow> string option" where
  "gateway_create_command_response alloc print_text request_id status detail_name detail_value =
     (if request_id = [] \<or> status = [] \<or> detail_name = [] \<or> detail_value = [] then None
      else if \<not> alloc 0 then None
      else if \<not> alloc 1 \<or> \<not> alloc 2 \<or> \<not> alloc 3 then None
      else if \<not> alloc 4 then None
      else Some (cstr (print_text (JObject [(''request_id'', JString (Some request_id)), (''status'', JString (Some status)),
                                            (detail_name, JString (Some detail_value))]))))"

text \<open>The clock and the library's answer of the next call; a clock that is not scripted works.\<close>

definition next_clock :: "command_world \<Rightarrow> bool \<times> command_world" where
  "next_clock w = (case cw_clock w of [] \<Rightarrow> (True, w) | b # bs \<Rightarrow> (b, w\<lparr>cw_clock := bs\<rparr>))"

definition next_mosq :: "command_world \<Rightarrow> (int \<times> int) \<times> command_world" where
  "next_mosq w = (case cw_mosq w of [] \<Rightarrow> ((MOSQ_ERR_NO_CONN, 0), w) | m # ms \<Rightarrow> (m, w\<lparr>cw_mosq := ms\<rparr>))"

abbreviation (input) GATEWAY_PUBLISH_TIMEOUT_SECONDS :: int where "GATEWAY_PUBLISH_TIMEOUT_SECONDS \<equiv> 3"

text \<open>\<open>cw_responses\<close> records the payloads handed to the publisher.\<close>

definition gateway_publish_command_response :: "string \<Rightarrow> string \<Rightarrow> command_world \<Rightarrow> (mqtt_publisher_result_t \<times> command_world) option" where
  "gateway_publish_command_response response_topic payload w =
     (let (clock_ok, w1) = next_clock w in
      case mqtt_publisher_wait_connected clock_ok GATEWAY_PUBLISH_TIMEOUT_SECONDS (cw_publisher w1) (cw_waits w1) of
        None \<Rightarrow> None
      | Some ((result, pub), waits) \<Rightarrow>
          let w2 = w1\<lparr>cw_publisher := pub, cw_waits := waits\<rparr> in
          if result \<noteq> MQTT_PUBLISHER_OK then Some (result, w2)
          else let (clock_ok, w3) = next_clock w2; (mosq, w4) = next_mosq w3 in
               (case mqtt_publisher_publish_json clock_ok mosq (cw_publisher w4) (Some response_topic) (Some payload)
                       GATEWAY_PUBLISH_TIMEOUT_SECONDS (cw_waits w4) of
                  None \<Rightarrow> None
                | Some ((result, pub), waits) \<Rightarrow>
                    Some (result, w4\<lparr>cw_publisher := pub, cw_waits := waits, cw_responses := cw_responses w4 @ [payload]\<rparr>)))"

section \<open>One request\<close>

definition json_string :: "cjson option \<Rightarrow> string option" where
  "json_string item = (case item of Some (JString (Some s)) \<Rightarrow> Some (cstr s) | _ \<Rightarrow> None)"

definition object_item :: "cjson \<Rightarrow> string \<Rightarrow> cjson option" where
  "object_item tree key = (case tree of JObject members \<Rightarrow> get_item members key | _ \<Rightarrow> None)"

definition command_supported :: "string \<Rightarrow> bool" where
  "command_supported command \<longleftrightarrow>
     command = ''status'' \<or> command = ''set_interval'' \<or> take 13 command = ''set_interval '' \<or> command = ''get_config'' \<or>
     command = ''pause_collection'' \<or> command = ''resume_collection'' \<or> command = ''get_storage_stats'' \<or> command = ''get_version''"

text \<open>The outcome of one iteration: the loop continues, or the worker has failed and leaves it.\<close>

datatype iteration = Continue command_world | Break command_world

text \<open>Create a response and publish it, the shape all error answers share: a failed publish is only logged.\<close>

definition answer_error ::
  "(nat \<Rightarrow> bool) \<Rightarrow> (cjson \<Rightarrow> string) \<Rightarrow> string \<Rightarrow> string \<Rightarrow> string \<Rightarrow> command_world \<Rightarrow> iteration option" where
  "answer_error alloc print_text response_topic request_id error_name w =
     (case gateway_create_command_response alloc print_text request_id ''error'' ''error'' error_name of
        None \<Rightarrow> Some (Break (gateway_worker_fail w))
      | Some payload \<Rightarrow> map_option (\<lambda>(_, w1). Continue w1) (gateway_publish_command_response response_topic payload w))"

definition execute_request ::
  "(nat \<Rightarrow> bool) \<Rightarrow> (cjson \<Rightarrow> string) \<Rightarrow> string \<Rightarrow> string \<Rightarrow> string \<Rightarrow> string \<Rightarrow> command_world \<Rightarrow> iteration option" where
  "execute_request alloc print_text version response_topic request_id command w =
     (case gateway_execute_command version command 128 w of
        None \<Rightarrow> None
      | Some ((rc, reply), w1) \<Rightarrow>
          if rc \<noteq> 0 then Some (Break (gateway_worker_fail w1)) else
          let is_error = (take 6 reply = ''error='');
              status = (if is_error then ''error'' else ''ok'');
              detail_name = (if is_error then ''error'' else ''result'');
              detail_value = (if is_error then drop 6 reply else reply)
          in (case gateway_create_command_response alloc print_text request_id status detail_name detail_value of
               None \<Rightarrow> Some (Break (gateway_worker_fail w1))
             | Some payload \<Rightarrow>
                 (case gateway_cache_command_response (Some (wk_dedup (cw_workers w1))) (Some request_id) (Some command) (Some payload) of
                    (True, Some cache) \<Rightarrow>
                      map_option (\<lambda>(_, w2). Continue w2)
                        (gateway_publish_command_response response_topic payload (upd_workers (\<lambda>wk. wk\<lparr>wk_dedup := cache\<rparr>) w1))
                  | _ \<Rightarrow> Some (Break (gateway_worker_fail w1)))))"

text \<open>The answer to a request with a valid identifier and a supported command.\<close>

definition serve_request ::
  "(nat \<Rightarrow> bool) \<Rightarrow> (cjson \<Rightarrow> string) \<Rightarrow> string \<Rightarrow> string \<Rightarrow> string \<Rightarrow> string \<Rightarrow> command_world \<Rightarrow> iteration option" where
  "serve_request alloc print_text version response_topic request_id command w =
     (case gateway_find_cached_command_response (Some (wk_dedup (cw_workers w))) (Some request_id) (Some command) of
        (GATEWAY_COMMAND_DEDUP_MATCH, Some response) \<Rightarrow>
          map_option (\<lambda>(_, w1). Continue w1) (gateway_publish_command_response response_topic response w)
      | (GATEWAY_COMMAND_DEDUP_CONFLICT, _) \<Rightarrow>
          answer_error alloc print_text response_topic request_id ''request_id_conflict'' w
      | (GATEWAY_COMMAND_DEDUP_MISS, _) \<Rightarrow>
          execute_request alloc print_text version response_topic request_id command w
      | _ \<Rightarrow> Some (Break (gateway_worker_fail w)))"

definition handle_remote_request ::
  "(char list \<Rightarrow> cjson option) \<Rightarrow> (nat \<Rightarrow> bool) \<Rightarrow> (cjson \<Rightarrow> string) \<Rightarrow> string \<Rightarrow> string \<Rightarrow>
   gateway_mqtt_command_request_t \<Rightarrow> command_world \<Rightarrow> iteration option" where
  "handle_remote_request parse_text alloc print_text version response_topic request w =
     (case parse_text (take (rq_payload_length request) (rq_payload request)) of
        None \<Rightarrow> Some (Continue w)
      | Some tree \<Rightarrow>
          (case json_string (object_item tree ''request_id'') of
             None \<Rightarrow> Some (Continue w)
           | Some request_id \<Rightarrow>
               if request_id = [] \<or> strnlen request_id GATEWAY_COMMAND_REQUEST_ID_CAPACITY = GATEWAY_COMMAND_REQUEST_ID_CAPACITY
               then Some (Continue w)
               else (case json_string (object_item tree ''command'') of
                  None \<Rightarrow> answer_error alloc print_text response_topic request_id ''invalid_command'' w
                | Some command \<Rightarrow>
                    if command = [] then answer_error alloc print_text response_topic request_id ''invalid_command'' w
                    else if \<not> command_supported command
                    then answer_error alloc print_text response_topic request_id ''unsupported_command'' w
                    else serve_request alloc print_text version response_topic request_id command w)))"

text \<open>The worker's loop over the successive results of \<open>bq_pop\<close>.\<close>

fun gateway_mqtt_command_worker ::
  "(char list \<Rightarrow> cjson option) \<Rightarrow> (nat \<Rightarrow> bool) \<Rightarrow> (cjson \<Rightarrow> string) \<Rightarrow> string \<Rightarrow> string \<Rightarrow>
   (bq_result_t \<times> gateway_mqtt_command_request_t) list \<Rightarrow> command_world \<Rightarrow> command_world option" where
  "gateway_mqtt_command_worker parse_text alloc print_text version response_topic [] w = None"
| "gateway_mqtt_command_worker parse_text alloc print_text version response_topic ((queue_result, request) # pops) w =
     (if queue_result = BQ_OK then
        (case handle_remote_request parse_text alloc print_text version response_topic request w of
           None \<Rightarrow> None
         | Some (Continue w1) \<Rightarrow> gateway_mqtt_command_worker parse_text alloc print_text version response_topic pops w1
         | Some (Break w1) \<Rightarrow> Some w1)
      else if queue_result = BQ_TIMEOUT
      then gateway_mqtt_command_worker parse_text alloc print_text version response_topic pops w
      else if queue_result = BQ_CLOSED then Some w
      else Some (gateway_worker_fail w))"

section \<open>Frame lemmas\<close>

lemma next_clock_fields:
  assumes "next_clock w = (b, w')"
  shows "cw_workers w' = cw_workers w \<and> cw_requested w' = cw_requested w \<and> cw_responses w' = cw_responses w"
  using assms by (auto simp: next_clock_def split: list.splits)

lemma next_mosq_fields:
  assumes "next_mosq w = (m, w')"
  shows "cw_workers w' = cw_workers w \<and> cw_requested w' = cw_requested w \<and> cw_responses w' = cw_responses w"
  using assms by (auto simp: next_mosq_def split: list.splits)

lemma publish_response_cases:
  assumes "gateway_publish_command_response response_topic payload w = Some (r, w')"
  shows "cw_workers w' = cw_workers w" and "cw_requested w' = cw_requested w"
    and "cw_responses w' = cw_responses w @ [payload] \<or> (cw_responses w' = cw_responses w \<and> r \<noteq> MQTT_PUBLISHER_OK)"
  using assms
  by (auto simp: gateway_publish_command_response_def Let_def split: prod.splits option.splits if_splits
      dest!: next_clock_fields next_mosq_fields)

text \<open>An iteration that ran through without touching the shared state, with what it may have published.\<close>

definition only_answers :: "command_world \<Rightarrow> command_world \<Rightarrow> (string \<Rightarrow> bool) \<Rightarrow> bool" where
  "only_answers w w' allowed \<longleftrightarrow>
     cw_workers w' = cw_workers w \<and> cw_requested w' = cw_requested w \<and>
     (\<exists>ps. cw_responses w' = cw_responses w @ ps \<and> length ps \<le> 1 \<and> list_all allowed ps)"

lemma publish_only_answers:
  assumes "gateway_publish_command_response response_topic payload w = Some (r, w')"
  shows "only_answers w w' (\<lambda>p. p = payload)"
  using publish_response_cases [OF assms]
  unfolding only_answers_def by (auto intro: exI [of _ "[payload]"] exI [of _ "[]"])

definition error_response :: "(cjson \<Rightarrow> string) \<Rightarrow> string \<Rightarrow> string \<Rightarrow> string" where
  "error_response print_text request_id name =
     cstr (print_text (JObject [(''request_id'', JString (Some request_id)), (''status'', JString (Some ''error'')),
       (''error'', JString (Some name))]))"

lemma answer_error_only_answers:
  assumes "answer_error alloc print_text response_topic request_id name w = Some (Continue w')"
  shows "only_answers w w' (\<lambda>p. p = error_response print_text request_id name)"
  using assms
  by (auto simp: answer_error_def gateway_create_command_response_def error_response_def split: if_splits option.splits
      dest!: publish_only_answers)

lemma execute_request_cases:
  assumes "execute_request alloc print_text version response_topic request_id command w = Some (Continue w')"
  obtains reply w1 payload cache where "gateway_execute_command version command 128 w = Some ((0, reply), w1)"
    "gateway_cache_command_response (Some (wk_dedup (cw_workers w1))) (Some request_id) (Some command) (Some (cstr payload)) = (True, Some cache)"
    "only_answers (upd_workers (\<lambda>wk. wk\<lparr>wk_dedup := cache\<rparr>) w1) w' (\<lambda>p. p = cstr payload)"
  using assms
  by (auto simp: execute_request_def gateway_create_command_response_def Let_def split: option.splits if_splits prod.splits bool.splits
      dest!: publish_only_answers)

section \<open>A request is executed once\<close>

lemma json_string_cstring: "json_string item = Some t \<Longrightarrow> cstring t"
  by (auto simp: json_string_def split: option.splits cjson.splits)

lemma lookup_miss: "lookup_recent h rid cmd = (GATEWAY_COMMAND_DEDUP_MISS, r) \<longleftrightarrow> rid \<notin> fst ` set (recent h) \<and> r = None"
  by (auto simp: lookup_recent_def simp flip: map_of_eq_None_iff split: option.splits if_splits)

text \<open>
  What an iteration does to the cached history: nothing (and then the shared state is untouched, no
  request went to the storage worker, and at most one payload was published), or one new entry for
  an identifier that is not among the recent ones, whose command was executed once.
\<close>

definition remembered :: "string \<Rightarrow> history \<Rightarrow> command_world \<Rightarrow> history \<Rightarrow> command_world \<Rightarrow> bool" where
  "remembered version h w h' w' \<longleftrightarrow>
     dedup_rel (wk_dedup (cw_workers w')) h' \<and>
     ((h' = h \<and> only_answers w w' (\<lambda>p. True)) \<or>
      (\<exists>rid cmd resp reply w1. h' = h @ [(rid, cmd, resp)] \<and> rid \<notin> fst ` set (recent h) \<and>
         gateway_execute_command version cmd 128 w = Some ((0, reply), w1) \<and>
         (\<exists>cache. only_answers (upd_workers (\<lambda>wk. wk\<lparr>wk_dedup := cache\<rparr>) w1) w' (\<lambda>p. p = resp))))"

lemma only_answers_weaken: "only_answers w w' P \<Longrightarrow> (\<And>p. P p \<Longrightarrow> Q p) \<Longrightarrow> only_answers w w' Q"
  unfolding only_answers_def by (metis list_all_iff)

lemma only_answers_refl [simp]: "only_answers w w P"
  by (simp add: only_answers_def)

lemma execute_request_remembered:
  assumes rel: "dedup_rel (wk_dedup (cw_workers w)) h" and fresh: "rid \<notin> fst ` set (recent h)"
    and cs: "cstring rid" "cstring cmd"
    and ret: "execute_request alloc print_text version response_topic rid cmd w = Some (Continue w')"
  shows "\<exists>resp. remembered version h w (h @ [(rid, cmd, resp)]) w' \<and> dedup_rel (wk_dedup (cw_workers w')) (h @ [(rid, cmd, resp)])"
proof -
  from ret obtain reply w1 payload cache where ex: "gateway_execute_command version cmd 128 w = Some ((0, reply), w1)"
    and cache: "gateway_cache_command_response (Some (wk_dedup (cw_workers w1))) (Some rid) (Some cmd) (Some (cstr payload)) = (True, Some cache)"
    and ans: "only_answers (upd_workers (\<lambda>wk. wk\<lparr>wk_dedup := cache\<rparr>) w1) w' (\<lambda>p. p = cstr payload)"
    by (rule execute_request_cases)
  have "wk_dedup (cw_workers w1) = wk_dedup (cw_workers w)"
    using execute_effect [OF ex] by (auto simp: command_effect_ok_def)
  then have rel1: "dedup_rel (wk_dedup (cw_workers w1)) h" using rel by simp
  have fits: "\<not> (rid = [] \<or> cmd = [] \<or> cstr payload = [] \<or> 64 \<le> length rid \<or> 1024 \<le> length cmd \<or> 256 \<le> length (cstr payload))"
    using cache cache_refused by force
  then obtain c' where "gateway_cache_command_response (Some (wk_dedup (cw_workers w1))) (Some rid) (Some cmd) (Some (cstr payload)) = (True, Some c')"
      "dedup_rel c' (h @ [(rid, cmd, cstr payload)])"
    using cache_refines [OF rel1 fresh cs cstring_cstr] by fastforce
  then have "dedup_rel cache (h @ [(rid, cmd, cstr payload)])" using cache by simp
  then have "dedup_rel (wk_dedup (cw_workers w')) (h @ [(rid, cmd, cstr payload)])"
    using ans by (simp add: only_answers_def)
  then show ?thesis using fresh ex ans unfolding remembered_def by blast
qed

lemma find_recent:
  assumes "dedup_rel (wk_dedup (cw_workers w)) h"
  shows "gateway_find_cached_command_response (Some (wk_dedup (cw_workers w))) (Some rid) (Some cmd) = lookup_recent h rid cmd"
  using find_refines [OF assms] by (simp add: gateway_find_cached_command_response_def)

lemma serve_request_cases:
  assumes rel: "dedup_rel (wk_dedup (cw_workers w)) h"
    and ret: "serve_request alloc print_text version response_topic rid cmd w = Some (Continue w')"
  shows "case lookup_recent h rid cmd of
      (GATEWAY_COMMAND_DEDUP_MATCH, Some resp) \<Rightarrow> only_answers w w' (\<lambda>p. p = resp)
    | (GATEWAY_COMMAND_DEDUP_CONFLICT, _) \<Rightarrow> only_answers w w' (\<lambda>p. p = error_response print_text rid ''request_id_conflict'')
    | (GATEWAY_COMMAND_DEDUP_MISS, _) \<Rightarrow> execute_request alloc print_text version response_topic rid cmd w = Some (Continue w')
    | _ \<Rightarrow> False"
proof (cases "map_of (recent h) rid")
  case None
  then show ?thesis using ret find_recent [OF rel, of rid cmd] by (simp add: serve_request_def lookup_recent_def)
next
  case (Some cr)
  obtain c r where cr: "cr = (c, r)" by fastforce
  show ?thesis
  proof (cases "c = cmd")
    case True
    then show ?thesis
      using ret find_recent [OF rel, of rid cmd] Some cr by (auto simp: serve_request_def lookup_recent_def dest: publish_only_answers)
  next
    case False
    then show ?thesis
      using ret find_recent [OF rel, of rid cmd] Some cr
      by (auto simp: serve_request_def lookup_recent_def intro: answer_error_only_answers)
  qed
qed

lemma quiet_remembered: "dedup_rel (wk_dedup (cw_workers w)) h \<Longrightarrow> only_answers w w' P \<Longrightarrow> remembered version h w h w'"
  unfolding remembered_def by (metis only_answers_def only_answers_weaken)

lemma serve_request_remembered:
  assumes rel: "dedup_rel (wk_dedup (cw_workers w)) h" and cs: "cstring rid" "cstring cmd"
    and ret: "serve_request alloc print_text version response_topic rid cmd w = Some (Continue w')"
  shows "\<exists>h'. remembered version h w h' w'"
proof (cases "map_of (recent h) rid")
  case None
  then have "rid \<notin> fst ` set (recent h)" by (simp add: map_of_eq_None_iff)
  moreover have "execute_request alloc print_text version response_topic rid cmd w = Some (Continue w')"
    using serve_request_cases [OF rel ret] None by (simp add: lookup_recent_def)
  ultimately show ?thesis using execute_request_remembered [OF rel _ cs] by blast
next
  case (Some cr)
  then have "\<exists>P. only_answers w w' P"
    using serve_request_cases [OF rel ret] by (cases cr) (auto simp: lookup_recent_def split: if_splits)
  then show ?thesis using quiet_remembered [OF rel] by blast
qed

lemma handle_remembered:
  assumes rel: "dedup_rel (wk_dedup (cw_workers w)) h"
    and ret: "handle_remote_request parse_text alloc print_text version response_topic request w = Some (Continue w')"
  shows "\<exists>h'. remembered version h w h' w'"
proof -
  have same: ?thesis if "w' = w"
    using quiet_remembered [OF rel only_answers_refl] that by blast
  have error: ?thesis if "answer_error alloc print_text response_topic rid name w = Some (Continue w')" for rid name
    using quiet_remembered [OF rel answer_error_only_answers [OF that]] by blast
  show ?thesis
  proof (cases "parse_text (take (rq_payload_length request) (rq_payload request))")
    case None
    then show ?thesis using ret same by (simp add: handle_remote_request_def)
  next
    case (Some tree)
    note ret1 = ret [unfolded handle_remote_request_def Some option.case]
    show ?thesis
    proof (cases "json_string (object_item tree ''request_id'')")
      case None
      then show ?thesis using ret1 same by simp
    next
      case rid: (Some rid)
      show ?thesis
      proof (cases "rid = [] \<or> strnlen rid GATEWAY_COMMAND_REQUEST_ID_CAPACITY = GATEWAY_COMMAND_REQUEST_ID_CAPACITY")
        case True
        then show ?thesis using ret1 rid same by simp
      next
        case False
        note ret2 = ret1 [unfolded rid option.case if_not_P [OF False]]
        show ?thesis
        proof (cases "json_string (object_item tree ''command'')")
          case None
          then show ?thesis using ret2 error by simp
        next
          case cmd: (Some cmd)
          show ?thesis
            using ret2 [unfolded cmd option.case] error json_string_cstring [OF rid] json_string_cstring [OF cmd]
            by (cases "cmd = []"; cases "command_supported cmd") (auto intro: serve_request_remembered [OF rel])
        qed
      qed
    qed
  qed
qed

text \<open>No identifier occurs twice among sixteen consecutive entries of a history.\<close>

definition apart :: "history \<Rightarrow> bool" where
  "apart h \<longleftrightarrow> (\<forall>k. distinct (map fst (take 16 (drop k h))))"

lemma apart_snoc:
  assumes "apart h" and "fst x \<notin> fst ` set (recent h)"
  shows "apart (h @ [x])"
  unfolding apart_def
proof
  fix k
  show "distinct (map fst (take 16 (drop k (h @ [x]))))"
  proof (cases "k + 16 \<le> length h \<or> length h < k")
    case True
    then have "take 16 (drop k (h @ [x])) = take 16 (drop k h)" by auto
    then show ?thesis using assms(1) by (simp only: apart_def)
  next
    case False
    then have t: "take 16 (drop k (h @ [x])) = drop k h @ [x]" "take 16 (drop k h) = drop k h" by auto
    have "set (drop k h) \<subseteq> set (recent h)"
      using set_drop_subset_set_drop [of "length h - 16" k h] False unfolding recent_def by linarith
    then show ?thesis
      using t assms spec [OF assms(1) [unfolded apart_def], of k] by auto
  qed
qed

text \<open>The run of the worker with its history: the entries, oldest first, are the executed requests.\<close>

inductive served :: "string \<Rightarrow> history \<Rightarrow> command_world \<Rightarrow> history \<Rightarrow> command_world \<Rightarrow> bool" for version where
  served_refl: "served version h w h w"
| served_step: "remembered version h w h1 w1 \<Longrightarrow> served version h1 w1 h2 w2 \<Longrightarrow> served version h w h2 w2"

lemma remembered_apart: "remembered version h w h' w' \<Longrightarrow> apart h \<Longrightarrow> apart h'"
  using apart_snoc [of h] by (fastforce simp: remembered_def)

lemma served_invariant:
  "served version h w h' w' \<Longrightarrow> dedup_rel (wk_dedup (cw_workers w)) h \<Longrightarrow> apart h \<Longrightarrow>
   dedup_rel (wk_dedup (cw_workers w')) h' \<and> apart h' \<and> (\<exists>more. h' = h @ more)"
proof (induction rule: served.induct)
  case (served_step h w h1 w1 h2 w2)
  then have "dedup_rel (wk_dedup (cw_workers w1)) h1" "apart h1" "\<exists>more. h1 = h @ more"
    using remembered_apart by (auto simp: remembered_def)
  then show ?case using served_step.IH by auto
qed simp

lemma answer_error_break: "answer_error alloc print_text topic rid name w = Some (Break w') \<Longrightarrow> wk_fatal_error (cw_workers w')"
  by (auto simp: answer_error_def split: option.splits)

lemma execute_request_break:
  "execute_request alloc print_text version topic rid cmd w = Some (Break w') \<Longrightarrow> wk_fatal_error (cw_workers w')"
  by (auto simp: execute_request_def Let_def split: option.splits if_splits prod.splits bool.splits)

lemma handle_break:
  "handle_remote_request parse_text alloc print_text version topic request w = Some (Break w') \<Longrightarrow> wk_fatal_error (cw_workers w')"
  by (auto simp: handle_remote_request_def serve_request_def split: option.splits if_splits prod.splits gateway_command_dedup_result_t.splits
      dest: answer_error_break execute_request_break)

lemma worker_served:
  assumes "gateway_mqtt_command_worker parse_text alloc print_text version topic pops w = Some w'"
    and "dedup_rel (wk_dedup (cw_workers w)) h"
  shows "\<exists>h' w1. served version h w h' w1 \<and> (w' = w1 \<or> wk_fatal_error (cw_workers w'))"
  using assms
proof (induction pops arbitrary: w h)
  case (Cons pop pops)
  obtain q request where pop: "pop = (q, request)" by fastforce
  consider (ok) "q = BQ_OK" | (timeout) "q = BQ_TIMEOUT" | (other) "q \<noteq> BQ_OK" "q \<noteq> BQ_TIMEOUT" by blast
  then show ?case
  proof cases
    case ok
    with Cons.prems(1) pop consider
      (break) "handle_remote_request parse_text alloc print_text version topic request w = Some (Break w')"
      | (continue) w1 where "handle_remote_request parse_text alloc print_text version topic request w = Some (Continue w1)"
          "gateway_mqtt_command_worker parse_text alloc print_text version topic pops w1 = Some w'"
      by (auto split: option.splits iteration.splits)
    then show ?thesis
    proof cases
      case break
      then show ?thesis using handle_break served_refl by blast
    next
      case continue
      from handle_remembered [OF Cons.prems(2) continue(1)] obtain h1 where h1: "remembered version h w h1 w1" by blast
      then have "dedup_rel (wk_dedup (cw_workers w1)) h1" by (simp add: remembered_def)
      from Cons.IH [OF continue(2) this] obtain h2 w2 where "served version h1 w1 h2 w2" "w' = w2 \<or> wk_fatal_error (cw_workers w')" by blast
      with h1 show ?thesis using served_step by blast
    qed
  next
    case timeout
    then show ?thesis using Cons pop by simp
  next
    case other
    then have "w' = w \<or> wk_fatal_error (cw_workers w')" using Cons.prems pop by (auto split: if_splits)
    then show ?thesis using served_refl [of version h w] by blast
  qed
qed simp

section \<open>A sample run\<close>

text \<open>A parser for one sample request and a printer, to run the worker on.\<close>

definition demo_parse :: "char list \<Rightarrow> cjson option" where
  "demo_parse t =
     (if t = ''r1'' then Some (JObject [(''request_id'', JString (Some ''r1'')), (''command'', JString (Some ''get_version''))]) else None)"

definition demo_request :: gateway_mqtt_command_request_t where
  "demo_request = \<lparr>rq_topic = ''cmd'', rq_payload = ''r1'', rq_payload_length = 2\<rparr>"

definition demo_remote_world :: command_world where
  "demo_remote_world = demo_command_world\<lparr>cw_publisher := Some demo_publisher\<rparr>"

lemma demo_request_fields:
  "demo_parse (take (rq_payload_length demo_request) (rq_payload demo_request)) =
     Some (JObject [(''request_id'', JString (Some ''r1'')), (''command'', JString (Some ''get_version''))])"
  "json_string (object_item (JObject [(''request_id'', JString (Some ''r1'')), (''command'', JString (Some ''get_version''))]) ''request_id'') = Some ''r1''"
  "json_string (object_item (JObject [(''request_id'', JString (Some ''r1'')), (''command'', JString (Some ''get_version''))]) ''command'') = Some ''get_version''"
  by (simp_all add: demo_parse_def demo_request_def json_string_def object_item_def get_item_def cstr_def)

lemma demo_handled:
  "\<exists>w. handle_remote_request demo_parse (\<lambda>_. True) (\<lambda>_. ''ok'') ''1.0'' ''resp'' demo_request demo_remote_world = Some (Continue w)"
proof -
  have rel: "dedup_rel (wk_dedup (cw_workers demo_remote_world)) []"
    by (simp add: demo_remote_world_def demo_command_world_def dedup_rel_empty)
  have ex: "gateway_execute_command ''1.0'' ''get_version'' 128 demo_remote_world = Some ((0, ''ok version=1.0''), demo_remote_world)"
    by (simp add: gateway_execute_command_def gateway_handle_command_def command_text_def is_set_interval_def snprintf_reply_def
        demo_remote_world_def demo_command_world_def)
  have resp: "gateway_create_command_response (\<lambda>_. True) (\<lambda>_. ''ok'') ''r1'' ''ok'' ''result'' ''ok version=1.0'' = Some ''ok''"
    by (simp add: gateway_create_command_response_def cstr_def)
  obtain c where c: "gateway_cache_command_response (Some (wk_dedup (cw_workers demo_remote_world))) (Some ''r1'') (Some ''get_version'') (Some ''ok'') = (True, Some c)"
    using cache_refines [OF rel, of "''r1''" "''get_version''" "''ok''"] by (auto simp: recent_def cstring_def)
  let ?w1 = "upd_workers (\<lambda>wk. wk\<lparr>wk_dedup := c\<rparr>) demo_remote_world"
  have pub: "\<exists>r w. gateway_publish_command_response ''resp'' ''ok'' ?w1 = Some (r, w)"
    by (simp add: gateway_publish_command_response_def next_clock_def next_mosq_def demo_remote_world_def demo_command_world_def
        mqtt_publisher_wait_connected_def timed_wait_loop.simps awaits_connection_def mqtt_publisher_publish_json_def demo_publisher_def)
  then have "\<exists>w. execute_request (\<lambda>_. True) (\<lambda>_. ''ok'') ''1.0'' ''resp'' ''r1'' ''get_version'' demo_remote_world = Some (Continue w)"
    using ex resp c by (auto simp: execute_request_def)
  then have "\<exists>w. serve_request (\<lambda>_. True) (\<lambda>_. ''ok'') ''1.0'' ''resp'' ''r1'' ''get_version'' demo_remote_world = Some (Continue w)"
    using find_recent [OF rel, of "''r1''" "''get_version''"] by (simp add: serve_request_def lookup_recent_def recent_def)
  then show ?thesis
    by (simp add: handle_remote_request_def demo_request_fields command_supported_def strnlen_def)
qed

text \<open>
  C26: A remote request is executed at most once. From the empty cache, through every run of the MQTT
  command worker, the requests it executed form a history in which no identifier occurs twice among
  sixteen consecutive ones; every other message (unparsable, without identifier, an unsupported
  command, a repeated or conflicting identifier) leaves the shared state untouched, sends nothing to
  the storage worker and publishes at most one answer. The worker ends only when its queue is closed,
  or with the fatal error flag raised.
\<close>

theorem remote_commands_at_most_once:
  assumes "gateway_mqtt_command_worker parse_text alloc print_text version topic pops w = Some w'"
    and "wk_dedup (cw_workers w) = empty_cache"
  shows "\<exists>h w1. served version [] w h w1 \<and> apart h \<and> dedup_rel (wk_dedup (cw_workers w1)) h \<and>
    (w' = w1 \<or> wk_fatal_error (cw_workers w'))"
proof -
  have rel: "dedup_rel (wk_dedup (cw_workers w)) []" using assms(2) dedup_rel_empty by simp
  from worker_served [OF assms(1) this] obtain h w1 where s: "served version [] w h w1" "w' = w1 \<or> wk_fatal_error (cw_workers w')" by blast
  moreover have "apart []" by (simp add: apart_def)
  ultimately show ?thesis using served_invariant [OF s(1) rel] by blast
qed

theorem remote_commands_at_most_once_witness:
  "\<exists>w' h w1. gateway_mqtt_command_worker demo_parse (\<lambda>_. True) (\<lambda>_. ''ok'') ''1.0'' ''resp''
       [(BQ_TIMEOUT, demo_request), (BQ_OK, demo_request), (BQ_CLOSED, demo_request)] demo_remote_world = Some w' \<and>
     served ''1.0'' [] demo_remote_world h w1 \<and> apart h"
proof -
  obtain w where "handle_remote_request demo_parse (\<lambda>_. True) (\<lambda>_. ''ok'') ''1.0'' ''resp'' demo_request demo_remote_world = Some (Continue w)"
    using demo_handled by blast
  then have run: "gateway_mqtt_command_worker demo_parse (\<lambda>_. True) (\<lambda>_. ''ok'') ''1.0'' ''resp''
       [(BQ_TIMEOUT, demo_request), (BQ_OK, demo_request), (BQ_CLOSED, demo_request)] demo_remote_world = Some w" by simp
  have "wk_dedup (cw_workers demo_remote_world) = empty_cache" by (simp add: demo_remote_world_def demo_command_world_def)
  from remote_commands_at_most_once [OF run this] run show ?thesis by blast
qed



text \<open>A response of 256 characters or more cannot be remembered, and the worker then brings the whole gateway
  down; an identifier of control characters, printed as escapes of six characters, is enough.\<close>

lemma long_response_is_fatal:
  assumes "gateway_execute_command version cmd 128 w = Some ((0, reply), w1)" and "take 6 reply \<noteq> ''error=''"
    and "gateway_create_command_response alloc print_text rid ''ok'' ''result'' reply = Some payload" and "256 \<le> length payload"
  shows "execute_request alloc print_text version topic rid cmd w = Some (Break (gateway_worker_fail w1))"
proof -
  have "gateway_cache_command_response (Some (wk_dedup (cw_workers w1))) (Some rid) (Some cmd) (Some payload) = (False, Some (wk_dedup (cw_workers w1)))"
    using assms(4) by (intro cache_refused) simp
  then show ?thesis using assms by (simp add: execute_request_def)
qed

end
