(* ===== verification/Gateway_Workers.thy ===== *)
theory Gateway_Workers
  imports Gateway_Commands Sources
begin

text \<open>
  The workers of \<^verbatim>\<open>src/core/gateway_workers.c\<close> that move measurements from the source through the outbox
  to the broker. Each worker is a program counter with its local variables; one step runs it up to
  its next access to shared state, so that any interleaving of the threads is a sequence of steps.
  What the environment decides (the clock, the next measurement, the outcome of publishing) is the
  argument of the step. The queues are the typed queues the byte ring implements; \<open>pl_stop\<close> stands for
  the stop flag and the shutdown signal together, which the workers always read together.
\<close>

section \<open>Data\<close>

record gateway_delivery_report_t =
  rep_outbox_id :: int
  rep_publish_result :: mqtt_publisher_result_t
  rep_sent_at_ms :: int

datatype storage_pc = S_Control | S_Report | S_Measurement | S_Schedule | S_Deliver | S_Done

datatype mqtt_worker_state = M_Idle | M_Job outbox_item_t | M_Report gateway_delivery_report_t | M_Done

datatype source_worker_state = Src_Check | Src_Push measurement_t | Src_Done

datatype coordinator_pc = Co_Run | Co_CloseMeasurement | Co_CloseDelivery | Co_CloseControl | Co_JoinSource | Co_JoinMqtt | Co_JoinStorage | Co_Done

text \<open>
  The last three fields record, for the statements only, the measurements the queue accepted, those
  the storage worker saved, and the outbox ids whose own PUBACK arrived.
\<close>

record pipeline =
  pl_store :: store_world
  pl_measurement_queue :: "measurement_t tqueue"
  pl_delivery_queue :: "outbox_item_t tqueue"
  pl_result_queue :: "gateway_delivery_report_t tqueue"
  pl_control_requests :: "gateway_storage_control_request_t tqueue"
  pl_control_results :: "gateway_storage_control_result_t tqueue"
  pl_stop :: bool
  pl_fatal :: bool
  pl_paused :: bool
  pl_collected_count :: u64
  pl_storage :: storage_pc
  pl_measurement_closed :: bool
  pl_result_closed :: bool
  pl_inflight :: bool
  pl_retry_not_before_ms :: int
  pl_mqtt :: mqtt_worker_state
  pl_source :: source_worker_state
  pl_coordinator :: coordinator_pc
  pl_command_waits :: bool
  pl_accepted :: "measurement_t list"
  pl_saved :: "measurement_t list"
  pl_acked :: "int list"

definition worker_fail :: "pipeline \<Rightarrow> pipeline" where
  "worker_fail s = s\<lparr>pl_stop := True, pl_fatal := True\<rparr>"

section \<open>Storage operations\<close>

definition storage_topic :: "string \<Rightarrow> string" where
  "storage_topic device = ''edgevision/v1/devices/'' @ device @ ''/measurements''"

definition gateway_storage_save ::
  "(nat \<Rightarrow> bool) \<Rightarrow> (cjson \<Rightarrow> string) \<Rightarrow> measurement_t \<Rightarrow> store_world \<Rightarrow> int \<times> store_world" where
  "gateway_storage_save alloc print_text measurement w =
     (let topic = storage_topic (cstr (device_id measurement)) in
      if length topic \<ge> 256 then (-1, w)
      else let (result, w1) = outbox_store_save_measurement alloc print_text True (Some measurement) (Some topic) w
           in (if result = OUTBOX_STORE_OK then 0 else -1, w1))"

definition failure_text :: "mqtt_publisher_result_t \<Rightarrow> string" where
  "failure_text r = ''mqtt publish failed: '' @ show_int (publisher_code r)"

text \<open>The result is the return value, \<open>*retry_needed\<close> and the store.\<close>

definition gateway_storage_apply_report :: "gateway_delivery_report_t \<Rightarrow> store_world \<Rightarrow> int \<times> bool \<times> store_world" where
  "gateway_storage_apply_report report w =
     (let retry_needed = (rep_publish_result report \<noteq> MQTT_PUBLISHER_OK) in
      if rep_publish_result report = MQTT_PUBLISHER_OK then
        (if rep_sent_at_ms report \<le> 0 then (-1, retry_needed, w)
         else let (result, w1) = outbox_store_mark_sent True (rep_outbox_id report) (rep_sent_at_ms report) w
              in (if result = OUTBOX_STORE_OK then 0 else -1, retry_needed, w1))
      else let error_text = failure_text (rep_publish_result report) in
           if length error_text \<ge> 64 then (-1, retry_needed, w)
           else let (result, w1) = outbox_store_record_delivery_failure True (rep_outbox_id report) (Some error_text) w
                in (if result = OUTBOX_STORE_OK then 0 else -1, retry_needed, w1))"

text \<open>The result is the return value, \<open>*delivery_inflight\<close>, the delivery queue and the store.\<close>

definition gateway_storage_schedule_delivery ::
  "bool \<Rightarrow> outbox_item_t tqueue \<Rightarrow> store_world \<Rightarrow> int \<times> bool \<times> outbox_item_t tqueue \<times> store_world" where
  "gateway_storage_schedule_delivery inflight queue w =
     (let ((result, item), w1) = outbox_store_read_earliest_pending True w in
      if result = OUTBOX_STORE_EMPTY then (0, inflight, queue, w1)
      else if result \<noteq> OUTBOX_STORE_OK then (-1, inflight, queue, w1)
      else let (queue_result, queue1) = tq_push item queue in
           if queue_result = BQ_OK then (0, True, queue1, w1)
           else if queue_result = BQ_TIMEOUT \<or> queue_result = BQ_CLOSED then (0, inflight, queue1, w1)
           else (-1, inflight, queue1, w1))"

section \<open>The storage worker\<close>

abbreviation (input) GATEWAY_DELIVERY_RETRY_MS :: int where "GATEWAY_DELIVERY_RETRY_MS \<equiv> 1000"

definition storage_fail :: "pipeline \<Rightarrow> pipeline" where
  "storage_fail s = (worker_fail s)\<lparr>pl_storage := S_Done\<rparr>"

text \<open>The loop condition at the end of a round.\<close>

definition next_round :: "pipeline \<Rightarrow> pipeline" where
  "next_round s = s\<lparr>pl_storage := (if \<not> pl_measurement_closed s \<or> \<not> pl_result_closed s then S_Control else S_Done)\<rparr>"

definition control_phase :: "pipeline \<Rightarrow> pipeline" where
  "control_phase s =
     (case tq_pop (pl_control_requests s) of ((queue_result, req), requests) \<Rightarrow>
        (case req of
           Some r \<Rightarrow>
             (case storage_control r (pl_store s) of (result, store) \<Rightarrow>
              case tq_push result (pl_control_results s) of (push_result, results) \<Rightarrow>
                let s1 = s\<lparr>pl_control_requests := requests, pl_store := store, pl_control_results := results\<rparr>
                in if push_result \<noteq> BQ_OK then storage_fail s1 else s1\<lparr>pl_storage := S_Report\<rparr>)
         | None \<Rightarrow>
             if queue_result \<noteq> BQ_TIMEOUT \<and> queue_result \<noteq> BQ_CLOSED then storage_fail s else s\<lparr>pl_storage := S_Report\<rparr>))"

definition report_phase :: "int \<Rightarrow> pipeline \<Rightarrow> pipeline" where
  "report_phase now_ms s =
     (case tq_pop (pl_result_queue s) of ((queue_result, rep), results) \<Rightarrow>
        (case rep of
           Some report \<Rightarrow>
             (case gateway_storage_apply_report report (pl_store s) of (rc, retry_needed, store) \<Rightarrow>
                let s1 = s\<lparr>pl_result_queue := results, pl_store := store\<rparr> in
                if rc \<noteq> 0 then storage_fail s1
                else let s2 = s1\<lparr>pl_inflight := False\<rparr> in
                     if retry_needed
                     then if now_ms < 0 then storage_fail s2
                          else s2\<lparr>pl_retry_not_before_ms := now_ms + GATEWAY_DELIVERY_RETRY_MS, pl_storage := S_Measurement\<rparr>
                     else s2\<lparr>pl_retry_not_before_ms := 0, pl_storage := S_Measurement\<rparr>)
         | None \<Rightarrow>
             if queue_result = BQ_CLOSED then s\<lparr>pl_result_closed := True, pl_inflight := False, pl_storage := S_Measurement\<rparr>
             else if queue_result \<noteq> BQ_TIMEOUT then storage_fail s
             else s\<lparr>pl_storage := S_Measurement\<rparr>))"

definition measurement_phase :: "(nat \<Rightarrow> bool) \<Rightarrow> (cjson \<Rightarrow> string) \<Rightarrow> pipeline \<Rightarrow> pipeline" where
  "measurement_phase alloc print_text s =
     (if pl_measurement_closed s then s\<lparr>pl_storage := S_Schedule\<rparr>
      else case tq_pop (pl_measurement_queue s) of ((queue_result, m), queue) \<Rightarrow>
        (case m of
           Some measurement \<Rightarrow>
             (case gateway_storage_save alloc print_text measurement (pl_store s) of (rc, store) \<Rightarrow>
                let s1 = s\<lparr>pl_measurement_queue := queue, pl_store := store\<rparr>
                in if rc \<noteq> 0 then storage_fail s1
                   else s1\<lparr>pl_saved := pl_saved s @ [measurement], pl_storage := S_Schedule\<rparr>)
         | None \<Rightarrow>
             if queue_result = BQ_CLOSED then s\<lparr>pl_measurement_closed := True, pl_storage := S_Schedule\<rparr>
             else if queue_result \<noteq> BQ_TIMEOUT then storage_fail s
             else s\<lparr>pl_storage := S_Schedule\<rparr>))"

definition schedule_phase :: "int \<Rightarrow> pipeline \<Rightarrow> pipeline" where
  "schedule_phase now_ms s =
     (if \<not> pl_inflight s \<and> \<not> pl_stop s
      then if now_ms < 0 then storage_fail s
           else if now_ms \<ge> pl_retry_not_before_ms s then s\<lparr>pl_storage := S_Deliver\<rparr>
           else next_round s
      else next_round s)"

definition deliver_phase :: "pipeline \<Rightarrow> pipeline" where
  "deliver_phase s =
     (case gateway_storage_schedule_delivery (pl_inflight s) (pl_delivery_queue s) (pl_store s) of (rc, inflight, queue, store) \<Rightarrow>
        let s1 = s\<lparr>pl_inflight := inflight, pl_delivery_queue := queue, pl_store := store\<rparr>
        in if rc \<noteq> 0 then storage_fail s1 else next_round s1)"

definition storage_step :: "(nat \<Rightarrow> bool) \<Rightarrow> (cjson \<Rightarrow> string) \<Rightarrow> int \<Rightarrow> pipeline \<Rightarrow> pipeline option" where
  "storage_step alloc print_text now_ms s =
     (case pl_storage s of
        S_Control \<Rightarrow> Some (control_phase s)
      | S_Report \<Rightarrow> Some (report_phase now_ms s)
      | S_Measurement \<Rightarrow> Some (measurement_phase alloc print_text s)
      | S_Schedule \<Rightarrow> Some (schedule_phase now_ms s)
      | S_Deliver \<Rightarrow> Some (deliver_phase s)
      | S_Done \<Rightarrow> None)"

section \<open>The MQTT worker\<close>

text \<open>cJSON's text parser and printer.\<close>

record cjson_library =
  cj_parse :: "char list \<Rightarrow> cjson option"
  cj_print :: "cjson \<Rightarrow> string"

definition gateway_create_delivery_payload ::
  "(char list \<Rightarrow> cjson option) \<Rightarrow> (nat \<Rightarrow> bool) \<Rightarrow> (cjson \<Rightarrow> string) \<Rightarrow> outbox_item_t \<Rightarrow> string option" where
  "gateway_create_delivery_payload parse_text alloc print_text item =
     (case item_payload_json item of None \<Rightarrow> None
      | Some json \<Rightarrow>
          if item_message_id item = [] then None
          else (case parse_text json of
                  Some (JObject members) \<Rightarrow>
                    if get_item members ''message_id'' \<noteq> None then None
                    else if \<not> alloc 0 then None
                    else if \<not> alloc 1 then None
                    else Some (print_text (JObject (members @ [(''message_id'', JString (Some (item_message_id item)))])))
                | _ \<Rightarrow> None))"

text \<open>The end of the worker: no further reports will come.\<close>

definition mqtt_finish :: "pipeline \<Rightarrow> pipeline" where
  "mqtt_finish s = s\<lparr>pl_mqtt := M_Done, pl_result_queue := tq_close (pl_result_queue s)\<rparr>"

text \<open>The blocking pop: \<open>None\<close> while the queue is empty and open.\<close>

definition mqtt_pop :: "pipeline \<Rightarrow> pipeline option" where
  "mqtt_pop s =
     (case tq_pop (pl_delivery_queue s) of ((queue_result, job), queue) \<Rightarrow>
        (case job of
           Some item \<Rightarrow> Some (s\<lparr>pl_delivery_queue := queue, pl_mqtt := M_Job item\<rparr>)
         | None \<Rightarrow> if queue_result = BQ_CLOSED then Some (mqtt_finish s) else None))"

text \<open>What one publish meets: the clock, the library's answer, the publisher, the waits, and the wall clock.\<close>

record publish_env =
  pe_alloc :: "nat \<Rightarrow> bool"
  pe_clock_ok :: bool
  pe_mosq :: "int \<times> int"
  pe_publisher :: mqtt_publisher
  pe_waits :: "mqtt_wait list"
  pe_realtime_ms :: "int option"

definition puback_arrived :: "publish_env \<Rightarrow> mqtt_wait list \<Rightarrow> bool" where
  "puback_arrived e rest \<longleftrightarrow> fst (pe_mosq e) = 0 \<and> OnPublish (snd (pe_mosq e)) \<in> set (consumed (pe_waits e) rest)"

definition mqtt_publish :: "cjson_library \<Rightarrow> publish_env \<Rightarrow> outbox_item_t \<Rightarrow> pipeline \<Rightarrow> pipeline option" where
  "mqtt_publish lib e item s =
     (case gateway_create_delivery_payload (cj_parse lib) (pe_alloc e) (cj_print lib) item of
        None \<Rightarrow> Some (mqtt_finish (worker_fail s))
      | Some payload \<Rightarrow>
          (case mqtt_publisher_publish_json (pe_clock_ok e) (pe_mosq e) (Some (pe_publisher e)) (item_topic item) (Some (cstr payload)) 3 (pe_waits e) of
             None \<Rightarrow> None
           | Some ((result, _), rest) \<Rightarrow>
               (let s1 = (if puback_arrived e rest then s\<lparr>pl_acked := pl_acked s @ [item_id item]\<rparr> else s);
                    report = \<lparr>rep_outbox_id = item_id item, rep_publish_result = result, rep_sent_at_ms = 0\<rparr>;
                    report1 = (if result = MQTT_PUBLISHER_OK
                               then (case pe_realtime_ms e of
                                       None \<Rightarrow> report\<lparr>rep_publish_result := MQTT_PUBLISHER_LIBRARY_ERROR\<rparr>
                                     | Some now \<Rightarrow> report\<lparr>rep_sent_at_ms := now\<rparr>)
                               else report)
                in Some (s1\<lparr>pl_mqtt := M_Report report1\<rparr>))))"

definition mqtt_push :: "gateway_delivery_report_t \<Rightarrow> pipeline \<Rightarrow> pipeline" where
  "mqtt_push report s =
     (case tq_push report (pl_result_queue s) of (result, queue) \<Rightarrow>
        let s1 = s\<lparr>pl_result_queue := queue\<rparr> in
        if result = BQ_OK then s1\<lparr>pl_mqtt := M_Idle\<rparr>
        else if result = BQ_CLOSED then mqtt_finish s1
        else if result \<noteq> BQ_TIMEOUT then mqtt_finish (worker_fail s1)
        else if pl_fatal s1 then mqtt_finish s1
        else s1)"

definition mqtt_step :: "cjson_library \<Rightarrow> publish_env \<Rightarrow> pipeline \<Rightarrow> pipeline option" where
  "mqtt_step lib e s =
     (case pl_mqtt s of
        M_Idle \<Rightarrow> mqtt_pop s
      | M_Job item \<Rightarrow> mqtt_publish lib e item s
      | M_Report report \<Rightarrow> Some (mqtt_push report s)
      | M_Done \<Rightarrow> None)"

section \<open>The source worker\<close>

text \<open>\<open>status_ok\<close> and \<open>sleep_ok\<close> are the results of reading the status and of sleeping, \<open>sample\<close> what the source
  returns.\<close>

definition source_check :: "bool \<Rightarrow> bool \<Rightarrow> measurement_source_result_t \<Rightarrow> measurement_t \<Rightarrow> pipeline \<Rightarrow> pipeline" where
  "source_check status_ok sleep_ok result sample s =
     (let failed = (worker_fail s)\<lparr>pl_source := Src_Done\<rparr> in
      if pl_stop s then s\<lparr>pl_source := Src_Done\<rparr>
      else if \<not> status_ok then failed
      else if pl_paused s then (if sleep_ok then s else failed)
      else case result of
             MEASUREMENT_SOURCE_NO_DATA \<Rightarrow> (if sleep_ok then s else failed)
           | MEASUREMENT_SOURCE_ERROR \<Rightarrow> failed
           | MEASUREMENT_SOURCE_OK \<Rightarrow> s\<lparr>pl_collected_count := pl_collected_count s + 1, pl_source := Src_Push sample\<rparr>)"

definition source_push :: "bool \<Rightarrow> bool \<Rightarrow> measurement_t \<Rightarrow> pipeline \<Rightarrow> pipeline" where
  "source_push status_ok sleep_ok m s =
     (case tq_push m (pl_measurement_queue s) of (result, queue) \<Rightarrow>
        let s1 = s\<lparr>pl_measurement_queue := queue\<rparr> in
        if result = BQ_OK
        then let s2 = s1\<lparr>pl_accepted := pl_accepted s @ [m]\<rparr> in
             if \<not> status_ok \<or> \<not> sleep_ok then (worker_fail s2)\<lparr>pl_source := Src_Done\<rparr> else s2\<lparr>pl_source := Src_Check\<rparr>
        else if result = BQ_CLOSED then s1\<lparr>pl_source := Src_Done\<rparr>
        else if result \<noteq> BQ_TIMEOUT then (worker_fail s1)\<lparr>pl_source := Src_Done\<rparr>
        else if pl_stop s1 then s1\<lparr>pl_source := Src_Done\<rparr>
        else s1)"

definition source_step :: "bool \<Rightarrow> bool \<Rightarrow> measurement_source_result_t \<Rightarrow> measurement_t \<Rightarrow> pipeline \<Rightarrow> pipeline option" where
  "source_step status_ok sleep_ok result sample s =
     (case pl_source s of
        Src_Check \<Rightarrow> Some (source_check status_ok sleep_ok result sample s)
      | Src_Push m \<Rightarrow> Some (source_push status_ok sleep_ok m s)
      | Src_Done \<Rightarrow> None)"

text \<open>After the join of the MQTT worker the jobs nobody took are freed; \<open>freed\<close> collects them.\<close>

function gateway_drain_delivery_queue :: "outbox_item_t tqueue \<Rightarrow> outbox_item_t list \<Rightarrow> outbox_item_t tqueue \<times> outbox_item_t list" where
  "gateway_drain_delivery_queue queue freed =
     (case tq_pop queue of
        ((BQ_OK, Some item), queue1) \<Rightarrow> gateway_drain_delivery_queue queue1 (freed @ [item])
      | (_, queue1) \<Rightarrow> (queue1, freed))"
  by pat_completeness auto
termination
  by (relation "measure (\<lambda>(q, freed). length (tq_items q))") (auto simp: tq_pop_def split: list.splits)

declare gateway_drain_delivery_queue.simps [simp del]

lemma drain_frees_all:
  "gateway_drain_delivery_queue queue freed = (queue\<lparr>tq_items := []\<rparr>, freed @ tq_items queue)"
proof (induction queue freed rule: gateway_drain_delivery_queue.induct)
  case (1 queue freed)
  then show ?case
    by (cases "tq_items queue") (simp_all add: gateway_drain_delivery_queue.simps [of queue] tq_pop_def)
qed

section \<open>The coordinator and the command side\<close>

text \<open>
  The end of \<open>gateway_workers_run\<close>: stop, close the upstream queues, join the threads in order, and close
  the result queue only after the MQTT worker is joined. The first step is the shutdown signal, the
  failure of a worker, or a failing sleep of the coordinator itself; joining a started thread
  succeeds once that thread has returned.
\<close>

definition coordinator_step :: "bool \<Rightarrow> pipeline \<Rightarrow> pipeline option" where
  "coordinator_step sleep_ok s =
     (case pl_coordinator s of
        Co_Run \<Rightarrow> Some (s\<lparr>pl_stop := True, pl_fatal := (pl_fatal s \<or> \<not> sleep_ok), pl_coordinator := Co_CloseMeasurement\<rparr>)
      | Co_CloseMeasurement \<Rightarrow> Some (s\<lparr>pl_measurement_queue := tq_close (pl_measurement_queue s), pl_coordinator := Co_CloseDelivery\<rparr>)
      | Co_CloseDelivery \<Rightarrow> Some (s\<lparr>pl_delivery_queue := tq_close (pl_delivery_queue s), pl_coordinator := Co_CloseControl\<rparr>)
      | Co_CloseControl \<Rightarrow> Some (s\<lparr>pl_control_requests := tq_close (pl_control_requests s), pl_coordinator := Co_JoinSource\<rparr>)
      | Co_JoinSource \<Rightarrow> if pl_source s = Src_Done then Some (s\<lparr>pl_coordinator := Co_JoinMqtt\<rparr>) else None
      | Co_JoinMqtt \<Rightarrow>
          if pl_mqtt s = M_Done
          then Some (s\<lparr>pl_result_queue := tq_close (pl_result_queue s), pl_coordinator := Co_JoinStorage\<rparr>) else None
      | Co_JoinStorage \<Rightarrow> if pl_storage s = S_Done
          then Some (s\<lparr>pl_control_results := tq_close (pl_control_results s), pl_coordinator := Co_Done\<rparr>) else None
      | Co_Done \<Rightarrow> None)"

text \<open>The command worker holds the command mutex from its push to its pop; it gives up waiting when the gateway stops.\<close>

definition command_push :: "gateway_storage_control_request_t \<Rightarrow> pipeline \<Rightarrow> pipeline option" where
  "command_push req s =
     (if pl_command_waits s then None
      else case tq_push req (pl_control_requests s) of (result, queue) \<Rightarrow>
             Some (s\<lparr>pl_control_requests := queue, pl_command_waits := (result = BQ_OK)\<rparr>))"

definition command_pop :: "pipeline \<Rightarrow> pipeline option" where
  "command_pop s =
     (if \<not> pl_command_waits s then None
      else case tq_pop (pl_control_results s) of ((result, _), queue) \<Rightarrow>
             Some (s\<lparr>pl_control_results := queue, pl_command_waits := (result = BQ_TIMEOUT \<and> \<not> pl_stop s)\<rparr>))"

section \<open>Runs\<close>

datatype pipeline_action =
    StorageAct "nat \<Rightarrow> bool" int
  | MqttAct publish_env
  | SourceAct bool bool measurement_source_result_t measurement_t
  | CoordinatorAct bool
  | CommandPush gateway_storage_control_request_t
  | CommandPop
  | SetPaused bool

fun perform :: "cjson_library \<Rightarrow> pipeline_action \<Rightarrow> pipeline \<Rightarrow> pipeline option" where
  "perform lib (StorageAct alloc now_ms) s = storage_step alloc (cj_print lib) now_ms s"
| "perform lib (MqttAct e) s = mqtt_step lib e s"
| "perform lib (SourceAct status_ok sleep_ok result sample) s = source_step status_ok sleep_ok result sample s"
| "perform lib (CoordinatorAct sleep_ok) s = coordinator_step sleep_ok s"
| "perform lib (CommandPush req) s = command_push req s"
| "perform lib CommandPop s = command_pop s"
| "perform lib (SetPaused b) s = Some (s\<lparr>pl_paused := b\<rparr>)"

text \<open>The pipeline on an opened store, when the threads have just been started.\<close>

definition initial_pipeline :: "store_world \<Rightarrow> pipeline" where
  "initial_pipeline store =
     \<lparr>pl_store = store, pl_measurement_queue = tq_new 32, pl_delivery_queue = tq_new 1, pl_result_queue = tq_new 1,
      pl_control_requests = tq_new 1, pl_control_results = tq_new 1,
      pl_stop = False, pl_fatal = False, pl_paused = False, pl_collected_count = 0,
      pl_storage = S_Control, pl_measurement_closed = False, pl_result_closed = False, pl_inflight = False,
      pl_retry_not_before_ms = 0, pl_mqtt = M_Idle, pl_source = Src_Check, pl_coordinator = Co_Run, pl_command_waits = False,
      pl_accepted = [], pl_saved = [], pl_acked = []\<rparr>"

inductive reachable :: "cjson_library \<Rightarrow> store_world \<Rightarrow> pipeline \<Rightarrow> bool" for lib store where
  start: "reachable lib store (initial_pipeline store)"
| act: "reachable lib store s \<Longrightarrow> perform lib a s = Some s' \<Longrightarrow> reachable lib store s'"

end
