(* ===== verification/Gateway_Pipeline.thy ===== *)
theory Gateway_Pipeline
  imports Gateway_Workers
begin

text \<open>
  What the pipeline of \<^verbatim>\<open>src/core/gateway_workers.c\<close> guarantees in every interleaving of its threads:
  messages are delivered one at a time and in the order in which they were stored, a message is
  marked as sent only after its own PUBACK, and no accepted measurement is lost. The proofs use the
  outbox only through the contract of a durable outbox.
\<close>

section \<open>The state as the contract sees it\<close>

definition stored :: "pipeline \<Rightarrow> ((int \<times> string \<times> string \<times> string) \<times> bool) list" where
  "stored s = outbox_view (durable (pl_store s))"

text \<open>The outbox ids on their way: in the delivery queue, at the MQTT worker, or in the result queue.\<close>

definition at_worker :: "mqtt_worker_state \<Rightarrow> int list" where
  "at_worker m = (case m of M_Job item \<Rightarrow> [item_id item] | M_Report r \<Rightarrow> [rep_outbox_id r] | _ \<Rightarrow> [])"

definition flight :: "pipeline \<Rightarrow> int list" where
  "flight s = map item_id (tq_items (pl_delivery_queue s)) @ at_worker (pl_mqtt s) @
     map rep_outbox_id (tq_items (pl_result_queue s))"

definition reports :: "pipeline \<Rightarrow> gateway_delivery_report_t list" where
  "reports s = (case pl_mqtt s of M_Report r \<Rightarrow> [r] | _ \<Rightarrow> []) @ tq_items (pl_result_queue s)"

lemma storage_control_keeps:
  assumes "store_ready w" and "storage_control req w = (res, w')"
  shows "store_ready w' \<and> outbox_view (durable w') = outbox_view (durable w)"
proof (cases "req_kind req")
  case GATEWAY_STORAGE_CONTROL_SET_INTERVAL
  obtain r w1 where r: "outbox_store_save_interval True (req_interval_ms req) w = (r, w1)" by fastforce
  then have "w' = w1" using assms GATEWAY_STORAGE_CONTROL_SET_INTERVAL by (auto simp: storage_control_def)
  then show ?thesis
    using save_interval_cases(1,2) [OF r] assms(1) interval_inv [of "sw_db w" "req_interval_ms req"]
    by (auto simp: store_ready_def durable_def outbox_view_def payload_of_def)
next
  case GATEWAY_STORAGE_CONTROL_GET_STATS
  obtain r st w1 where r: "outbox_store_get_stats True w = ((r, st), w1)" by (metis prod.collapse)
  then have "w' = w1" using assms GATEWAY_STORAGE_CONTROL_GET_STATS by (auto simp: storage_control_def)
  then show ?thesis
    using get_stats_keeps [of True w] r assms(1) by (auto simp: store_ready_def durable_def)
qed

section \<open>The delivery invariant\<close>

definition flow_inv :: "store_world \<Rightarrow> pipeline \<Rightarrow> bool" where
  "flow_inv store s \<longleftrightarrow>
     (pl_storage s \<noteq> S_Done \<longrightarrow> store_ready (pl_store s)) \<and>
     in_order (stored s) \<and>
     length (flight s) \<le> 1 \<and>
     (pl_storage s \<noteq> S_Done \<and> \<not> pl_inflight s \<longrightarrow> flight s = []) \<and>
     (\<forall>i\<in>set (flight s). first_pending fst i (stored s)) \<and>
     (\<forall>k. (k, True) \<in> set (stored s) \<longrightarrow> (k, True) \<in> set (outbox_view (durable store)) \<or> fst k \<in> set (pl_acked s)) \<and>
     (\<forall>r\<in>set (reports s). rep_publish_result r = MQTT_PUBLISHER_OK \<longrightarrow> rep_outbox_id r \<in> set (pl_acked s)) \<and>
     (pl_mqtt s = M_Done \<longrightarrow> pl_stop s \<and> tq_items (pl_delivery_queue s) = [] \<and>
        (tq_closed (pl_delivery_queue s) \<or> pl_storage s \<noteq> S_Deliver)) \<and>
     (tq_closed (pl_result_queue s) \<longrightarrow> pl_mqtt s = M_Done) \<and>
     (tq_closed (pl_delivery_queue s) \<or> pl_coordinator s \<noteq> Co_Run \<longrightarrow> pl_stop s) \<and>
     (pl_storage s = S_Deliver \<longrightarrow> \<not> pl_inflight s) \<and>
     (pl_fatal s \<longrightarrow> pl_stop s)"

lemma flow_initial:
  assumes "store_ready store" and "in_order (outbox_view (durable store))"
  shows "flow_inv store (initial_pipeline store)"
  using assms by (simp add: flow_inv_def initial_pipeline_def stored_def flight_def reports_def at_worker_def tq_new_def)

lemma flow_ready: "flow_inv store s \<Longrightarrow> pl_storage s \<noteq> S_Done \<Longrightarrow> store_ready (pl_store s)"
  by (simp add: flow_inv_def)

text \<open>A step that leaves alone what is on its way, and at most adds pending messages.\<close>

lemma flow_weaken:
  assumes "flow_inv store s" and "in_order (stored s')" and "\<And>i. first_pending fst i (stored s) \<Longrightarrow> first_pending fst i (stored s')"
    and "\<And>k. (k, True) \<in> set (stored s') \<Longrightarrow> (k, True) \<in> set (stored s)"
    and "pl_mqtt s' = pl_mqtt s" and "pl_delivery_queue s' = pl_delivery_queue s"
    and "pl_result_queue s' = pl_result_queue s" and "pl_acked s' = pl_acked s"
    and "pl_stop s \<Longrightarrow> pl_stop s'" and "pl_coordinator s' = pl_coordinator s \<or> pl_stop s'" and "pl_fatal s' \<Longrightarrow> pl_fatal s \<or> pl_stop s'"
    and "pl_storage s' \<noteq> S_Done \<Longrightarrow> pl_storage s \<noteq> S_Done \<and> store_ready (pl_store s') \<and> pl_inflight s' = pl_inflight s"
    and "pl_storage s' = S_Deliver \<Longrightarrow> pl_storage s = S_Deliver \<or> (\<not> pl_inflight s \<and> \<not> pl_stop s)"
  shows "flow_inv store s'"
proof -
  have e: "flight s' = flight s" "reports s' = reports s" using assms(5-7) by (simp_all add: flight_def reports_def)
  note inv = assms(1) [unfolded flow_inv_def]
  show ?thesis
    unfolding flow_inv_def e assms(5-8)
  proof (intro conjI)
    show "pl_storage s' \<noteq> S_Done \<longrightarrow> store_ready (pl_store s')"
      "pl_storage s' \<noteq> S_Done \<and> \<not> pl_inflight s' \<longrightarrow> flight s = []"
      using inv assms(12) by blast+
    show "in_order (stored s')" "\<forall>i\<in>set (flight s). first_pending fst i (stored s')" using inv assms(2,3) by blast+
    show "\<forall>k. (k, True) \<in> set (stored s') \<longrightarrow> (k, True) \<in> set (outbox_view (durable store)) \<or> fst k \<in> set (pl_acked s)"
      using inv assms(4) by blast
    show "pl_mqtt s = M_Done \<longrightarrow> pl_stop s' \<and> tq_items (pl_delivery_queue s) = [] \<and>
        (tq_closed (pl_delivery_queue s) \<or> pl_storage s' \<noteq> S_Deliver)"
      using inv assms(9,13) by blast
    show "tq_closed (pl_delivery_queue s) \<or> pl_coordinator s' \<noteq> Co_Run \<longrightarrow> pl_stop s'"
      using inv assms(9,10) by metis
    show "pl_storage s' = S_Deliver \<longrightarrow> \<not> pl_inflight s'"
    proof
      assume d: "pl_storage s' = S_Deliver"
      then have "pl_inflight s' = pl_inflight s" using assms(12) by simp
      then show "\<not> pl_inflight s'" using inv assms(13) [OF d] by metis
    qed
    show "pl_fatal s' \<longrightarrow> pl_stop s'" using inv assms(9,11) by blast
  qed (use inv in blast)+
qed

text \<open>A step that leaves the messages alone as well.\<close>

lemma flow_frame:
  assumes "flow_inv store s" and "stored s' = stored s" and "pl_mqtt s' = pl_mqtt s" and "pl_delivery_queue s' = pl_delivery_queue s"
    and "pl_result_queue s' = pl_result_queue s" and "pl_acked s' = pl_acked s"
    and "pl_stop s \<Longrightarrow> pl_stop s'" and "pl_coordinator s' = pl_coordinator s \<or> pl_stop s'" and "pl_fatal s' \<Longrightarrow> pl_fatal s \<or> pl_stop s'"
    and "pl_storage s' \<noteq> S_Done \<Longrightarrow> pl_storage s \<noteq> S_Done \<and> store_ready (pl_store s') \<and> pl_inflight s' = pl_inflight s"
    and "pl_storage s' = S_Deliver \<Longrightarrow> pl_storage s = S_Deliver \<or> (\<not> pl_inflight s \<and> \<not> pl_stop s)"
  shows "flow_inv store s'"
  by (rule flow_weaken [OF assms(1)]) (use assms in \<open>simp_all add: flow_inv_def\<close>)

lemmas pipeline_simps = storage_fail_def worker_fail_def next_round_def stored_def Let_def

lemma control_flow:
  assumes "flow_inv store s" and "pl_storage s = S_Control"
  shows "flow_inv store (control_phase s)"
proof (cases "tq_items (pl_control_requests s)")
  case Nil
  show ?thesis
    by (rule flow_frame [OF assms(1)]) (use assms Nil flow_ready [OF assms(1)] in \<open>simp_all add: control_phase_def tq_pop_def pipeline_simps split: if_splits\<close>)
next
  case (Cons req reqs)
  obtain res w where w: "storage_control req (pl_store s) = (res, w)" by fastforce
  obtain r q where q: "tq_push res (pl_control_results s) = (r, q)" by fastforce
  have "store_ready w" "outbox_view (durable w) = outbox_view (durable (pl_store s))"
    using storage_control_keeps [OF _ w] flow_ready [OF assms(1)] assms(2) by simp_all
  then show ?thesis
    by (intro flow_frame [OF assms(1)]) (use assms Cons w q in \<open>simp_all add: control_phase_def tq_pop_def pipeline_simps split: if_splits\<close>)
qed

lemma schedule_flow:
  assumes "flow_inv store s" and "pl_storage s = S_Schedule"
  shows "flow_inv store (schedule_phase now_ms s)"
  by (rule flow_frame [OF assms(1)])
    (use assms flow_ready [OF assms(1)] in \<open>simp_all add: schedule_phase_def pipeline_simps split: if_splits\<close>)

lemma storage_save_outcome:
  assumes "store_ready w" and "gateway_storage_save alloc print_text m w = (rc, w')"
  shows "rc = 0 \<Longrightarrow> store_ready w'"
    and "in_order (outbox_view (durable w)) \<Longrightarrow> in_order (outbox_view (durable w'))"
    and "first_pending fst i (outbox_view (durable w)) \<Longrightarrow> first_pending fst i (outbox_view (durable w'))"
    and "(k, True) \<in> set (outbox_view (durable w')) \<Longrightarrow> (k, True) \<in> set (outbox_view (durable w))"
proof -
  let ?topic = "storage_topic (cstr (device_id m))"
  let ?save = "\<lambda>(meas, topic). outbox_store_save_measurement alloc print_text True meas topic"
  consider (refused) "rc = -1" "w' = w" | (saved) res where "?save (Some m, Some ?topic) w = (res, w')" "rc = (if res = OUTBOX_STORE_OK then 0 else -1)"
    using assms(2) by (auto simp: gateway_storage_save_def Let_def split: if_splits prod.splits)
  then have "(rc = 0 \<longrightarrow> store_ready w') \<and>
    (in_order (outbox_view (durable w)) \<longrightarrow> in_order (outbox_view (durable w'))) \<and>
    (first_pending fst i (outbox_view (durable w)) \<longrightarrow> first_pending fst i (outbox_view (durable w'))) \<and>
    ((k, True) \<in> set (outbox_view (durable w')) \<longrightarrow> (k, True) \<in> set (outbox_view (durable w)))"
  proof cases
    case (saved res)
    show ?thesis
      using sqlite_outbox.save_in_order [OF assms(1) saved(1)] sqlite_outbox.save_first_pending [OF assms(1) saved(1)]
        sqlite_outbox.save_ok [OF assms(1)] sqlite_outbox.save_failed [OF assms(1) saved(1)] saved
      by (cases "res = OUTBOX_STORE_OK") fastforce+
  qed simp
  then show "rc = 0 \<Longrightarrow> store_ready w'" "in_order (outbox_view (durable w)) \<Longrightarrow> in_order (outbox_view (durable w'))"
    "first_pending fst i (outbox_view (durable w)) \<Longrightarrow> first_pending fst i (outbox_view (durable w'))"
    "(k, True) \<in> set (outbox_view (durable w')) \<Longrightarrow> (k, True) \<in> set (outbox_view (durable w))" by blast+
qed

lemma measurement_flow:
  assumes "flow_inv store s" and "pl_storage s = S_Measurement"
  shows "flow_inv store (measurement_phase alloc print_text s)"
proof (cases "pl_measurement_closed s \<or> tq_items (pl_measurement_queue s) = []")
  case True
  show ?thesis
    by (rule flow_frame [OF assms(1)])
      (use True assms flow_ready [OF assms(1)] in \<open>auto simp: measurement_phase_def tq_pop_def pipeline_simps split: list.splits if_splits\<close>)
next
  case False
  then obtain m ms where m: "tq_items (pl_measurement_queue s) = m # ms" by (cases "tq_items (pl_measurement_queue s)") auto
  obtain rc w where w: "gateway_storage_save alloc print_text m (pl_store s) = (rc, w)" by fastforce
  have ready: "store_ready (pl_store s)" using flow_ready assms by simp
  have "in_order (stored s)" using assms by (simp add: flow_inv_def)
  then show ?thesis
    by (intro flow_weaken [OF assms(1)])
      (use storage_save_outcome [OF ready w] assms False m w in \<open>simp_all add: measurement_phase_def tq_pop_def pipeline_simps split: if_splits\<close>)
qed

lemma apply_report_outcome:
  assumes ready: "store_ready w" and rep: "gateway_storage_apply_report report w = (rc, retry_needed, w')"
    and ord: "in_order (outbox_view (durable w))" and first: "first_pending fst (rep_outbox_id report) (outbox_view (durable w))"
  shows "store_ready w'" and "in_order (outbox_view (durable w'))"
    and "(k, True) \<in> set (outbox_view (durable w')) \<Longrightarrow>
      (k, True) \<in> set (outbox_view (durable w)) \<or> (fst k = rep_outbox_id report \<and> rep_publish_result report = MQTT_PUBLISHER_OK)"
proof -
  consider (none) "w' = w" | (mark) res where "rep_publish_result report = MQTT_PUBLISHER_OK"
      "outbox_store_mark_sent True (rep_outbox_id report) (rep_sent_at_ms report) w = (res, w')"
    | (failed) res where "outbox_store_record_delivery_failure True (rep_outbox_id report) (Some (failure_text (rep_publish_result report))) w = (res, w')"
    using rep by (auto simp: gateway_storage_apply_report_def Let_def split: if_splits prod.splits)
  then have "store_ready w' \<and> in_order (outbox_view (durable w')) \<and> ((k, True) \<in> set (outbox_view (durable w')) \<longrightarrow>
      (k, True) \<in> set (outbox_view (durable w)) \<or> (fst k = rep_outbox_id report \<and> rep_publish_result report = MQTT_PUBLISHER_OK))"
  proof cases
    case mark
    then show ?thesis
      using sqlite_outbox.mark_keeps [OF ready mark(2)] sqlite_outbox.mark_in_order [OF ready mark(2) ord first]
      by (auto simp: flag_sent_def)
  next
    case failed
    then show ?thesis using sqlite_outbox.note_failure_keeps [OF ready failed] ord by simp
  qed (simp add: ready ord)
  then show "store_ready w'" "in_order (outbox_view (durable w'))"
    "(k, True) \<in> set (outbox_view (durable w')) \<Longrightarrow>
      (k, True) \<in> set (outbox_view (durable w)) \<or> (fst k = rep_outbox_id report \<and> rep_publish_result report = MQTT_PUBLISHER_OK)"
    by blast+
qed

text \<open>The storage worker takes over a report: nothing is on its way any more.\<close>

lemma flow_report_taken:
  assumes "flow_inv store s" and "tq_items (pl_result_queue s) = report # rs" and "pl_storage s \<noteq> S_Done"
    and "gateway_storage_apply_report report (pl_store s) = (rc, retry_needed, w)"
    and "stored s' = outbox_view (durable w)" and "store_ready (pl_store s')"
    and "pl_mqtt s' = pl_mqtt s" and "pl_delivery_queue s' = pl_delivery_queue s" and "pl_result_queue s' = (pl_result_queue s)\<lparr>tq_items := rs\<rparr>"
    and "pl_acked s' = pl_acked s" and "pl_stop s \<Longrightarrow> pl_stop s'" and "pl_coordinator s' = pl_coordinator s"
    and "pl_fatal s' \<Longrightarrow> pl_fatal s \<or> pl_stop s'" and "pl_storage s' \<noteq> S_Deliver"
  shows "flow_inv store s'"
proof -
  note inv = assms(1) [unfolded flow_inv_def]
  have f: "rep_outbox_id report \<in> set (flight s)" "rs = []" "tq_items (pl_delivery_queue s) = []" "at_worker (pl_mqtt s) = []"
    using inv assms(2) by (auto simp: flight_def)
  then have empty: "flight s' = []" "reports s' = []"
    using assms(7-9) by (auto simp: flight_def reports_def at_worker_def split: mqtt_worker_state.splits)
  have ready: "store_ready (pl_store s)" using flow_ready assms(1,3) by blast
  have ord: "in_order (outbox_view (durable (pl_store s)))" and first: "first_pending fst (rep_outbox_id report) (outbox_view (durable (pl_store s)))"
    using inv f(1) by (auto simp: stored_def)
  note out = apply_report_outcome [OF ready assms(4) ord first]
  have acked: "rep_publish_result report = MQTT_PUBLISHER_OK \<longrightarrow> rep_outbox_id report \<in> set (pl_acked s)"
    using inv assms(2) by (simp add: reports_def)
  show ?thesis
    unfolding flow_inv_def assms(7-10)
  proof (intro conjI)
    show "\<forall>k. (k, True) \<in> set (stored s') \<longrightarrow> (k, True) \<in> set (outbox_view (durable store)) \<or> fst k \<in> set (pl_acked s)"
    proof (intro allI impI)
      fix k
      assume "(k, True) \<in> set (stored s')"
      then have "(k, True) \<in> set (stored s) \<or> fst k = rep_outbox_id report \<and> rep_publish_result report = MQTT_PUBLISHER_OK"
        using out(3) assms(5) by (simp add: stored_def)
      then show "(k, True) \<in> set (outbox_view (durable store)) \<or> fst k \<in> set (pl_acked s)"
        using inv acked by metis
    qed
    show "pl_mqtt s = M_Done \<longrightarrow> pl_stop s' \<and> tq_items (pl_delivery_queue s) = [] \<and>
        (tq_closed (pl_delivery_queue s) \<or> pl_storage s' \<noteq> S_Deliver)" using inv assms(11,14) by blast
    show "tq_closed ((pl_result_queue s)\<lparr>tq_items := rs\<rparr>) \<longrightarrow> pl_mqtt s = M_Done" using inv by simp
    show "tq_closed (pl_delivery_queue s) \<or> pl_coordinator s' \<noteq> Co_Run \<longrightarrow> pl_stop s'" using inv assms(11,12) by metis
    show "pl_fatal s' \<longrightarrow> pl_stop s'" using inv assms(11,13) by blast
  qed (use empty out assms(5,6,14) in auto)
qed

lemma report_flow:
  assumes "flow_inv store s" and "pl_storage s = S_Report"
  shows "flow_inv store (report_phase now_ms s)"
proof (cases "tq_items (pl_result_queue s)")
  case (Cons report rs)
  obtain rc retry_needed w where w: "gateway_storage_apply_report report (pl_store s) = (rc, retry_needed, w)" by (metis prod.collapse)
  have nd: "pl_storage s \<noteq> S_Done" using assms by simp
  have ready: "store_ready w"
  proof (rule apply_report_outcome(1) [OF _ w])
    show "store_ready (pl_store s)" using flow_ready assms nd by blast
    show "in_order (outbox_view (durable (pl_store s)))" "first_pending fst (rep_outbox_id report) (outbox_view (durable (pl_store s)))"
      using assms(1) Cons by (auto simp: flow_inv_def stored_def flight_def)
  qed
  show ?thesis
    by (rule flow_report_taken [OF assms(1) Cons nd w])
      (use assms Cons w ready in \<open>simp_all add: report_phase_def tq_pop_def pipeline_simps split: if_splits\<close>)
next
  case Nil
  show ?thesis
  proof (cases "tq_closed (pl_result_queue s)")
    case False
    show ?thesis
      by (rule flow_frame [OF assms(1)])
        (use Nil False assms flow_ready [OF assms(1)] in \<open>simp_all add: report_phase_def tq_pop_def pipeline_simps\<close>)
  next
    case True
    have d: "pl_mqtt s = M_Done" "tq_items (pl_delivery_queue s) = []" using assms(1) True by (auto simp: flow_inv_def)
    then have "flight s = []" using Nil by (simp add: flight_def at_worker_def)
    then show ?thesis
      using assms True Nil flow_ready [OF assms(1)]
      by (simp add: report_phase_def tq_pop_def flow_inv_def stored_def flight_def reports_def)
  qed
qed

lemma deliver_flow:
  assumes "flow_inv store s" and "pl_storage s = S_Deliver"
  shows "flow_inv store (deliver_phase s)"
proof -
  note inv = assms(1) [unfolded flow_inv_def]
  have nf: "\<not> pl_inflight s" "flight s = []" using inv assms(2) by auto
  have ready: "store_ready (pl_store s)" using flow_ready assms by simp
  obtain res it w where e: "outbox_store_read_earliest_pending True (pl_store s) = ((res, it), w)" by (metis prod.collapse)
  have keep: "store_ready w" "outbox_view (durable w) = outbox_view (durable (pl_store s))"
    using sqlite_outbox.earliest_keeps [OF ready e] by simp_all
  obtain r q where q: "tq_push it (pl_delivery_queue s) = (r, q)" by fastforce
  show ?thesis
  proof (cases "res = OUTBOX_STORE_OK \<and> r = BQ_OK")
    case False
    then have "q = pl_delivery_queue s \<or> res \<noteq> OUTBOX_STORE_OK" using tq_push_cases [OF q] by auto
    then show ?thesis
      by (intro flow_frame [OF assms(1)])
        (use False e q keep nf assms(2) in \<open>auto simp: deliver_phase_def gateway_storage_schedule_delivery_def pipeline_simps split: if_splits\<close>)
  next
    case True
    then have push: "\<not> tq_closed (pl_delivery_queue s)" "q = (pl_delivery_queue s)\<lparr>tq_items := tq_items (pl_delivery_queue s) @ [it]\<rparr>"
      using tq_push_cases [OF q] by auto
    have first: "first_pending fst (item_id it) (outbox_view (durable (pl_store s)))"
      using sqlite_outbox.earliest_ok [OF ready] e True by (simp add: item_key_def)
    have s': "deliver_phase s = next_round (s\<lparr>pl_inflight := True, pl_delivery_queue := q, pl_store := w\<rparr>)"
      using True e q by (simp add: deliver_phase_def gateway_storage_schedule_delivery_def)
    have "pl_mqtt s \<noteq> M_Done" using inv push(1) assms(2) by blast
    moreover have "reports (deliver_phase s) = reports s" by (simp add: s' reports_def next_round_def)
    moreover have "flight (deliver_phase s) = [item_id it]"
      using nf(2) push(2) by (simp add: s' flight_def next_round_def)
    ultimately show ?thesis
      using inv push keep first by (simp add: flow_inv_def s' stored_def next_round_def)
  qed
qed

lemma storage_flow:
  assumes "flow_inv store s" and "storage_step alloc print_text now_ms s = Some s'"
  shows "flow_inv store s'"
  using assms control_flow report_flow measurement_flow schedule_flow deliver_flow
  by (auto simp: storage_step_def split: storage_pc.splits)

section \<open>The other workers keep it\<close>

text \<open>The MQTT worker leaves with whatever it held.\<close>

lemma flow_mqtt_finish:
  assumes "flow_inv store s" and "pl_stop s" and "tq_items (pl_delivery_queue s) = []"
    and "tq_closed (pl_delivery_queue s) \<or> pl_storage s \<noteq> S_Deliver"
  shows "flow_inv store (mqtt_finish s)"
proof -
  note inv = assms(1) [unfolded flow_inv_def]
  have sub: "set (flight (mqtt_finish s)) \<subseteq> set (flight s)" "length (flight (mqtt_finish s)) \<le> length (flight s)"
    "set (reports (mqtt_finish s)) \<subseteq> set (reports s)"
    by (auto simp: mqtt_finish_def flight_def reports_def at_worker_def tq_close_def)
  have same: "stored (mqtt_finish s) = stored s" "pl_storage (mqtt_finish s) = pl_storage s" "pl_store (mqtt_finish s) = pl_store s"
    "pl_inflight (mqtt_finish s) = pl_inflight s" "pl_acked (mqtt_finish s) = pl_acked s" "pl_stop (mqtt_finish s) = pl_stop s"
    "pl_delivery_queue (mqtt_finish s) = pl_delivery_queue s" "pl_coordinator (mqtt_finish s) = pl_coordinator s"
    "pl_fatal (mqtt_finish s) = pl_fatal s" "pl_mqtt (mqtt_finish s) = M_Done" "tq_closed (pl_result_queue (mqtt_finish s))"
    by (simp_all add: mqtt_finish_def stored_def tq_close_def)
  show ?thesis
    unfolding flow_inv_def same
  proof (intro conjI)
    show "length (flight (mqtt_finish s)) \<le> 1" using inv sub(2) by linarith
    show "\<forall>i\<in>set (flight (mqtt_finish s)). first_pending fst i (stored s)" using inv sub(1) by blast
    show "pl_storage s \<noteq> S_Done \<and> \<not> pl_inflight s \<longrightarrow> flight (mqtt_finish s) = []" using inv sub(1) by auto
    show "\<forall>r\<in>set (reports (mqtt_finish s)). rep_publish_result r = MQTT_PUBLISHER_OK \<longrightarrow> rep_outbox_id r \<in> set (pl_acked s)"
      using inv sub(3) by blast
  qed (use inv assms in auto)
qed

lemma flow_worker_fail: "flow_inv store s \<Longrightarrow> flow_inv store (worker_fail s)"
  by (rule flow_frame [of store s]) (auto simp: worker_fail_def stored_def flow_inv_def)

text \<open>While the MQTT worker holds something, it is the only thing on its way.\<close>

lemma flow_holding:
  assumes "flow_inv store s" and "at_worker (pl_mqtt s) = [i]"
  shows "tq_items (pl_delivery_queue s) = []" and "tq_items (pl_result_queue s) = []" and "pl_storage s \<noteq> S_Deliver"
    and "\<not> tq_closed (pl_result_queue s)" and "flight s = [i]"
proof -
  note inv = assms(1) [unfolded flow_inv_def]
  have len: "length (map item_id (tq_items (pl_delivery_queue s)) @ [i] @ map rep_outbox_id (tq_items (pl_result_queue s))) \<le> 1"
    using inv assms(2) by (simp add: flight_def)
  then show e: "tq_items (pl_delivery_queue s) = []" "tq_items (pl_result_queue s) = []" by auto
  then show "flight s = [i]" using assms(2) by (simp add: flight_def)
  then show "pl_storage s \<noteq> S_Deliver" using inv by auto
  show "\<not> tq_closed (pl_result_queue s)" using inv assms(2) by (auto simp: at_worker_def)
qed

text \<open>What the worker holds moves on: the same id stays on its way.\<close>

lemma flow_moves:
  assumes "flow_inv store s" and "flight s' = flight s" and "stored s' = stored s"
    and "pl_storage s' = pl_storage s" "pl_store s' = pl_store s" "pl_inflight s' = pl_inflight s"
    "pl_stop s' = pl_stop s" "pl_fatal s' = pl_fatal s" "pl_coordinator s' = pl_coordinator s"
    and "set (pl_acked s) \<subseteq> set (pl_acked s')"
    and "\<And>r. r \<in> set (reports s') \<Longrightarrow> rep_publish_result r = MQTT_PUBLISHER_OK \<Longrightarrow> r \<in> set (reports s) \<or> rep_outbox_id r \<in> set (pl_acked s')"
    and "pl_mqtt s \<noteq> M_Done" and "pl_mqtt s' \<noteq> M_Done"
    and "tq_closed (pl_delivery_queue s') = tq_closed (pl_delivery_queue s)" and "tq_closed (pl_result_queue s') = tq_closed (pl_result_queue s)"
  shows "flow_inv store s'"
proof -
  note inv = assms(1) [unfolded flow_inv_def]
  show ?thesis
    unfolding flow_inv_def assms(2-9) assms(14,15)
  proof (intro conjI)
    show "\<forall>k. (k, True) \<in> set (stored s) \<longrightarrow> (k, True) \<in> set (outbox_view (durable store)) \<or> fst k \<in> set (pl_acked s')"
      using inv assms(10) by blast
    show "\<forall>r\<in>set (reports s'). rep_publish_result r = MQTT_PUBLISHER_OK \<longrightarrow> rep_outbox_id r \<in> set (pl_acked s')"
      using inv assms(10,11) by blast
  qed (use inv assms(12,13) in blast)+
qed

lemma mqtt_flow:
  assumes "flow_inv store s" and "mqtt_step lib e s = Some s'"
  shows "flow_inv store s'"
proof (cases "pl_mqtt s")
  case M_Idle
  note inv = assms(1) [unfolded flow_inv_def]
  show ?thesis
  proof (cases "tq_items (pl_delivery_queue s)")
    case Nil
    then have "tq_closed (pl_delivery_queue s)" "s' = mqtt_finish s"
      using assms(2) M_Idle by (auto simp: mqtt_step_def mqtt_pop_def tq_pop_def split: if_splits)
    then show ?thesis using flow_mqtt_finish [OF assms(1)] Nil inv by blast
  next
    case (Cons item items)
    then have s': "s' = s\<lparr>pl_delivery_queue := (pl_delivery_queue s)\<lparr>tq_items := items\<rparr>, pl_mqtt := M_Job item\<rparr>"
      using assms(2) M_Idle by (simp add: mqtt_step_def mqtt_pop_def tq_pop_def)
    have "items = []" using inv Cons by (auto simp: flight_def)
    then show ?thesis
      by (intro flow_moves [OF assms(1)])
        (simp_all add: s' M_Idle Cons flight_def stored_def reports_def at_worker_def)
  qed
next
  case (M_Job item)
  have hold: "at_worker (pl_mqtt s) = [item_id item]" using M_Job by (simp add: at_worker_def)
  note h = flow_holding [OF assms(1) hold]
  show ?thesis
  proof (cases "gateway_create_delivery_payload (cj_parse lib) (pe_alloc e) (cj_print lib) item")
    case None
    then have "s' = mqtt_finish (worker_fail s)" using assms(2) M_Job by (simp add: mqtt_step_def mqtt_publish_def)
    moreover have "flow_inv store (mqtt_finish (worker_fail s))"
      by (rule flow_mqtt_finish [OF flow_worker_fail [OF assms(1)]]) (use h in \<open>simp_all add: worker_fail_def\<close>)
    ultimately show ?thesis by simp
  next
    case (Some payload)
    obtain result mid where mosq: "pe_mosq e = (result, mid)" by fastforce
    from assms(2) M_Job Some obtain r p' rest where pub:
        "mqtt_publisher_publish_json (pe_clock_ok e) (pe_mosq e) (Some (pe_publisher e)) (item_topic item) (Some (cstr payload)) 3 (pe_waits e) = Some ((r, p'), rest)"
      by (auto simp: mqtt_step_def mqtt_publish_def split: option.splits)
    have ack: "r = MQTT_PUBLISHER_OK \<Longrightarrow> puback_arrived e rest"
      using publish_json_ok pub mosq by (fastforce simp: puback_arrived_def)
    obtain report where s': "s' = s\<lparr>pl_acked := (if puback_arrived e rest then pl_acked s @ [item_id item] else pl_acked s), pl_mqtt := M_Report report\<rparr>"
        "rep_outbox_id report = item_id item" "rep_publish_result report = MQTT_PUBLISHER_OK \<longrightarrow> r = MQTT_PUBLISHER_OK"
      using assms(2) M_Job Some pub by (auto simp: mqtt_step_def mqtt_publish_def Let_def split: if_splits option.splits)
    then show ?thesis
      by (intro flow_moves [OF assms(1)]) (use M_Job ack in \<open>auto simp: flight_def stored_def reports_def at_worker_def\<close>)
  qed
next
  case (M_Report report)
  have hold: "at_worker (pl_mqtt s) = [rep_outbox_id report]" using M_Report by (simp add: at_worker_def)
  note h = flow_holding [OF assms(1) hold]
  obtain r q where q: "tq_push report (pl_result_queue s) = (r, q)" by fastforce
  have s': "s' = mqtt_push report s" using assms(2) M_Report by (simp add: mqtt_step_def)
  consider (ok) "r = BQ_OK" "q = (pl_result_queue s)\<lparr>tq_items := [report]\<rparr>" | (full) "r = BQ_TIMEOUT" "q = pl_result_queue s"
    using tq_push_cases [OF q] h by auto
  then show ?thesis
  proof cases
    case ok
    then have "s' = s\<lparr>pl_result_queue := (pl_result_queue s)\<lparr>tq_items := [report]\<rparr>, pl_mqtt := M_Idle\<rparr>"
      using q by (simp add: s' mqtt_push_def)
    then show ?thesis
      by (intro flow_moves [OF assms(1)]) (use M_Report h in \<open>simp_all add: flight_def stored_def reports_def at_worker_def\<close>)
  next
    case full
    then have "s' = (if pl_fatal s then mqtt_finish s else s)" using q by (simp add: s' mqtt_push_def)
    moreover have "pl_fatal s \<Longrightarrow> flow_inv store (mqtt_finish s)"
      by (rule flow_mqtt_finish [OF assms(1)]) (use h assms(1) in \<open>auto simp: flow_inv_def\<close>)
    ultimately show ?thesis using assms(1) by simp
  qed
next
  case M_Done
  then show ?thesis using assms(2) by (simp add: mqtt_step_def)
qed

lemma source_flow:
  assumes "flow_inv store s" and "source_step status_ok sleep_ok result sample s = Some s'"
  shows "flow_inv store s'"
proof (cases "pl_source s")
  case Src_Check
  show ?thesis
    by (rule flow_frame [OF assms(1)])
      (use assms(2) Src_Check flow_ready [OF assms(1)] in
        \<open>auto simp: source_step_def source_check_def pipeline_simps split: if_splits measurement_source_result_t.splits\<close>)
next
  case (Src_Push m)
  show ?thesis
    by (rule flow_frame [OF assms(1)])
      (use assms(2) Src_Push flow_ready [OF assms(1)] in
        \<open>auto simp: source_step_def source_push_def pipeline_simps split: if_splits prod.splits\<close>)
qed (use assms(2) in \<open>simp add: source_step_def\<close>)

text \<open>Closing a queue while the gateway stops; the result queue only when the MQTT worker is done.\<close>

lemma flow_close:
  assumes "flow_inv store s" and "pl_stop s"
    and "s' = s\<lparr>pl_delivery_queue := tq_close (pl_delivery_queue s), pl_coordinator := c\<rparr> \<or>
         pl_mqtt s = M_Done \<and> s' = s\<lparr>pl_result_queue := tq_close (pl_result_queue s), pl_coordinator := c\<rparr>"
  shows "flow_inv store s'"
proof -
  note inv = assms(1) [unfolded flow_inv_def]
  have same: "flight s' = flight s" "reports s' = reports s" "stored s' = stored s" "pl_storage s' = pl_storage s" "pl_store s' = pl_store s"
    "pl_inflight s' = pl_inflight s" "pl_acked s' = pl_acked s" "pl_stop s' = pl_stop s" "pl_fatal s' = pl_fatal s" "pl_mqtt s' = pl_mqtt s"
    "tq_items (pl_delivery_queue s') = tq_items (pl_delivery_queue s)"
    using assms(3) by (auto simp: flight_def reports_def stored_def tq_close_def)
  have closed: "tq_closed (pl_delivery_queue s) \<Longrightarrow> tq_closed (pl_delivery_queue s')"
    "tq_closed (pl_result_queue s') \<Longrightarrow> tq_closed (pl_result_queue s) \<or> pl_mqtt s = M_Done"
    using assms(3) by (auto simp: tq_close_def)
  show ?thesis
    unfolding flow_inv_def same by (intro conjI) (use inv assms(2) closed in blast)+
qed

lemma coordinator_flow:
  assumes "flow_inv store s" and "coordinator_step sleep_ok s = Some s'"
  shows "flow_inv store s'"
proof (cases "pl_coordinator s = Co_CloseDelivery \<or> pl_coordinator s = Co_JoinMqtt")
  case False
  have "pl_coordinator s \<noteq> Co_Run \<longrightarrow> pl_stop s" using assms(1) by (simp add: flow_inv_def)
  then have "\<exists>q r t f. s' = s\<lparr>pl_measurement_queue := q, pl_control_requests := r, pl_control_results := t, pl_stop := True, pl_fatal := f, pl_coordinator := pl_coordinator s'\<rparr>"
    using assms(2) False by (cases "pl_coordinator s"; cases s) (auto simp: coordinator_step_def split: if_splits)
  then obtain q r t f c where s': "s' = s\<lparr>pl_measurement_queue := q, pl_control_requests := r, pl_control_results := t, pl_stop := True, pl_fatal := f, pl_coordinator := c\<rparr>" by blast
  have "pl_storage s = S_Deliver \<Longrightarrow> \<not> pl_inflight s" using assms(1) by (simp add: flow_inv_def)
  then show ?thesis
    by (intro flow_frame [OF assms(1)]) (use flow_ready [OF assms(1)] in \<open>simp_all add: s' stored_def\<close>)
next
  case True
  then have "pl_stop s" using assms(1) by (auto simp: flow_inv_def)
  then show ?thesis
    using flow_close [OF assms(1), of s' "pl_coordinator s'"] assms(2) True by (auto simp: coordinator_step_def split: if_splits)
qed

lemma command_flow:
  assumes "flow_inv store s" and "command_push req s = Some s' \<or> command_pop s = Some s'"
  shows "flow_inv store s'"
  by (rule flow_frame [OF assms(1)])
    (use assms(2) flow_ready [OF assms(1)] in \<open>auto simp: command_push_def command_pop_def stored_def split: if_splits prod.splits\<close>)

lemma perform_flow:
  assumes "flow_inv store s" and "perform lib a s = Some s'"
  shows "flow_inv store s'"
proof (cases a)
  case (SetPaused b)
  show ?thesis
    by (rule flow_frame [OF assms(1)]) (use assms(2) SetPaused flow_ready [OF assms(1)] in \<open>auto simp: stored_def\<close>)
next
  case StorageAct
  then show ?thesis using storage_flow [OF assms(1)] assms(2) by simp
next
  case MqttAct
  then show ?thesis using mqtt_flow [OF assms(1)] assms(2) by simp
next
  case SourceAct
  then show ?thesis using source_flow [OF assms(1)] assms(2) by simp
next
  case CoordinatorAct
  then show ?thesis using coordinator_flow [OF assms(1)] assms(2) by simp
next
  case CommandPush
  then show ?thesis using command_flow [OF assms(1)] assms(2) by auto
next
  case CommandPop
  then show ?thesis using command_flow [OF assms(1)] assms(2) by auto
qed

lemma reachable_flow:
  assumes "reachable lib store s" and "store_ready store" and "in_order (outbox_view (durable store))"
  shows "flow_inv store s"
  using assms(1)
proof induction
  case start
  show ?case using assms(2,3) by (rule flow_initial)
next
  case (act s a s')
  then show ?case using perform_flow by blast
qed

section \<open>The intake invariant\<close>

text \<open>The topic and text a stored message must have for a measurement.\<close>

definition message_of :: "(cjson \<Rightarrow> string) \<Rightarrow> measurement_t \<Rightarrow> string \<times> string \<Rightarrow> bool" where
  "message_of print_text m tp \<longleftrightarrow>
     fst tp = storage_topic (cstr (device_id m)) \<and>
     (\<exists>alloc n. measurement_to_json alloc print_text (Some m) True = (MEASUREMENT_JSON_OK, Some (snd tp, n)))"

text \<open>
  Until the storage worker has ended, the accepted measurements are the saved ones followed by those
  in the queue; the stored messages are the initial ones followed by one message per saved
  measurement, in the same order.
\<close>

definition messages_for :: "(cjson \<Rightarrow> string) \<Rightarrow> store_world \<Rightarrow> measurement_t list \<Rightarrow> ((int \<times> string \<times> string \<times> string) \<times> bool) list \<Rightarrow> bool" where
  "messages_for print_text store saved msgs \<longleftrightarrow>
     (\<exists>old new. msgs = old @ new \<and> map fst old = map fst (outbox_view (durable store)) \<and>
        list_all2 (\<lambda>m x. message_of print_text m (snd (snd (fst x)))) saved new)"

definition intake_inv :: "(cjson \<Rightarrow> string) \<Rightarrow> store_world \<Rightarrow> pipeline \<Rightarrow> bool" where
  "intake_inv print_text store s \<longleftrightarrow>
     (pl_storage s \<noteq> S_Done \<longrightarrow> pl_accepted s = pl_saved s @ tq_items (pl_measurement_queue s)) \<and>
     (pl_storage s = S_Done \<and> \<not> pl_fatal s \<longrightarrow> pl_accepted s = pl_saved s \<and> pl_measurement_closed s) \<and>
     (pl_measurement_closed s \<longrightarrow> tq_closed (pl_measurement_queue s) \<and> tq_items (pl_measurement_queue s) = []) \<and>
     messages_for print_text store (pl_saved s) (stored s)"

lemma messages_for_flags:
  assumes "messages_for print_text store saved msgs" and "map fst msgs' = map fst msgs"
  shows "messages_for print_text store saved msgs'"
proof -
  from assms(1) obtain old new where m: "msgs = old @ new" "map fst old = map fst (outbox_view (durable store))"
    "list_all2 (\<lambda>m x. message_of print_text m (snd (snd (fst x)))) saved new" unfolding messages_for_def by blast
  obtain old' new' where e: "msgs' = old' @ new'" "map fst old' = map fst old" "map fst new' = map fst new"
    using assms(2) m(1) by (auto simp: map_eq_append_conv)
  have "list_all2 (\<lambda>m y. message_of print_text m (snd (snd y))) saved (map fst new')"
    using m(3) by (simp add: e(3) list.rel_map)
  then show ?thesis
    unfolding messages_for_def using m(2) e(1,2) by (auto simp: list.rel_map)
qed

lemma messages_for_snoc:
  "messages_for print_text store saved msgs \<Longrightarrow> message_of print_text m (snd (snd (fst x))) \<Longrightarrow>
   messages_for print_text store (saved @ [m]) (msgs @ [x])"
  unfolding messages_for_def by (metis append.assoc list_all2_Cons list_all2_Nil list_all2_appendI)

lemma intake_initial: "intake_inv print_text store (initial_pipeline store)"
  by (simp add: intake_inv_def initial_pipeline_def stored_def messages_for_def tq_new_def)

text \<open>A step that neither moves a measurement nor adds a message, and ends the storage worker only in failure or when all
  measurements are in.\<close>

lemma intake_frame:
  assumes "intake_inv print_text store s" and "map fst (stored s') = map fst (stored s)"
    and "pl_saved s' = pl_saved s" and "pl_accepted s' = pl_accepted s" and "tq_items (pl_measurement_queue s') = tq_items (pl_measurement_queue s)"
    and "tq_closed (pl_measurement_queue s) \<Longrightarrow> tq_closed (pl_measurement_queue s')"
    and "pl_measurement_closed s' \<Longrightarrow> pl_measurement_closed s \<or> tq_closed (pl_measurement_queue s) \<and> tq_items (pl_measurement_queue s) = []"
    and "pl_measurement_closed s \<Longrightarrow> pl_measurement_closed s'"
    and "pl_fatal s \<Longrightarrow> pl_fatal s'" and "pl_storage s' \<noteq> S_Done \<Longrightarrow> pl_storage s \<noteq> S_Done"
    and "pl_storage s' = S_Done \<Longrightarrow> pl_storage s = S_Done \<or> pl_fatal s' \<or> pl_measurement_closed s"
  shows "intake_inv print_text store s'"
proof -
  note inv = assms(1) [unfolded intake_inv_def]
  have acc: "pl_accepted s = pl_saved s \<and> pl_measurement_closed s'" if "pl_storage s' = S_Done" "\<not> pl_fatal s'"
    using inv that assms(8,9) assms(11) [OF that(1)] by (cases "pl_storage s = S_Done") auto
  have msgs: "messages_for print_text store (pl_saved s) (stored s')" using inv messages_for_flags [OF _ assms(2)] by blast
  show ?thesis
    unfolding intake_inv_def assms(3-5)
  proof (intro conjI)
    show "pl_measurement_closed s' \<longrightarrow> tq_closed (pl_measurement_queue s') \<and> tq_items (pl_measurement_queue s) = []"
      using inv assms(6,7) by blast
  qed (use inv acc msgs assms(10) in blast)+
qed

lemma apply_report_same:
  assumes "store_ready w" and "gateway_storage_apply_report report w = (rc, retry_needed, w')"
  shows "map fst (outbox_view (durable w')) = map fst (outbox_view (durable w))"
proof -
  consider (none) "w' = w" | (mark) res where
      "outbox_store_mark_sent True (rep_outbox_id report) (rep_sent_at_ms report) w = (res, w')"
    | (failed) res where "outbox_store_record_delivery_failure True (rep_outbox_id report) (Some (failure_text (rep_publish_result report))) w = (res, w')"
    using assms(2) by (auto simp: gateway_storage_apply_report_def Let_def split: if_splits prod.splits)
  then show ?thesis
  proof cases
    case mark
    have "map fst (flag_sent fst i v) = map fst v" for i and v :: "((int \<times> string \<times> string \<times> string) \<times> bool) list"
      by (auto simp: flag_sent_def)
    then show ?thesis using sqlite_outbox.mark_keeps [OF assms(1) mark] by auto
  next
    case failed
    then show ?thesis using sqlite_outbox.note_failure_keeps [OF assms(1) failed] by simp
  qed simp
qed

lemma storage_save_message:
  assumes "store_ready w" and "gateway_storage_save alloc print_text m w = (rc, w')"
  shows "rc = 0 \<Longrightarrow> \<exists>x. outbox_view (durable w') = outbox_view (durable w) @ [x] \<and> message_of print_text m (snd (snd (fst x)))"
    and "rc \<noteq> 0 \<Longrightarrow> outbox_view (durable w') = outbox_view (durable w)"
proof -
  let ?topic = "storage_topic (cstr (device_id m))"
  have t: "sw_txn w = None" and si: "store_inv (sw_db w)" using assms(1) by (simp_all add: store_ready_def)
  consider (refused) "rc = -1" "w' = w" | (saved) res where
      "outbox_store_save_measurement alloc print_text True (Some m) (Some ?topic) w = (res, w')" "rc = (if res = OUTBOX_STORE_OK then 0 else -1)"
    using assms(2) by (auto simp: gateway_storage_save_def Let_def split: if_splits prod.splits)
  then have "(rc = 0 \<longrightarrow> (\<exists>x. outbox_view (durable w') = outbox_view (durable w) @ [x] \<and> message_of print_text m (snd (snd (fst x))))) \<and>
    (rc \<noteq> 0 \<longrightarrow> outbox_view (durable w') = outbox_view (durable w))"
  proof cases
    case (saved res)
    then show ?thesis
      using save_measurement_cases [OF saved(1) t] outbox_view_saved [OF si] t
      by (auto simp: durable_def message_of_def simp del: split_paired_Ex split: if_splits)
  qed simp
  then show "rc = 0 \<Longrightarrow> \<exists>x. outbox_view (durable w') = outbox_view (durable w) @ [x] \<and> message_of print_text m (snd (snd (fst x)))"
    "rc \<noteq> 0 \<Longrightarrow> outbox_view (durable w') = outbox_view (durable w)" by blast+
qed

lemma measurement_intake:
  assumes "intake_inv print_text store s" and "pl_storage s = S_Measurement" and "store_ready (pl_store s)"
  shows "intake_inv print_text store (measurement_phase alloc print_text s)"
proof (cases "pl_measurement_closed s \<or> tq_items (pl_measurement_queue s) = []")
  case True
  show ?thesis
    by (rule intake_frame [OF assms(1)])
      (use True assms(2) in \<open>auto simp: measurement_phase_def tq_pop_def pipeline_simps split: list.splits if_splits\<close>)
next
  case False
  then obtain m ms where m: "tq_items (pl_measurement_queue s) = m # ms" by (cases "tq_items (pl_measurement_queue s)") auto
  obtain rc w where w: "gateway_storage_save alloc print_text m (pl_store s) = (rc, w)" by fastforce
  have "messages_for print_text store (pl_saved s) (outbox_view (durable (pl_store s)))"
    using assms(1) by (simp add: intake_inv_def stored_def)
  then have "messages_for print_text store (if rc = 0 then pl_saved s @ [m] else pl_saved s) (outbox_view (durable w))"
    using storage_save_message [OF assms(3) w] messages_for_snoc by (cases "rc = 0") fastforce+
  then show ?thesis
    using assms(1,2) False m w
    by (auto simp: intake_inv_def measurement_phase_def tq_pop_def pipeline_simps)
qed

lemma storage_intake:
  assumes "intake_inv print_text store s" and "flow_inv store s" and "storage_step alloc print_text now_ms s = Some s'"
  shows "intake_inv print_text store s'"
proof (cases "pl_storage s")
  case S_Control
  have ready: "store_ready (pl_store s)" using flow_ready [OF assms(2)] S_Control by simp
  show ?thesis
  proof (cases "tq_items (pl_control_requests s)")
    case Nil
    show ?thesis
      by (rule intake_frame [OF assms(1)])
        (use assms(3) S_Control Nil in \<open>auto simp: storage_step_def control_phase_def tq_pop_def pipeline_simps split: if_splits\<close>)
  next
    case (Cons req reqs)
    obtain res w where w: "storage_control req (pl_store s) = (res, w)" by fastforce
    obtain r q where q: "tq_push res (pl_control_results s) = (r, q)" by fastforce
    have s': "s' = control_phase s" using assms(3) S_Control by (simp add: storage_step_def)
    show ?thesis
      by (rule intake_frame [OF assms(1)])
        (use S_Control Cons w q storage_control_keeps [OF ready w] in
          \<open>simp_all add: s' control_phase_def tq_pop_def pipeline_simps split: if_splits\<close>)
  qed
next
  case S_Report
  have ready: "store_ready (pl_store s)" using flow_ready [OF assms(2)] S_Report by simp
  have s': "s' = report_phase now_ms s" using assms(3) S_Report by (simp add: storage_step_def)
  show ?thesis
  proof (cases "tq_items (pl_result_queue s)")
    case Nil
    show ?thesis
      by (rule intake_frame [OF assms(1)])
        (use S_Report Nil in \<open>simp_all add: s' report_phase_def tq_pop_def pipeline_simps split: if_splits\<close>)
  next
    case (Cons r rs)
    obtain rc retry_needed w where w: "gateway_storage_apply_report r (pl_store s) = (rc, retry_needed, w)" by (metis prod.collapse)
    show ?thesis
      by (rule intake_frame [OF assms(1)])
        (use S_Report Cons w apply_report_same [OF ready w] in \<open>simp_all add: s' report_phase_def tq_pop_def pipeline_simps split: if_splits\<close>)
  qed
next
  case S_Measurement
  then show ?thesis
    using measurement_intake [OF assms(1)] flow_ready [OF assms(2)] assms(3) by (auto simp: storage_step_def)
next
  case S_Schedule
  show ?thesis
    by (rule intake_frame [OF assms(1)])
      (use assms(3) S_Schedule in \<open>auto simp: storage_step_def schedule_phase_def pipeline_simps split: if_splits\<close>)
next
  case S_Deliver
  have ready: "store_ready (pl_store s)" using flow_ready [OF assms(2)] S_Deliver by simp
  obtain res it w where e: "outbox_store_read_earliest_pending True (pl_store s) = ((res, it), w)" by (metis prod.collapse)
  obtain r q where q: "tq_push it (pl_delivery_queue s) = (r, q)" by fastforce
  have s': "s' = deliver_phase s" using assms(3) S_Deliver by (simp add: storage_step_def)
  show ?thesis
    by (rule intake_frame [OF assms(1)])
      (use S_Deliver e q sqlite_outbox.earliest_keeps [OF ready e] in
        \<open>simp_all add: s' deliver_phase_def gateway_storage_schedule_delivery_def pipeline_simps split: if_splits\<close>)
qed (use assms(3) in \<open>simp add: storage_step_def\<close>)

lemma mqtt_intake:
  assumes "intake_inv print_text store s" and "mqtt_step lib e s = Some s'"
  shows "intake_inv print_text store s'"
  by (rule intake_frame [OF assms(1)])
    (use assms(2) in \<open>auto simp: mqtt_step_def mqtt_pop_def mqtt_publish_def mqtt_push_def mqtt_finish_def pipeline_simps
      split: mqtt_worker_state.splits if_splits option.splits prod.splits\<close>)

lemma source_intake:
  assumes "intake_inv print_text store s" and "source_step status_ok sleep_ok result sample s = Some s'"
  shows "intake_inv print_text store s'"
proof (cases "pl_source s")
  case Src_Check
  show ?thesis
    by (rule intake_frame [OF assms(1)])
      (use assms(2) Src_Check in \<open>auto simp: source_step_def source_check_def pipeline_simps
        split: if_splits measurement_source_result_t.splits\<close>)
next
  case (Src_Push m)
  obtain r q where q: "tq_push m (pl_measurement_queue s) = (r, q)" by fastforce
  show ?thesis
  proof (cases "r = BQ_OK")
    case True
    then show ?thesis
      using assms Src_Push q tq_push_cases [OF q]
      by (auto simp: source_step_def source_push_def intake_inv_def pipeline_simps split: if_splits)
  next
    case False
    show ?thesis
      by (rule intake_frame [OF assms(1)])
        (use assms(2) Src_Push q False tq_push_cases [OF q] in \<open>auto simp: source_step_def source_push_def pipeline_simps split: if_splits\<close>)
  qed
qed (use assms(2) in \<open>simp add: source_step_def\<close>)

lemma coordinator_intake:
  assumes "intake_inv print_text store s" and "coordinator_step sleep_ok s = Some s'"
  shows "intake_inv print_text store s'"
proof -
  have "\<exists>q f. tq_items q = tq_items (pl_measurement_queue s) \<and> (tq_closed (pl_measurement_queue s) \<longrightarrow> tq_closed q) \<and> (pl_fatal s \<longrightarrow> f) \<and>
      s' = s\<lparr>pl_measurement_queue := q, pl_delivery_queue := pl_delivery_queue s', pl_control_requests := pl_control_requests s',
        pl_control_results := pl_control_results s', pl_result_queue := pl_result_queue s', pl_stop := pl_stop s', pl_fatal := f,
        pl_coordinator := pl_coordinator s'\<rparr>"
    using assms(2) by (cases "pl_coordinator s"; cases s) (auto simp: coordinator_step_def tq_close_def split: if_splits)
  then obtain q c1 c2 c3 c4 c5 c6 f where q: "tq_items q = tq_items (pl_measurement_queue s)" "tq_closed (pl_measurement_queue s) \<longrightarrow> tq_closed q" "pl_fatal s \<longrightarrow> f"
    and s': "s' = s\<lparr>pl_measurement_queue := q, pl_delivery_queue := c1, pl_control_requests := c2, pl_control_results := c6, pl_result_queue := c3,
      pl_stop := c4, pl_fatal := f, pl_coordinator := c5\<rparr>"
    by blast
  show ?thesis by (rule intake_frame [OF assms(1)]) (use q in \<open>simp_all add: s' stored_def\<close>)
qed

lemma other_intake:
  assumes "intake_inv print_text store s"
    and "command_push req s = Some s' \<or> command_pop s = Some s' \<or> s' = s\<lparr>pl_paused := b\<rparr>"
  shows "intake_inv print_text store s'"
  by (rule intake_frame [OF assms(1)])
    (use assms(2) in \<open>auto simp: command_push_def command_pop_def stored_def split: if_splits prod.splits\<close>)

lemma perform_intake:
  assumes "intake_inv (cj_print lib) store s" and "flow_inv store s" and "perform lib a s = Some s'"
  shows "intake_inv (cj_print lib) store s'"
proof (cases a)
  case StorageAct
  then show ?thesis using storage_intake [OF assms(1,2)] assms(3) by simp
next
  case MqttAct
  then show ?thesis using mqtt_intake [OF assms(1)] assms(3) by simp
next
  case SourceAct
  then show ?thesis using source_intake [OF assms(1)] assms(3) by simp
next
  case (CommandPush req)
  then show ?thesis using other_intake [OF assms(1), of req s'] assms(3) by simp
next
  case (SetPaused b)
  then show ?thesis using other_intake [OF assms(1), of _ s' b] assms(3) by simp
qed (use other_intake [OF assms(1), of _ s'] coordinator_intake [OF assms(1)] assms(3) in simp_all)

lemma reachable_intake:
  assumes "reachable lib store s" and "store_ready store" and "in_order (outbox_view (durable store))"
  shows "intake_inv (cj_print lib) store s"
  using assms(1)
proof induction
  case start
  show ?case by (rule intake_initial)
next
  case (act s a s')
  then show ?case using perform_intake reachable_flow [OF act.hyps(1) assms(2,3)] by blast
qed

section \<open>The storage worker ends\<close>

fun storage_run :: "(nat \<Rightarrow> bool) \<Rightarrow> (cjson \<Rightarrow> string) \<Rightarrow> int list \<Rightarrow> pipeline \<Rightarrow> pipeline" where
  "storage_run alloc print_text [] s = s"
| "storage_run alloc print_text (now_ms # clock) s =
     (case storage_step alloc print_text now_ms s of None \<Rightarrow> s | Some s' \<Rightarrow> storage_run alloc print_text clock s')"

text \<open>What is left to take from a queue, the observation of its end included.\<close>

definition left :: "bool \<Rightarrow> 'a list \<Rightarrow> nat" where
  "left seen items = (if seen then 0 else length items + 1)"

definition rounds_left :: "pipeline \<Rightarrow> nat" where
  "rounds_left s =
     (let a = left (pl_measurement_closed s) (tq_items (pl_measurement_queue s)); b = left (pl_result_closed s) (tq_items (pl_result_queue s))
      in case pl_storage s of
           S_Control \<Rightarrow> 5 + 5 * ((a - 1) + (b - 1)) | S_Report \<Rightarrow> 4 + 5 * ((a - 1) + (b - 1)) | S_Measurement \<Rightarrow> 3 + 5 * ((a - 1) + b)
         | S_Schedule \<Rightarrow> 2 + 5 * (a + b) | S_Deliver \<Rightarrow> 1 + 5 * (a + b) | S_Done \<Rightarrow> 0)"

definition upstream_closed :: "pipeline \<Rightarrow> bool" where
  "upstream_closed s \<longleftrightarrow> tq_closed (pl_measurement_queue s) \<and> tq_closed (pl_result_queue s)"

lemmas round_simps = storage_step_def tq_pop_def upstream_closed_def rounds_left_def left_def storage_fail_def worker_fail_def next_round_def

lemma report_decreases:
  assumes "upstream_closed s" and "pl_storage s = S_Report"
  shows "upstream_closed (report_phase now_ms s) \<and> rounds_left (report_phase now_ms s) < rounds_left s"
proof (cases "tq_items (pl_result_queue s)")
  case Nil
  then show ?thesis using assms by (simp add: report_phase_def round_simps)
next
  case (Cons r rs)
  obtain rc retry_needed w where w: "gateway_storage_apply_report r (pl_store s) = (rc, retry_needed, w)" by (metis prod.collapse)
  show ?thesis using assms Cons w by (simp add: report_phase_def round_simps Let_def)
qed

lemma measurement_decreases:
  assumes "upstream_closed s" and "pl_storage s = S_Measurement"
  shows "upstream_closed (measurement_phase alloc print_text s) \<and> rounds_left (measurement_phase alloc print_text s) < rounds_left s"
proof (cases "tq_items (pl_measurement_queue s)")
  case Nil
  then show ?thesis using assms by (simp add: measurement_phase_def round_simps)
next
  case (Cons m ms)
  obtain rc w where w: "gateway_storage_save alloc print_text m (pl_store s) = (rc, w)" by fastforce
  show ?thesis using assms Cons w by (simp add: measurement_phase_def round_simps Let_def)
qed

lemma storage_step_decreases:
  assumes "upstream_closed s" and "storage_step alloc print_text now_ms s = Some s'"
  shows "upstream_closed s' \<and> rounds_left s' < rounds_left s"
proof (cases "pl_storage s")
  case S_Control
  then have s': "s' = control_phase s" using assms(2) by (simp add: storage_step_def)
  show ?thesis
  proof (cases "tq_items (pl_control_requests s)")
    case Nil
    then show ?thesis using assms(1) S_Control by (simp add: s' control_phase_def round_simps)
  next
    case (Cons req reqs)
    obtain res w where w: "storage_control req (pl_store s) = (res, w)" by fastforce
    obtain r q where q: "tq_push res (pl_control_results s) = (r, q)" by fastforce
    show ?thesis using assms(1) S_Control Cons w q by (simp add: s' control_phase_def round_simps Let_def)
  qed
next
  case S_Report
  then show ?thesis using report_decreases [OF assms(1)] assms(2) by (auto simp: storage_step_def)
next
  case S_Measurement
  then show ?thesis using measurement_decreases [OF assms(1)] assms(2) by (auto simp: storage_step_def)
next
  case S_Schedule
  then have s': "s' = schedule_phase now_ms s" using assms(2) by (simp add: storage_step_def)
  show ?thesis using assms(1) S_Schedule by (simp add: s' schedule_phase_def round_simps Let_def)
next
  case S_Deliver
  then have s': "s' = deliver_phase s" using assms(2) by (simp add: storage_step_def)
  obtain rc inflight q w where "gateway_storage_schedule_delivery (pl_inflight s) (pl_delivery_queue s) (pl_store s) = (rc, inflight, q, w)"
    by (metis prod.collapse)
  then show ?thesis using assms(1) S_Deliver by (simp add: s' deliver_phase_def round_simps Let_def)
qed (use assms(2) in \<open>simp add: storage_step_def\<close>)

lemma storage_run_done:
  "upstream_closed s \<Longrightarrow> rounds_left s \<le> length clock \<Longrightarrow> pl_storage (storage_run alloc print_text clock s) = S_Done"
proof (induction clock arbitrary: s)
  case Nil
  then show ?case by (auto simp: rounds_left_def Let_def split: storage_pc.splits)
next
  case (Cons now_ms clock)
  show ?case
  proof (cases "storage_step alloc print_text now_ms s")
    case None
    then show ?thesis by (auto simp: storage_step_def split: storage_pc.splits)
  next
    case (Some s')
    then show ?thesis using Cons storage_step_decreases [OF Cons.prems(1) Some] by simp
  qed
qed

lemma rounds_left_bound:
  "rounds_left s \<le> 5 * (length (tq_items (pl_measurement_queue s)) + length (tq_items (pl_result_queue s)) + 3)"
  by (auto simp: rounds_left_def left_def Let_def split: storage_pc.splits)

section \<open>Properties of the pipeline\<close>

text \<open>A run of named actions.\<close>

fun run_actions :: "cjson_library \<Rightarrow> pipeline_action list \<Rightarrow> pipeline \<Rightarrow> pipeline option" where
  "run_actions lib [] s = Some s"
| "run_actions lib (a # as) s = (case perform lib a s of None \<Rightarrow> None | Some s' \<Rightarrow> run_actions lib as s')"

lemma run_actions_reachable:
  "run_actions lib as s = Some s' \<Longrightarrow> reachable lib store s \<Longrightarrow> reachable lib store s'"
  by (induction as arbitrary: s) (auto split: option.splits intro: reachable.act)

definition demo_library :: cjson_library where
  "demo_library = \<lparr>cj_parse = (\<lambda>_. Some (JObject [])), cj_print = (\<lambda>_. ''{}'')\<rparr>"

definition demo_env :: publish_env where
  "demo_env = \<lparr>pe_alloc = (\<lambda>_. True), pe_clock_ok = True, pe_mosq = (0, 7), pe_publisher = demo_publisher,
     pe_waits = [(0, [OnPublish 7])], pe_realtime_ms = Some 1000\<rparr>"

text \<open>One storage round that schedules the pending message, the MQTT worker's three steps, and the round that applies the report.\<close>

definition demo_schedule :: "pipeline_action list" where
  "demo_schedule = replicate 5 (StorageAct (\<lambda>_. True) 1000)"

definition demo_deliver :: "pipeline_action list" where
  "demo_deliver = demo_schedule @ replicate 3 (MqttAct demo_env) @ replicate 2 (StorageAct (\<lambda>_. True) 1000)"

lemma demo_inv: "store_ready demo_store" "in_order (outbox_view (durable demo_store))"
  using demo_store_inv by (simp_all add: store_ready_def demo_store_def durable_def outbox_view_def in_order_def)

lemma demo_reaches:
  assumes "map_option f (run_actions demo_library as (initial_pipeline demo_store)) = Some y"
  obtains s where "reachable demo_library demo_store s" "f s = y"
proof -
  from assms obtain s where "run_actions demo_library as (initial_pipeline demo_store) = Some s" "f s = y" by auto
  then show thesis using that run_actions_reachable [OF _ reachable.start] by blast
qed

lemma demo_scheduled: "map_option flight (run_actions demo_library demo_schedule (initial_pipeline demo_store)) = Some [1]"
  by code_simp

lemma demo_delivered: "map_option (map snd \<circ> stored) (run_actions demo_library demo_deliver (initial_pipeline demo_store)) = Some [True]"
  by code_simp

text \<open>
  C1: In every state the threads can reach, in any interleaving and with any failures of SQLite, of the broker and of the
  clock, at most one message is on its way to the broker; it is the oldest message not yet
  delivered, and the delivered messages are exactly a prefix of the stored ones.
\<close>

theorem delivery_one_at_a_time_in_order:
  assumes "store_ready store" and "in_order (outbox_view (durable store))" and "reachable lib store s"
  shows "length (flight s) \<le> 1 \<and> (\<forall>i\<in>set (flight s). first_pending fst i (stored s)) \<and> in_order (stored s)"
  using reachable_flow [OF assms(3,1,2)] by (simp add: flow_inv_def)

theorem delivery_one_at_a_time_in_order_witness:
  "\<exists>s. reachable demo_library demo_store s \<and> flight s = [1] \<and> first_pending fst 1 (stored s) \<and> in_order (stored s)"
proof -
  obtain s where "reachable demo_library demo_store s" "flight s = [1]" by (rule demo_reaches [OF demo_scheduled])
  then show ?thesis using delivery_one_at_a_time_in_order [OF demo_inv] by (metis list.set_intros(1))
qed

text \<open>
  C2: A message the store holds as sent was already sent when the threads started, or the PUBACK of a publication of exactly
  this message has arrived since: no message is ever marked as sent without the broker having acknowledged it.
\<close>

theorem sent_only_after_puback:
  assumes "store_ready store" and "in_order (outbox_view (durable store))" and "reachable lib store s" and "(k, True) \<in> set (stored s)"
  shows "(k, True) \<in> set (outbox_view (durable store)) \<or> fst k \<in> set (pl_acked s)"
  using reachable_flow [OF assms(3,1,2)] assms(4) unfolding flow_inv_def by blast

theorem sent_only_after_puback_witness:
  "\<exists>s k. reachable demo_library demo_store s \<and> (k, True) \<in> set (stored s) \<and> fst k \<in> set (pl_acked s)"
proof -
  obtain s where r: "reachable demo_library demo_store s" "(map snd \<circ> stored) s = [True]" by (rule demo_reaches [OF demo_delivered])
  then obtain k where s: "reachable demo_library demo_store s" "(k, True) \<in> set (stored s)" by (cases "stored s") (auto simp del: split_paired_All)
  moreover have "(k, True) \<notin> set (outbox_view (durable demo_store))" by (simp add: demo_store_def durable_def outbox_view_def)
  ultimately show ?thesis using sent_only_after_puback [OF demo_inv s] by blast
qed

text \<open>
  C3: No accepted measurement is lost and none is stored twice: the stored messages are those present at the start followed by
  one message per saved measurement, with its topic and its JSON text, in the order in which the source produced them; the
  accepted measurements are the saved ones followed by those still queued; and when the storage worker has ended without a
  fatal error, every accepted measurement has been saved.
\<close>

theorem accepted_measurements_stored:
  assumes "store_ready store" and "in_order (outbox_view (durable store))" and "reachable lib store s"
  shows "messages_for (cj_print lib) store (pl_saved s) (stored s) \<and>
    (pl_storage s \<noteq> S_Done \<longrightarrow> pl_accepted s = pl_saved s @ tq_items (pl_measurement_queue s)) \<and>
    (pl_storage s = S_Done \<and> \<not> pl_fatal s \<longrightarrow> pl_accepted s = pl_saved s)"
  using reachable_intake [OF assms(3,1,2)] by (simp add: intake_inv_def)

definition demo_intake :: "pipeline_action list" where
  "demo_intake = replicate 2 (SourceAct True True MEASUREMENT_SOURCE_OK sample_measurement)"

lemma demo_accepts:
  obtains s where "reachable demo_library demo_store s" "pl_accepted s = [sample_measurement]" "pl_saved s = []" "pl_storage s = S_Control"
proof -
  have "run_actions demo_library demo_intake (initial_pipeline demo_store) =
      Some ((initial_pipeline demo_store)\<lparr>pl_measurement_queue := (tq_new 32)\<lparr>tq_items := [sample_measurement]\<rparr>,
        pl_collected_count := 1, pl_accepted := [sample_measurement]\<rparr>)"
    by (simp add: demo_intake_def numeral_2_eq_2 source_step_def source_check_def source_push_def initial_pipeline_def tq_push_def tq_new_def Let_def)
  then show thesis using that run_actions_reachable [OF _ reachable.start] by (fastforce simp: initial_pipeline_def)
qed

theorem accepted_measurements_stored_witness:
  "\<exists>s. reachable demo_library demo_store s \<and> pl_accepted s = [sample_measurement] \<and>
     tq_items (pl_measurement_queue s) = [sample_measurement] \<and> messages_for (cj_print demo_library) demo_store [] (stored s)"
proof -
  obtain s where "reachable demo_library demo_store s" "pl_accepted s = [sample_measurement]" "pl_saved s = []" "pl_storage s = S_Control"
    by (rule demo_accepts)
  then show ?thesis using accepted_measurements_stored [OF demo_inv, of demo_library s] by auto
qed

text \<open>
  C4: The storage worker ends: once its two upstream queues are closed, it returns after at most five of its own steps per
  queued measurement and report (and three further rounds), whatever the clock shows and whatever SQLite answers.
\<close>

theorem storage_worker_terminates:
  assumes "tq_closed (pl_measurement_queue s)" and "tq_closed (pl_result_queue s)"
    and "5 * (length (tq_items (pl_measurement_queue s)) + length (tq_items (pl_result_queue s)) + 3) \<le> length clock"
  shows "pl_storage (storage_run alloc print_text clock s) = S_Done"
  using storage_run_done [of s] assms rounds_left_bound [of s] by (simp add: upstream_closed_def)

theorem storage_worker_terminates_witness:
  "pl_storage (storage_run (\<lambda>_. False) (\<lambda>_. ''{}'') (replicate 20 (-1))
     ((initial_pipeline demo_store)\<lparr>pl_measurement_queue := \<lparr>tq_items = [sample_measurement], tq_cap = 32, tq_closed = True\<rparr>,
        pl_result_queue := tq_close (tq_new 1)\<rparr>)) = S_Done"
  by (rule storage_worker_terminates) (simp_all add: tq_close_def tq_new_def)

end
