(* ===== verification/Gateway_Run.thy ===== *)
theory Gateway_Run
  imports Gateway_Workers Remote_Commands Outbox_Schema
begin

text \<open>
  The life cycle: \<open>gateway_workers_run\<close> of \<^verbatim>\<open>src/core/gateway_workers.c\<close> (what it creates, starts, closes, joins
  and destroys, with its two labels STOP and CLEANUP) and \<open>gateway_run\<close> of \<^verbatim>\<open>src/core/gateway.c\<close> in the
  build with storage and MQTT. What the threads do in between is the subject of the theories of the workers;
  here their outcome is part of the environment.
\<close>

section \<open>Sleeping\<close>

datatype nanosleep_result = Slept | SleepInterrupted | SleepFailed

text \<open>The inner loop: \<open>None\<close> in the first component means that the chunk is slept to its end.\<close>

fun nap :: "nanosleep_result list \<Rightarrow> command_world \<Rightarrow> ((int option \<times> nanosleep_result list) \<times> command_world) option" where
  "nap [] w = None"
| "nap (n # ns) w =
     (case n of
        Slept \<Rightarrow> Some ((None, ns), w)
      | SleepFailed \<Rightarrow> Some ((Some (-1), ns), w)
      | SleepInterrupted \<Rightarrow>
          (let (stop, w1) = gateway_workers_should_stop w in if stop then Some ((Some 0, ns), w1) else nap ns w1))"

abbreviation (input) GATEWAY_QUEUE_POLL_MS :: nat where "GATEWAY_QUEUE_POLL_MS \<equiv> 100"

function sleep_loop :: "nat \<Rightarrow> nanosleep_result list \<Rightarrow> command_world \<Rightarrow> ((int \<times> nanosleep_result list) \<times> command_world) option" where
  "sleep_loop remaining ns w =
     (if remaining = 0 then Some ((0, ns), w)
      else let (stop, w1) = gateway_workers_should_stop w in
           if stop then Some ((0, ns), w1)
           else case nap ns w1 of
                  None \<Rightarrow> None
                | Some ((Some rc, ns1), w2) \<Rightarrow> Some ((rc, ns1), w2)
                | Some ((None, ns1), w2) \<Rightarrow> sleep_loop (remaining - min remaining GATEWAY_QUEUE_POLL_MS) ns1 w2)"
  by pat_completeness auto
termination by (relation "measure fst") auto

declare sleep_loop.simps [simp del]

definition gateway_worker_sleep :: "int \<Rightarrow> nanosleep_result list \<Rightarrow> command_world \<Rightarrow> ((int \<times> nanosleep_result list) \<times> command_world) option" where
  "gateway_worker_sleep total_ms = sleep_loop (nat total_ms)"

text \<open>The sleep ends after one completed nap per started 100 ms, or earlier when the gateway stops.\<close>

lemma sleep_loop_returns:
  "remaining \<le> 100 * n \<Longrightarrow> \<exists>rest w'. sleep_loop remaining (replicate n Slept @ ns) w = Some ((0, rest), w')"
proof (induction n arbitrary: remaining w)
  case 0
  then show ?case by (simp add: sleep_loop.simps [of 0])
next
  case (Suc n)
  obtain stop w1 where st: "gateway_workers_should_stop w = (stop, w1)" by fastforce
  have "remaining - min remaining 100 \<le> 100 * n" using Suc.prems by (cases "remaining \<le> 100") simp_all
  then show ?case using Suc.IH [of "remaining - min remaining 100" w1] st
    by (subst sleep_loop.simps) (auto simp del: split_paired_Ex)
qed

text \<open>\<open>clock_gettime\<close> gives seconds and nanoseconds, or fails.\<close>

definition gateway_monotonic_ms :: "(int \<times> int) option \<Rightarrow> int" where
  "gateway_monotonic_ms now = (case now of None \<Rightarrow> -1 | Some (sec, nsec) \<Rightarrow> sec * 1000 + nsec div 1000000)"

section \<open>Running the workers\<close>

record gateway_workers_config_t =
  wc_initial_interval_ms :: int
  wc_mqtt_host :: "string option"
  wc_mqtt_port :: int
  wc_mqtt_command_client_id :: "string option"
  wc_mqtt_command_request_topic :: "string option"
  wc_mqtt_command_response_topic :: "string option"

datatype run_resource = StatusMutex | CommandMutex | MeasurementQueue | DeliveryQueue | ResultQueue
  | ControlRequestQueue | ControlResultQueue | MqttCommandQueue

datatype run_thread = MqttCommandThread | MqttThread | StorageThread | SourceThread | CommandThread

text \<open>What the run does to its resources, in order.\<close>

datatype run_event = Created run_resource | Started run_thread | Closed run_resource | Joined run_thread
  | Drained | Destroyed run_resource

text \<open>
  The results of the calls, the callbacks the receiver still gets before it is destroyed, and whether a
  worker has failed when the coordinator looks.
\<close>

record run_env =
  re_create_ok :: "run_resource \<Rightarrow> bool"
  re_destroy_ok :: "run_resource \<Rightarrow> bool"
  re_thread_ok :: "run_thread \<Rightarrow> bool"
  re_join_ok :: "run_thread \<Rightarrow> bool"
  re_library_rc :: int
  re_receiver_ok :: "nat \<Rightarrow> bool"
  re_connect_rc :: int
  re_loop_rc :: int
  re_receiver_events :: "receiver_event list"
  re_sleep_ok :: bool
  re_failed_running :: bool
  re_failed_stopping :: bool

definition nonempty :: "string option \<Rightarrow> bool" where
  "nonempty s \<longleftrightarrow> s \<noteq> None \<and> s \<noteq> Some []"

definition run_arguments_ok :: "bool \<Rightarrow> bool \<Rightarrow> bool \<Rightarrow> gateway_workers_config_t option \<Rightarrow> bool" where
  "run_arguments_ok store source publisher config \<longleftrightarrow>
     store \<and> source \<and> publisher \<and>
     (case config of None \<Rightarrow> False
      | Some c \<Rightarrow> nonempty (wc_mqtt_host c) \<and> 1 \<le> wc_mqtt_port c \<and> wc_mqtt_port c \<le> 65535 \<and>
          nonempty (wc_mqtt_command_client_id c) \<and> nonempty (wc_mqtt_command_request_topic c) \<and>
          nonempty (wc_mqtt_command_response_topic c) \<and> 100 \<le> wc_initial_interval_ms c \<and> wc_initial_interval_ms c \<le> 60000)"

text \<open>The calls of the set-up in order; the first failure goes to CLEANUP with what is ready so far.\<close>

definition setup_order :: "run_resource list" where
  "setup_order = [StatusMutex, CommandMutex, MeasurementQueue, DeliveryQueue, ResultQueue, ControlRequestQueue,
     ControlResultQueue, MqttCommandQueue]"

fun create_all :: "(run_resource \<Rightarrow> bool) \<Rightarrow> run_resource list \<Rightarrow> run_resource list \<times> bool" where
  "create_all ok [] = ([], True)"
| "create_all ok (r # rs) =
     (if ok r then (let (ready, all_done) = create_all ok rs in (r # ready, all_done)) else ([], False))"

definition receiver_config :: "gateway_workers_config_t \<Rightarrow> mqtt_command_receiver_config_t" where
  "receiver_config c =
     \<lparr>rcfg_host = wc_mqtt_host c, rcfg_port = wc_mqtt_port c, rcfg_client_id = wc_mqtt_command_client_id c,
      rcfg_request_topic = wc_mqtt_command_request_topic c, rcfg_keepalive_seconds = 30, rcfg_has_handler = True\<rparr>"

type_synonym command_receiver = "gateway_mqtt_command_request_t tqueue mqtt_command_receiver"

text \<open>
  The threads in order, the receiver started after the first; the result is the started threads and
  whether all of it succeeded.
\<close>

fun start_all :: "(run_thread \<Rightarrow> bool) \<Rightarrow> run_thread list \<Rightarrow> run_thread list \<times> bool" where
  "start_all ok [] = ([], True)"
| "start_all ok (t # ts) =
     (if ok t then (let (started, all_done) = start_all ok ts in (t # started, all_done)) else ([], False))"

definition run_start :: "run_env \<Rightarrow> command_receiver \<Rightarrow> run_thread list \<times> command_receiver \<times> bool" where
  "run_start e r =
     (if \<not> re_thread_ok e MqttCommandThread then ([], r, False)
      else let (res, r1) = mqtt_command_receiver_start (re_connect_rc e) (re_loop_rc e) (Some r) in
           if res \<noteq> MQTT_COMMAND_RECEIVER_OK then ([MqttCommandThread], the r1, False)
           else let (started, all_done) = start_all (re_thread_ok e) [MqttThread, StorageThread, SourceThread, CommandThread]
                in (MqttCommandThread # started, the r1, all_done))"

text \<open>The coordinator's loop: the result is 0 exactly when no worker has failed and its own sleep worked.\<close>

definition run_wait :: "run_env \<Rightarrow> bool \<times> int" where
  "run_wait e = (let fatal = (re_failed_running e \<or> \<not> re_sleep_ok e) in (fatal, if fatal then -1 else 0))"

definition join :: "run_env \<Rightarrow> run_thread list \<Rightarrow> run_thread \<Rightarrow> bool \<times> int \<Rightarrow> run_event list \<times> bool \<times> int" where
  "join e started t fr =
     (if t \<in> set started then ([Joined t], if re_join_ok e t then fr else (True, -1)) else ([], fr))"

text \<open>From STOP to CLEANUP. The result is the trace, the fatal flag, the result and the resources of the library.\<close>

definition run_stop :: "run_env \<Rightarrow> run_thread list \<Rightarrow> command_receiver \<Rightarrow> bool \<times> int \<Rightarrow> mqtt_host \<Rightarrow> run_event list \<times> int \<times> mqtt_host" where
  "run_stop e started r fr h =
     (let fr0 = (fst fr \<or> snd fr \<noteq> 0, snd fr);
          (ev1, fr1) = join e started CommandThread fr0;
          h1 = snd (mqtt_command_receiver_destroy gateway_mqtt_command_received (re_receiver_events e) (Some r) h);
          (ev2, fr2) = join e started MqttCommandThread fr1;
          (ev3, fr3) = join e started SourceThread fr2;
          (ev4, fr4) = join e started MqttThread fr3;
          (ev5, fr5) = join e started StorageThread fr4;
          failed = (fst fr5 \<or> re_failed_stopping e)
      in ([Closed MeasurementQueue, Closed DeliveryQueue] @ ev1 @ [Closed ControlRequestQueue, Closed MqttCommandQueue] @ ev2 @
            ev3 @ ev4 @ [Closed ResultQueue] @ ev5 @ [Closed ControlResultQueue],
          if failed then -1 else snd fr5, h1))"

definition cleanup_order :: "run_resource list" where
  "cleanup_order = [MqttCommandQueue, ControlResultQueue, ControlRequestQueue, ResultQueue, DeliveryQueue, MeasurementQueue,
     CommandMutex, StatusMutex]"

definition run_cleanup :: "run_env \<Rightarrow> run_resource list \<Rightarrow> int \<Rightarrow> run_event list \<times> int" where
  "run_cleanup e ready result =
     (let gone = filter (\<lambda>r. r \<in> set ready) cleanup_order;
          early = filter (\<lambda>r. r \<in> {MqttCommandQueue, ControlResultQueue, ControlRequestQueue}) gone;
          late = filter (\<lambda>r. r \<notin> {MqttCommandQueue, ControlResultQueue, ControlRequestQueue}) gone
      in (map Destroyed early @ (if DeliveryQueue \<in> set ready then [Drained] else []) @ map Destroyed late,
          if list_all (re_destroy_ok e) gone then result else -1))"

definition gateway_workers_run ::
  "bool \<Rightarrow> bool \<Rightarrow> bool \<Rightarrow> gateway_workers_config_t option \<Rightarrow> run_env \<Rightarrow> mqtt_host \<Rightarrow> int \<times> run_event list \<times> mqtt_host" where
  "gateway_workers_run store source publisher config e h =
     (if \<not> run_arguments_ok store source publisher config then (-1, [], h)
      else let (ready, all_done) = create_all (re_create_ok e) setup_order; created = map Created ready in
           if \<not> all_done then (let (ev, result) = run_cleanup e ready (-1) in (result, created @ ev, h))
           else case mqtt_command_receiver_create (re_library_rc e) (re_receiver_ok e) (map_option receiver_config config)
                       (tq_new 8) h of
                  (None, h1) \<Rightarrow> (let (ev, result) = run_cleanup e ready (-1) in (result, created @ ev, h1))
                | (Some r, h1) \<Rightarrow>
                    (let (started, r1, all_done) = run_start e r;
                         fr = (if all_done then run_wait e else (False, -1));
                         (ev1, result1, h2) = run_stop e started r1 fr h1;
                         (ev2, result2) = run_cleanup e ready result1
                     in (result2, created @ map Started started @ ev1 @ ev2, h2)))"

section \<open>The run gives back everything it took\<close>

lemma create_all_eq: "create_all ok rs = (takeWhile ok rs, list_all ok rs)"
  by (induction rs) auto

lemma start_all_eq: "start_all ok ts = (takeWhile ok ts, list_all ok ts)"
  by (induction ts) auto

lemma count_of_map [simp]:
  "count_list (map Created rs) (Created r) = count_list rs r" "count_list (map Created rs) (Destroyed r) = 0"
  "count_list (map Created rs) (Started t) = 0" "count_list (map Created rs) (Joined t) = 0"
  "count_list (map Destroyed rs) (Destroyed r) = count_list rs r" "count_list (map Destroyed rs) (Created r) = 0"
  "count_list (map Destroyed rs) (Started t) = 0" "count_list (map Destroyed rs) (Joined t) = 0"
  "count_list (map Started ts) (Started t) = count_list ts t" "count_list (map Started ts) (Joined t) = 0"
  "count_list (map Started ts) (Created r) = 0" "count_list (map Started ts) (Destroyed r) = 0"
  by (induction rs; simp)+ (induction ts; simp)+

lemma count_filter: "count_list (filter P xs) x = (if P x then count_list xs x else 0)"
  by (induction xs) auto

lemma count_distinct: "distinct xs \<Longrightarrow> count_list xs x = (if x \<in> set xs then 1 else 0)"
  by (induction xs) auto

lemma count_cleanup: "count_list cleanup_order r = 1"
  by (cases r) (simp_all add: cleanup_order_def)

lemma count_ready: "count_list (takeWhile ok setup_order) r = (if r \<in> set (takeWhile ok setup_order) then 1 else 0)"
proof -
  have "distinct (takeWhile ok setup_order)" by (simp add: setup_order_def)
  then show ?thesis by (simp add: count_distinct)
qed

text \<open>CLEANUP destroys exactly what is ready, each once.\<close>

lemma cleanup_counts:
  assumes "run_cleanup e (takeWhile ok setup_order) res = (ev, res')"
  shows "count_list ev (Destroyed r) = count_list (takeWhile ok setup_order) r"
    and "count_list ev (Created r) = 0" and "count_list ev (Started t) = 0" and "count_list ev (Joined t) = 0"
    and "Started t \<notin> set ev" and "Joined t \<notin> set ev"
    and "res' = 0 \<longleftrightarrow> res = 0 \<and> (\<forall>r\<in>set (takeWhile ok setup_order). re_destroy_ok e r)"
proof -
  have ev: "ev = map Destroyed (filter (\<lambda>r. r \<in> {MqttCommandQueue, ControlResultQueue, ControlRequestQueue}) (filter (\<lambda>r. r \<in> set (takeWhile ok setup_order)) cleanup_order)) @
      (if DeliveryQueue \<in> set (takeWhile ok setup_order) then [Drained] else []) @
      map Destroyed (filter (\<lambda>r. r \<notin> {MqttCommandQueue, ControlResultQueue, ControlRequestQueue}) (filter (\<lambda>r. r \<in> set (takeWhile ok setup_order)) cleanup_order))"
    using assms by (simp add: run_cleanup_def Let_def)
  show "count_list ev (Destroyed r) = count_list (takeWhile ok setup_order) r"
    "count_list ev (Created r) = 0" "count_list ev (Started t) = 0" "count_list ev (Joined t) = 0"
    by (auto simp: ev count_filter count_cleanup count_ready)
  show "Started t \<notin> set ev" "Joined t \<notin> set ev" by (auto simp: ev)
  have "r \<in> set cleanup_order" for r by (cases r) (simp_all add: cleanup_order_def)
  then have "list_all (re_destroy_ok e) (filter (\<lambda>r. r \<in> set (takeWhile ok setup_order)) cleanup_order) \<longleftrightarrow>
      (\<forall>r\<in>set (takeWhile ok setup_order). re_destroy_ok e r)" by (auto simp: list_all_iff)
  then show "res' = 0 \<longleftrightarrow> res = 0 \<and> (\<forall>r\<in>set (takeWhile ok setup_order). re_destroy_ok e r)"
    using assms by (auto simp: run_cleanup_def Let_def split: if_splits)
qed

lemma run_start_cases:
  assumes "run_start e r = (started, r1, all_done)"
  shows "distinct started" and "all_done \<Longrightarrow> set started = UNIV"
proof -
  have all: "{MqttCommandThread, MqttThread, StorageThread, SourceThread, CommandThread} = UNIV"
    using run_thread.nchotomy by auto
  show "distinct started"
    using assms by (auto simp: run_start_def start_all_eq Let_def split: if_splits prod.splits)
  show "all_done \<Longrightarrow> set started = UNIV"
    using assms by (auto simp: run_start_def start_all_eq Let_def all [symmetric] split: if_splits prod.splits)
qed

lemma join_eq:
  "join e started t fr =
     (if t \<in> set started then [Joined t] else [], if t \<in> set started \<and> \<not> re_join_ok e t then (True, -1) else fr)"
  by (simp add: join_def)

lemma run_stop_trace:
  assumes "run_stop e started r fr h = (ev, res, h1)"
  shows "ev = [Closed MeasurementQueue, Closed DeliveryQueue] @ (if CommandThread \<in> set started then [Joined CommandThread] else []) @
      [Closed ControlRequestQueue, Closed MqttCommandQueue] @ (if MqttCommandThread \<in> set started then [Joined MqttCommandThread] else []) @
      (if SourceThread \<in> set started then [Joined SourceThread] else []) @ (if MqttThread \<in> set started then [Joined MqttThread] else []) @
      [Closed ResultQueue] @ (if StorageThread \<in> set started then [Joined StorageThread] else []) @ [Closed ControlResultQueue]"
    and "h1 = destroy_mutex (drop_resource R_CONDITION (drop_resource R_CLIENT h))"
  using assms by (simp_all add: run_stop_def join_eq destroy_receiver Let_def)

lemma join_failures:
  "(if b5 then x else if b4 then x else if b3 then x else if b2 then x else if b1 then x else y) =
     (if b1 \<or> b2 \<or> b3 \<or> b4 \<or> b5 then x else y)"
  by simp

lemma run_stop_result:
  assumes "run_stop e started r fr h = (ev, res, h1)"
  shows "res = 0 \<longleftrightarrow> \<not> fst fr \<and> snd fr = 0 \<and> \<not> re_failed_stopping e \<and> (\<forall>t\<in>set started. re_join_ok e t)"
proof -
  let ?bad = "\<lambda>t. t \<in> set started \<and> \<not> re_join_ok e t"
  have all: "(\<exists>t. P t) \<longleftrightarrow> P CommandThread \<or> P MqttCommandThread \<or> P SourceThread \<or> P MqttThread \<or> P StorageThread" for P
    by (metis run_thread.exhaust)
  let ?fr = "if \<exists>t. ?bad t then (True, -1) else (fst fr \<or> snd fr \<noteq> 0, snd fr)"
  have "res = (if fst ?fr \<or> re_failed_stopping e then -1 else snd ?fr)"
    using assms unfolding run_stop_def join_eq Let_def prod.case fst_conv snd_conv join_failures all by simp
  then show ?thesis by (cases "\<exists>t. ?bad t") auto
qed

text \<open>STOP joins every started thread exactly once and destroys no resource of its own.\<close>

lemma run_stop_counts:
  assumes "run_stop e started r fr h = (ev, res, h1)" and "distinct started"
  shows "count_list ev (Joined t) = count_list started t" and "count_list ev (Started t) = 0"
    and "count_list ev (Created c) = 0" and "count_list ev (Destroyed c) = 0" and "Destroyed c \<notin> set ev"
proof -
  show "count_list ev (Joined t) = count_list started t"
    by (cases t) (simp_all add: run_stop_trace(1) [OF assms(1)] count_distinct [OF assms(2)])
  show "count_list ev (Started t) = 0" "count_list ev (Created c) = 0" "count_list ev (Destroyed c) = 0" "Destroyed c \<notin> set ev"
    by (simp_all add: run_stop_trace(1) [OF assms(1)])
qed

text \<open>The resources and threads of a run are accounted for.\<close>

definition balanced_trace :: "run_event list \<Rightarrow> bool" where
  "balanced_trace trace \<longleftrightarrow>
     (\<forall>r. count_list trace (Destroyed r) = count_list trace (Created r) \<and> count_list trace (Created r) \<le> 1) \<and>
     (\<forall>t. count_list trace (Joined t) = count_list trace (Started t) \<and> count_list trace (Started t) \<le> 1) \<and>
     (\<exists>before after. trace = before @ after \<and> (\<forall>r. Destroyed r \<notin> set before) \<and> (\<forall>t. Started t \<notin> set after \<and> Joined t \<notin> set after))"

lemma balanced_traceI:
  assumes "\<And>r. count_list before (Destroyed r) = 0" and "\<And>r. count_list after (Destroyed r) = count_list before (Created r)"
    and "\<And>r. count_list before (Created r) \<le> 1" and "\<And>r. count_list after (Created r) = 0"
    and "\<And>t. count_list before (Joined t) = count_list before (Started t)" and "\<And>t. count_list before (Started t) \<le> 1"
    and "\<And>t. count_list after (Started t) = 0" and "\<And>t. count_list after (Joined t) = 0"
  shows "balanced_trace (before @ after)"
proof -
  have "\<forall>r. Destroyed r \<notin> set before" "\<forall>t. Started t \<notin> set after \<and> Joined t \<notin> set after"
    using assms(1,7,8) by (simp_all add: count_list_0_iff)
  then show ?thesis unfolding balanced_trace_def using assms by (simp del: split_paired_Ex) blast
qed

lemma balanced_cleanup_only:
  assumes "run_cleanup e (takeWhile ok setup_order) res = (ev, res')"
  shows "balanced_trace (map Created (takeWhile ok setup_order) @ ev)"
  by (rule balanced_traceI) (simp_all add: cleanup_counts [OF assms] count_ready)

lemma balanced_full:
  assumes "run_cleanup e (takeWhile ok setup_order) res = (ev2, res')" and "run_stop e started r fr h = (ev1, res1, h1)"
    and "distinct started"
  shows "balanced_trace (map Created (takeWhile ok setup_order) @ map Started started @ ev1 @ ev2)"
proof -
  have "balanced_trace ((map Created (takeWhile ok setup_order) @ map Started started @ ev1) @ ev2)"
    by (rule balanced_traceI)
      (simp_all add: cleanup_counts [OF assms(1)] run_stop_counts [OF assms(2,3)] count_ready count_distinct [OF assms(3)])
  then show ?thesis by simp
qed

lemma workers_run_cases:
  assumes "runtime_ok (mh_runtime h)" and "library_reference_count (mh_runtime h) < 4294967295"
    and "gateway_workers_run store source publisher config e h = (result, trace, h')"
  shows "h' = h \<and> balanced_trace trace \<and>
    (result = 0 \<longrightarrow> run_arguments_ok store source publisher config \<and> (\<forall>r. Created r \<in> set trace \<and> re_destroy_ok e r) \<and>
       (\<forall>t. Started t \<in> set trace \<and> re_join_ok e t) \<and> \<not> re_failed_running e \<and> \<not> re_failed_stopping e)"
proof (cases "run_arguments_ok store source publisher config")
  case False
  then show ?thesis using assms(3) by (auto simp: gateway_workers_run_def balanced_trace_def)
next
  case True
  let ?ready = "takeWhile (re_create_ok e) setup_order"
  have all: "r \<in> set setup_order" for r by (cases r) (simp_all add: setup_order_def)
  obtain ev0 res0 where c0: "run_cleanup e ?ready (-1) = (ev0, res0)" by fastforce
  note early = balanced_cleanup_only [OF c0] cleanup_counts(7) [OF c0]
  show ?thesis
  proof (cases "list_all (re_create_ok e) setup_order")
    case False
    then have "h' = h" "trace = map Created ?ready @ ev0" "result = res0"
      using assms(3) True c0 by (auto simp: gateway_workers_run_def create_all_eq Let_def)
    then show ?thesis using early by simp
  next
    case complete: True
    then have ready: "?ready = setup_order" by (simp add: list_all_iff)
    obtain ro :: "command_receiver option" and h1 where cr: "mqtt_command_receiver_create (re_library_rc e) (re_receiver_ok e) (map_option receiver_config config) (tq_new 8) h = (ro, h1)"
      by fastforce
    note run = assms(3) [unfolded gateway_workers_run_def create_all_eq] True complete cr c0
    from cr assms(1,2) show ?thesis
    proof (cases rule: receiver_create_cases)
      case failed
      then have "h' = h" "trace = map Created ?ready @ ev0" "result = res0" using run by (auto simp: Let_def)
      then show ?thesis using early by simp
    next
      case (created c rt)
      obtain started r1 ok where st: "run_start e (new_receiver c (tq_new 8)) = (started, r1, ok)" by (metis prod.collapse)
      let ?fr = "if ok then run_wait e else (False, -1)"
      obtain ev1 res1 h2 where sp: "run_stop e started r1 ?fr h1 = (ev1, res1, h2)" by (metis prod.collapse)
      obtain ev2 res2 where cl: "run_cleanup e ?ready res1 = (ev2, res2)" by fastforce
      have eq: "result = res2" "trace = map Created ?ready @ map Started started @ ev1 @ ev2" "h' = h2"
        using run created(2) st sp cl by (auto simp: Let_def)
      have "h2 = h" using run_stop_trace(2) [OF sp] created(6) by simp
      moreover have "balanced_trace trace" unfolding eq(2) by (rule balanced_full [OF cl sp run_start_cases(1) [OF st]])
      moreover have "(\<forall>r. Created r \<in> set trace \<and> re_destroy_ok e r) \<and> (\<forall>t. Started t \<in> set trace \<and> re_join_ok e t) \<and>
          \<not> re_failed_running e \<and> \<not> re_failed_stopping e" if "result = 0"
      proof -
        have "res1 = 0" "\<forall>r. re_destroy_ok e r" using cleanup_counts(7) [OF cl] that eq(1) ready all by auto
        then have fr: "\<not> fst ?fr" "snd ?fr = 0" "\<not> re_failed_stopping e" "\<forall>t\<in>set started. re_join_ok e t"
          using run_stop_result [OF sp] by auto
        then have "ok" "\<not> re_failed_running e" by (auto simp: run_wait_def Let_def split: if_splits)
        then show ?thesis
          using run_start_cases(2) [OF st] fr \<open>\<forall>r. re_destroy_ok e r\<close> all by (auto simp: eq(2) [unfolded ready])
      qed
      ultimately show ?thesis using eq True by blast
    qed
  qed
qed

text \<open>
  C6: \<open>gateway_workers_run\<close> gives back everything it took, whichever of its calls fails: every mutex and queue it
  created is destroyed exactly once, every thread it started is joined exactly once and before anything is destroyed, and the
  receiver and its library reference are released. It returns 0 only if everything was created, all
  five threads ran and were joined, no worker failed, and every destruction succeeded.
\<close>

theorem gateway_workers_run_balanced:
  assumes "runtime_ok (mh_runtime h)" and "library_reference_count (mh_runtime h) < 4294967295"
    and "gateway_workers_run store source publisher config e h = (result, trace, h')"
  shows "h' = h \<and> balanced_trace trace \<and>
    (result = 0 \<longrightarrow> run_arguments_ok store source publisher config \<and> (\<forall>r. Created r \<in> set trace \<and> re_destroy_ok e r) \<and>
       (\<forall>t. Started t \<in> set trace \<and> re_join_ok e t) \<and> \<not> re_failed_running e \<and> \<not> re_failed_stopping e)"
  using workers_run_cases [OF assms] .

definition demo_run_env :: run_env where
  "demo_run_env =
     \<lparr>re_create_ok = (\<lambda>_. True), re_destroy_ok = (\<lambda>_. True), re_thread_ok = (\<lambda>t. t \<noteq> SourceThread), re_join_ok = (\<lambda>_. True),
      re_library_rc = 0, re_receiver_ok = (\<lambda>_. True), re_connect_rc = 0, re_loop_rc = 0, re_receiver_events = [],
      re_sleep_ok = True, re_failed_running = False, re_failed_stopping = False\<rparr>"

definition demo_workers_config :: gateway_workers_config_t where
  "demo_workers_config =
     \<lparr>wc_initial_interval_ms = 1000, wc_mqtt_host = Some ''h'', wc_mqtt_port = 1883, wc_mqtt_command_client_id = Some ''c'',
      wc_mqtt_command_request_topic = Some ''q'', wc_mqtt_command_response_topic = Some ''r''\<rparr>"

text \<open>The source thread cannot be started: the three threads started before are joined and the run reports failure.\<close>

theorem gateway_workers_run_balanced_witness:
  "\<exists>trace. gateway_workers_run True True True (Some demo_workers_config) demo_run_env demo_mqtt_host = (-1, trace, demo_mqtt_host) \<and>
     balanced_trace trace \<and> Joined StorageThread \<in> set trace \<and> Destroyed DeliveryQueue \<in> set trace"
proof -
  have ok: "runtime_ok (mh_runtime demo_mqtt_host)" "library_reference_count (mh_runtime demo_mqtt_host) < 4294967295"
    by (simp_all add: demo_mqtt_host_def runtime_ok_def)
  obtain result trace h' where run:
      "gateway_workers_run True True True (Some demo_workers_config) demo_run_env demo_mqtt_host = (result, trace, h')"
    by (metis prod.collapse)
  have "result = -1 \<and> Joined StorageThread \<in> set trace \<and> Destroyed DeliveryQueue \<in> set trace"
    using run [symmetric]
    by (simp add: gateway_workers_run_def run_arguments_ok_def nonempty_def demo_workers_config_def demo_run_env_def setup_order_def
        mqtt_command_receiver_create_def receiver_config_def string_fits_def mqtt_library_acquire_def demo_mqtt_host_def
        run_start_def mqtt_command_receiver_start_def new_receiver_def run_stop_def join_def run_cleanup_def cleanup_order_def Let_def)
  then show ?thesis using gateway_workers_run_balanced [OF ok run] run by auto
qed

section \<open>The life cycle of the gateway\<close>

text \<open>
  The build with storage and MQTT. \<open>gw_store_open\<close> and \<open>gw_logger\<close> say whether the database handle and the
  logger are live. The environment holds the results of the calls; \<open>ge_service\<close> is what the threads leave of
  the store and of the scripts of the serial line, whose open descriptors they do not change.
\<close>

record gateway_world =
  gw_store :: store_world
  gw_store_open :: bool
  gw_serial :: serial_world
  gw_mqtt :: mqtt_host
  gw_logger :: bool

record gateway_env =
  ge_install_ok :: bool
  ge_logger_ok :: bool
  ge_log_ok :: "nat \<Rightarrow> bool"
  ge_heap_ok :: bool
  ge_foreign_keys :: int
  ge_journal :: "string option"
  ge_library_rc :: int
  ge_publisher_ok :: "nat \<Rightarrow> bool"
  ge_connect_rc :: int
  ge_loop_rc :: int
  ge_run :: run_env
  ge_service :: "store_world \<times> serial_world \<Rightarrow> store_world \<times> serial_world"
  ge_publisher_events :: "mqtt_event list"
  ge_smoke :: int
  ge_mqtt_smoke :: int
  ge_logger_shutdown_ok :: bool
  ge_logger_destroy_ok :: bool

definition gateway_arguments_ok :: "gateway_config_t \<Rightarrow> bool" where
  "gateway_arguments_ok c \<longleftrightarrow>
     log_queue_capacity c \<noteq> 0 \<and>
     (mode c = GATEWAY_MODE_MQTT_SMOKE \<longrightarrow> mqtt_host c \<noteq> [] \<and> 1 \<le> mqtt_port c \<and> mqtt_port c \<le> 65535) \<and>
     (source_kind c = GATEWAY_SOURCE_STM32_MODBUS \<longrightarrow> serial_path c \<noteq> [] \<and> gpiochip_path c \<noteq> [] \<and> 0 < serial_timeout_ms c)"

definition STM32_MODBUS_SOURCE_INITIALIZER :: stm32_modbus_source_t where
  "STM32_MODBUS_SOURCE_INITIALIZER =
     \<lparr>serial = \<lparr>port = RS485_PORT_INITIALIZER, s_buffer = replicate 256 0, received = 0, receive_length = 0, timeout_ms = 0\<rparr>,
      next_sequence = 1, pending = zero_measurement, pending_valid = False, has_stop = False\<rparr>"

text \<open>The code after the label SHUTDOWN, with the variables \<open>result\<close>, \<open>publisher\<close> and, if it was opened, the source.\<close>

definition gateway_shutdown ::
  "gateway_env \<Rightarrow> int \<Rightarrow> mqtt_publisher option \<Rightarrow> stm32_modbus_source_t option \<Rightarrow> gateway_world \<Rightarrow> (int \<times> gateway_world) option" where
  "gateway_shutdown e result publisher stm32 w =
     (let w1 = w\<lparr>gw_mqtt := mqtt_publisher_destroy (ge_publisher_events e) publisher (gw_mqtt w)\<rparr> in
      case (case stm32 of None \<Rightarrow> Some w1
            | Some s \<Rightarrow> map_option (\<lambda>(_, sw). w1\<lparr>gw_serial := sw\<rparr>) (stm32_modbus_source_close (Some s) (gw_serial w1))) of
        None \<Rightarrow> None
      | Some w2 \<Rightarrow>
          let (result1, w3) =
                (if gw_store_open w2
                 then let (res, st) = outbox_store_close True (gw_store w2)
                      in if res \<noteq> OUTBOX_STORE_OK then (-1, w2\<lparr>gw_store := st\<rparr>)
                         else (result, w2\<lparr>gw_store := st, gw_store_open := False\<rparr>)
                 else (result, w2));
              result2 = (if ge_logger_shutdown_ok e then result1 else -1);
              result3 = (if ge_logger_destroy_ok e then result2 else -1)
          in Some (result3, w3\<lparr>gw_logger := \<not> ge_logger_destroy_ok e\<rparr>))"

definition service_publisher_config :: "gateway_config_t \<Rightarrow> mqtt_publisher_config_t" where
  "service_publisher_config c =
     \<lparr>cfg_host = Some (mqtt_host c), cfg_port = mqtt_port c, cfg_client_id = Some ''edgevision-gateway-service'',
      cfg_topic_prefix = Some ''edgevision/v1/devices'', cfg_keepalive_seconds = 30, cfg_reconnect_delay_seconds = 1,
      cfg_reconnect_delay_max_seconds = 8\<rparr>"

definition service_workers_config :: "int \<Rightarrow> gateway_config_t \<Rightarrow> gateway_workers_config_t" where
  "service_workers_config interval_ms c =
     \<lparr>wc_initial_interval_ms = interval_ms, wc_mqtt_host = Some (mqtt_host c), wc_mqtt_port = mqtt_port c,
      wc_mqtt_command_client_id = Some ''edgevision-gateway-command-receiver'',
      wc_mqtt_command_request_topic = Some ''edgevision/v1/devices/gateway-01/commands/request'',
      wc_mqtt_command_response_topic = Some ''edgevision/v1/devices/gateway-01/commands/response''\<rparr>"

text \<open>From the start of the publisher to SHUTDOWN.\<close>

definition run_service ::
  "gateway_env \<Rightarrow> int \<Rightarrow> gateway_config_t \<Rightarrow> stm32_modbus_source_t option \<Rightarrow> gateway_world \<Rightarrow> (int \<times> gateway_world) option" where
  "run_service e interval_ms c stm32 w =
     (let (publisher, h1) = mqtt_publisher_create (ge_library_rc e) (ge_publisher_ok e) (Some (service_publisher_config c)) (gw_mqtt w);
          w1 = w\<lparr>gw_mqtt := h1\<rparr> in
      if publisher = None then gateway_shutdown e (-1) None stm32 w1
      else let (start_result, publisher1) = mqtt_publisher_start (ge_connect_rc e) (ge_loop_rc e) publisher in
           if start_result \<noteq> MQTT_PUBLISHER_OK then gateway_shutdown e (-1) publisher1 stm32 w1
           else let (service_result, _, h2) =
                      gateway_workers_run True True True (Some (service_workers_config interval_ms c)) (ge_run e) (gw_mqtt w1);
                    (st, sw) = ge_service e (gw_store w1, gw_serial w1);
                    w2 = w1\<lparr>gw_mqtt := h2, gw_store := st, gw_serial := sw\<lparr>w_open_fds := w_open_fds (gw_serial w1)\<rparr>\<rparr>
                in if service_result \<noteq> 0 then gateway_shutdown e (-1) publisher1 stm32 w2
                   else if \<not> ge_log_ok e 1 then gateway_shutdown e (-1) publisher1 stm32 w2
                   else gateway_shutdown e 0 publisher1 stm32 w2)"

text \<open>The store, the saved interval, the statistics and the source.\<close>

definition open_service :: "gateway_env \<Rightarrow> gateway_config_t \<Rightarrow> gateway_world \<Rightarrow> (int \<times> gateway_world) option" where
  "open_service e c w =
     (let ((res, handle), st1) = outbox_store_open (ge_heap_ok e) (ge_foreign_keys e) (ge_journal e)
             (Some (Some (storage_db_path c), storage_busy_timeout_ms c)) True (gw_store w);
          w1 = w\<lparr>gw_store := st1, gw_store_open := handle\<rparr> in
      if res \<noteq> OUTBOX_STORE_OK then gateway_shutdown e (-1) None None w1
      else let ((res, interval), st2) = outbox_store_load_interval True (Some (initial_interval_ms c)) st1; w2 = w1\<lparr>gw_store := st2\<rparr> in
           if res \<noteq> OUTBOX_STORE_OK \<and> res \<noteq> OUTBOX_STORE_EMPTY then gateway_shutdown e (-1) None None w2
           else let ((res, stats), st3) = outbox_store_get_stats True st2; w3 = w2\<lparr>gw_store := st3\<rparr> in
                if res \<noteq> OUTBOX_STORE_OK then gateway_shutdown e (-1) None None w3
                else if source_kind c = GATEWAY_SOURCE_STM32_MODBUS
                then (case stm32_modbus_source_open (Some STM32_MODBUS_SOURCE_INITIALIZER)
                             (Some (Some (serial_path c), Some (gpiochip_path c), serial_timeout_ms c, True)) (gw_serial w3) of
                        None \<Rightarrow> None
                      | Some ((rc, s), sw) \<Rightarrow>
                          (let w4 = w3\<lparr>gw_serial := sw\<rparr> in
                           if rc \<noteq> 0 then gateway_shutdown e (-1) None None w4 else run_service e (the interval) c s w4))
                else run_service e (the interval) c None w3)"

definition gateway_run :: "gateway_env \<Rightarrow> gateway_config_t \<Rightarrow> gateway_world \<Rightarrow> (int \<times> gateway_world) option" where
  "gateway_run e c w =
     (if \<not> gateway_arguments_ok c then Some (-1, w)
      else if \<not> ge_install_ok e then Some (-1, w)
      else if \<not> ge_logger_ok e then Some (-1, w)
      else let w1 = w\<lparr>gw_logger := True\<rparr> in
           if \<not> ge_log_ok e 0 then gateway_shutdown e (-1) None None w1
           else case mode c of
                  GATEWAY_MODE_SMOKE \<Rightarrow> gateway_shutdown e (ge_smoke e) None None w1
                | GATEWAY_MODE_MQTT_SMOKE \<Rightarrow> gateway_shutdown e (ge_mqtt_smoke e) None None w1
                | GATEWAY_MODE_SERVICE \<Rightarrow> open_service e c w1)"

lemma acquire_keeps_ok:
  assumes "runtime_ok r" and "library_reference_count r < 4294967294" and "mqtt_library_acquire rc r = (True, r')"
  shows "runtime_ok r'" and "library_reference_count r' < 4294967295"
proof -
  have r': "library_reference_count r' = library_reference_count r + 1"
    using assms(3) by (auto simp: mqtt_library_acquire_def Let_def split: if_splits)
  have "library_reference_count r < 4294967295" using assms(2) by (rule less_trans) simp
  then have "library_initialised r'" "library_reference_count r' \<noteq> 0" using acquire_release(2,3) [OF assms(1) _ assms(3)] by blast+
  then show "runtime_ok r'" by (simp add: runtime_ok_def)
  have "unat (library_reference_count r) < 4294967294" using assms(2) by (simp add: word_less_nat_alt)
  then show "library_reference_count r' < 4294967295" unfolding r' by (simp add: word_less_nat_alt unat_word_ariths)
qed

lemma publisher_start_some:
  "mqtt_publisher_start crc lrc (Some p) = (res, out) \<Longrightarrow> \<exists>q. out = Some q"
  by (auto simp: mqtt_publisher_start_def Let_def split: if_splits)

text \<open>The descriptors of an opened source.\<close>

definition source_holds :: "stm32_modbus_source_t option \<Rightarrow> int list \<Rightarrow> int list \<Rightarrow> bool" where
  "source_holds stm32 open_fds fds \<longleftrightarrow>
     (case stm32 of None \<Rightarrow> open_fds = fds
      | Some s \<Rightarrow> let p = port (serial s) in
          open_fds = line_fd (rse p) # chip_fd (rse p) # serial_fd p # fds \<and> 0 \<le> line_fd (rse p) \<and> 0 \<le> chip_fd (rse p) \<and> 0 \<le> serial_fd p)"

lemma source_open_holds:
  assumes "stm32_modbus_source_open (Some STM32_MODBUS_SOURCE_INITIALIZER) (Some (Some a, Some b, t, st)) w = Some ((rc, s), w')"
  shows "rc \<noteq> 0 \<Longrightarrow> w_open_fds w' = w_open_fds w" and "rc = 0 \<Longrightarrow> \<exists>q. s = Some q \<and> source_holds (Some q) (w_open_fds w') (w_open_fds w)"
  using assms
  by (auto simp: stm32_modbus_source_open_def real_serial_source_open_def bind_eq_Some_conv source_holds_def Let_def
      split: if_splits dest!: port_open_cases)

lemma source_close_releases:
  assumes "stm32_modbus_source_close (Some s) w = Some (s', w')" and "source_holds (Some s) (w_open_fds w) fds"
  shows "w_open_fds w' = fds"
  using assms port_close_opened
  by (fastforce simp: stm32_modbus_source_close_def real_serial_source_close_def bind_eq_Some_conv source_holds_def Let_def)

lemma shutdown_releases:
  assumes "gateway_shutdown e result publisher stm32 w = Some (rc, w')" and "source_holds stm32 (w_open_fds (gw_serial w)) fds"
  shows "gw_mqtt w' = mqtt_publisher_destroy (ge_publisher_events e) publisher (gw_mqtt w)"
    and "w_open_fds (gw_serial w') = fds"
    and "rc = 0 \<Longrightarrow> result = 0 \<and> \<not> gw_store_open w' \<and> \<not> gw_logger w'"
proof -
  let ?w1 = "w\<lparr>gw_mqtt := mqtt_publisher_destroy (ge_publisher_events e) publisher (gw_mqtt w)\<rparr>"
  obtain w2 where w2: "(case stm32 of None \<Rightarrow> Some ?w1
      | Some s \<Rightarrow> map_option (\<lambda>(_, sw). ?w1\<lparr>gw_serial := sw\<rparr>) (stm32_modbus_source_close (Some s) (gw_serial ?w1))) = Some w2"
    using assms(1) by (auto simp: gateway_shutdown_def Let_def split: option.splits)
  have keep: "gw_mqtt w2 = gw_mqtt ?w1" using w2 by (auto split: option.splits)
  have fds: "w_open_fds (gw_serial w2) = fds"
  proof (cases stm32)
    case None
    then show ?thesis using w2 assms(2) by (auto simp: source_holds_def)
  next
    case (Some s)
    then obtain s' sw where sw: "stm32_modbus_source_close (Some s) (gw_serial w) = Some (s', sw)" "gw_serial w2 = sw" using w2 by auto
    then show ?thesis using source_close_releases [OF sw(1)] assms(2) Some by simp
  qed
  obtain res st where "outbox_store_close True (gw_store w2) = (res, st)" by fastforce
  note out = this assms(1) [unfolded gateway_shutdown_def Let_def w2 option.case]
  show "gw_mqtt w' = mqtt_publisher_destroy (ge_publisher_events e) publisher (gw_mqtt w)" "w_open_fds (gw_serial w') = fds"
    "rc = 0 \<Longrightarrow> result = 0 \<and> \<not> gw_store_open w' \<and> \<not> gw_logger w'"
    using out keep fds by (auto split: if_splits)
qed

lemma run_service_releases:
  assumes "runtime_ok (mh_runtime (gw_mqtt w))" and "library_reference_count (mh_runtime (gw_mqtt w)) < 4294967294"
    and "run_service e interval_ms c stm32 w = Some (rc, w')" and "source_holds stm32 (w_open_fds (gw_serial w)) fds"
  shows "gw_mqtt w' = gw_mqtt w" and "w_open_fds (gw_serial w') = fds"
    and "rc = 0 \<Longrightarrow> \<not> gw_store_open w' \<and> \<not> gw_logger w' \<and> run_arguments_ok True True True (Some (service_workers_config interval_ms c))"
proof -
  obtain p h1 where p: "mqtt_publisher_create (ge_library_rc e) (ge_publisher_ok e) (Some (service_publisher_config c)) (gw_mqtt w) = (p, h1)"
    by fastforce
  have lt: "library_reference_count (mh_runtime (gw_mqtt w)) < 4294967295" using assms(2) by (rule less_trans) simp
  have "gw_mqtt w' = gw_mqtt w \<and> w_open_fds (gw_serial w') = fds \<and>
    (rc = 0 \<longrightarrow> \<not> gw_store_open w' \<and> \<not> gw_logger w' \<and> run_arguments_ok True True True (Some (service_workers_config interval_ms c)))"
    using p assms(1) lt
  proof (cases rule: publisher_create_cases)
    case failed
    then have "gateway_shutdown e (-1) None stm32 (w\<lparr>gw_mqtt := gw_mqtt w\<rparr>) = Some (rc, w')"
      using assms(3) p by (simp add: run_service_def Let_def)
    from shutdown_releases [OF this] show ?thesis using assms(4) by (auto simp: mqtt_publisher_destroy_def mqtt_publisher_stop_def)
  next
    case (created pc rt)
    obtain sres q where start: "mqtt_publisher_start (ge_connect_rc e) (ge_loop_rc e) p = (sres, Some q)"
      using publisher_start_some created(2) by (metis prod.collapse)
    obtain wres tr h2 where run:
        "gateway_workers_run True True True (Some (service_workers_config interval_ms c)) (ge_run e) h1 = (wres, tr, h2)"
      by (metis prod.collapse)
    have rt: "runtime_ok (mh_runtime h1)" "library_reference_count (mh_runtime h1) < 4294967295"
      using acquire_keeps_ok [OF assms(1,2) created(3)] created(7) by simp_all
    have h2: "h2 = h1" "wres = 0 \<Longrightarrow> run_arguments_ok True True True (Some (service_workers_config interval_ms c))"
      using workers_run_cases [OF rt run] by auto
    obtain result wx where sd: "gateway_shutdown e result (Some q) stm32 wx = Some (rc, w')" "gw_mqtt wx = h1"
        "w_open_fds (gw_serial wx) = w_open_fds (gw_serial w)" "result = 0 \<Longrightarrow> wres = 0"
      using assms(3) p created(2) start run h2(1) by (auto simp: run_service_def Let_def split: if_splits prod.splits)
    show ?thesis
      using shutdown_releases [OF sd(1)] sd h2(2) assms(4) created(8) by (auto simp: destroy_publisher)
  qed
  then show "gw_mqtt w' = gw_mqtt w" "w_open_fds (gw_serial w') = fds"
    "rc = 0 \<Longrightarrow> \<not> gw_store_open w' \<and> \<not> gw_logger w' \<and> run_arguments_ok True True True (Some (service_workers_config interval_ms c))"
    by blast+
qed

text \<open>The end of a run that started in \<open>w\<close>, seen from an intermediate state \<open>u\<close> with the same resources.\<close>

definition leaves_nothing :: "gateway_config_t \<Rightarrow> gateway_world \<Rightarrow> int \<times> gateway_world \<Rightarrow> bool" where
  "leaves_nothing c w out \<longleftrightarrow>
     gw_mqtt (snd out) = gw_mqtt w \<and> w_open_fds (gw_serial (snd out)) = w_open_fds (gw_serial w) \<and>
     (fst out = 0 \<longrightarrow> \<not> gw_store_open (snd out) \<and> \<not> gw_logger (snd out)) \<and>
     (fst out = 0 \<and> mode c = GATEWAY_MODE_SERVICE \<longrightarrow> (\<exists>i. run_arguments_ok True True True (Some (service_workers_config i c))))"

lemma shutdown_leaves_nothing:
  assumes "gateway_shutdown e result None None u = Some out" and "gw_mqtt u = gw_mqtt w" and "w_open_fds (gw_serial u) = w_open_fds (gw_serial w)"
    and "mode c = GATEWAY_MODE_SERVICE \<Longrightarrow> result \<noteq> 0"
  shows "leaves_nothing c w out"
proof -
  have "source_holds None (w_open_fds (gw_serial u)) (w_open_fds (gw_serial w))" using assms(3) by (simp add: source_holds_def)
  from shutdown_releases [of e result None None u "fst out" "snd out", OF _ this] show ?thesis
    using assms by (cases out) (auto simp: leaves_nothing_def mqtt_publisher_destroy_def mqtt_publisher_stop_def)
qed

lemma run_service_leaves_nothing:
  assumes "runtime_ok (mh_runtime (gw_mqtt w))" and "library_reference_count (mh_runtime (gw_mqtt w)) < 4294967294"
    and "run_service e i c stm32 u = Some out" and "gw_mqtt u = gw_mqtt w"
    and "source_holds stm32 (w_open_fds (gw_serial u)) (w_open_fds (gw_serial w))"
  shows "leaves_nothing c w out"
  using run_service_releases [of u e i c stm32 "fst out" "snd out" "w_open_fds (gw_serial w)"] assms
  by (cases out) (auto simp: leaves_nothing_def)

lemma open_service_leaves_nothing:
  assumes "runtime_ok (mh_runtime (gw_mqtt w))" and "library_reference_count (mh_runtime (gw_mqtt w)) < 4294967294"
    and "open_service e c u = Some out" and "gw_mqtt u = gw_mqtt w" and "w_open_fds (gw_serial u) = w_open_fds (gw_serial w)"
  shows "leaves_nothing c w out"
proof -
  obtain res handle st1 where op: "outbox_store_open (ge_heap_ok e) (ge_foreign_keys e) (ge_journal e)
      (Some (Some (storage_db_path c), storage_busy_timeout_ms c)) True (gw_store u) = ((res, handle), st1)" by (metis prod.collapse)
  obtain res2 iv st2 where ld: "outbox_store_load_interval True (Some (initial_interval_ms c)) st1 = ((res2, iv), st2)" by (metis prod.collapse)
  obtain res3 stats st3 where gs: "outbox_store_get_stats True st2 = ((res3, stats), st3)" by (metis prod.collapse)
  let ?open = "stm32_modbus_source_open (Some STM32_MODBUS_SOURCE_INITIALIZER)
      (Some (Some (serial_path c), Some (gpiochip_path c), serial_timeout_ms c, True)) (gw_serial u)"
  consider (stop) v where "gateway_shutdown e (-1) None None v = Some out" "gw_mqtt v = gw_mqtt u" "gw_serial v = gw_serial u"
    | (stm32) v orc s sw where "?open = Some ((orc, s), sw)" "gw_mqtt v = gw_mqtt u" "gw_serial v = sw"
        "(if orc \<noteq> 0 then gateway_shutdown e (-1) None None v else run_service e (the iv) c s v) = Some out"
    | (simulated) v where "run_service e (the iv) c None v = Some out" "gw_mqtt v = gw_mqtt u" "gw_serial v = gw_serial u"
    using assms(3) op ld gs by (fastforce simp: open_service_def Let_def split: if_splits option.splits)
  then show ?thesis
  proof cases
    case stop
    then show ?thesis using shutdown_leaves_nothing [OF stop(1)] assms(4,5) by simp
  next
    case (stm32 v orc s sw)
    show ?thesis
    proof (cases "orc = 0")
      case True
      then show ?thesis
        using run_service_leaves_nothing [OF assms(1,2), of e "the iv" c s v out] source_open_holds(2) [OF stm32(1)] stm32(2-4) assms(4,5) by auto
    next
      case False
      then show ?thesis
        using shutdown_leaves_nothing [of e "-1" v out w c] source_open_holds(1) [OF stm32(1)] stm32(2-4) assms(4,5) by auto
    qed
  next
    case simulated
    then show ?thesis
      using run_service_leaves_nothing [OF assms(1,2) simulated(1)] assms(4,5) by (simp add: source_holds_def)
  qed
qed


definition demo_gateway_env :: gateway_env where
  "demo_gateway_env =
     \<lparr>ge_install_ok = True, ge_logger_ok = True, ge_log_ok = (\<lambda>_. True), ge_heap_ok = True, ge_foreign_keys = 1, ge_journal = Some ''WAL'',
      ge_library_rc = 0, ge_publisher_ok = (\<lambda>_. True), ge_connect_rc = 0, ge_loop_rc = 0,
      ge_run = demo_run_env\<lparr>re_thread_ok := (\<lambda>_. True)\<rparr>, ge_service = (\<lambda>x. x), ge_publisher_events = [], ge_smoke = 0, ge_mqtt_smoke = 0,
      ge_logger_shutdown_ok = True, ge_logger_destroy_ok = True\<rparr>"

definition demo_gateway_world :: gateway_world where
  "demo_gateway_world =
     \<lparr>gw_store = demo_store, gw_store_open = False, gw_serial = demo_world, gw_mqtt = demo_mqtt_host, gw_logger = False\<rparr>"


end
