(* ===== verification/Gateway_Smoke.thy ===== *)
theory Gateway_Smoke
  imports Gateway_Connection Mqtt Sources
begin

text \<open>
  The MQTT self test of \<^verbatim>\<open>src/core/gateway.c\<close>: publishing with a bounded number of retries, and one hundred
  simulated measurements published one after the other.
\<close>

section \<open>Publishing with retries\<close>

text \<open>
  What one attempt meets: the two reads of the stop flag, the callbacks that run before it, the clocks and
  the library's answer.
\<close>

record attempt =
  at_stop_before :: bool
  at_stop_after :: bool
  at_events :: "mqtt_event list"
  at_clock_connect :: bool
  at_alloc :: "nat \<Rightarrow> bool"
  at_clock_publish :: bool
  at_mosq :: "int \<times> int"

definition transient :: "mqtt_publisher_result_t \<Rightarrow> bool" where
  "transient r \<longleftrightarrow> r = MQTT_PUBLISHER_TIMEOUT \<or> r = MQTT_PUBLISHER_NOT_CONNECTED"

text \<open>The first number counts the attempts that remain, the second is the number of the next one.\<close>

fun retry_loop ::
  "(cjson \<Rightarrow> string) \<Rightarrow> (nat \<Rightarrow> attempt) \<Rightarrow> measurement_t \<Rightarrow> nat \<Rightarrow> nat \<Rightarrow> mqtt_publisher \<Rightarrow> mqtt_wait list \<Rightarrow>
   ((int \<times> mqtt_publisher) \<times> mqtt_wait list) option" where
  "retry_loop print_text env m 0 k p waits = Some ((-1, p), waits)"
| "retry_loop print_text env m (Suc n) k p waits =
     (let a = env k; p0 = fold publisher_event (at_events a) p in
      if at_stop_before a then Some ((-1, p0), waits)
      else (case mqtt_publisher_wait_connected (at_clock_connect a) 1 (Some p0) waits of
              None \<Rightarrow> None
            | Some ((result, p1), waits1) \<Rightarrow>
                if at_stop_after a then Some ((-1, the p1), waits1)
                else if transient result then retry_loop print_text env m n (k + 1) (the p1) waits1
                else if result \<noteq> MQTT_PUBLISHER_OK then Some ((-1, the p1), waits1)
                else (case mqtt_publisher_publish (at_alloc a) print_text (at_clock_publish a) (at_mosq a) p1 (Some m) 1 waits1 of
                        None \<Rightarrow> None
                      | Some ((result2, p2), waits2) \<Rightarrow>
                          if result2 = MQTT_PUBLISHER_OK then Some ((0, the p2), waits2)
                          else if transient result2 then retry_loop print_text env m n (k + 1) (the p2) waits2
                          else Some ((-1, the p2), waits2))))"

definition gateway_publish_with_retry ::
  "(cjson \<Rightarrow> string) \<Rightarrow> (nat \<Rightarrow> attempt) \<Rightarrow> mqtt_publisher option \<Rightarrow> measurement_t option \<Rightarrow> nat \<Rightarrow> mqtt_wait list \<Rightarrow>
   ((int \<times> mqtt_publisher option) \<times> mqtt_wait list) option" where
  "gateway_publish_with_retry print_text env publisher measurement max_attempts waits =
     (case (publisher, measurement) of
        (Some p, Some m) \<Rightarrow>
          if max_attempts = 0 then Some ((-1, publisher), waits)
          else map_option (\<lambda>((rc, q), rest). ((rc, Some q), rest)) (retry_loop print_text env m max_attempts 0 p waits)
      | _ \<Rightarrow> Some ((-1, publisher), waits))"

text \<open>
  The loop of \<open>run_mqtt_smoke\<close>: the next simulated measurement, published with at most three attempts; the
  last component of the result are the published measurements.
\<close>

fun mqtt_smoke_loop ::
  "(cjson \<Rightarrow> string) \<Rightarrow> (nat \<Rightarrow> nat \<Rightarrow> attempt) \<Rightarrow> nat \<Rightarrow> nat \<Rightarrow> simulated_source_t \<Rightarrow> mqtt_publisher option \<Rightarrow> mqtt_wait list \<Rightarrow>
   ((int \<times> measurement_t list) \<times> mqtt_wait list) option" where
  "mqtt_smoke_loop print_text env 0 i s p waits = Some ((0, []), waits)"
| "mqtt_smoke_loop print_text env (Suc n) i s p waits =
     (case simulated_source_next (Some s) (Some zero_measurement) of
        (MEASUREMENT_SOURCE_OK, Some s1, m) \<Rightarrow>
          (case gateway_publish_with_retry print_text (env i) p m 3 waits of
             None \<Rightarrow> None
           | Some ((rc, p1), waits1) \<Rightarrow>
               if rc \<noteq> 0 then Some ((-1, []), waits1)
               else map_option (\<lambda>((rc2, ms), rest). ((rc2, the m # ms), rest)) (mqtt_smoke_loop print_text env n (i + 1) s1 p1 waits1))
      | _ \<Rightarrow> Some ((-1, []), waits))"

definition smoke_publisher_config :: "string \<Rightarrow> int \<Rightarrow> mqtt_publisher_config_t" where
  "smoke_publisher_config host tcp_port =
     \<lparr>cfg_host = Some host, cfg_port = tcp_port, cfg_client_id = Some ''edgevision-gateway-d35'', cfg_topic_prefix = Some ''edgevision/v1/devices'',
      cfg_keepalive_seconds = 30, cfg_reconnect_delay_seconds = 1, cfg_reconnect_delay_max_seconds = 8\<rparr>"

definition run_mqtt_smoke ::
  "(cjson \<Rightarrow> string) \<Rightarrow> (nat \<Rightarrow> nat \<Rightarrow> attempt) \<Rightarrow> int \<Rightarrow> (nat \<Rightarrow> bool) \<Rightarrow> int \<Rightarrow> int \<Rightarrow> mqtt_event list \<Rightarrow> string \<Rightarrow> int \<Rightarrow> mqtt_wait list \<Rightarrow>
   mqtt_host \<Rightarrow> ((int \<times> measurement_t list) \<times> mqtt_wait list \<times> mqtt_host) option" where
  "run_mqtt_smoke print_text env library_rc ok connect_rc loop_rc evs host tcp_port waits h =
     (let (publisher, h1) = mqtt_publisher_create library_rc ok (Some (smoke_publisher_config host tcp_port)) h in
      if publisher = None then Some ((-1, []), waits, mqtt_publisher_destroy evs None h1)
      else let (result, p1) = mqtt_publisher_start connect_rc loop_rc publisher in
           if result \<noteq> MQTT_PUBLISHER_OK then Some ((-1, []), waits, mqtt_publisher_destroy evs p1 h1)
           else map_option (\<lambda>(out, rest). (out, rest, mqtt_publisher_destroy evs p1 h1))
                  (mqtt_smoke_loop print_text env 100 0 simulated_source_init p1 waits))"

section \<open>Retries succeed only with an acknowledgement\<close>

lemma wait_connected_used:
  assumes "mqtt_publisher_wait_connected clock_ok t (Some p) waits = Some ((r, q), rest)"
  shows "\<exists>used. waits = used @ rest" and "\<exists>p'. q = Some p'"
  using assms by (auto simp: mqtt_publisher_wait_connected_def split: if_splits elim!: timed_wait_loop_outcome)

lemma publish_used:
  assumes "mqtt_publisher_publish alloc print_text clock_ok mosq (Some p) (Some m) t waits = Some ((r, q), rest)"
  shows "\<exists>used. waits = used @ rest" and "\<exists>p'. q = Some p'"
    and "r = MQTT_PUBLISHER_OK \<Longrightarrow> fst mosq = 0 \<and> OnPublish (snd mosq) \<in> set (consumed waits rest) \<and>
      measurement_validate (Some m) = MEASUREMENT_VALID"
proof -
  consider (early) "r \<noteq> MQTT_PUBLISHER_OK" "q = Some p" "rest = waits"
    | (sent) topic payload where "mqtt_publisher_publish_json clock_ok mosq (Some p) topic payload t waits = Some ((r, q), rest)"
        "measurement_validate (Some m) = MEASUREMENT_VALID"
    using assms
    by (auto simp: mqtt_publisher_publish_def measurement_to_json_def Let_def
        split: if_splits measurement_json_result_t.splits option.splits)
  then have "(\<exists>used. waits = used @ rest) \<and> (\<exists>p'. q = Some p') \<and> (r = MQTT_PUBLISHER_OK \<longrightarrow>
      fst mosq = 0 \<and> OnPublish (snd mosq) \<in> set (consumed waits rest) \<and> measurement_validate (Some m) = MEASUREMENT_VALID)"
  proof cases
    case (sent topic payload)
    obtain rc mid where mosq: "mosq = (rc, mid)" by fastforce
    have "(\<exists>used. waits = used @ rest) \<and> (\<exists>p'. q = Some p')"
      using sent(1) unfolding mosq mqtt_publisher_publish_json_def Let_def
      by (auto split: if_splits elim!: timed_wait_loop_outcome)
    then show ?thesis using publish_json_ok sent unfolding mosq by (metis fst_conv snd_conv)
  qed simp
  then show "\<exists>used. waits = used @ rest" "\<exists>p'. q = Some p'"
    "r = MQTT_PUBLISHER_OK \<Longrightarrow> fst mosq = 0 \<and> OnPublish (snd mosq) \<in> set (consumed waits rest) \<and>
      measurement_validate (Some m) = MEASUREMENT_VALID" by blast+
qed

lemma consumed_mono: "waits = used @ waits1 \<Longrightarrow> waits1 = used1 @ rest \<Longrightarrow> set (consumed waits1 rest) \<subseteq> set (consumed waits rest)"
  using consumed_append [of "used @ used1" rest] consumed_append [of used1 rest] by auto

definition acknowledged :: "(nat \<Rightarrow> attempt) \<Rightarrow> measurement_t \<Rightarrow> nat \<Rightarrow> nat \<Rightarrow> mqtt_wait list \<Rightarrow> mqtt_wait list \<Rightarrow> bool" where
  "acknowledged env m k n waits rest \<longleftrightarrow> measurement_validate (Some m) = MEASUREMENT_VALID \<and>
     (\<exists>j. k \<le> j \<and> j < k + n \<and> fst (at_mosq (env j)) = 0 \<and> OnPublish (snd (at_mosq (env j))) \<in> set (consumed waits rest))"

lemma retry_loop_outcome:
  "retry_loop print_text env m n k p waits = Some ((rc, q), rest) \<Longrightarrow>
   (\<exists>used. waits = used @ rest) \<and> (rc = 0 \<or> rc = -1) \<and> (rc = 0 \<longrightarrow> acknowledged env m k n waits rest)"
proof (induction n arbitrary: k p waits)
  case (Suc n)
  let ?a = "env k" and ?p0 = "fold publisher_event (at_events (env k)) p"
  have step: "acknowledged env m (k + 1) n w1 rest \<Longrightarrow> waits = used @ w1 \<Longrightarrow> w1 = used1 @ rest \<Longrightarrow> acknowledged env m k (Suc n) waits rest"
    for w1 used used1
    unfolding acknowledged_def using consumed_mono by (metis Suc_leD add_Suc_right add_Suc Suc_eq_plus1 subsetD)
  show ?case
  proof (cases "at_stop_before ?a")
    case True
    then show ?thesis using Suc.prems by (auto simp: Let_def)
  next
    case False
    then obtain r1 p1 w1 where c: "mqtt_publisher_wait_connected (at_clock_connect ?a) 1 (Some ?p0) waits = Some ((r1, p1), w1)"
      using Suc.prems by (auto simp: Let_def split: option.splits)
    obtain used where u: "waits = used @ w1" using wait_connected_used(1) [OF c] by blast
    obtain p1' where p1: "p1 = Some p1'" using wait_connected_used(2) [OF c] by blast
    show ?thesis
    proof (cases "at_stop_after ?a \<or> transient r1 \<or> r1 \<noteq> MQTT_PUBLISHER_OK")
      case True
      then show ?thesis using Suc.prems False c u step Suc.IH [of "k + 1" "the p1" w1] by (auto simp: Let_def split: if_splits)
    next
      case go: False
      then obtain r2 p2 w2 where pb: "mqtt_publisher_publish (at_alloc ?a) print_text (at_clock_publish ?a) (at_mosq ?a) (Some p1') (Some m) 1 w1 =
          Some ((r2, p2), w2)"
        using Suc.prems False c p1 by (auto simp: Let_def split: option.splits)
      obtain used1 where u1: "w1 = used1 @ w2" using publish_used(1) [OF pb] by blast
      show ?thesis
      proof (cases "r2 = MQTT_PUBLISHER_OK")
        case True
        then have "rest = w2" "rc = 0" using Suc.prems False c go pb p1 by (auto simp: Let_def)
        moreover have "acknowledged env m k (Suc n) waits w2"
          unfolding acknowledged_def using publish_used(3) [OF pb True] consumed_mono [OF u u1] by auto
        ultimately show ?thesis using u u1 by auto
      next
        case nok: False
        have u2: "waits = (used @ used1) @ w2" using u u1 by simp
        show ?thesis
          using Suc.prems False c go pb p1 nok u2 step [OF _ u2] Suc.IH [of "k + 1" "the p2" w2] by (auto simp: Let_def split: if_splits)
      qed
    qed
  qed
qed auto

definition simulated_at :: "nat \<Rightarrow> simulated_source_t" where
  "simulated_at i = \<lparr>sim_next_sequence = of_nat (i + 1), sim_next_timestamp_ms = 1787623200000 + int i\<rparr>"

lemma simulated_at_0: "simulated_at 0 = simulated_source_init"
  by (simp add: simulated_at_def simulated_source_init_def)

lemma simulated_next_at:
  "simulated_source_next (Some (simulated_at i)) (Some m0) =
     (MEASUREMENT_SOURCE_OK, Some (simulated_at (Suc i)), Some (simulated_measurement (simulated_at i)))"
  by (simp add: simulated_source_next_def simulated_at_def add_ac)

lemma mqtt_smoke_loop_outcome:
  assumes "mqtt_smoke_loop print_text env n i (simulated_at i) p waits = Some ((rc, ms), rest)" and "p \<noteq> None"
  shows "(\<exists>used. waits = used @ rest) \<and> (rc = 0 \<longrightarrow> ms = map (\<lambda>j. simulated_measurement (simulated_at j)) [i..<i + n] \<and>
     (\<forall>j. i \<le> j \<and> j < i + n \<longrightarrow> acknowledged (env j) (simulated_measurement (simulated_at j)) 0 3 waits rest))"
  using assms
proof (induction n arbitrary: i p waits ms)
  case (Suc n)
  let ?m = "simulated_measurement (simulated_at i)"
  obtain p0 where p0: "p = Some p0" using Suc.prems(2) by blast
  from Suc.prems obtain rc1 p1 w1 where r: "gateway_publish_with_retry print_text (env i) p (Some ?m) 3 waits = Some ((rc1, p1), w1)"
    by (auto simp: simulated_next_at split: option.splits)
  then obtain q where l: "retry_loop print_text (env i) ?m 3 0 p0 waits = Some ((rc1, q), w1)" and p1: "p1 = Some q"
    by (auto simp: gateway_publish_with_retry_def p0)
  obtain used where u: "waits = used @ w1" and ack: "rc1 = 0 \<Longrightarrow> acknowledged (env i) ?m 0 3 waits w1"
    using retry_loop_outcome [OF l] by blast
  show ?case
  proof (cases "rc1 = 0")
    case False
    then show ?thesis using Suc.prems(1) r u by (auto simp: simulated_next_at)
  next
    case True
    then obtain ms1 where t: "mqtt_smoke_loop print_text env n (Suc i) (simulated_at (Suc i)) p1 w1 = Some ((rc, ms1), rest)" "ms = ?m # ms1"
      using Suc.prems(1) r by (auto simp: simulated_next_at)
    from Suc.IH [OF t(1)] obtain used1 where u1: "w1 = used1 @ rest" and
      ih: "rc = 0 \<Longrightarrow> ms1 = map (\<lambda>j. simulated_measurement (simulated_at j)) [Suc i..<Suc i + n] \<and>
        (\<forall>j. Suc i \<le> j \<and> j < Suc i + n \<longrightarrow> acknowledged (env j) (simulated_measurement (simulated_at j)) 0 3 w1 rest)"
      using p1 by blast
    have later: "acknowledged (env j) m k l w1 rest \<Longrightarrow> acknowledged (env j) m k l waits rest" for j m k l
      unfolding acknowledged_def using consumed_mono [OF u u1] by blast
    have "set (consumed waits w1) \<subseteq> set (consumed waits rest)" unfolding u u1
      using consumed_append [of "used @ used1" rest] consumed_append [of used "used1 @ rest"] by auto
    then have now: "acknowledged (env i) ?m 0 3 waits rest" using ack [OF True] unfolding acknowledged_def by blast
    show ?thesis
    proof (intro conjI impI allI)
      show "\<exists>used. waits = used @ rest" using u u1 by auto
      assume "rc = 0"
      note ih = ih [OF this]
      show "ms = map (\<lambda>j. simulated_measurement (simulated_at j)) [i..<i + Suc n]"
        using ih t(2) upt_conv_Cons [of i "i + Suc n"] by (simp del: upt_Suc)
      fix j assume j: "i \<le> j \<and> j < i + Suc n"
      show "acknowledged (env j) (simulated_measurement (simulated_at j)) 0 3 waits rest"
        using ih later now j by (cases "j = i") auto
    qed
  qed
qed auto

text \<open>
  The MQTT self test passes only if the broker has acknowledged every one of the hundred simulated
  measurements, in order, each within three attempts, and it leaves the MQTT library as it found it on every
  path.
\<close>

theorem mqtt_smoke_acknowledged:
  assumes "runtime_ok (mh_runtime h)" and "library_reference_count (mh_runtime h) < 4294967295"
    and "run_mqtt_smoke print_text env library_rc ok connect_rc loop_rc evs host tcp_port waits h = Some ((rc, ms), rest, h')"
  shows "h' = h \<and> (rc = 0 \<longrightarrow> ms = map (\<lambda>j. simulated_measurement (simulated_at j)) [0..<100] \<and>
    (\<forall>j < 100. acknowledged (env j) (ms ! j) 0 3 waits rest))"
proof -
  obtain p h1 where p: "mqtt_publisher_create library_rc ok (Some (smoke_publisher_config host tcp_port)) h = (p, h1)" by fastforce
  from p assms(1,2) show ?thesis
  proof (cases rule: publisher_create_cases)
    case failed
    then show ?thesis using assms(3) p by (auto simp: run_mqtt_smoke_def mqtt_publisher_destroy_def mqtt_publisher_stop_def)
  next
    case (created c rt)
    obtain r q where s: "mqtt_publisher_start connect_rc loop_rc p = (r, q)" by fastforce
    then obtain q' where q: "q = Some q'" using created(2) by (auto simp: mqtt_publisher_start_def Let_def split: if_splits)
    have h': "h' = h" using assms(3) p created s q by (auto simp: run_mqtt_smoke_def destroy_publisher split: if_splits)
    show ?thesis
    proof (cases "r = MQTT_PUBLISHER_OK")
      case False
      then show ?thesis using assms(3) p created s h' by (auto simp: run_mqtt_smoke_def)
    next
      case True
      then have "mqtt_smoke_loop print_text env 100 0 (simulated_at 0) q waits = Some ((rc, ms), rest)"
        using assms(3) p created s by (auto simp: run_mqtt_smoke_def simulated_at_0)
      from mqtt_smoke_loop_outcome [OF this] show ?thesis using h' q by auto
    qed
  qed
qed

definition demo_attempt :: attempt where
  "demo_attempt = \<lparr>at_stop_before = False, at_stop_after = False, at_events = [OnConnect 0], at_clock_connect = True, at_alloc = (\<lambda>_. True),
     at_clock_publish = True, at_mosq = (0, 7)\<rparr>"

lemma demo_json:
  assumes "j < 100"
  shows "measurement_to_json (\<lambda>_. True) (\<lambda>_. ''{}'') (Some (simulated_measurement (simulated_at j))) True = (MEASUREMENT_JSON_OK, Some (''{}'', 2))"
proof -
  have "unat (of_nat (j + 1) :: u32) = j + 1" unfolding unat_of_nat using assms by simp
  then have "(of_nat (j + 1) :: u32) \<noteq> 0" by (metis add_is_0 one_neq_zero unat_0)
  then have "sim_inv (simulated_at j)" by (simp add: sim_inv_def simulated_at_def)
  then have v: "measurement_validate (Some (simulated_measurement (simulated_at j))) = MEASUREMENT_VALID" by (rule simulated_measurement_valid)
  have t: "timestamp_ms (simulated_measurement (simulated_at j)) \<le> INT64_MAX"
    using assms by (simp add: simulated_measurement_def simulated_at_def)
  show ?thesis
    using to_json_ok [OF v t, of "\<lambda>_. True" "\<lambda>_. ''{}''"] by (auto simp: cstr_def)
qed

lemma demo_retry:
  assumes "pb_state p \<in> {MQTT_PUBLISHER_CONNECTING, MQTT_PUBLISHER_CONNECTED}" and "pb_topic_prefix p = ''edgevision/v1/devices''" and "j < 100"
  shows "\<exists>q. pb_state q = MQTT_PUBLISHER_CONNECTED \<and> pb_topic_prefix q = ''edgevision/v1/devices'' \<and>
    gateway_publish_with_retry (\<lambda>_. ''{}'') (\<lambda>_. demo_attempt) (Some p) (Some (simulated_measurement (simulated_at j))) 3
      ((0, [OnPublish 7]) # waits) = Some ((0, Some q), waits)"
  using assms demo_json [OF assms(3)]
  by (auto simp: gateway_publish_with_retry_def numeral_3_eq_3 demo_attempt_def mqtt_publisher_wait_connected_def mqtt_publisher_publish_def
      mqtt_publisher_publish_json_def timed_wait_loop.simps awaits_connection_def awaits_puback_def on_publish_def on_connect_def transient_def
      measurement_topic_def simulated_measurement_def cstr_carray cstring_def Let_def)

lemma demo_smoke_loop:
  assumes "pb_state p \<in> {MQTT_PUBLISHER_CONNECTING, MQTT_PUBLISHER_CONNECTED}" and "pb_topic_prefix p = ''edgevision/v1/devices''" and "j + n \<le> 100"
  shows "\<exists>ms. mqtt_smoke_loop (\<lambda>_. ''{}'') (\<lambda>_ _. demo_attempt) n j (simulated_at j) (Some p) (replicate n (0, [OnPublish 7])) = Some ((0, ms), [])"
  using assms
proof (induction n arbitrary: j p)
  case (Suc n)
  then have j: "j < 100" by simp
  from demo_retry [OF Suc.prems(1,2) j] obtain q where q: "pb_state q = MQTT_PUBLISHER_CONNECTED" "pb_topic_prefix q = ''edgevision/v1/devices''"
    "gateway_publish_with_retry (\<lambda>_. ''{}'') (\<lambda>_. demo_attempt) (Some p) (Some (simulated_measurement (simulated_at j))) 3
      ((0, [OnPublish 7]) # replicate n (0, [OnPublish 7])) = Some ((0, Some q), replicate n (0, [OnPublish 7]))" by blast
  then have "pb_state q \<in> {MQTT_PUBLISHER_CONNECTING, MQTT_PUBLISHER_CONNECTED}" by simp
  from Suc.IH [OF this q(2), of "Suc j"] show ?case using q(3) Suc.prems(3) by (auto simp: simulated_next_at)
qed simp

text \<open>A broker that acknowledges everything: the publisher connects while the test waits, and the test passes.\<close>

theorem mqtt_smoke_acknowledged_witness:
  "\<exists>ms. run_mqtt_smoke (\<lambda>_. ''{}'') (\<lambda>_ _. demo_attempt) 0 (\<lambda>_. True) 0 0 [] ''h'' 1883
      (replicate 100 (0, [OnPublish 7])) demo_mqtt_host = Some ((0, ms), [], demo_mqtt_host) \<and> length ms = 100"
proof -
  have ok: "runtime_ok (mh_runtime demo_mqtt_host)" "library_reference_count (mh_runtime demo_mqtt_host) < 4294967295"
    by (simp_all add: demo_mqtt_host_def runtime_ok_def)
  let ?p = "(new_publisher (smoke_publisher_config ''h'' 1883))\<lparr>pb_state := MQTT_PUBLISHER_CONNECTING, pb_loop_started := True\<rparr>"
  obtain h1 where c: "mqtt_publisher_create 0 (\<lambda>_. True) (Some (smoke_publisher_config ''h'' 1883)) demo_mqtt_host =
      (Some (new_publisher (smoke_publisher_config ''h'' 1883)), h1)"
    by (simp add: mqtt_publisher_create_def string_fits_def mqtt_library_acquire_def smoke_publisher_config_def demo_mqtt_host_def Let_def)
  have s: "mqtt_publisher_start 0 0 (Some (new_publisher (smoke_publisher_config ''h'' 1883))) = (MQTT_PUBLISHER_OK, Some ?p)"
    by (simp add: mqtt_publisher_start_def new_publisher_def Let_def)
  have "pb_state ?p \<in> {MQTT_PUBLISHER_CONNECTING, MQTT_PUBLISHER_CONNECTED}" "pb_topic_prefix ?p = ''edgevision/v1/devices''"
    by (simp_all add: new_publisher_def smoke_publisher_config_def)
  from demo_smoke_loop [OF this, of 0 100] obtain ms where
      "mqtt_smoke_loop (\<lambda>_. ''{}'') (\<lambda>_ _. demo_attempt) 100 0 simulated_source_init (Some ?p) (replicate 100 (0, [OnPublish 7])) = Some ((0, ms), [])"
    by (auto simp: simulated_at_0)
  then have r: "run_mqtt_smoke (\<lambda>_. ''{}'') (\<lambda>_ _. demo_attempt) 0 (\<lambda>_. True) 0 0 [] ''h'' 1883
      (replicate 100 (0, [OnPublish 7])) demo_mqtt_host = Some ((0, ms), [], mqtt_publisher_destroy [] (Some ?p) h1)"
    using c s by (simp add: run_mqtt_smoke_def)
  show ?thesis using mqtt_smoke_acknowledged [OF ok r] r by auto
qed

end
