(* ===== verification/Loopback_Smoke.thy ===== *)
theory Loopback_Smoke
  imports Gateway_Connection Measurement_Json
begin

text \<open>
  The loopback self test \<open>run_network_smoke\<close> of \<^verbatim>\<open>src/core/gateway.c\<close>: a client sends one hundred measurements as
  JSON in frames over one TCP connection, the gateway side decodes and compares each and answers it, and
  the client checks the answers. It composes the encoder, the frames, the sockets and the decoder.
\<close>

section \<open>Data\<close>

text \<open>The cast between \<open>char\<close> and \<open>unsigned char\<close>.\<close>

definition bytes_of :: "string \<Rightarrow> u8 list" where
  "bytes_of s = map (\<lambda>c. word_of_nat (of_char c)) s"

definition text_of :: "u8 list \<Rightarrow> string" where
  "text_of bs = map (\<lambda>b. char_of (unat b)) bs"

lemma text_of_bytes [simp]: "text_of (bytes_of s) = s"
proof -
  have "char_of (unat (word_of_nat (of_char c) :: u8)) = c" for c :: char
  proof -
    have "(of_char c :: nat) < 256" by (rule nat_of_char_less_256)
    then have "unat (word_of_nat (of_char c) :: u8) = of_char c" unfolding unat_of_nat by simp
    then show ?thesis by simp
  qed
  then show ?thesis by (simp add: bytes_of_def text_of_def comp_def)
qed

lemma length_bytes_of [simp]: "length (bytes_of s) = length s"
  by (simp add: bytes_of_def)

text \<open>The value \<open>20.0 + index * 0.125\<close> is exact in a \<open>double\<close>.\<close>

definition build_simulated_measurement :: "nat \<Rightarrow> measurement_t" where
  "build_simulated_measurement index =
     \<lparr>schema_version = MEASUREMENT_SCHEMA_VERSION, device_id = carray 64 ''sim-temperature-01'', sequence = of_nat (index + 1),
      timestamp_ms = 1787623200000 + int index, metric = carray 32 ''temperature'', m_value = Finite (20 + of_nat index / 8),
      m_unit = carray 16 ''celsius'', quality = int (index mod 3)\<rparr>"

definition ack_text :: "nat \<Rightarrow> string" where
  "ack_text n = ''MeasurementAck{sequence='' @ show_int (int n) @ '',status=accepted}''"

section \<open>The three phases\<close>

text \<open>The indices still to send; the wire bytes are collected.\<close>

fun smoke_send ::
  "(nat \<Rightarrow> bool) \<Rightarrow> (cjson \<Rightarrow> string) \<Rightarrow> int \<Rightarrow> nat list \<Rightarrow> nat sys list \<Rightarrow> ((int \<times> u8 list) \<times> nat sys list) option" where
  "smoke_send alloc print_text client_fd [] script = Some ((0, []), script)"
| "smoke_send alloc print_text client_fd (i # is) script =
     (case measurement_to_json alloc print_text (Some (build_simulated_measurement i)) True of
        (MEASUREMENT_JSON_OK, Some (request_json, request_json_size)) \<Rightarrow>
          (case send_frame client_fd (bytes_of (take request_json_size request_json)) script of
             None \<Rightarrow> None
           | Some ((rc, wire), script1) \<Rightarrow>
               if rc \<noteq> 0 then Some ((-1, wire), script1)
               else map_option (\<lambda>((rc2, wire2), s2). ((rc2, wire @ wire2), s2)) (smoke_send alloc print_text client_fd is script1))
      | _ \<Rightarrow> Some ((-1, []), script))"

fun smoke_process ::
  "(char list \<Rightarrow> cjson option) \<Rightarrow> int \<Rightarrow> nat list \<Rightarrow> gateway_connection_t \<Rightarrow> u8 list sys list \<Rightarrow> measurement_t \<Rightarrow> nat sys list \<Rightarrow>
   ((int \<times> u8 list) \<times> gateway_connection_t) option" where
  "smoke_process parse_text accepted_fd [] c input received out = Some ((0, []), c)"
| "smoke_process parse_text accepted_fd (i # is) c input received out =
     (case gateway_connection_recv_frame c input of
        None \<Rightarrow> None
      | Some ((rc, payload), c1, input1) \<Rightarrow>
          if rc \<noteq> 0 then Some ((-1, []), c1)
          else (case measurement_from_json parse_text (Some (text_of (the payload))) (length (the payload)) (Some received) of
                  (MEASUREMENT_JSON_OK, Some received1) \<Rightarrow>
                    if \<not> measurement_equals received1 (build_simulated_measurement i) then Some ((-1, []), c1)
                    else let response = ack_text (unat (sequence received1)) in
                         if length response \<ge> 64 then Some ((-1, []), c1)
                         else (case send_frame accepted_fd (bytes_of response) out of
                                 None \<Rightarrow> None
                               | Some ((rc, wire), out1) \<Rightarrow>
                                   if rc \<noteq> 0 then Some ((-1, wire), c1)
                                   else map_option (\<lambda>((rc2, wire2), c2). ((rc2, wire @ wire2), c2))
                                          (smoke_process parse_text accepted_fd is c1 input1 received1 out1))
                | _ \<Rightarrow> Some ((-1, []), c1)))"

fun smoke_receive :: "nat list \<Rightarrow> gateway_connection_t \<Rightarrow> u8 list sys list \<Rightarrow> (int \<times> gateway_connection_t) option" where
  "smoke_receive [] c input = Some (0, c)"
| "smoke_receive (i # is) c input =
     (let response = ack_text (i + 1) in
      if length response \<ge> 64 then Some (-1, c)
      else (case gateway_connection_recv_frame c input of
              None \<Rightarrow> None
            | Some ((rc, payload), c1, input1) \<Rightarrow>
                if rc \<noteq> 0 \<or> payload \<noteq> Some (bytes_of response) then Some (-1, c1)
                else smoke_receive is c1 input1))"

section \<open>The self test\<close>

text \<open>
  The results of the set-up calls (a descriptor below zero is a failure), the scripts of the sockets, and
  whether the final log entry is accepted.
\<close>

record smoke_env =
  sm_address_ok :: bool
  sm_listen_fd :: int
  sm_bind_ok :: bool
  sm_listen_ok :: bool
  sm_resolve_ok :: bool
  sm_client_fd :: int
  sm_connect_ok :: bool
  sm_accept :: "int sys list"
  sm_client_out :: "nat sys list"
  sm_gateway_in :: "u8 list sys list"
  sm_gateway_out :: "nat sys list"
  sm_client_in :: "u8 list sys list"
  sm_log_ok :: bool

definition smoke_traffic ::
  "(nat \<Rightarrow> bool) \<Rightarrow> (cjson \<Rightarrow> string) \<Rightarrow> (char list \<Rightarrow> cjson option) \<Rightarrow> measurement_t \<Rightarrow> smoke_env \<Rightarrow> int \<Rightarrow> int option" where
  "smoke_traffic alloc print_text parse_text zero e accepted_fd =
     (case smoke_send alloc print_text (sm_client_fd e) [0..<100] (sm_client_out e) of
        None \<Rightarrow> None
      | Some ((rc, _), _) \<Rightarrow>
          if rc \<noteq> 0 then Some (-1)
          else (case smoke_process parse_text accepted_fd [0..<100] (gateway_connection_init accepted_fd) (sm_gateway_in e) zero (sm_gateway_out e) of
                  None \<Rightarrow> None
                | Some ((rc, _), gateway_connection) \<Rightarrow>
                    if rc \<noteq> 0 then Some (-1)
                    else (case smoke_receive [0..<100] (gateway_connection_init (sm_client_fd e)) (sm_client_in e) of
                            None \<Rightarrow> None
                          | Some (rc, client_connection) \<Rightarrow>
                              if rc \<noteq> 0 then Some (-1)
                              else if frame_ok (p_stats (c_parser gateway_connection)) \<noteq> 100 \<or>
                                      frame_ok (p_stats (c_parser client_connection)) \<noteq> 100
                              then Some (-1)
                              else if \<not> sm_log_ok e then Some (-1)
                              else Some 0)))"

text \<open>The result and the descriptors that are closed at DONE.\<close>

definition run_network_smoke ::
  "(nat \<Rightarrow> bool) \<Rightarrow> (cjson \<Rightarrow> string) \<Rightarrow> (char list \<Rightarrow> cjson option) \<Rightarrow> measurement_t \<Rightarrow> smoke_env \<Rightarrow> (int \<times> int list) option" where
  "run_network_smoke alloc print_text parse_text zero e =
     (if \<not> sm_address_ok e then Some (-1, [])
      else if sm_listen_fd e < 0 then Some (-1, [])
      else if \<not> sm_bind_ok e \<or> \<not> sm_listen_ok e \<or> \<not> sm_resolve_ok e then Some (-1, [sm_listen_fd e])
      else if sm_client_fd e < 0 then Some (-1, [sm_listen_fd e])
      else if \<not> sm_connect_ok e then Some (-1, [sm_client_fd e, sm_listen_fd e])
      else (case net_accept (sm_listen_fd e) (sm_accept e) of
              None \<Rightarrow> None
            | Some (accepted_fd, _) \<Rightarrow>
                if accepted_fd < 0 then Some (-1, [sm_client_fd e, sm_listen_fd e])
                else map_option (\<lambda>rc. (rc, [accepted_fd, sm_client_fd e, sm_listen_fd e]))
                       (smoke_traffic alloc print_text parse_text zero e accepted_fd)))"

section \<open>The counters\<close>

lemma feed_keeps_frame_ok: "frame_parser_feed p bs = (r, q) \<Longrightarrow> frame_ok (p_stats q) = frame_ok (p_stats p)"
  by (auto simp: frame_parser_feed_def split: if_splits)

lemma next_counts_frame:
  assumes "frame_parser_next p = (r, pl, q)"
  shows "frame_ok (p_stats q) = frame_ok (p_stats p) + (if r = FRAME_READY then 1 else 0)"
  using assms by (auto simp: frame_parser_next_def frame_discard_prefix_def Let_def split: prod.splits if_splits frame_result_t.splits)

lemma recv_counts_frame:
  "gateway_connection_recv_frame c s = Some ((0, pl), c', rest) \<Longrightarrow> frame_ok (p_stats (c_parser c')) = frame_ok (p_stats (c_parser c)) + 1"
proof (induction c s arbitrary: pl c' rest rule: gateway_connection_recv_frame.induct)
  case (1 c script)
  obtain r payload p where n: "frame_parser_next (c_parser c) = (r, payload, p)" by (metis prod_cases3)
  note k = next_counts_frame [OF n] and run = 1(3) [unfolded gateway_connection_recv_frame.simps [of c script] n prod.case Let_def]
  show ?case
  proof (cases r)
    case FRAME_READY
    then show ?thesis using run k by auto
  next
    case FRAME_INVALID
    then show ?thesis using run k 1(1) [OF n [symmetric] refl refl _ FRAME_INVALID] by simp
  next
    case FRAME_NEED_MORE
    then obtain received bs rest1 where r1: "net_recv (c_fd c) (Some 7) 7 script = Some ((received, bs), rest1)" "\<not> received \<le> 0"
      using run by (auto split: option.splits if_splits)
    obtain fr p' where f: "frame_parser_feed p bs = (fr, p')" by fastforce
    then have fr: "fr = FRAME_READY" "gateway_connection_recv_frame (c\<lparr>c_parser := p'\<rparr>) rest1 = Some ((0, pl), c', rest)"
      using run FRAME_NEED_MORE r1 by (auto split: if_splits)
    have "frame_ok (p_stats (c_parser c')) = frame_ok (p_stats p') + 1"
      using 1(2) [OF n [symmetric] refl refl _ _ r1(1) refl refl r1(2) f [symmetric] refl, of pl c' rest] FRAME_NEED_MORE fr by simp
    then show ?thesis using feed_keeps_frame_ok [OF f] k FRAME_NEED_MORE by simp
  qed
qed

section \<open>A faithful network passes the test\<close>

definition smoke_json :: "(cjson \<Rightarrow> string) \<Rightarrow> nat \<Rightarrow> string" where
  "smoke_json print_text i = print_text (measurement_tree (build_simulated_measurement i) (the (quality_text (int (i mod 3)))))"

text \<open>What the test relies on of cJSON for the hundred texts: it reads back what it prints, the numbers unchanged, and the
  texts fit into a frame.\<close>

definition cjson_faithful :: "(char list \<Rightarrow> cjson option) \<Rightarrow> (cjson \<Rightarrow> string) \<Rightarrow> (rat \<Rightarrow> rat) \<Rightarrow> bool" where
  "cjson_faithful parse_text print_text renumber \<longleftrightarrow>
     (\<forall>n < 4294967296. renumber (of_nat n) = of_nat n) \<and>
     (\<forall>i < 100. cjson_reparses parse_text print_text renumber (measurement_tree (build_simulated_measurement i) (the (quality_text (int (i mod 3))))) \<and>
        renumber (20 + of_nat i / 8) = 20 + of_nat i / 8 \<and> length (smoke_json print_text i) \<le> 240)"

lemma smoke_quality: "quality_text (int (i mod 3)) = Some (the (quality_text (int (i mod 3))))"
proof -
  have "i mod 3 = 0 \<or> i mod 3 = 1 \<or> i mod 3 = 2" by linarith
  then show ?thesis by (auto simp: quality_text_def)
qed

lemma smoke_sequence: "i < 100 \<Longrightarrow> unat (of_nat (i + 1) :: u32) = i + 1"
  unfolding unat_of_nat by simp

lemma smoke_valid:
  assumes "i < 100"
  shows "measurement_layout (build_simulated_measurement i)" and "measurement_validate (Some (build_simulated_measurement i)) = MEASUREMENT_VALID"
proof -
  show "measurement_layout (build_simulated_measurement i)" by (simp add: measurement_layout_def build_simulated_measurement_def)
  have "(of_nat (i + 1) :: u32) \<noteq> 0" using smoke_sequence [OF assms] by (metis add_is_0 one_neq_zero unat_0)
  moreover have "int (i mod 3) \<in> {0, 1, 2}" by (simp add: le_less_Suc_eq) linarith
  ultimately show "measurement_validate (Some (build_simulated_measurement i)) = MEASUREMENT_VALID"
    by (simp add: validate_iff string_is_valid_iff build_simulated_measurement_def cstr_carray cstring_def)
qed

lemma smoke_encode:
  assumes "cjson_faithful parse_text print_text renumber" and "i < 100" and "\<forall>k. alloc k"
  shows "measurement_to_json alloc print_text (Some (build_simulated_measurement i)) True =
    (MEASUREMENT_JSON_OK, Some (smoke_json print_text i, length (smoke_json print_text i)))"
proof -
  have t: "timestamp_ms (build_simulated_measurement i) \<le> INT64_MAX" using assms(2) by (simp add: build_simulated_measurement_def)
  have "cstring (smoke_json print_text i)" using assms(1,2) by (simp add: cjson_faithful_def cjson_reparses_def smoke_json_def)
  moreover have "quality (build_simulated_measurement i) = int (i mod 3)" by (simp add: build_simulated_measurement_def)
  ultimately show ?thesis
    using to_json_ok [OF smoke_valid(2) [OF assms(2)] t assms(3), of print_text] smoke_quality [of i] by (auto simp: smoke_json_def)
qed

lemma smoke_decode:
  assumes "cjson_faithful parse_text print_text renumber" and "i < 100"
  shows "\<exists>m. measurement_from_json parse_text (Some (smoke_json print_text i)) (length (smoke_json print_text i)) (Some m0) = (MEASUREMENT_JSON_OK, Some m) \<and>
    measurement_equals m (build_simulated_measurement i) \<and> unat (sequence m) = i + 1"
proof -
  let ?m = "build_simulated_measurement i"
  have f: "\<forall>n < 4294967296. renumber (of_nat n) = of_nat n" "renumber (20 + of_nat i / 8) = 20 + of_nat i / 8"
    "cjson_reparses parse_text print_text renumber (measurement_tree ?m (the (quality_text (int (i mod 3)))))"
    using assms by (simp_all add: cjson_faithful_def)
  have m: "timestamp_ms ?m < 2 ^ 53" "m_value ?m = Finite (20 + of_nat i / 8)" "quality_text (quality ?m) = Some (the (quality_text (int (i mod 3))))"
    using assms(2) smoke_quality [of i] by (simp_all add: build_simulated_measurement_def)
  obtain json size m' where e: "measurement_to_json (\<lambda>_. True) print_text (Some ?m) True = (MEASUREMENT_JSON_OK, Some (json, size))"
      "measurement_from_json parse_text (Some json) size (Some m0) = (MEASUREMENT_JSON_OK, Some m')" "measurement_equals ?m m'"
    using encode_decode [OF smoke_valid [OF assms(2)] m(1,2) _ f(1) m(3) f(3), of "\<lambda>_. True" m0] f(2) by auto
  have "json = smoke_json print_text i" "size = length (smoke_json print_text i)" using smoke_encode [OF assms, of "\<lambda>_. True"] e(1) by auto
  moreover have "measurement_equals m' ?m" "sequence m' = of_nat (i + 1)"
    using e(3) by (cases "m_value m'"; auto simp: measurement_equals_def build_simulated_measurement_def)+
  ultimately show ?thesis using e(2) smoke_sequence [OF assms(2)] by auto
qed

lemma ack_length:
  assumes "n \<le> 100"
  shows "length (ack_text n) < 64"
proof -
  have "length (show_nat n) \<le> 3" using show_nat_length [of n 2] assms by simp
  then show ?thesis by (simp add: ack_text_def show_int_def)
qed

lemma smoke_send_frames:
  assumes "cjson_faithful parse_text print_text renumber" and "\<forall>k. alloc k" and "\<forall>i\<in>set is. i < 100"
  shows "smoke_send alloc print_text fd is s = send_frames fd (map (\<lambda>i. bytes_of (smoke_json print_text i)) is) s"
  using assms(3)
proof (induction "is" arbitrary: s)
  case (Cons i "is")
  then have "measurement_to_json alloc print_text (Some (build_simulated_measurement i)) True =
      (MEASUREMENT_JSON_OK, Some (smoke_json print_text i, length (smoke_json print_text i)))" using smoke_encode [OF assms(1) _ assms(2)] by simp
  then show ?case using Cons by (auto split: option.splits)
qed simp

text \<open>One call on a connection whose stream begins with a given frame.\<close>

lemma recv_next_frame:
  assumes "parser_wf (c_parser c)" and "0 \<le> c_fd c" and "conn_frames c s = f # fs"
  obtains c' rest where "gateway_connection_recv_frame c s = Some ((0, Some f), c', rest)" "parser_wf (c_parser c')" "c_fd c' = c_fd c"
    "conn_frames c' rest = fs" "frame_ok (p_stats (c_parser c')) = frame_ok (p_stats (c_parser c)) + 1"
proof -
  obtain rc pl c' rest where r: "gateway_connection_recv_frame c s = Some ((rc, pl), c', rest)"
    using recv_frame_first [OF assms(1,2), of s] assms(3) by (cases "gateway_connection_recv_frame c s") (auto simp: recv_outcome_def)
  note out = recv_frame_first [OF assms(1,2), of s, unfolded r recv_outcome_def option.case prod.case assms(3)]
  then have "rc = 0" by (auto split: if_splits)
  with r out show thesis using that recv_counts_frame by (auto split: if_splits)
qed

lemma smoke_process_ok:
  assumes "cjson_faithful parse_text print_text renumber" and "parser_wf (c_parser c)" and "0 \<le> c_fd c"
    and "conn_frames c s = map (\<lambda>i. bytes_of (smoke_json print_text i)) is" and "\<forall>i\<in>set is. i < 100"
    and "send_frames fd (map (\<lambda>i. bytes_of (ack_text (i + 1))) is) out = Some ((0, wire), out')"
  shows "\<exists>c'. smoke_process parse_text fd is c s m0 out = Some ((0, wire), c') \<and>
    frame_ok (p_stats (c_parser c')) = frame_ok (p_stats (c_parser c)) + of_nat (length is)"
  using assms(2-)
proof (induction "is" arbitrary: c s m0 out wire)
  case (Cons i "is")
  from Cons.prems(3) have "conn_frames c s = bytes_of (smoke_json print_text i) # map (\<lambda>i. bytes_of (smoke_json print_text i)) is" by simp
  then obtain c1 s1 where r: "gateway_connection_recv_frame c s = Some ((0, Some (bytes_of (smoke_json print_text i))), c1, s1)"
      "parser_wf (c_parser c1)" "c_fd c1 = c_fd c" "conn_frames c1 s1 = map (\<lambda>i. bytes_of (smoke_json print_text i)) is"
      "frame_ok (p_stats (c_parser c1)) = frame_ok (p_stats (c_parser c)) + 1"
    by (rule recv_next_frame [OF Cons.prems(1,2)])
  have i: "i < 100" using Cons.prems(4) by simp
  obtain m where m: "measurement_from_json parse_text (Some (smoke_json print_text i)) (length (smoke_json print_text i)) (Some m0) = (MEASUREMENT_JSON_OK, Some m)"
      "measurement_equals m (build_simulated_measurement i)" "unat (sequence m) = i + 1"
    using smoke_decode [OF assms(1) i] by blast
  from Cons.prems(5) obtain w1 out1 w2 where sf: "send_frame fd (bytes_of (ack_text (i + 1))) out = Some ((0, w1), out1)"
      "send_frames fd (map (\<lambda>i. bytes_of (ack_text (i + 1))) is) out1 = Some ((0, w2), out')" "wire = w1 @ w2"
    by (auto split: option.splits if_splits)
  have "0 \<le> c_fd c1" "\<forall>i\<in>set is. i < 100" using r(3) Cons.prems(2,4) by simp_all
  from Cons.IH [OF r(2) this(1) r(4) this(2) sf(2), of m] obtain c' where
      "smoke_process parse_text fd is c1 s1 m out1 = Some ((0, w2), c')"
      "frame_ok (p_stats (c_parser c')) = frame_ok (p_stats (c_parser c1)) + of_nat (length is)" by blast
  then show ?case
    using r(1,5) m sf ack_length [of "i + 1"] i by (intro exI [of _ c']) (simp add: not_le)
qed simp

lemma smoke_receive_ok:
  assumes "parser_wf (c_parser c)" and "0 \<le> c_fd c" and "conn_frames c s = map (\<lambda>i. bytes_of (ack_text (i + 1))) is" and "\<forall>i\<in>set is. i < 100"
  shows "\<exists>c'. smoke_receive is c s = Some (0, c') \<and> frame_ok (p_stats (c_parser c')) = frame_ok (p_stats (c_parser c)) + of_nat (length is)"
  using assms
proof (induction "is" arbitrary: c s)
  case (Cons i "is")
  from Cons.prems(3) have "conn_frames c s = bytes_of (ack_text (i + 1)) # map (\<lambda>i. bytes_of (ack_text (i + 1))) is" by simp
  then obtain c1 s1 where r: "gateway_connection_recv_frame c s = Some ((0, Some (bytes_of (ack_text (i + 1)))), c1, s1)"
      "parser_wf (c_parser c1)" "c_fd c1 = c_fd c" "conn_frames c1 s1 = map (\<lambda>i. bytes_of (ack_text (i + 1))) is"
      "frame_ok (p_stats (c_parser c1)) = frame_ok (p_stats (c_parser c)) + 1"
    by (rule recv_next_frame [OF Cons.prems(1,2)])
  have "0 \<le> c_fd c1" "\<forall>i\<in>set is. i < 100" using r(3) Cons.prems(2,4) by simp_all
  from Cons.IH [OF r(2) this(1) r(4) this(2)] obtain c' where
      "smoke_receive is c1 s1 = Some (0, c')" "frame_ok (p_stats (c_parser c')) = frame_ok (p_stats (c_parser c1)) + of_nat (length is)" by blast
  then show ?case
    using r(1,5) ack_length [of "i + 1"] Cons.prems(4) by (intro exI [of _ c']) (simp add: not_le)
qed simp

text \<open>A fresh connection that receives exactly the wire bytes of the payloads, in segments of any size.\<close>

lemma fresh_frames:
  assumes "\<forall>p\<in>set ps. length p \<le> 240" and "send_frames fd ps s = Some ((0, wire), s')" and "stream script = wire"
  shows "conn_frames (gateway_connection_init fd') script = ps"
proof -
  have "wire = concat (map frame_wire ps)"
    using socket_writer.write_seq_prefix [of fd "map frame_wire ps" s 0 wire s'] assms(1,2) by (simp add: send_frames_seq)
  then show ?thesis using drain_spec_wires [OF assms(1)] assms(3) by (simp add: connection_init_frames)
qed

text \<open>
  C23: The loopback self test passes on a faithful network: when the set-up succeeds, the hundred measurement
  frames and the hundred answers are sent without an error, and each side receives exactly the bytes the
  other sent, cut into segments in any way and with any interruptions, then every measurement is decoded to
  the one that was built, every answer is the expected one, both frame counters are 100, the test
  returns 0, and all three descriptors are closed.
\<close>

theorem network_smoke_passes:
  assumes "cjson_faithful parse_text print_text renumber" and "\<forall>k. alloc k"
    and "sm_address_ok e" "0 \<le> sm_listen_fd e" "sm_bind_ok e" "sm_listen_ok e" "sm_resolve_ok e" "0 \<le> sm_client_fd e" "sm_connect_ok e" "sm_log_ok e"
    and "net_accept (sm_listen_fd e) (sm_accept e) = Some (fd, rest)" and "0 \<le> fd"
    and "send_frames (sm_client_fd e) (map (\<lambda>i. bytes_of (smoke_json print_text i)) [0..<100]) (sm_client_out e) = Some ((0, wire1), s1)"
    and "stream (sm_gateway_in e) = wire1"
    and "send_frames fd (map (\<lambda>i. bytes_of (ack_text (i + 1))) [0..<100]) (sm_gateway_out e) = Some ((0, wire2), s2)"
    and "stream (sm_client_in e) = wire2"
  shows "run_network_smoke alloc print_text parse_text zero e = Some (0, [fd, sm_client_fd e, sm_listen_fd e])"
proof -
  have idx: "\<forall>i\<in>set [0..<100]. i < (100 :: nat)" by simp
  have len: "\<forall>p\<in>set (map (\<lambda>i. bytes_of (smoke_json print_text i)) [0..<100]). length p \<le> 240"
    "\<forall>p\<in>set (map (\<lambda>i. bytes_of (ack_text (i + 1))) [0..<100]). length p \<le> 240"
    using assms(1) by (auto simp: cjson_faithful_def simp del: upt_rec_numeral intro!: less_imp_le [OF less_trans [OF ack_length]])
  have c1: "conn_frames (gateway_connection_init fd) (sm_gateway_in e) = map (\<lambda>i. bytes_of (smoke_json print_text i)) [0..<100]"
    by (rule fresh_frames [OF len(1) assms(13,14)])
  have c2: "conn_frames (gateway_connection_init (sm_client_fd e)) (sm_client_in e) = map (\<lambda>i. bytes_of (ack_text (i + 1))) [0..<100]"
    by (rule fresh_frames [OF len(2) assms(15,16)])
  have fds: "0 \<le> c_fd (gateway_connection_init fd)" "0 \<le> c_fd (gateway_connection_init (sm_client_fd e))"
    using assms(8,12) by (simp_all add: gateway_connection_init_def)
  have z: "frame_ok (p_stats (c_parser (gateway_connection_init f))) = 0" for f
    by (simp add: gateway_connection_init_def frame_parser_init_def)
  obtain g where g: "smoke_process parse_text fd [0..<100] (gateway_connection_init fd) (sm_gateway_in e) zero (sm_gateway_out e) = Some ((0, wire2), g)"
      "frame_ok (p_stats (c_parser g)) = 100"
    using smoke_process_ok [OF assms(1) connection_init_wf fds(1) c1 idx assms(15), of zero] z by auto
  obtain k where k: "smoke_receive [0..<100] (gateway_connection_init (sm_client_fd e)) (sm_client_in e) = Some (0, k)"
      "frame_ok (p_stats (c_parser k)) = 100"
    using smoke_receive_ok [OF connection_init_wf fds(2) c2 idx] z by auto
  have "smoke_traffic alloc print_text parse_text zero e fd = Some 0"
    unfolding smoke_traffic_def smoke_send_frames [OF assms(1,2) idx] assms(13) option.case prod.case g(1) k(1) g(2) k(2) using assms(10) by simp
  then show ?thesis using assms by (simp add: run_network_smoke_def del: upt_rec_numeral)
qed

section \<open>An instance\<close>

definition demo_smoke_tree :: "nat \<Rightarrow> cjson" where
  "demo_smoke_tree i = measurement_tree (build_simulated_measurement i) (the (quality_text (int (i mod 3))))"

text \<open>A printer that numbers the trees, and the parser that reads the number.\<close>

definition demo_smoke_print :: "cjson \<Rightarrow> string" where
  "demo_smoke_print t = (case find (\<lambda>i. demo_smoke_tree i = t) [0..<100] of Some i \<Rightarrow> replicate (Suc i) CHR ''x'' | None \<Rightarrow> [])"

definition demo_smoke_parse :: "char list \<Rightarrow> cjson option" where
  "demo_smoke_parse s = Some (reparse id (demo_smoke_tree (length s - 1)))"

lemma demo_tree_inj: "demo_smoke_tree i = demo_smoke_tree j \<Longrightarrow> i = j"
  by (simp add: demo_smoke_tree_def measurement_tree_def build_simulated_measurement_def)

lemma demo_smoke_print_tree: "i < 100 \<Longrightarrow> demo_smoke_print (demo_smoke_tree i) = replicate (Suc i) CHR ''x''"
proof -
  assume "i < 100"
  then have "find (\<lambda>j. demo_smoke_tree j = demo_smoke_tree i) [0..<100] = Some i"
    by (auto simp: find_Some_iff dest: demo_tree_inj simp del: upt_rec_numeral intro!: exI [of _ i])
  then show ?thesis by (simp add: demo_smoke_print_def del: upt_rec_numeral)
qed

lemma demo_faithful: "cjson_faithful demo_smoke_parse demo_smoke_print id"
  using demo_smoke_print_tree
  by (auto simp: cjson_faithful_def cjson_reparses_def smoke_json_def demo_smoke_parse_def cstring_def demo_smoke_tree_def [symmetric])

lemma stream_single: "stream (map (\<lambda>b. Ret [b]) bs) = bs"
  by (induction bs) simp_all

lemma send_frames_all:
  assumes "0 \<le> fd" and "\<forall>p\<in>set ps. length p \<le> 240"
  shows "send_frames fd ps (replicate (length ps) (Ret 1000)) = Some ((0, concat (map frame_wire ps)), [])"
  using assms(2)
proof (induction ps)
  case (Cons p ps)
  have "length (frame_wire p) \<le> 1000" "0 < length (frame_wire p)" using Cons.prems by (simp_all add: frame_wire_def Let_def)
  then have "send_loop (frame_wire p) 0 (Ret 1000 # script) = Some ((0, frame_wire p), script)" for script
    by (cases script) (simp_all add: min_def)
  then show ?case using Cons assms(1) by (simp add: send_frame_wire net_send_all_def)
qed simp

definition demo_smoke_env :: smoke_env where
  "demo_smoke_env =
     \<lparr>sm_address_ok = True, sm_listen_fd = 3, sm_bind_ok = True, sm_listen_ok = True, sm_resolve_ok = True, sm_client_fd = 4, sm_connect_ok = True,
      sm_accept = [EINTR, Ret 5], sm_client_out = replicate 100 (Ret 1000),
      sm_gateway_in = map (\<lambda>b. Ret [b]) (concat (map frame_wire (map (\<lambda>i. bytes_of (smoke_json demo_smoke_print i)) [0..<100]))),
      sm_gateway_out = replicate 100 (Ret 1000),
      sm_client_in = map (\<lambda>b. Ret [b]) (concat (map frame_wire (map (\<lambda>i. bytes_of (ack_text (i + 1))) [0..<100]))), sm_log_ok = True\<rparr>"

text \<open>The bytes arrive one at a time.\<close>

theorem network_smoke_passes_witness:
  "run_network_smoke (\<lambda>_. True) demo_smoke_print demo_smoke_parse sample_measurement demo_smoke_env = Some (0, [5, 4, 3])"
proof -
  let ?ms = "map (\<lambda>i. bytes_of (smoke_json demo_smoke_print i)) [0..<100]" and ?as = "map (\<lambda>i. bytes_of (ack_text (i + 1))) [0..<100]"
  have len: "\<forall>p\<in>set ?ms. length p \<le> 240" "\<forall>p\<in>set ?as. length p \<le> 240"
    using demo_faithful by (auto simp: cjson_faithful_def simp del: upt_rec_numeral intro!: less_imp_le [OF less_trans [OF ack_length]])
  have s1: "send_frames 4 ?ms (replicate 100 (Ret 1000)) = Some ((0, concat (map frame_wire ?ms)), [])"
    using send_frames_all [OF _ len(1), of 4] by (simp del: upt_rec_numeral)
  have s2: "send_frames 5 ?as (replicate 100 (Ret 1000)) = Some ((0, concat (map frame_wire ?as)), [])"
    using send_frames_all [OF _ len(2), of 5] by (simp del: upt_rec_numeral)
  have "run_network_smoke (\<lambda>_. True) demo_smoke_print demo_smoke_parse sample_measurement demo_smoke_env =
      Some (0, [5, sm_client_fd demo_smoke_env, sm_listen_fd demo_smoke_env])"
    by (rule network_smoke_passes [OF demo_faithful, where rest = "[]"])
      (use s1 s2 in \<open>simp_all add: demo_smoke_env_def net_accept_def stream_single del: upt_rec_numeral\<close>)
  then show ?thesis by (simp add: demo_smoke_env_def del: upt_rec_numeral)
qed

end
