(* ===== verification/Async_Logger.thy ===== *)
theory Async_Logger
  imports C_Text Typed_Queue
begin

text \<open>
  The asynchronous logger of \<^verbatim>\<open>src/modules/log/async_logger.c\<close>: the file operations of its writer
  thread (formatting, writing, rotation, compression, synchronisation), its creation and
  destruction, and the protocol between producers, writer and shutdown (theory \<open>Logger_Protocol\<close>).

  A file is its bytes (of a gzip file, the bytes it decompresses to), the number of leading bytes
  \<open>fsync\<close> has confirmed and whether it is a gzip file. An open stream is the list of the bytes
  still in its stdio buffer; the bytes already handed to the kernel are those of the file at the
  logger's path. What the operating system answers is an argument of each operation.
\<close>

section \<open>Data\<close>

datatype log_level_t = LOG_LEVEL_DEBUG | LOG_LEVEL_INFO | LOG_LEVEL_WARN | LOG_LEVEL_ERROR

datatype async_logger_durability_t = ASYNC_LOGGER_BUFFERED | ASYNC_LOGGER_FSYNC_EACH

record async_logger_config_t =
  lc_path :: "string option"
  lc_capacity :: nat
  lc_rotation_bytes :: nat
  lc_rotation_files :: nat
  lc_compress_rotated :: int
  lc_durability :: int

record log_message_t =
  lm_sequence :: nat
  lm_timestamp :: timespec
  lm_thread_id :: nat
  lm_level :: log_level_t
  lm_text :: string

record async_logger_t =
  lg_queue :: "log_message_t tqueue"
  lg_file :: "string option"
  lg_next_sequence :: nat
  lg_accepted :: nat
  lg_written :: nat
  lg_rejected :: nat
  lg_durable_sequence :: nat
  lg_write_error :: bool
  lg_path :: string
  lg_rotation_bytes :: nat
  lg_current_bytes :: nat
  lg_rotation_files :: nat
  lg_compress_rotated :: bool
  lg_durability :: async_logger_durability_t
  lg_initialized :: bool
  lg_shutdown_complete :: bool

record log_file =
  f_bytes :: string
  f_synced :: nat
  f_gzip :: bool

type_synonym disk = "string \<Rightarrow> log_file option"

abbreviation (input) LOG_LINE_MAX :: nat where "LOG_LINE_MAX \<equiv> 768"
abbreviation (input) LOG_TEXT_MAX :: nat where "LOG_TEXT_MAX \<equiv> 256"
abbreviation (input) COPY_BUFFER_SIZE :: nat where "COPY_BUFFER_SIZE \<equiv> 16384"
abbreviation (input) ASYNC_LOGGER_PATH_MAX :: nat where "ASYNC_LOGGER_PATH_MAX \<equiv> 4096"

section \<open>Lines\<close>

fun level_to_string :: "log_level_t \<Rightarrow> string" where
  "level_to_string LOG_LEVEL_DEBUG = ''DEBUG''"
| "level_to_string LOG_LEVEL_INFO = ''INFO''"
| "level_to_string LOG_LEVEL_WARN = ''WARN''"
| "level_to_string LOG_LEVEL_ERROR = ''ERROR''"

text \<open>
  \<open>calendar sec\<close> is what \<open>localtime_r\<close> and \<open>strftime\<close> make of a time in the process's time zone,
  \<open>None\<close> when one of them fails; \<open>strftime\<close> writes at most 63 characters into the buffer. The
  conversions \<open>%09ld\<close> and \<open>%-5s\<close> pad with zeros on the left and blanks on the right.
\<close>

definition zero_pad :: "nat \<Rightarrow> string \<Rightarrow> string" where
  "zero_pad n s = replicate (n - length s) (CHR ''0'') @ s"

definition blank_pad :: "nat \<Rightarrow> string \<Rightarrow> string" where
  "blank_pad n s = s @ replicate (n - length s) (CHR '' '')"

definition line_text :: "string \<Rightarrow> log_message_t \<Rightarrow> string" where
  "line_text time_buffer m =
     ''['' @ show_nat (lm_sequence m) @ ''] ['' @ time_buffer @ ''.'' @
     zero_pad 9 (show_int (snd (lm_timestamp m))) @ ''] ['' @
     blank_pad 5 (level_to_string (lm_level m)) @ ''] [thread='' @ show_nat (lm_thread_id m) @ ''] '' @
     cstr (lm_text m) @ [CHR 0x0A]"

definition format_line :: "(int \<Rightarrow> string option) \<Rightarrow> log_message_t \<Rightarrow> string option" where
  "format_line calendar m =
     (case calendar (fst (lm_timestamp m)) of
        None \<Rightarrow> None
      | Some time_buffer \<Rightarrow>
          let line = line_text time_buffer m
          in if length line \<ge> LOG_LINE_MAX then None else Some line)"

section \<open>Files\<close>

definition make_rotated_path :: "string \<Rightarrow> nat \<Rightarrow> bool \<Rightarrow> string option" where
  "make_rotated_path path index compressed =
     (let out = path @ ''.'' @ show_nat index @ (if compressed then ''.gz'' else '''')
      in if length out \<ge> ASYNC_LOGGER_PATH_MAX then None else Some out)"

definition disk_append :: "string \<Rightarrow> string \<Rightarrow> disk \<Rightarrow> disk" where
  "disk_append path s d =
     (case d path of
        Some f \<Rightarrow> d(path \<mapsto> f\<lparr>f_bytes := f_bytes f @ s\<rparr>)
      | None \<Rightarrow> d)"

definition disk_fsync :: "string \<Rightarrow> disk \<Rightarrow> disk" where
  "disk_fsync path d =
     (case d path of
        Some f \<Rightarrow> d(path \<mapsto> f\<lparr>f_synced := length (f_bytes f)\<rparr>)
      | None \<Rightarrow> d)"

definition disk_create :: "string \<Rightarrow> disk \<Rightarrow> disk" where
  "disk_create path d =
     (case d path of
        Some f \<Rightarrow> d
      | None \<Rightarrow> d(path \<mapsto> \<lparr>f_bytes = [], f_synced = 0, f_gzip = False\<rparr>))"

text \<open>\<open>rename\<close> fails with \<open>ENOENT\<close> where the old name does not exist; otherwise it may fail for
  another reason, and when it succeeds a file at the new name is replaced.\<close>

datatype rename_result = Renamed | Rename_ENOENT | Rename_failed

definition disk_rename :: "bool \<Rightarrow> string \<Rightarrow> string \<Rightarrow> disk \<Rightarrow> rename_result \<times> disk" where
  "disk_rename ok src dst d =
     (case d src of
        None \<Rightarrow> (Rename_ENOENT, d)
      | Some f \<Rightarrow> if ok then (Renamed, (d(src := None))(dst \<mapsto> f)) else (Rename_failed, d))"

text \<open>
  \<open>fflush\<close> empties the buffer, or fails after the first \<open>k\<close> bytes of it (\<open>Some k\<close>); the result of
  \<open>sync_stream\<close> is its success, the bytes left in the buffer and the disk.
\<close>

record sync_env =
  sy_fflush :: "nat option"
  sy_fsync :: bool

definition sync_stream :: "sync_env \<Rightarrow> string \<Rightarrow> string \<Rightarrow> disk \<Rightarrow> bool \<times> string \<times> disk" where
  "sync_stream e path pending d =
     (case sy_fflush e of
        Some k \<Rightarrow> (False, drop k pending, disk_append path (take k pending) d)
      | None \<Rightarrow>
          let d1 = disk_append path pending d
          in if sy_fsync e then (True, [], disk_fsync path d1) else (False, [], d1))"

text \<open>
  The copy loop of \<open>gzip_file\<close>. In round \<open>i\<close> \<open>fread\<close> fills the buffer as far as the file goes, or
  fails after \<open>k\<close> bytes, fewer than the buffer has (\<open>Some k\<close>); \<open>gzwrite\<close> takes the block or fails.
\<close>

record gzip_env =
  gz_fopen :: bool
  gz_gzopen :: bool
  gz_read :: "nat \<Rightarrow> nat option"
  gz_write :: "nat \<Rightarrow> bool"
  gz_gzclose :: bool
  gz_fclose :: bool
  gz_unlink :: bool

definition gzip_block :: "gzip_env \<Rightarrow> nat \<Rightarrow> string \<Rightarrow> string" where
  "gzip_block e i input =
     (case gz_read e i of
        None \<Rightarrow> take COPY_BUFFER_SIZE input
      | Some k \<Rightarrow> take (min k (COPY_BUFFER_SIZE - 1)) input)"

lemma gzip_block_le: "length (gzip_block e i input) \<le> COPY_BUFFER_SIZE"
  by (auto simp: gzip_block_def split: option.splits)

function gzip_copy :: "gzip_env \<Rightarrow> nat \<Rightarrow> string \<Rightarrow> string \<Rightarrow> bool \<times> string" where
  "gzip_copy e i input out =
     (let chunk = gzip_block e i input
      in if chunk \<noteq> [] \<and> \<not> gz_write e i then (False, out)
         else if length chunk < COPY_BUFFER_SIZE then (gz_read e i = None, out @ chunk)
         else gzip_copy e (i + 1) (drop COPY_BUFFER_SIZE input) (out @ chunk))"
  by pat_completeness auto
termination
  by (relation "measure (\<lambda>(e, i, input, out). length input)")
    (auto simp: gzip_block_def split: option.splits)

declare gzip_copy.simps [simp del]

definition gzip_file :: "gzip_env \<Rightarrow> string \<Rightarrow> string \<Rightarrow> disk \<Rightarrow> bool \<times> disk" where
  "gzip_file e source destination d =
     (case d source of
        None \<Rightarrow> (False, d)
      | Some f \<Rightarrow>
          if \<not> gz_fopen e then (False, d)
          else if \<not> gz_gzopen e then (False, d)
          else case gzip_copy e 0 (f_bytes f) [] of (copied, bytes) \<Rightarrow>
            let d1 = d(destination \<mapsto> \<lparr>f_bytes = bytes, f_synced = 0, f_gzip = True\<rparr>)
            in if \<not> copied then (False, d1(destination := None))
               else if \<not> gz_gzclose e then (False, d1(destination := None))
               else if \<not> gz_fclose e then (False, d1(destination := None))
               else if \<not> gz_unlink e then (False, d1(destination := None))
               else (True, d1(source := None)))"

section \<open>Rotation\<close>

record rotate_env =
  ro_sync :: sync_env
  ro_fclose :: bool
  ro_rename :: "nat \<Rightarrow> bool"
  ro_rename_active :: bool
  ro_unlink :: bool
  ro_gzip :: gzip_env
  ro_fopen :: bool

text \<open>The loop that moves the history up, from the highest index down.\<close>

fun shift_history :: "(nat \<Rightarrow> bool) \<Rightarrow> string \<Rightarrow> bool \<Rightarrow> nat \<Rightarrow> disk \<Rightarrow> bool \<times> disk" where
  "shift_history ok path compressed index d =
     (if index > 1 then
        (case (make_rotated_path path (index - 1) compressed, make_rotated_path path index compressed) of
           (Some older, Some newer) \<Rightarrow>
             (case disk_rename (ok index) older newer d of
                (Rename_failed, d1) \<Rightarrow> (False, d1)
              | (_, d1) \<Rightarrow> shift_history ok path compressed (index - 1) d1)
         | _ \<Rightarrow> (False, d))
      else (True, d))"

declare shift_history.simps [simp del]

text \<open>The rest of \<open>rotate_file\<close>, after the history has been moved: the active file becomes the
  first of the history and a new one is opened.\<close>

definition disk_unlink :: "bool \<Rightarrow> string \<Rightarrow> disk \<Rightarrow> disk" where
  "disk_unlink ok path d = (if ok then d(path := None) else d)"

definition store_active :: "rotate_env \<Rightarrow> string \<Rightarrow> bool \<Rightarrow> disk \<Rightarrow> bool \<times> disk" where
  "store_active e path compressed d =
     (case make_rotated_path path 1 False of
        None \<Rightarrow> (False, d)
      | Some first_plain \<Rightarrow>
          if compressed then
            (case make_rotated_path path 1 True of
               None \<Rightarrow> (False, d)
             | Some first_compressed \<Rightarrow>
                 let d1 = disk_unlink (ro_unlink e) first_compressed d
                 in (case disk_rename (ro_rename_active e) path first_plain d1 of
                       (Renamed, d2) \<Rightarrow> gzip_file (ro_gzip e) first_plain first_compressed d2
                     | (_, d2) \<Rightarrow> (False, d2)))
          else
            let d1 = disk_unlink (ro_unlink e) first_plain d
            in (case disk_rename (ro_rename_active e) path first_plain d1 of
                  (Renamed, d2) \<Rightarrow> (True, d2)
                | (_, d2) \<Rightarrow> (False, d2)))"

definition rotate_file :: "rotate_env \<Rightarrow> async_logger_t \<Rightarrow> disk \<Rightarrow> bool \<times> async_logger_t \<times> disk" where
  "rotate_file e logger d =
     (let path = lg_path logger; compressed = lg_compress_rotated logger; closed = logger\<lparr>lg_file := None\<rparr>
      in case sync_stream (ro_sync e) path (the (lg_file logger)) d of (synced, _, d1) \<Rightarrow>
         if \<not> synced \<or> \<not> ro_fclose e then (False, closed, d1)
         else case shift_history (ro_rename e) path compressed (lg_rotation_files logger) d1 of (shifted, d2) \<Rightarrow>
           if \<not> shifted then (False, closed, d2)
           else case store_active e path compressed d2 of (stored, d3) \<Rightarrow>
             if \<not> stored then (False, closed, d3)
             else if \<not> ro_fopen e then (False, closed, d3)
             else (True, closed\<lparr>lg_file := Some [], lg_current_bytes := 0\<rparr>, disk_create path d3))"

section \<open>One message\<close>

text \<open>
  \<open>fwrite\<close> takes the whole line or only its first \<open>k\<close> bytes (\<open>Some k\<close>), and hands some of the
  buffered bytes to the kernel. Additions of \<open>size_t\<close> values wrap at \<open>2^64\<close>.
\<close>

record write_env =
  we_rotate :: rotate_env
  we_fwrite :: "nat option"
  we_spill :: nat
  we_sync :: sync_env

definition rotation_due :: "async_logger_t \<Rightarrow> nat \<Rightarrow> bool" where
  "rotation_due logger len \<longleftrightarrow>
     lg_rotation_bytes logger > 0 \<and> lg_rotation_files logger > 0 \<and> lg_current_bytes logger > 0 \<and>
     (lg_current_bytes logger + len) mod SIZE_MODULUS > lg_rotation_bytes logger"

definition stream_write :: "write_env \<Rightarrow> string \<Rightarrow> async_logger_t \<Rightarrow> disk \<Rightarrow> bool \<times> async_logger_t \<times> disk" where
  "stream_write e line logger d =
     (let taken = (case we_fwrite e of None \<Rightarrow> line | Some k \<Rightarrow> take k line);
          buffered = the (lg_file logger) @ taken;
          d1 = disk_append (lg_path logger) (take (we_spill e) buffered) d;
          logger1 = logger\<lparr>lg_file := Some (drop (we_spill e) buffered)\<rparr>
      in if length taken \<noteq> length line then (False, logger1, d1)
         else
           let logger2 = logger1\<lparr>lg_current_bytes := (lg_current_bytes logger + length line) mod SIZE_MODULUS\<rparr>
           in if lg_durability logger = ASYNC_LOGGER_FSYNC_EACH then
                (case sync_stream (we_sync e) (lg_path logger) (the (lg_file logger2)) d1 of
                   (synced, pending, d2) \<Rightarrow> (synced, logger2\<lparr>lg_file := Some pending\<rparr>, d2))
              else (True, logger2, d1))"

definition write_one ::
  "(int \<Rightarrow> string option) \<Rightarrow> write_env \<Rightarrow> async_logger_t \<Rightarrow> disk \<Rightarrow> log_message_t \<Rightarrow>
   bool \<times> async_logger_t \<times> disk" where
  "write_one calendar e logger d m =
     (case format_line calendar m of
        None \<Rightarrow> (False, logger, d)
      | Some line \<Rightarrow>
          if rotation_due logger (length line) then
            (case rotate_file (we_rotate e) logger d of
               (False, logger1, d1) \<Rightarrow> (False, logger1, d1)
             | (True, logger1, d1) \<Rightarrow> stream_write e line logger1 d1)
          else stream_write e line logger d)"

section \<open>Properties of lines and copies\<close>

lemma zero_pad_length: "length s \<le> n \<Longrightarrow> length (zero_pad n s) = n"
  by (simp add: zero_pad_def)

lemma blank_pad_level [simp]: "length (blank_pad 5 (level_to_string l)) = 5"
  by (cases l) (simp_all add: blank_pad_def)

lemma show_counter_length: "n < SIZE_MODULUS \<Longrightarrow> length (show_nat n) \<le> 20"
  using show_nat_length [of n 19] by simp

lemma show_nsec_length: "0 \<le> i \<Longrightarrow> i < 1000000000 \<Longrightarrow> length (show_int i) \<le> 9"
  using show_nat_length [of "nat i" 8] by (simp add: show_int_def)

lemma cstr_length: "length (cstr s) \<le> length s"
  by (simp add: cstr_def length_takeWhile_le)

text \<open>
  A line always fits its buffer: for every message \<open>async_logger_log\<close> can build (a 64-bit sequence
  and thread number, a valid clock reading, at most 255 characters) and every time \<open>strftime\<close> can
  write into its 64 bytes, \<open>format_line\<close> returns the whole line, ended by a newline and shorter than
  the 768 bytes of \<open>LOG_LINE_MAX\<close>: the writer never fails because of a long message.
\<close>

theorem format_line_fits:
  assumes "calendar (fst (lm_timestamp m)) = Some t" and "length t \<le> 63"
    and "lm_sequence m < SIZE_MODULUS" and "lm_thread_id m < SIZE_MODULUS"
    and "0 \<le> snd (lm_timestamp m)" and "snd (lm_timestamp m) < 1000000000"
    and "length (lm_text m) \<le> LOG_TEXT_MAX"
  shows "\<exists>line. format_line calendar m = Some line \<and> length line < 420 \<and> last line = CHR 0x0A"
proof -
  have "length (line_text t m) \<le> 20 + 63 + 9 + 5 + 20 + 256 + 21"
    using assms(2) show_counter_length [OF assms(3)] show_counter_length [OF assms(4)]
      zero_pad_length [OF show_nsec_length [OF assms(5,6)]] cstr_length [of "lm_text m"] assms(7)
    by (simp add: line_text_def)
  then show ?thesis using assms(1) by (simp add: format_line_def line_text_def)
qed

lemma gzip_block_full:
  assumes "gzip_block e i input = chunk" and "gz_read e i = None \<or> length chunk \<ge> COPY_BUFFER_SIZE"
  shows "chunk = take COPY_BUFFER_SIZE input"
  using assms by (auto simp: gzip_block_def split: option.splits)

lemma gzip_copy_exact:
  "gzip_copy e i input out = (True, bytes) \<Longrightarrow> bytes = out @ input"
proof (induction e i input out rule: gzip_copy.induct)
  case (1 e i input out)
  define chunk where "chunk = gzip_block e i input"
  show ?case
  proof (cases "length chunk < COPY_BUFFER_SIZE")
    case True
    then have "gz_read e i = None" "bytes = out @ chunk"
      using 1(2) by (auto simp: gzip_copy.simps [of e i] chunk_def [symmetric] Let_def split: if_splits)
    moreover have "chunk = input"
      using gzip_block_full [OF chunk_def [symmetric]] calculation(1) True by simp
    ultimately show ?thesis by simp
  next
    case False
    then have c: "chunk = take COPY_BUFFER_SIZE input"
      using gzip_block_full [OF chunk_def [symmetric]] by simp
    have w: "\<not> (chunk \<noteq> [] \<and> \<not> gz_write e i)"
      using 1(2) by (auto simp: gzip_copy.simps [of e i] chunk_def [symmetric] Let_def split: if_splits)
    have "gzip_copy e (i + 1) (drop COPY_BUFFER_SIZE input) (out @ chunk) = (True, bytes)"
      using 1(2) w False by (simp add: gzip_copy.simps [of e i] chunk_def [symmetric] Let_def)
    from 1(1) [OF chunk_def w False this] show ?thesis
      by (simp add: c)
  qed
qed

text \<open>When nothing fails the copy succeeds.\<close>

lemma gzip_copy_total:
  "\<lbrakk>\<And>j. gz_read e j = None; \<And>j. gz_write e j\<rbrakk> \<Longrightarrow> \<exists>bytes. gzip_copy e i input out = (True, bytes)"
proof (induction e i input out rule: gzip_copy.induct)
  case (1 e i input out)
  show ?case
  proof (cases "length (gzip_block e i input) < COPY_BUFFER_SIZE")
    case True
    then show ?thesis using 1(2,3) by (simp add: gzip_copy.simps [of e i] Let_def)
  next
    case False
    from 1(1) [OF refl _ False 1(2,3)] 1(3) False show ?thesis
      by (simp add: gzip_copy.simps [of e i] Let_def)
  qed
qed

lemma gzip_file_ok:
  assumes "gzip_file e src dst d = (True, d')"
  shows "\<exists>f. d src = Some f \<and>
    d' = (d(dst \<mapsto> \<lparr>f_bytes = f_bytes f, f_synced = 0, f_gzip = True\<rparr>))(src := None)"
  using assms
  by (auto simp: gzip_file_def Let_def dest!: gzip_copy_exact split: option.splits if_splits prod.splits)

lemma gzip_file_failed:
  assumes "gzip_file e src dst d = (False, d')"
  shows "d' = d \<or> d' = d(dst := None)"
  using assms by (auto simp: gzip_file_def Let_def split: option.splits if_splits prod.splits)

lemma gzip_file_succeeds:
  assumes "d src = Some f" and "gz_fopen e" and "gz_gzopen e" and "\<And>i. gz_read e i = None"
    and "\<And>i. gz_write e i" and "gz_gzclose e" and "gz_fclose e" and "gz_unlink e"
  shows "\<exists>d'. gzip_file e src dst d = (True, d')"
proof -
  obtain b where "gzip_copy e 0 (f_bytes f) [] = (True, b)"
    using gzip_copy_total [of e 0 "f_bytes f" "[]"] assms by blast
  then show ?thesis using assms by (simp add: gzip_file_def Let_def)
qed

section \<open>Rotation keeps a history\<close>

text \<open>
  \<open>rotated path c i\<close> is the name of the \<open>i\<close>-th rotated file. The names are distinct from each
  other and from the active one.
\<close>

definition rotated :: "string \<Rightarrow> bool \<Rightarrow> nat \<Rightarrow> string" where
  "rotated path c i = path @ ''.'' @ show_nat i @ (if c then ''.gz'' else '''')"

lemma make_rotated_path_eq: "make_rotated_path path i c = Some p \<Longrightarrow> p = rotated path c i"
  by (auto simp: make_rotated_path_def rotated_def Let_def split: if_splits)

lemma make_rotated_path_some: "make_rotated_path path i c \<noteq> None \<Longrightarrow> make_rotated_path path i c = Some (rotated path c i)"
  by (auto simp: make_rotated_path_def rotated_def Let_def split: if_splits)

lemma rotated_not_path [simp]: "rotated path c i \<noteq> path" "path \<noteq> rotated path c i"
  by (simp_all add: rotated_def)

lemma rotated_inj [simp]: "rotated path c i = rotated path c j \<longleftrightarrow> i = j"
  using show_nat_inj by (auto simp: rotated_def)

lemma rotated_compressed [simp]: "rotated path True i \<noteq> rotated path False j"
  "rotated path False j \<noteq> rotated path True i"
proof -
  have "is_digit (last (show_nat j))" using show_nat_digits [of j] by simp
  moreover have "\<not> is_digit (last (show_nat i @ ''.gz''))" by (simp add: is_digit_def)
  ultimately have "show_nat j \<noteq> show_nat i @ ''.gz''" by metis
  then show "rotated path True i \<noteq> rotated path False j" by (auto simp: rotated_def)
  then show "rotated path False j \<noteq> rotated path True i" by metis
qed

text \<open>
  \<open>history_is path c n d hs\<close>: the rotated files on the disk are \<open>hs\<close>, the newest first, with no
  gap and at most \<open>n\<close> of them.
\<close>

definition history_is :: "string \<Rightarrow> bool \<Rightarrow> nat \<Rightarrow> disk \<Rightarrow> log_file list \<Rightarrow> bool" where
  "history_is path c n d hs \<longleftrightarrow>
     length hs \<le> n \<and>
     (\<forall>i. 1 \<le> i \<longrightarrow> i \<le> n \<longrightarrow> d (rotated path c i) = (if i \<le> length hs then Some (hs ! (i - 1)) else None))"

lemma disk_rename_cases:
  assumes "disk_rename ok src dst d = (r, d')"
  shows "(r = Renamed \<and> (\<exists>f. d src = Some f \<and> d' = (d(src := None))(dst \<mapsto> f))) \<or>
    (r = Rename_ENOENT \<and> d src = None \<and> d' = d) \<or> (r = Rename_failed \<and> d' = d)"
  using assms by (auto simp: disk_rename_def split: option.splits if_splits)

lemma shift_history_small: "\<not> 1 < k \<Longrightarrow> shift_history ok path c k d = (True, d)"
  by (simp add: shift_history.simps)

lemma shift_step:
  assumes "1 < k" and "shift_history ok path c k d = (s, d')"
  shows "(\<not> s \<and> d' = d) \<or>
    (\<exists>d1. shift_history ok path c (k - 1) d1 = (s, d') \<and>
      (d (rotated path c (k - 1)) = None \<and> d1 = d \<or>
       (\<exists>f. d (rotated path c (k - 1)) = Some f \<and>
          d1 = (d(rotated path c (k - 1) := None))(rotated path c k \<mapsto> f))))"
proof -
  consider "make_rotated_path path (k - 1) c = None \<or> make_rotated_path path k c = None"
    | "make_rotated_path path (k - 1) c = Some (rotated path c (k - 1))"
      "make_rotated_path path k c = Some (rotated path c k)"
    using make_rotated_path_eq by (metis option.exhaust)
  then show ?thesis
  proof cases
    case 1
    then show ?thesis
      using assms by (auto simp: shift_history.simps [of ok path c k] split: option.splits)
  next
    case 2
    obtain r d1 where r: "disk_rename (ok k) (rotated path c (k - 1)) (rotated path c k) d = (r, d1)"
      by fastforce
    then show ?thesis
      using assms 2 disk_rename_cases [OF r]
      by (cases r) (auto simp: shift_history.simps [of ok path c k])
  qed
qed

lemma shift_history_done:
  assumes "shift_history ok path c k d = (True, d')"
  shows "(\<forall>p. (\<forall>i. 1 \<le> i \<longrightarrow> i \<le> k \<longrightarrow> p \<noteq> rotated path c i) \<longrightarrow> d' p = d p) \<and>
    (\<forall>i. 2 \<le> i \<longrightarrow> i \<le> k \<longrightarrow> d' (rotated path c i) =
       (case d (rotated path c (i - 1)) of Some f \<Rightarrow> Some f | None \<Rightarrow> if i = k then d (rotated path c k) else None)) \<and>
    (2 \<le> k \<longrightarrow> d' (rotated path c 1) = None) \<and> (k < 2 \<longrightarrow> d' = d)"
  using assms
proof (induction k arbitrary: d)
  case (Suc k)
  show ?case
  proof (cases "1 < Suc k")
    case False
    then show ?thesis using Suc.prems by (auto simp: shift_history_small)
  next
    case True
    obtain d1 where r: "shift_history ok path c k d1 = (True, d')"
      and d1: "d (rotated path c k) = None \<and> d1 = d \<or>
        (\<exists>f. d (rotated path c k) = Some f \<and> d1 = (d(rotated path c k := None))(rotated path c (Suc k) \<mapsto> f))"
      using shift_step [OF True Suc.prems] by auto
    have slot: "d1 (rotated path c k) = None"
      "d1 (rotated path c (Suc k)) = (case d (rotated path c k) of Some f \<Rightarrow> Some f | None \<Rightarrow> d (rotated path c (Suc k)))"
      and other: "\<And>p. p \<noteq> rotated path c k \<Longrightarrow> p \<noteq> rotated path c (Suc k) \<Longrightarrow> d1 p = d p"
      using d1 by auto
    note ih = Suc.IH [OF r]
    have last: "d' (rotated path c (Suc k)) = d1 (rotated path c (Suc k))"
      using ih by (metis Suc_n_not_le_n rotated_inj)
    show ?thesis
    proof (intro conjI allI impI)
      fix p assume "\<forall>i. 1 \<le> i \<longrightarrow> i \<le> Suc k \<longrightarrow> p \<noteq> rotated path c i"
      then show "d' p = d p" using ih other [of p] True by auto
    next
      fix i assume i: "2 \<le> i" "i \<le> Suc k"
      show "d' (rotated path c i) = (case d (rotated path c (i - 1)) of Some f \<Rightarrow> Some f
          | None \<Rightarrow> if i = Suc k then d (rotated path c (Suc k)) else None)"
      proof (cases "i = Suc k")
        case True
        then show ?thesis using last slot by (simp split: option.splits)
      next
        case False
        then have "d' (rotated path c i) = (case d1 (rotated path c (i - 1)) of Some f \<Rightarrow> Some f
            | None \<Rightarrow> if i = k then d1 (rotated path c k) else None)" using ih i by auto
        moreover have "d1 (rotated path c (i - 1)) = d (rotated path c (i - 1))"
          using False i by (intro other) auto
        ultimately show ?thesis using False slot by (simp split: option.splits)
      qed
    next
      assume "2 \<le> Suc k"
      show "d' (rotated path c 1) = None" using ih slot True by (cases "k = 1") auto
    next
      assume "Suc k < 2"
      then show "d' = d" using True by simp
    qed
  qed
qed (simp add: shift_history.simps)

text \<open>Also when it stops half way, the loop loses no file but the one in the last slot.\<close>

lemma shift_history_keeps:
  assumes "shift_history ok path c k d = (s, d')"
  shows "(\<forall>p. (\<forall>i. 1 \<le> i \<longrightarrow> i \<le> k \<longrightarrow> p \<noteq> rotated path c i) \<longrightarrow> d' p = d p) \<and>
    (\<forall>i f. i < k \<longrightarrow> 1 \<le> i \<longrightarrow> d (rotated path c i) = Some f \<longrightarrow>
       (\<exists>j. 1 \<le> j \<and> j \<le> k \<and> d' (rotated path c j) = Some f \<and> (s \<longrightarrow> 2 \<le> j)))"
  using assms
proof (induction k arbitrary: d)
  case (Suc k)
  show ?case
  proof (cases "1 < Suc k")
    case False
    then show ?thesis using Suc.prems by (auto simp: shift_history_small)
  next
    case True
    from shift_step [OF True Suc.prems] consider "\<not> s" "d' = d"
      | d1 where "shift_history ok path c k d1 = (s, d')" and
        "d (rotated path c k) = None \<and> d1 = d \<or>
        (\<exists>f. d (rotated path c k) = Some f \<and> d1 = (d(rotated path c k := None))(rotated path c (Suc k) \<mapsto> f))"
      by auto
    then show ?thesis
    proof cases
      case 1
      then show ?thesis by (metis less_or_eq_imp_le)
    next
      case 2
      note ih = Suc.IH [OF 2(1)]
      have last: "d' (rotated path c (Suc k)) = d1 (rotated path c (Suc k))"
        using ih by (metis Suc_n_not_le_n rotated_inj)
      show ?thesis
      proof (intro conjI allI impI)
        fix p assume p: "\<forall>i. 1 \<le> i \<longrightarrow> i \<le> Suc k \<longrightarrow> p \<noteq> rotated path c i"
        then have "d1 p = d p" using 2(2) True by auto
        then show "d' p = d p" using ih p by auto
      next
        fix i f assume i: "i < Suc k" "1 \<le> i" "d (rotated path c i) = Some f"
        show "\<exists>j. 1 \<le> j \<and> j \<le> Suc k \<and> d' (rotated path c j) = Some f \<and> (s \<longrightarrow> 2 \<le> j)"
        proof (cases "i = k")
          case True
          then have "d' (rotated path c (Suc k)) = Some f" using 2(2) i last by auto
          then show ?thesis using i True by (intro exI [of _ "Suc k"]) auto
        next
          case False
          then have "d1 (rotated path c i) = Some f" using 2(2) i by auto
          moreover have "i < k" using False i by simp
          ultimately obtain j where "1 \<le> j" "j \<le> k" "d' (rotated path c j) = Some f" "s \<longrightarrow> 2 \<le> j"
            using ih i(2) by blast
          then show ?thesis by (intro exI [of _ j]) auto
        qed
      qed
    qed
  qed
qed (simp add: shift_history.simps)

text \<open>What \<open>store_active\<close> makes of the file at the active path.\<close>

definition stored_file :: "bool \<Rightarrow> log_file \<Rightarrow> log_file" where
  "stored_file c f = (if c then \<lparr>f_bytes = f_bytes f, f_synced = 0, f_gzip = True\<rparr> else f)"

lemma store_active_done:
  assumes "store_active e path c d = (True, d')"
  shows "\<exists>f. d path = Some f \<and> d' path = None \<and> d' (rotated path c 1) = Some (stored_file c f) \<and>
    (\<forall>i. i \<noteq> 1 \<longrightarrow> d' (rotated path c i) = d (rotated path c i))"
proof (cases c)
  case True
  obtain d2 where a: "disk_rename (ro_rename_active e) path (rotated path False 1)
        (disk_unlink (ro_unlink e) (rotated path True 1) d) = (Renamed, d2)"
    and b: "gzip_file (ro_gzip e) (rotated path False 1) (rotated path True 1) d2 = (True, d')"
    using assms True
    by (auto simp: store_active_def dest!: make_rotated_path_eq split: option.splits rename_result.splits prod.splits)
  show ?thesis
    using disk_rename_cases [OF a] gzip_file_ok [OF b] True
    by (auto simp: disk_unlink_def stored_file_def split: if_splits)
next
  case False
  have "disk_rename (ro_rename_active e) path (rotated path False 1)
        (disk_unlink (ro_unlink e) (rotated path False 1) d) = (Renamed, d')"
    using assms False
    by (auto simp: store_active_def dest!: make_rotated_path_eq split: option.splits rename_result.splits prod.splits)
  from disk_rename_cases [OF this] show ?thesis
    using False by (auto simp: disk_unlink_def stored_file_def split: if_splits)
qed

text \<open>When it fails, the bytes of the active file are still at the active path or in the first
  rotated file, and the other rotated files are untouched.\<close>

lemma store_active_failed:
  assumes "store_active e path c d = (False, d')"
  shows "(d' path = d path \<or> d' (rotated path False 1) = d path) \<and>
    (\<forall>i. i \<noteq> 1 \<longrightarrow> d' (rotated path c i) = d (rotated path c i))"
proof (cases "make_rotated_path path 1 False = None \<or> c \<and> make_rotated_path path 1 True = None")
  case True
  then show ?thesis using assms by (auto simp: store_active_def split: option.splits)
next
  case False
  then have n: "make_rotated_path path 1 False = Some (rotated path False 1)"
    "c \<Longrightarrow> make_rotated_path path 1 True = Some (rotated path True 1)"
    using make_rotated_path_some [of path 1 False] make_rotated_path_some [of path 1 True] by auto
  obtain r d2 where a: "disk_rename (ro_rename_active e) path (rotated path False 1)
        (disk_unlink (ro_unlink e) (rotated path c 1) d) = (r, d2)" by fastforce
  show ?thesis
  proof (cases "r = Renamed")
    case True
    then have c: c using assms n a by (cases c) (auto simp: store_active_def Let_def)
    then have "gzip_file (ro_gzip e) (rotated path False 1) (rotated path True 1) d2 = (False, d')"
      using assms n a True by (simp add: store_active_def Let_def)
    from gzip_file_failed [OF this] show ?thesis
      using disk_rename_cases [OF a] True c by (auto simp: disk_unlink_def split: if_splits)
  next
    case False
    then have "d' = d2" using assms n a by (cases c; cases r) (auto simp: store_active_def Let_def)
    then show ?thesis
      using disk_rename_cases [OF a] False by (auto simp: disk_unlink_def split: if_splits)
  qed
qed

lemma store_active_keeps:
  assumes "store_active e path c d = (t, d')" and "d path = Some f"
  shows "(\<exists>q g. d' q = Some g \<and> f_bytes g = f_bytes f) \<and>
    (\<forall>i. i \<noteq> 1 \<longrightarrow> d' (rotated path c i) = d (rotated path c i))"
proof (cases t)
  case True
  then have "d' (rotated path c 1) = Some (stored_file c f)"
    and "\<forall>i. i \<noteq> 1 \<longrightarrow> d' (rotated path c i) = d (rotated path c i)"
    using store_active_done [of e path c d d'] assms by auto
  moreover have "f_bytes (stored_file c f) = f_bytes f" by (simp add: stored_file_def)
  ultimately show ?thesis by blast
next
  case False
  then show ?thesis using store_active_failed [of e path c d d'] assms by metis
qed

lemma sync_stream_ok:
  assumes "sync_stream e path p d = (True, rest, d')" and "d path = Some f"
  shows "rest = [] \<and> d' = d(path \<mapsto> f\<lparr>f_bytes := f_bytes f @ p, f_synced := length (f_bytes f @ p)\<rparr>)"
  using assms by (auto simp: sync_stream_def disk_append_def disk_fsync_def Let_def split: option.splits if_splits)

lemma sync_stream_frame:
  assumes "sync_stream e path p d = (ok, rest, d')"
  shows "(\<forall>q. q \<noteq> path \<longrightarrow> d' q = d q) \<and>
    (\<forall>f. d path = Some f \<longrightarrow> (\<exists>g s. d' path = Some g \<and> f_bytes g = f_bytes f @ s))"
  using assms by (auto simp: sync_stream_def disk_append_def disk_fsync_def Let_def split: option.splits if_splits)

lemma history_is_frame:
  "(\<And>i. d' (rotated path c i) = d (rotated path c i)) \<Longrightarrow> history_is path c n d' hs = history_is path c n d hs"
  by (simp add: history_is_def)

lemma rotate_file_done:
  assumes "rotate_file e logger d = (True, logger', d')" and "lg_file logger = Some p"
    and "d (lg_path logger) = Some f" and "0 < lg_rotation_files logger"
    and "history_is (lg_path logger) (lg_compress_rotated logger) (lg_rotation_files logger) d hs"
  defines "active \<equiv> f\<lparr>f_bytes := f_bytes f @ p, f_synced := length (f_bytes f @ p)\<rparr>"
  shows "history_is (lg_path logger) (lg_compress_rotated logger) (lg_rotation_files logger) d'
        (take (lg_rotation_files logger) (stored_file (lg_compress_rotated logger) active # hs)) \<and>
    d' (lg_path logger) = Some \<lparr>f_bytes = [], f_synced = 0, f_gzip = False\<rparr> \<and>
    logger' = logger\<lparr>lg_file := Some [], lg_current_bytes := 0\<rparr>"
proof -
  let ?path = "lg_path logger" and ?c = "lg_compress_rotated logger" and ?n = "lg_rotation_files logger"
  obtain rest d1 d2 d3 where 1: "sync_stream (ro_sync e) ?path p d = (True, rest, d1)"
    and 2: "shift_history (ro_rename e) ?path ?c ?n d1 = (True, d2)"
    and 3: "store_active e ?path ?c d2 = (True, d3)"
    and r: "logger' = logger\<lparr>lg_file := Some [], lg_current_bytes := 0\<rparr>" "d' = disk_create ?path d3"
    using assms(1,2) by (auto simp: rotate_file_def Let_def split: prod.splits if_splits)
  note d1 = sync_stream_ok [OF 1 assms(3), THEN conjunct2]
  note sh = shift_history_done [OF 2]
  have "d2 ?path = d1 ?path" using sh by simp
  then have st: "d3 ?path = None" "d3 (rotated ?path ?c 1) = Some (stored_file ?c active)"
    "\<And>i. i \<noteq> 1 \<Longrightarrow> d3 (rotated ?path ?c i) = d2 (rotated ?path ?c i)"
    using store_active_done [OF 3] d1 by (auto simp: active_def)
  have d': "d' = d3(?path \<mapsto> \<lparr>f_bytes = [], f_synced = 0, f_gzip = False\<rparr>)"
    using r(2) st(1) by (simp add: disk_create_def)
  have h: "length hs \<le> ?n" "\<And>i. 1 \<le> i \<Longrightarrow> i \<le> ?n \<Longrightarrow>
      d1 (rotated ?path ?c i) = (if i \<le> length hs then Some (hs ! (i - 1)) else None)"
    using assms(5) d1 by (auto simp: history_is_def)
  have slot: "d' (rotated ?path ?c i) = (if i \<le> Suc (length hs) then Some (hs ! (i - 2)) else None)"
    if i: "2 \<le> i" "i \<le> ?n" for i
  proof -
    have "d' (rotated ?path ?c i) = (case d1 (rotated ?path ?c (i - 1)) of Some f \<Rightarrow> Some f
        | None \<Rightarrow> if i = ?n then d1 (rotated ?path ?c ?n) else None)"
      using sh i d' st(3) [of i] by simp
    then show ?thesis
      using i h(2) [of "i - 1"] h(2) [of ?n] by (auto simp: numeral_2_eq_2 split: if_splits)
  qed
  have "history_is ?path ?c ?n d' (take ?n (stored_file ?c active # hs))"
    unfolding history_is_def
  proof (intro conjI allI impI)
    fix i assume i: "1 \<le> i" "i \<le> ?n"
    show "d' (rotated ?path ?c i) = (if i \<le> length (take ?n (stored_file ?c active # hs))
        then Some (take ?n (stored_file ?c active # hs) ! (i - 1)) else None)"
    proof (cases "i = 1")
      case True
      then show ?thesis using st(2) d' assms(4) by simp
    next
      case False
      then obtain j where j: "i = Suc (Suc j)" using i by (metis One_nat_def Suc_le_D old.nat.exhaust)
      then show ?thesis using slot [of i] i by simp
    qed
  qed simp
  then show ?thesis using d' r(1) by simp
qed

lemma rotate_file_failed:
  assumes "rotate_file e logger d = (False, logger', d')" and "lg_file logger = Some p"
    and "d (lg_path logger) = Some f"
    and "history_is (lg_path logger) (lg_compress_rotated logger) (lg_rotation_files logger) d hs"
  shows "logger' = logger\<lparr>lg_file := None\<rparr> \<and>
    (\<forall>h \<in> set (take (lg_rotation_files logger - 1) hs). \<exists>q. d' q = Some h) \<and>
    (\<exists>q g s. d' q = Some g \<and> f_bytes g = f_bytes f @ s)"
proof -
  let ?path = "lg_path logger" and ?c = "lg_compress_rotated logger" and ?n = "lg_rotation_files logger"
  obtain ok rest d1 where 1: "sync_stream (ro_sync e) ?path p d = (ok, rest, d1)" by (metis surj_pair)
  obtain s d2 where 2: "shift_history (ro_rename e) ?path ?c ?n d1 = (s, d2)" by fastforce
  obtain t d3 where 3: "store_active e ?path ?c d2 = (t, d3)" by fastforce
  have r: "logger' = logger\<lparr>lg_file := None\<rparr>"
    and cases: "d' = d1 \<or> \<not> s \<and> d' = d2 \<or> s \<and> d' = d3"
    using assms(1,2) 1 2 3 by (auto simp: rotate_file_def Let_def split: if_splits)
  obtain g0 s0 where g0: "d1 ?path = Some g0" "f_bytes g0 = f_bytes f @ s0"
    using sync_stream_frame [OF 1] assms(3) by blast
  have hist1: "d1 (rotated ?path ?c i) = d (rotated ?path ?c i)" for i
    using sync_stream_frame [OF 1] by simp
  have hist0: "\<exists>i. 1 \<le> i \<and> i < ?n \<and> d1 (rotated ?path ?c i) = Some h" if "h \<in> set (take (?n - 1) hs)" for h
  proof -
    from that obtain i where "i < ?n - 1" "i < length hs" "h = hs ! i"
      by (auto simp: in_set_conv_nth)
    then show ?thesis
      using assms(4) hist1 by (intro exI [of _ "Suc i"]) (auto simp: history_is_def)
  qed
  note sh = shift_history_keeps [OF 2]
  have act2: "d2 ?path = Some g0" using sh g0 by simp
  have hist2: "\<exists>j. d2 (rotated ?path ?c j) = Some h \<and> (s \<longrightarrow> 2 \<le> j)" if "h \<in> set (take (?n - 1) hs)" for h
    using hist0 [OF that] sh by blast
  note keep = store_active_keeps [OF 3 act2]
  have hist3: "\<exists>q. d3 q = Some h" if h: "h \<in> set (take (?n - 1) hs)" and s: s for h
  proof -
    from hist2 [OF h] s obtain j where j: "d2 (rotated ?path ?c j) = Some h" "2 \<le> j" by auto
    then have "d3 (rotated ?path ?c j) = Some h" using keep by simp
    then show ?thesis by blast
  qed
  have "\<forall>h \<in> set (take (?n - 1) hs). \<exists>q. d' q = Some h" using cases hist0 hist2 hist3 by metis
  moreover have "\<exists>q g s. d' q = Some g \<and> f_bytes g = f_bytes f @ s"
    using cases g0 act2 keep by metis
  ultimately show ?thesis using r by simp
qed

text \<open>
  C13: Rotation implements a bounded history. With the rotated files of the logger being \<open>hs\<close> (newest
  first, without gaps) and \<open>N\<close> files to keep, a successful \<open>rotate_file\<close> leaves exactly the first
  \<open>N\<close> of the closed active file, with all the bytes that were in its stream buffer, followed by
  \<open>hs\<close>; the active file is new and empty. A rotation that fails at any point (a flush, a rename, the
  compression, the reopening) leaves every rotated file but the oldest, and the bytes of the active
  file, somewhere on the disk.
\<close>

theorem rotation_keeps_history:
  assumes "rotate_file e logger d = (ok, logger', d')" and "lg_file logger = Some p"
    and "d (lg_path logger) = Some f" and "0 < lg_rotation_files logger"
    and "history_is (lg_path logger) (lg_compress_rotated logger) (lg_rotation_files logger) d hs"
  shows "if ok
    then history_is (lg_path logger) (lg_compress_rotated logger) (lg_rotation_files logger) d'
          (take (lg_rotation_files logger)
             (stored_file (lg_compress_rotated logger)
                (f\<lparr>f_bytes := f_bytes f @ p, f_synced := length (f_bytes f @ p)\<rparr>) # hs)) \<and>
        d' (lg_path logger) = Some \<lparr>f_bytes = [], f_synced = 0, f_gzip = False\<rparr> \<and>
        logger' = logger\<lparr>lg_file := Some [], lg_current_bytes := 0\<rparr>
    else logger' = logger\<lparr>lg_file := None\<rparr> \<and>
        (\<forall>h \<in> set (take (lg_rotation_files logger - 1) hs). \<exists>q. d' q = Some h) \<and>
        (\<exists>q g s. d' q = Some g \<and> f_bytes g = f_bytes f @ s)"
proof (cases ok)
  case True
  then show ?thesis using rotate_file_done [OF _ assms(2-5)] assms(1) by simp
next
  case False
  then show ?thesis using rotate_file_failed [OF _ assms(2,3,5)] assms(1) by simp
qed

section \<open>The log on the disk\<close>

text \<open>
  \<open>log_holds logger d s\<close>: the logger's stream is open and \<open>s\<close> is the text of its rotated files, the
  oldest first, of the active file and of the stream buffer.
\<close>

definition log_text :: "log_file list \<Rightarrow> log_file \<Rightarrow> string \<Rightarrow> string" where
  "log_text hs f p = concat (map f_bytes (rev hs)) @ f_bytes f @ p"

definition log_holds :: "async_logger_t \<Rightarrow> disk \<Rightarrow> string \<Rightarrow> bool" where
  "log_holds logger d s \<longleftrightarrow>
     (\<exists>hs f p. history_is (lg_path logger) (lg_compress_rotated logger) (lg_rotation_files logger) d hs \<and>
        d (lg_path logger) = Some f \<and> lg_file logger = Some p \<and> s = log_text hs f p)"

text \<open>\<open>active_synced logger d s\<close>: everything written is on the storage device and the active file ends
  in \<open>s\<close>.\<close>

definition active_synced :: "async_logger_t \<Rightarrow> disk \<Rightarrow> string \<Rightarrow> bool" where
  "active_synced logger d s \<longleftrightarrow>
     (\<exists>f pre. d (lg_path logger) = Some f \<and> lg_file logger = Some [] \<and>
        f_synced f = length (f_bytes f) \<and> f_bytes f = pre @ s)"

lemma log_holdsI:
  "\<lbrakk>history_is (lg_path logger) (lg_compress_rotated logger) (lg_rotation_files logger) d hs;
    d (lg_path logger) = Some f; lg_file logger = Some p; s = log_text hs f p\<rbrakk> \<Longrightarrow> log_holds logger d s"
  by (auto simp: log_holds_def)

lemma history_is_active [simp]: "history_is path c n (d(path := x)) hs = history_is path c n d hs"
  by (simp add: history_is_def)

lemma log_text_drop:
  "log_text hs f p = concat (map f_bytes (rev (drop n hs))) @ log_text (take n hs) f p"
proof -
  have "rev hs = rev (drop n hs) @ rev (take n hs)" by (metis append_take_drop_id rev_append)
  then show ?thesis by (simp add: log_text_def)
qed

lemma rotate_file_holds:
  assumes "rotate_file e logger d = (True, logger', d')" and "log_holds logger d s"
    and "0 < lg_rotation_files logger"
  shows "\<exists>dropped s'. s = dropped @ s' \<and> log_holds logger' d' s' \<and>
    logger' = logger\<lparr>lg_file := Some [], lg_current_bytes := 0\<rparr>"
proof -
  from assms(2) obtain hs f p where
    h: "history_is (lg_path logger) (lg_compress_rotated logger) (lg_rotation_files logger) d hs"
    and f: "d (lg_path logger) = Some f" and p: "lg_file logger = Some p" and s: "s = log_text hs f p"
    by (auto simp: log_holds_def)
  define a where "a = stored_file (lg_compress_rotated logger)
    (f\<lparr>f_bytes := f_bytes f @ p, f_synced := length (f_bytes f @ p)\<rparr>)"
  note r = rotate_file_done [OF assms(1) p f assms(3) h, folded a_def]
  have "s = log_text (a # hs) \<lparr>f_bytes = [], f_synced = 0, f_gzip = False\<rparr> []"
    by (simp add: s log_text_def a_def stored_file_def)
  also have "\<dots> = concat (map f_bytes (rev (drop (lg_rotation_files logger) (a # hs)))) @
      log_text (take (lg_rotation_files logger) (a # hs)) \<lparr>f_bytes = [], f_synced = 0, f_gzip = False\<rparr> []"
    by (rule log_text_drop)
  finally show ?thesis
    using r log_holdsI [of logger' d' "take (lg_rotation_files logger) (a # hs)" _ "[]"] by auto
qed

lemma stream_write_holds:
  assumes "stream_write e line logger d = (True, logger', d')" and "log_holds logger d s"
  shows "log_holds logger' d' (s @ line) \<and>
    (\<exists>p n. logger' = logger\<lparr>lg_file := Some p, lg_current_bytes := n\<rparr>) \<and>
    (lg_durability logger = ASYNC_LOGGER_FSYNC_EACH \<longrightarrow> active_synced logger' d' line)"
proof -
  from assms(2) obtain hs f p where
    h: "history_is (lg_path logger) (lg_compress_rotated logger) (lg_rotation_files logger) d hs"
    and f: "d (lg_path logger) = Some f" and p: "lg_file logger = Some p" and s: "s = log_text hs f p"
    by (auto simp: log_holds_def)
  have all: "(case we_fwrite e of None \<Rightarrow> line | Some k \<Rightarrow> take k line) = line"
    using assms(1) by (auto simp: stream_write_def Let_def min_def split: option.splits if_splits prod.splits)
  define b where "b = p @ line"
  define d1 where "d1 = d(lg_path logger \<mapsto> f\<lparr>f_bytes := f_bytes f @ take (we_spill e) b\<rparr>)"
  define n where "n = (lg_current_bytes logger + length line) mod SIZE_MODULUS"
  have eq: "stream_write e line logger d =
     (if lg_durability logger = ASYNC_LOGGER_FSYNC_EACH then
        (case sync_stream (we_sync e) (lg_path logger) (drop (we_spill e) b) d1 of
           (synced, pending, d2) \<Rightarrow> (synced, logger\<lparr>lg_file := Some pending, lg_current_bytes := n\<rparr>, d2))
      else (True, logger\<lparr>lg_file := Some (drop (we_spill e) b), lg_current_bytes := n\<rparr>, d1))"
    by (simp add: stream_write_def all Let_def p f disk_append_def b_def d1_def n_def split: prod.splits)
  show ?thesis
  proof (cases "lg_durability logger = ASYNC_LOGGER_FSYNC_EACH")
    case False
    then have l: "logger' = logger\<lparr>lg_file := Some (drop (we_spill e) b), lg_current_bytes := n\<rparr>" and d': "d' = d1"
      using assms(1) unfolding eq by auto
    have "f_bytes f @ p @ line = (f_bytes f @ take (we_spill e) b) @ drop (we_spill e) b"
      by (simp add: b_def [symmetric])
    then have "log_holds logger' d' (s @ line)"
      using h s l d'
      by (intro log_holdsI [of _ _ hs "f\<lparr>f_bytes := f_bytes f @ take (we_spill e) b\<rparr>" "drop (we_spill e) b"])
        (auto simp: log_text_def d1_def)
    then show ?thesis using l False by auto
  next
    case True
    then obtain rest where y: "sync_stream (we_sync e) (lg_path logger) (drop (we_spill e) b) d1 = (True, rest, d')"
      and l: "logger' = logger\<lparr>lg_file := Some rest, lg_current_bytes := n\<rparr>"
      using assms(1) unfolding eq by (auto split: prod.splits)
    have "rest = []" "d' = d1(lg_path logger \<mapsto> f\<lparr>f_bytes := f_bytes f @ p @ line, f_synced := length (f_bytes f @ p @ line)\<rparr>)"
      using sync_stream_ok [OF y, of "f\<lparr>f_bytes := f_bytes f @ take (we_spill e) b\<rparr>"]
      by (simp_all add: d1_def b_def [symmetric])
    then have "log_holds logger' d' (s @ line)" and "active_synced logger' d' line"
      using h s l by (auto simp: log_text_def d1_def active_synced_def intro!: log_holdsI [of _ _ hs])
    then show ?thesis using l by auto
  qed
qed

lemma write_one_holds:
  assumes "write_one calendar e logger d m = (True, logger', d')" and "log_holds logger d s"
  shows "\<exists>line dropped s'. format_line calendar m = Some line \<and> s @ line = dropped @ s' \<and> log_holds logger' d' s' \<and>
    (\<exists>p n. logger' = logger\<lparr>lg_file := Some p, lg_current_bytes := n\<rparr>) \<and>
    (lg_durability logger = ASYNC_LOGGER_FSYNC_EACH \<longrightarrow> active_synced logger' d' line)"
proof -
  from assms(1) obtain line where line: "format_line calendar m = Some line"
    by (auto simp: write_one_def split: option.splits)
  show ?thesis
  proof (cases "rotation_due logger (length line)")
    case True
    then obtain logger1 d1 where r: "rotate_file (we_rotate e) logger d = (True, logger1, d1)"
      and w: "stream_write e line logger1 d1 = (True, logger', d')"
      using assms(1) line by (auto simp: write_one_def split: prod.splits bool.splits)
    have "0 < lg_rotation_files logger" using True by (simp add: rotation_due_def)
    from rotate_file_holds [OF r assms(2) this] obtain dropped s1 where
      "s = dropped @ s1" and h: "log_holds logger1 d1 s1"
      and l: "logger1 = logger\<lparr>lg_file := Some [], lg_current_bytes := 0\<rparr>" by auto
    then show ?thesis using stream_write_holds [OF w h] line by auto
  next
    case False
    then have "stream_write e line logger d = (True, logger', d')"
      using assms(1) line by (simp add: write_one_def)
    from stream_write_holds [OF this assms(2)] line show ?thesis by auto
  qed
qed

section \<open>Creation and destruction\<close>

text \<open>
  The resources of a logger; \<open>held\<close> is the list of those the process owns, the newest first. A struct \<open>log_message_t\<close> has 296 bytes.
\<close>

datatype log_resource = LR_Queue | LR_Stats | LR_Submit | LR_Cond | LR_File | LR_Thread

record logger_init_env =
  li_heap :: "nat \<Rightarrow> u8 list option"
  li_queue :: "int \<times> int \<times> int"
  li_stats :: int
  li_submit :: int
  li_cond :: int
  li_fopen :: bool
  li_fstat :: bool
  li_thread :: int

definition zero_queue :: bounded_queue_t where
  "zero_queue = \<lparr>q_buffer = None, q_element_size = 0, q_capacity = 0, q_size = 0, q_head = 0, q_tail = 0, q_closed = False\<rparr>"

definition zero_logger :: async_logger_t where
  "zero_logger = \<lparr>lg_queue = tq_new 0, lg_file = None, lg_next_sequence = 0, lg_accepted = 0, lg_written = 0,
     lg_rejected = 0, lg_durable_sequence = 0, lg_write_error = False, lg_path = '''', lg_rotation_bytes = 0,
     lg_current_bytes = 0, lg_rotation_files = 0, lg_compress_rotated = False,
     lg_durability = ASYNC_LOGGER_BUFFERED, lg_initialized = False, lg_shutdown_complete = False\<rparr>"

definition release :: "bool \<Rightarrow> log_resource \<Rightarrow> log_resource list \<Rightarrow> log_resource list" where
  "release ready r held = (if ready then remove1 r held else held)"

definition cleanup_before_writer ::
  "bool \<Rightarrow> bool \<Rightarrow> bool \<Rightarrow> bool \<Rightarrow> bool \<Rightarrow> async_logger_t \<Rightarrow> log_resource list \<Rightarrow> async_logger_t \<times> log_resource list" where
  "cleanup_before_writer file_ready cond_ready submit_ready stats_ready queue_ready logger held =
     (if file_ready then logger\<lparr>lg_file := None\<rparr> else logger,
      release queue_ready LR_Queue (release stats_ready LR_Stats (release submit_ready LR_Submit
        (release cond_ready LR_Cond (release file_ready LR_File held)))))"

definition durability_of :: "int \<Rightarrow> async_logger_durability_t option" where
  "durability_of n = (if n = 0 then Some ASYNC_LOGGER_BUFFERED else if n = 1 then Some ASYNC_LOGGER_FSYNC_EACH else None)"

definition logger_open ::
  "logger_init_env \<Rightarrow> nat \<Rightarrow> async_logger_t \<Rightarrow> log_resource list \<Rightarrow> disk \<Rightarrow>
   int \<times> async_logger_t \<times> log_resource list \<times> disk" where
  "logger_open e capacity logger held d =
     (let fail = (\<lambda>f c b s q logger held d.
            case cleanup_before_writer f c b s q logger held of (logger', held') \<Rightarrow> (-1, logger', held', d))
      in if fst (bq_init (li_heap e) (li_queue e) (Some zero_queue) capacity 296) \<noteq> BQ_OK
         then fail False False False False False logger held d
         else let logger1 = logger\<lparr>lg_queue := tq_new capacity\<rparr>; held1 = LR_Queue # held
         in if li_stats e \<noteq> 0 then fail False False False False True logger1 held1 d
         else if li_submit e \<noteq> 0 then fail False False False True True logger1 (LR_Stats # held1) d
         else if li_cond e \<noteq> 0 then fail False False True True True logger1 (LR_Submit # LR_Stats # held1) d
         else if \<not> li_fopen e then fail False True True True True logger1 (LR_Cond # LR_Submit # LR_Stats # held1) d
         else let d1 = disk_create (lg_path logger) d;
                  logger2 = logger1\<lparr>lg_file := Some []\<rparr>;
                  held2 = LR_File # LR_Cond # LR_Submit # LR_Stats # held1
         in if \<not> li_fstat e then fail True True True True True logger2 held2 d1
         else let logger3 = logger2\<lparr>lg_current_bytes := length (f_bytes (the (d1 (lg_path logger))))\<rparr>
         in if li_thread e \<noteq> 0 then fail True True True True True logger3 held2 d1
         else (0, logger3\<lparr>lg_initialized := True\<rparr>, LR_Thread # held2, d1))"

definition async_logger_init_ex ::
  "logger_init_env \<Rightarrow> async_logger_t option \<Rightarrow> async_logger_config_t option \<Rightarrow> log_resource list \<Rightarrow> disk \<Rightarrow>
   int \<times> async_logger_t option \<times> log_resource list \<times> disk" where
  "async_logger_init_ex e logger_arg config_arg held d =
     (case (logger_arg, config_arg) of
        (Some logger, Some config) \<Rightarrow>
          (case (lc_path config, durability_of (lc_durability config)) of
             (Some path, Some durability) \<Rightarrow>
               if lc_capacity config = 0 \<or> lc_rotation_bytes config > 0 \<and> lc_rotation_files config = 0
               then (-1, logger_arg, held, d)
               else if length path \<ge> ASYNC_LOGGER_PATH_MAX
               then (-1, Some (zero_logger\<lparr>lg_path := take (ASYNC_LOGGER_PATH_MAX - 1) path\<rparr>), held, d)
               else (case logger_open e (lc_capacity config)
                         (zero_logger\<lparr>lg_path := path, lg_next_sequence := 1,
                            lg_rotation_bytes := lc_rotation_bytes config, lg_rotation_files := lc_rotation_files config,
                            lg_compress_rotated := lc_compress_rotated config \<noteq> 0, lg_durability := durability\<rparr>) held d of
                       (rc, logger', held', d') \<Rightarrow> (rc, Some logger', held', d'))
           | _ \<Rightarrow> (-1, logger_arg, held, d))
      | _ \<Rightarrow> (-1, logger_arg, held, d))"

definition async_logger_init ::
  "logger_init_env \<Rightarrow> async_logger_t option \<Rightarrow> string option \<Rightarrow> nat \<Rightarrow> log_resource list \<Rightarrow> disk \<Rightarrow>
   int \<times> async_logger_t option \<times> log_resource list \<times> disk" where
  "async_logger_init e logger path capacity held d =
     async_logger_init_ex e logger
       (Some \<lparr>lc_path = path, lc_capacity = capacity, lc_rotation_bytes = 0, lc_rotation_files = 0,
              lc_compress_rotated = 0, lc_durability = 0\<rparr>) held d"

text \<open>
  The return values of the destruction: of \<open>fclose\<close>, of the three calls of \<open>bq_destroy\<close>, and of the
  destruction of the condition variable and the two mutexes. \<open>fclose (NULL)\<close> is undefined: the
  function then has no result.
\<close>

record destroy_env =
  de_fclose :: int
  de_queue :: "int \<times> int \<times> int"
  de_cond :: int
  de_submit :: int
  de_stats :: int

definition async_logger_destroy ::
  "destroy_env \<Rightarrow> async_logger_t option \<Rightarrow> log_resource list \<Rightarrow> (int \<times> async_logger_t option \<times> log_resource list) option" where
  "async_logger_destroy e logger_arg held =
     (case logger_arg of
        None \<Rightarrow> Some (-1, None, held)
      | Some logger \<Rightarrow>
          if \<not> lg_initialized logger \<or> \<not> lg_shutdown_complete logger then Some (-1, Some logger, held)
          else if lg_file logger = None then None
          else
            let queue_ok = fst (bq_destroy (de_queue e) (Some zero_queue)) = BQ_OK;
                result = (if de_fclose e \<noteq> 0 \<or> \<not> queue_ok \<or> de_cond e \<noteq> 0 \<or> de_submit e \<noteq> 0 \<or> de_stats e \<noteq> 0
                          then -1 else 0)
            in Some (result, Some (logger\<lparr>lg_file := None, lg_initialized := False\<rparr>),
                 release (de_stats e = 0) LR_Stats (release (de_submit e = 0) LR_Submit (release (de_cond e = 0) LR_Cond
                   (release queue_ok LR_Queue (release True LR_File held))))))"

section \<open>A rotation\<close>

text \<open>A file system that never fails, and a logger with one rotated file of two.\<close>

definition good_sync :: sync_env where
  "good_sync = \<lparr>sy_fflush = None, sy_fsync = True\<rparr>"

definition good_gzip :: gzip_env where
  "good_gzip = \<lparr>gz_fopen = True, gz_gzopen = True, gz_read = (\<lambda>_. None), gz_write = (\<lambda>_. True),
     gz_gzclose = True, gz_fclose = True, gz_unlink = True\<rparr>"

definition good_rotate :: rotate_env where
  "good_rotate = \<lparr>ro_sync = good_sync, ro_fclose = True, ro_rename = (\<lambda>_. True), ro_rename_active = True,
     ro_unlink = True, ro_gzip = good_gzip, ro_fopen = True\<rparr>"

definition rotating_logger :: async_logger_t where
  "rotating_logger = zero_logger\<lparr>lg_path := ''l'', lg_file := Some ''c'', lg_rotation_files := 2\<rparr>"

definition rotating_disk :: disk where
  "rotating_disk = [''l'' \<mapsto> \<lparr>f_bytes = ''ab'', f_synced = 0, f_gzip = False\<rparr>,
     ''l.1'' \<mapsto> \<lparr>f_bytes = ''old'', f_synced = 3, f_gzip = False\<rparr>]"

lemma rotating_names: "rotated ''l'' False 1 = ''l.1''" "rotated ''l'' False 2 = ''l.2''"
  by code_simp+

theorem rotation_keeps_history_witness:
  "\<exists>logger' d'. rotate_file good_rotate rotating_logger rotating_disk = (True, logger', d') \<and>
     history_is ''l'' False 2 d'
       [\<lparr>f_bytes = ''abc'', f_synced = 3, f_gzip = False\<rparr>, \<lparr>f_bytes = ''old'', f_synced = 3, f_gzip = False\<rparr>]"
proof -
  have h: "history_is (lg_path rotating_logger) (lg_compress_rotated rotating_logger) (lg_rotation_files rotating_logger)
      rotating_disk [\<lparr>f_bytes = ''old'', f_synced = 3, f_gzip = False\<rparr>]"
  proof -
    have "rotating_disk (rotated ''l'' False i) = (if i \<le> 1 then Some \<lparr>f_bytes = ''old'', f_synced = 3, f_gzip = False\<rparr> else None)"
      if "1 \<le> i" "i \<le> 2" for i
    proof -
      have "i = 1 \<or> i = 2" using that by auto
      then show ?thesis using rotating_names by (auto simp: rotating_disk_def)
    qed
    then show ?thesis by (simp add: history_is_def rotating_logger_def zero_logger_def)
  qed
  have names: "make_rotated_path ''l'' 1 False = Some ''l.1''" "make_rotated_path ''l'' 2 False = Some ''l.2''"
    by code_simp+
  obtain d' where r: "rotate_file good_rotate rotating_logger rotating_disk =
      (True, rotating_logger\<lparr>lg_file := Some [], lg_current_bytes := 0\<rparr>, d')"
    using names
    by (simp add: rotate_file_def good_rotate_def good_sync_def rotating_logger_def zero_logger_def sync_stream_def
        disk_append_def disk_fsync_def rotating_disk_def shift_history.simps disk_rename_def store_active_def
        disk_unlink_def Let_def)
  have f: "lg_file rotating_logger = Some ''c''" "rotating_disk (lg_path rotating_logger) = Some \<lparr>f_bytes = ''ab'', f_synced = 0, f_gzip = False\<rparr>"
    "0 < lg_rotation_files rotating_logger"
    by (simp_all add: rotating_logger_def zero_logger_def rotating_disk_def)
  from rotation_keeps_history [OF r f h] r show ?thesis
    by (auto simp: rotating_logger_def zero_logger_def stored_file_def numeral_3_eq_3)
qed

theorem format_line_fits_witness:
  "\<exists>line. format_line (\<lambda>_. Some ''noon'') \<lparr>lm_sequence = 1, lm_timestamp = (5, 7), lm_thread_id = 9,
      lm_level = LOG_LEVEL_INFO, lm_text = ''hi''\<rparr> = Some line \<and> length line < 420"
  using format_line_fits [of "\<lambda>_. Some ''noon''" "\<lparr>lm_sequence = 1, lm_timestamp = (5, 7), lm_thread_id = 9,
      lm_level = LOG_LEVEL_INFO, lm_text = ''hi''\<rparr>" "''noon''"] by auto

end
