(* ===== verification/Logger_Protocol.thy ===== *)
theory Logger_Protocol
  imports Async_Logger
begin

text \<open>
  The threads of the asynchronous logger of \<^verbatim>\<open>src/modules/log/async_logger.c\<close>: any number of producers
  in \<open>async_logger_log\<close>, the writer thread and \<open>async_logger_shutdown\<close>. A step is one critical section
  or one stretch of code between two of them, and a trace of steps is one interleaving; a step that
  is not enabled (the thread is elsewhere, the mutex is taken, the queue is full or empty) has no
  result. A wait on a condition variable is a step that re-reads the condition and may leave the
  thread where it is, which covers spurious wake-ups.
\<close>

section \<open>States\<close>

datatype producer_pc =
    PIdle
  | PSubmit log_level_t string
  | PNumber log_level_t string
  | PStamp nat log_level_t string
  | PPush log_message_t
  | PReject
  | PCount log_message_t
  | PWait log_message_t
  | PReturn int "log_message_t option"

datatype writer_pc = WPop | WWrite log_message_t | WRecord log_message_t | WSync | WError | WClose | WExit

datatype shutdown_pc = SIdle | SJoin | SReturn int

text \<open>\<open>ls_pushed\<close> is a history variable: the messages the queue has accepted, in this order.\<close>

record logger_sys =
  ls_logger :: async_logger_t
  ls_disk :: disk
  ls_submit :: "nat option"
  ls_threads :: "nat \<Rightarrow> producer_pc"
  ls_writer :: writer_pc
  ls_shutdown :: shutdown_pc
  ls_pushed :: "log_message_t list"

definition logger_start :: "async_logger_t \<Rightarrow> disk \<Rightarrow> logger_sys" where
  "logger_start logger d = \<lparr>ls_logger = logger, ls_disk = d, ls_submit = None, ls_threads = (\<lambda>_. PIdle),
     ls_writer = WPop, ls_shutdown = SIdle, ls_pushed = []\<rparr>"

definition goto :: "nat \<Rightarrow> producer_pc \<Rightarrow> logger_sys \<Rightarrow> logger_sys" where
  "goto t pc s = s\<lparr>ls_threads := (ls_threads s)(t := pc)\<rparr>"

definition durable_mode :: "logger_sys \<Rightarrow> bool" where
  "durable_mode s \<longleftrightarrow> lg_durability (ls_logger s) = ASYNC_LOGGER_FSYNC_EACH"

definition unlock_submit :: "logger_sys \<Rightarrow> logger_sys" where
  "unlock_submit s = (if durable_mode s then s\<lparr>ls_submit := None\<rparr> else s)"

section \<open>Producers\<close>

definition log_level_of :: "int \<Rightarrow> log_level_t option" where
  "log_level_of n = (if n = 0 then Some LOG_LEVEL_DEBUG else if n = 1 then Some LOG_LEVEL_INFO
     else if n = 2 then Some LOG_LEVEL_WARN else if n = 3 then Some LOG_LEVEL_ERROR else None)"

definition log_call :: "nat \<Rightarrow> int \<Rightarrow> string option \<Rightarrow> logger_sys \<Rightarrow> logger_sys" where
  "log_call t level text_arg s =
     (case (log_level_of level, text_arg) of
        (Some l, Some msg) \<Rightarrow>
          if \<not> lg_initialized (ls_logger s) then goto t (PReturn (-1) None) s
          else if durable_mode s then goto t (PSubmit l msg) s else goto t (PNumber l msg) s
      | _ \<Rightarrow> goto t (PReturn (-1) None) s)"

definition log_number :: "nat \<Rightarrow> log_level_t \<Rightarrow> string \<Rightarrow> logger_sys \<Rightarrow> logger_sys" where
  "log_number t l msg s =
     goto t (PStamp (lg_next_sequence (ls_logger s)) l msg)
       (s\<lparr>ls_logger := (ls_logger s)\<lparr>lg_next_sequence := (lg_next_sequence (ls_logger s) + 1) mod SIZE_MODULUS\<rparr>\<rparr>)"

definition log_stamp :: "nat \<Rightarrow> timespec option \<Rightarrow> nat \<Rightarrow> nat \<Rightarrow> log_level_t \<Rightarrow> string \<Rightarrow> logger_sys \<Rightarrow> logger_sys" where
  "log_stamp t clock thread_id seq l msg s =
     (case clock of
        None \<Rightarrow> goto t (PReturn (-1) None) (unlock_submit s)
      | Some now \<Rightarrow> goto t (PPush \<lparr>lm_sequence = seq, lm_timestamp = now, lm_thread_id = thread_id, lm_level = l,
                                lm_text = take (LOG_TEXT_MAX - 1) (cstr msg)\<rparr>) s)"

text \<open>\<open>bq_push\<close> with an infinite timeout: a full open queue blocks, unless the wait itself fails.\<close>

definition log_push :: "nat \<Rightarrow> bool \<Rightarrow> log_message_t \<Rightarrow> logger_sys \<Rightarrow> logger_sys option" where
  "log_push t wait_fails m s =
     (case tq_push m (lg_queue (ls_logger s)) of
        (BQ_OK, q) \<Rightarrow> Some (goto t (PCount m) (s\<lparr>ls_logger := (ls_logger s)\<lparr>lg_queue := q\<rparr>, ls_pushed := ls_pushed s @ [m]\<rparr>))
      | (BQ_TIMEOUT, q) \<Rightarrow> if wait_fails then Some (goto t PReject s) else None
      | (_, q) \<Rightarrow> Some (goto t PReject s))"

definition log_reject :: "nat \<Rightarrow> logger_sys \<Rightarrow> logger_sys" where
  "log_reject t s =
     goto t (PReturn (-1) None) (unlock_submit
       (s\<lparr>ls_logger := (ls_logger s)\<lparr>lg_rejected := (lg_rejected (ls_logger s) + 1) mod SIZE_MODULUS\<rparr>\<rparr>))"

definition log_count :: "nat \<Rightarrow> log_message_t \<Rightarrow> logger_sys \<Rightarrow> logger_sys" where
  "log_count t m s =
     goto t (if durable_mode s then PWait m else PReturn 0 (Some m)) (unlock_submit
       (s\<lparr>ls_logger := (ls_logger s)\<lparr>lg_accepted := (lg_accepted (ls_logger s) + 1) mod SIZE_MODULUS\<rparr>\<rparr>))"

definition log_wait :: "nat \<Rightarrow> log_message_t \<Rightarrow> logger_sys \<Rightarrow> logger_sys" where
  "log_wait t m s =
     (let reached = lg_durable_sequence (ls_logger s) \<ge> lm_sequence m; failed = lg_write_error (ls_logger s)
      in if \<not> reached \<and> \<not> failed then s
         else if reached \<and> \<not> failed then goto t (PReturn 0 (Some m)) s
         else goto t (PReturn (-1) None) s)"

section \<open>The writer thread\<close>

definition writer_pop :: "bool \<Rightarrow> logger_sys \<Rightarrow> logger_sys option" where
  "writer_pop wait_fails s =
     (case tq_pop (lg_queue (ls_logger s)) of
        ((BQ_OK, Some m), q) \<Rightarrow> Some (s\<lparr>ls_logger := (ls_logger s)\<lparr>lg_queue := q\<rparr>, ls_writer := WWrite m\<rparr>)
      | ((BQ_CLOSED, _), q) \<Rightarrow> Some (s\<lparr>ls_writer := WSync\<rparr>)
      | (_, q) \<Rightarrow> if wait_fails then Some (s\<lparr>ls_writer := WError\<rparr>) else None)"

definition writer_write ::
  "(int \<Rightarrow> string option) \<Rightarrow> write_env \<Rightarrow> log_message_t \<Rightarrow> logger_sys \<Rightarrow> logger_sys" where
  "writer_write calendar e m s =
     (case write_one calendar e (ls_logger s) (ls_disk s) m of
        (ok, logger, d) \<Rightarrow> s\<lparr>ls_logger := logger, ls_disk := d, ls_writer := (if ok then WRecord m else WError)\<rparr>)"

definition writer_record :: "log_message_t \<Rightarrow> logger_sys \<Rightarrow> logger_sys" where
  "writer_record m s =
     (let logger = (ls_logger s)\<lparr>lg_written := (lg_written (ls_logger s) + 1) mod SIZE_MODULUS\<rparr>
      in s\<lparr>ls_logger := (if durable_mode s then logger\<lparr>lg_durable_sequence := lm_sequence m\<rparr> else logger),
           ls_writer := WPop\<rparr>)"

definition writer_sync :: "sync_env \<Rightarrow> logger_sys \<Rightarrow> logger_sys" where
  "writer_sync e s =
     (case sync_stream e (lg_path (ls_logger s)) (the (lg_file (ls_logger s))) (ls_disk s) of
        (ok, pending, d) \<Rightarrow>
          s\<lparr>ls_logger := (ls_logger s)\<lparr>lg_file := Some pending\<rparr>, ls_disk := d, ls_writer := (if ok then WExit else WError)\<rparr>)"

text \<open>\<open>mark_writer_error\<close> has two critical sections: the error flag, then the closing of the queue.\<close>

definition mark_writer_error :: "logger_sys \<Rightarrow> logger_sys" where
  "mark_writer_error s = s\<lparr>ls_logger := (ls_logger s)\<lparr>lg_write_error := True\<rparr>, ls_writer := WClose\<rparr>"

definition mark_writer_close :: "logger_sys \<Rightarrow> logger_sys" where
  "mark_writer_close s =
     s\<lparr>ls_logger := (ls_logger s)\<lparr>lg_queue := tq_close (lg_queue (ls_logger s))\<rparr>, ls_writer := WExit\<rparr>"

section \<open>Shutdown\<close>

definition shutdown_close :: "logger_sys \<Rightarrow> logger_sys" where
  "shutdown_close s =
     (if \<not> lg_initialized (ls_logger s) \<or> lg_shutdown_complete (ls_logger s) then s\<lparr>ls_shutdown := SReturn (-1)\<rparr>
      else s\<lparr>ls_logger := (ls_logger s)\<lparr>lg_queue := tq_close (lg_queue (ls_logger s))\<rparr>, ls_shutdown := SJoin\<rparr>)"

definition shutdown_join :: "int \<Rightarrow> logger_sys \<Rightarrow> logger_sys option" where
  "shutdown_join rc s =
     (if rc \<noteq> 0 then Some (s\<lparr>ls_shutdown := SReturn (-1)\<rparr>)
      else if ls_writer s = WExit then
        Some (s\<lparr>ls_logger := (ls_logger s)\<lparr>lg_shutdown_complete := True\<rparr>,
                ls_shutdown := SReturn (if lg_write_error (ls_logger s) then -1 else 0)\<rparr>)
      else None)"

section \<open>Interleavings\<close>

datatype logger_event =
    ECall nat int "string option"
  | ESubmit nat
  | ENumber nat
  | EStamp nat "timespec option" nat
  | EPush nat bool
  | ECount nat
  | EWait nat
  | EPop bool
  | EWrite write_env
  | ERecord
  | ESync sync_env
  | EError
  | EShutdown
  | EJoin int

fun logger_step :: "(int \<Rightarrow> string option) \<Rightarrow> logger_event \<Rightarrow> logger_sys \<Rightarrow> logger_sys option" where
  "logger_step cal (ECall t level msg) s =
     (case ls_threads s t of PIdle \<Rightarrow> Some (log_call t level msg s) | PReturn _ _ \<Rightarrow> Some (log_call t level msg s) | _ \<Rightarrow> None)"
| "logger_step cal (ESubmit t) s =
     (case ls_threads s t of
        PSubmit l msg \<Rightarrow> if ls_submit s = None then Some (goto t (PNumber l msg) (s\<lparr>ls_submit := Some t\<rparr>)) else None
      | _ \<Rightarrow> None)"
| "logger_step cal (ENumber t) s =
     (case ls_threads s t of PNumber l msg \<Rightarrow> Some (log_number t l msg s) | _ \<Rightarrow> None)"
| "logger_step cal (EStamp t clock tid) s =
     (case ls_threads s t of PStamp seq l msg \<Rightarrow> Some (log_stamp t clock tid seq l msg s) | _ \<Rightarrow> None)"
| "logger_step cal (EPush t wait_fails) s =
     (case ls_threads s t of PPush m \<Rightarrow> log_push t wait_fails m s | _ \<Rightarrow> None)"
| "logger_step cal (ECount t) s =
     (case ls_threads s t of PCount m \<Rightarrow> Some (log_count t m s) | PReject \<Rightarrow> Some (log_reject t s) | _ \<Rightarrow> None)"
| "logger_step cal (EWait t) s = (case ls_threads s t of PWait m \<Rightarrow> Some (log_wait t m s) | _ \<Rightarrow> None)"
| "logger_step cal (EPop wait_fails) s = (case ls_writer s of WPop \<Rightarrow> writer_pop wait_fails s | _ \<Rightarrow> None)"
| "logger_step cal (EWrite e) s = (case ls_writer s of WWrite m \<Rightarrow> Some (writer_write cal e m s) | _ \<Rightarrow> None)"
| "logger_step cal ERecord s = (case ls_writer s of WRecord m \<Rightarrow> Some (writer_record m s) | _ \<Rightarrow> None)"
| "logger_step cal (ESync e) s = (case ls_writer s of WSync \<Rightarrow> Some (writer_sync e s) | _ \<Rightarrow> None)"
| "logger_step cal EError s =
     (case ls_writer s of WError \<Rightarrow> Some (mark_writer_error s) | WClose \<Rightarrow> Some (mark_writer_close s) | _ \<Rightarrow> None)"
| "logger_step cal EShutdown s = (case ls_shutdown s of SIdle \<Rightarrow> Some (shutdown_close s) | _ \<Rightarrow> None)"
| "logger_step cal (EJoin rc) s = (case ls_shutdown s of SJoin \<Rightarrow> shutdown_join rc s | _ \<Rightarrow> None)"

fun logger_run :: "(int \<Rightarrow> string option) \<Rightarrow> logger_event list \<Rightarrow> logger_sys \<Rightarrow> logger_sys option" where
  "logger_run cal [] s = Some s"
| "logger_run cal (ev # evs) s = (case logger_step cal ev s of None \<Rightarrow> None | Some s1 \<Rightarrow> logger_run cal evs s1)"

lemma logger_run_append:
  "logger_run cal (evs @ evs') s = (case logger_run cal evs s of None \<Rightarrow> None | Some s1 \<Rightarrow> logger_run cal evs' s1)"
  by (induction evs arbitrary: s) (auto split: option.splits)

lemmas logger_step_defs = log_call_def log_number_def log_stamp_def log_push_def log_reject_def log_count_def
  log_wait_def writer_pop_def writer_record_def mark_writer_error_def mark_writer_close_def
  shutdown_close_def shutdown_join_def goto_def unlock_submit_def

section \<open>What the writer has written\<close>

text \<open>
  \<open>stream_ok cal t0 logger d ws\<close>: the log holds the text \<open>t0\<close> followed by the lines of the messages
  \<open>ws\<close>, less what rotation dropped at the front.
\<close>

definition stream_ok ::
  "(int \<Rightarrow> string option) \<Rightarrow> string \<Rightarrow> async_logger_t \<Rightarrow> disk \<Rightarrow> log_message_t list \<Rightarrow> bool" where
  "stream_ok cal t0 logger d ws \<longleftrightarrow>
     (\<exists>lines dropped t. map (format_line cal) ws = map Some lines \<and> t0 @ concat lines = dropped @ t \<and> log_holds logger d t)"

fun in_hand :: "writer_pc \<Rightarrow> log_message_t list" where
  "in_hand (WWrite m) = [m]"
| "in_hand _ = []"

definition writer_failed :: "logger_sys \<Rightarrow> bool" where
  "writer_failed s \<longleftrightarrow> ls_writer s = WError \<or> lg_write_error (ls_logger s)"

fun accepted_by :: "producer_pc \<Rightarrow> log_message_t option" where
  "accepted_by (PCount m) = Some m"
| "accepted_by (PWait m) = Some m"
| "accepted_by (PReturn r mo) = (if r = 0 then mo else None)"
| "accepted_by _ = None"

lemma logger_update_simps [simp]:
  "log_holds (logger\<lparr>lg_queue := q\<rparr>) d s = log_holds logger d s"
  "log_holds (logger\<lparr>lg_next_sequence := n\<rparr>) d s = log_holds logger d s"
  "log_holds (logger\<lparr>lg_accepted := n\<rparr>) d s = log_holds logger d s"
  "log_holds (logger\<lparr>lg_written := n\<rparr>) d s = log_holds logger d s"
  "log_holds (logger\<lparr>lg_rejected := n\<rparr>) d s = log_holds logger d s"
  "log_holds (logger\<lparr>lg_durable_sequence := n\<rparr>) d s = log_holds logger d s"
  "log_holds (logger\<lparr>lg_write_error := b\<rparr>) d s = log_holds logger d s"
  "log_holds (logger\<lparr>lg_shutdown_complete := b\<rparr>) d s = log_holds logger d s"
  "active_synced (logger\<lparr>lg_queue := q\<rparr>) d s = active_synced logger d s"
  "active_synced (logger\<lparr>lg_next_sequence := n\<rparr>) d s = active_synced logger d s"
  "active_synced (logger\<lparr>lg_accepted := n\<rparr>) d s = active_synced logger d s"
  "active_synced (logger\<lparr>lg_written := n\<rparr>) d s = active_synced logger d s"
  "active_synced (logger\<lparr>lg_rejected := n\<rparr>) d s = active_synced logger d s"
  "active_synced (logger\<lparr>lg_durable_sequence := n\<rparr>) d s = active_synced logger d s"
  "active_synced (logger\<lparr>lg_write_error := b\<rparr>) d s = active_synced logger d s"
  "active_synced (logger\<lparr>lg_shutdown_complete := b\<rparr>) d s = active_synced logger d s"
  by (simp_all add: log_holds_def active_synced_def)

lemma stream_ok_update [simp]:
  "stream_ok cal t0 (logger\<lparr>lg_queue := q\<rparr>) d ws = stream_ok cal t0 logger d ws"
  "stream_ok cal t0 (logger\<lparr>lg_next_sequence := n\<rparr>) d ws = stream_ok cal t0 logger d ws"
  "stream_ok cal t0 (logger\<lparr>lg_accepted := n\<rparr>) d ws = stream_ok cal t0 logger d ws"
  "stream_ok cal t0 (logger\<lparr>lg_written := n\<rparr>) d ws = stream_ok cal t0 logger d ws"
  "stream_ok cal t0 (logger\<lparr>lg_rejected := n\<rparr>) d ws = stream_ok cal t0 logger d ws"
  "stream_ok cal t0 (logger\<lparr>lg_durable_sequence := n\<rparr>) d ws = stream_ok cal t0 logger d ws"
  "stream_ok cal t0 (logger\<lparr>lg_write_error := b\<rparr>) d ws = stream_ok cal t0 logger d ws"
  "stream_ok cal t0 (logger\<lparr>lg_shutdown_complete := b\<rparr>) d ws = stream_ok cal t0 logger d ws"
  by (simp_all add: stream_ok_def)

lemma stream_ok_write:
  assumes "stream_ok cal t0 logger d ws" and "write_one cal e logger d m = (True, logger', d')"
  shows "stream_ok cal t0 logger' d' (ws @ [m])"
proof -
  from assms(1) obtain lines dropped t where 1: "map (format_line cal) ws = map Some lines"
    "t0 @ concat lines = dropped @ t" and h: "log_holds logger d t" by (auto simp: stream_ok_def)
  from write_one_holds [OF assms(2) h] obtain line dropped2 t2 where
    2: "format_line cal m = Some line" "t @ line = dropped2 @ t2" "log_holds logger' d' t2" by blast
  have "map (format_line cal) (ws @ [m]) = map Some (lines @ [line])" using 1 2 by simp
  moreover have "t0 @ concat (lines @ [line]) = (dropped @ dropped2) @ t2"
  proof -
    have "t0 @ concat (lines @ [line]) = (t0 @ concat lines) @ line" by simp
    then show ?thesis using 1(2) 2(2) by simp
  qed
  ultimately show ?thesis using 2(3) unfolding stream_ok_def by blast
qed

text \<open>Writing a message changes only the stream and the size of the logger.\<close>

definition rest_of :: "async_logger_t \<Rightarrow> async_logger_t" where
  "rest_of l = l\<lparr>lg_file := None, lg_current_bytes := 0\<rparr>"

lemma rest_ofD:
  assumes "rest_of l' = rest_of l"
  shows "\<exists>p n. l' = l\<lparr>lg_file := p, lg_current_bytes := n\<rparr>"
proof -
  have "l' = (rest_of l')\<lparr>lg_file := lg_file l', lg_current_bytes := lg_current_bytes l'\<rparr>"
    by (simp add: rest_of_def)
  then have "l' = l\<lparr>lg_file := lg_file l', lg_current_bytes := lg_current_bytes l'\<rparr>"
    unfolding assms by (simp add: rest_of_def)
  then show ?thesis by blast
qed

lemma rotate_file_rest: "rotate_file e l d = (b, l', d') \<Longrightarrow> rest_of l' = rest_of l"
  by (auto simp: rotate_file_def rest_of_def Let_def split: prod.splits if_splits)

lemma stream_write_rest: "stream_write e line l d = (b, l', d') \<Longrightarrow> rest_of l' = rest_of l"
  by (auto simp: stream_write_def rest_of_def Let_def split: prod.splits if_splits)

lemma write_one_frame:
  assumes "write_one cal e logger d m = (ok, logger', d')"
  shows "\<exists>p n. logger' = logger\<lparr>lg_file := p, lg_current_bytes := n\<rparr>"
proof (rule rest_ofD)
  show "rest_of logger' = rest_of logger"
    using assms by (auto simp: write_one_def dest!: rotate_file_rest stream_write_rest
        split: option.splits if_splits prod.splits bool.splits)
qed

definition logger_inv :: "(int \<Rightarrow> string option) \<Rightarrow> string \<Rightarrow> logger_sys \<Rightarrow> bool" where
  "logger_inv cal t0 s \<longleftrightarrow>
     (\<not> writer_failed s \<longrightarrow>
        (\<exists>ws. ls_pushed s = ws @ in_hand (ls_writer s) @ tq_items (lg_queue (ls_logger s)) \<and>
           stream_ok cal t0 (ls_logger s) (ls_disk s) ws) \<and>
        (ls_writer s = WSync \<or> ls_writer s = WExit \<longrightarrow> tq_items (lg_queue (ls_logger s)) = []) \<and>
        (ls_writer s = WExit \<longrightarrow> active_synced (ls_logger s) (ls_disk s) [])) \<and>
     (ls_writer s = WSync \<or> ls_writer s = WExit \<longrightarrow> tq_closed (lg_queue (ls_logger s))) \<and>
     (ls_writer s = WClose \<longrightarrow> lg_write_error (ls_logger s)) \<and>
     (ls_shutdown s = SReturn 0 \<longrightarrow> ls_writer s = WExit \<and> \<not> lg_write_error (ls_logger s)) \<and>
     (\<forall>t m. accepted_by (ls_threads s t) = Some m \<longrightarrow> m \<in> set (ls_pushed s))"

lemmas producer_step_defs = log_call_def log_number_def log_stamp_def log_reject_def log_count_def
  log_wait_def goto_def unlock_submit_def

text \<open>A producer changes the state the writer depends on only by a push.\<close>

definition writer_view where
  "writer_view l = (lg_path l, lg_compress_rotated l, lg_rotation_files l, lg_file l, lg_queue l, lg_write_error l)"

lemma writer_view_cong:
  assumes "writer_view l = writer_view l'"
  shows "stream_ok cal t0 l d ws = stream_ok cal t0 l' d ws" and "active_synced l d x = active_synced l' d x"
  using assms by (simp_all add: writer_view_def stream_ok_def log_holds_def active_synced_def)

lemma producer_inv:
  assumes "logger_inv cal t0 s" and "writer_view (ls_logger s') = writer_view (ls_logger s)"
    and "ls_disk s' = ls_disk s" and "ls_writer s' = ls_writer s" and "ls_shutdown s' = ls_shutdown s"
    and "ls_pushed s' = ls_pushed s"
    and "\<And>t m. accepted_by (ls_threads s' t) = Some m \<Longrightarrow> m \<in> set (ls_pushed s)"
  shows "logger_inv cal t0 s'"
proof -
  have "lg_queue (ls_logger s') = lg_queue (ls_logger s)" "lg_write_error (ls_logger s') = lg_write_error (ls_logger s)"
    using assms(2) by (simp_all add: writer_view_def)
  then show ?thesis
    using assms(1,3-) writer_view_cong [OF assms(2)] by (auto simp: logger_inv_def writer_failed_def)
qed

lemma step_push_inv:
  assumes "logger_inv cal t0 s" and "ls_threads s t = PPush m" and "log_push t wait_fails m s = Some s'"
  shows "logger_inv cal t0 s'"
proof -
  obtain res q where r: "tq_push m (lg_queue (ls_logger s)) = (res, q)" by fastforce
  from tq_push_cases [OF r] show ?thesis
  proof
    assume a: "res = BQ_OK \<and> \<not> tq_closed (lg_queue (ls_logger s)) \<and>
      q = lg_queue (ls_logger s)\<lparr>tq_items := tq_items (lg_queue (ls_logger s)) @ [m]\<rparr> \<and>
      length (tq_items (lg_queue (ls_logger s))) \<noteq> tq_cap (lg_queue (ls_logger s))"
    then have s': "s' = goto t (PCount m) (s\<lparr>ls_logger := (ls_logger s)\<lparr>lg_queue := q\<rparr>, ls_pushed := ls_pushed s @ [m]\<rparr>)"
      using assms(3) r by (simp add: log_push_def)
    have "\<not> (ls_writer s = WSync \<or> ls_writer s = WExit)" using assms(1) a by (auto simp: logger_inv_def)
    then show ?thesis
      using assms(1) a unfolding s' by (auto simp: logger_inv_def writer_failed_def goto_def split: if_splits)
  next
    assume "(res = BQ_CLOSED \<and> tq_closed (lg_queue (ls_logger s)) \<or>
       res = BQ_TIMEOUT \<and> \<not> tq_closed (lg_queue (ls_logger s)) \<and>
       length (tq_items (lg_queue (ls_logger s))) = tq_cap (lg_queue (ls_logger s))) \<and> q = lg_queue (ls_logger s)"
    then have "s' = goto t PReject s" using assms(3) r by (auto simp: log_push_def split: if_splits)
    then show ?thesis using assms(1) by (auto simp: logger_inv_def writer_failed_def goto_def split: if_splits)
  qed
qed

lemma step_pop_inv:
  assumes "logger_inv cal t0 s" and "ls_writer s = WPop" and "writer_pop wait_fails s = Some s'"
  shows "logger_inv cal t0 s'"
proof -
  obtain res x q where r: "tq_pop (lg_queue (ls_logger s)) = ((res, x), q)" by (metis surj_pair)
  from tq_pop_cases [OF r] show ?thesis
    using assms r by (auto simp: writer_pop_def logger_inv_def writer_failed_def split: if_splits)
qed

lemma step_write_inv:
  assumes "logger_inv cal t0 s" and "ls_writer s = WWrite m"
  shows "logger_inv cal t0 (writer_write cal e m s)"
proof -
  obtain ok logger d where w: "write_one cal e (ls_logger s) (ls_disk s) m = (ok, logger, d)" by (metis surj_pair)
  obtain p n where l: "logger = (ls_logger s)\<lparr>lg_file := p, lg_current_bytes := n\<rparr>" using write_one_frame [OF w] by blast
  have ok: "\<exists>ws. ls_pushed s = ws @ tq_items (lg_queue (ls_logger s)) \<and> stream_ok cal t0 logger d ws"
    if "ok" and nf: "\<not> lg_write_error (ls_logger s)"
  proof -
    from assms nf obtain ws where "ls_pushed s = ws @ [m] @ tq_items (lg_queue (ls_logger s))"
      and h: "stream_ok cal t0 (ls_logger s) (ls_disk s) ws" by (auto simp: logger_inv_def writer_failed_def)
    moreover have "stream_ok cal t0 logger d (ws @ [m])" using stream_ok_write [OF h] w \<open>ok\<close> by simp
    ultimately show ?thesis by (intro exI [of _ "ws @ [m]"]) simp
  qed
  then show ?thesis
    using assms l w by (auto simp: writer_write_def logger_inv_def writer_failed_def)
qed

lemma step_sync_inv:
  assumes "logger_inv cal t0 s" and "ls_writer s = WSync"
  shows "logger_inv cal t0 (writer_sync e s)"
proof -
  obtain ok p d where w: "sync_stream e (lg_path (ls_logger s)) (the (lg_file (ls_logger s))) (ls_disk s) = (ok, p, d)"
    by (metis surj_pair)
  let ?l = "(ls_logger s)\<lparr>lg_file := Some p\<rparr>"
  have ok: "\<exists>ws. ls_pushed s = ws @ tq_items (lg_queue (ls_logger s)) \<and> stream_ok cal t0 ?l d ws \<and> active_synced ?l d []"
    if "ok" and nf: "\<not> lg_write_error (ls_logger s)"
  proof -
    from assms nf obtain ws where ws: "ls_pushed s = ws @ tq_items (lg_queue (ls_logger s))"
      and "stream_ok cal t0 (ls_logger s) (ls_disk s) ws" by (auto simp: logger_inv_def writer_failed_def)
    then obtain lines dropped t where l: "map (format_line cal) ws = map Some lines" "t0 @ concat lines = dropped @ t"
      and "log_holds (ls_logger s) (ls_disk s) t" by (auto simp: stream_ok_def)
    then obtain hs f q where h: "history_is (lg_path (ls_logger s)) (lg_compress_rotated (ls_logger s)) (lg_rotation_files (ls_logger s)) (ls_disk s) hs"
      and f: "ls_disk s (lg_path (ls_logger s)) = Some f" "lg_file (ls_logger s) = Some q" "t = log_text hs f q"
      by (auto simp: log_holds_def)
    have d: "p = []" "d = (ls_disk s)(lg_path (ls_logger s) \<mapsto> f\<lparr>f_bytes := f_bytes f @ q, f_synced := length (f_bytes f @ q)\<rparr>)"
      using sync_stream_ok [of e "lg_path (ls_logger s)" q "ls_disk s" p d f] w \<open>ok\<close> f by auto
    have "log_holds ?l d t" using h f d by (intro log_holdsI [of _ _ hs "f\<lparr>f_bytes := f_bytes f @ q, f_synced := length (f_bytes f @ q)\<rparr>" "[]"])
        (auto simp: log_text_def)
    moreover have "active_synced ?l d []" using d by (simp add: active_synced_def)
    ultimately show ?thesis using ws l unfolding stream_ok_def by blast
  qed
  then show ?thesis using assms w by (auto simp: writer_sync_def logger_inv_def writer_failed_def)
qed

lemma inv_shutdown: "logger_inv cal t0 s \<Longrightarrow> pc \<noteq> SReturn 0 \<Longrightarrow> logger_inv cal t0 (s\<lparr>ls_shutdown := pc\<rparr>)"
  by (simp add: logger_inv_def writer_failed_def)

lemma inv_close:
  "logger_inv cal t0 s \<Longrightarrow>
    logger_inv cal t0 (s\<lparr>ls_logger := (ls_logger s)\<lparr>lg_queue := tq_close (lg_queue (ls_logger s))\<rparr>\<rparr>)"
  by (simp add: logger_inv_def writer_failed_def tq_close_def)

lemma inv_join:
  assumes "logger_inv cal t0 s" and "shutdown_join rc s = Some s'"
  shows "logger_inv cal t0 s'"
proof (cases "rc = 0")
  case False
  then show ?thesis using assms(2) inv_shutdown [OF assms(1), of "SReturn (-1)"] by (simp add: shutdown_join_def)
next
  case True
  then have w: "ls_writer s = WExit" using assms(2) by (simp add: shutdown_join_def split: if_splits)
  then have "s' = s\<lparr>ls_logger := (ls_logger s)\<lparr>lg_shutdown_complete := True\<rparr>,
      ls_shutdown := SReturn (if lg_write_error (ls_logger s) then -1 else 0)\<rparr>"
    using assms(2) True by (simp add: shutdown_join_def)
  then show ?thesis
    using assms(1) w by (cases "lg_write_error (ls_logger s)") (auto simp: logger_inv_def writer_failed_def)
qed

lemma logger_step_inv:
  assumes "logger_inv cal t0 s" and "logger_step cal ev s = Some s'"
  shows "logger_inv cal t0 s'"
proof -
  have acc: "m \<in> set (ls_pushed s)" if "accepted_by (ls_threads s t) = Some m" for t m
    using assms(1) that by (simp add: logger_inv_def)
  have own: "ls_threads s t = PCount m \<Longrightarrow> m \<in> set (ls_pushed s)"
    "ls_threads s t = PWait m \<Longrightarrow> m \<in> set (ls_pushed s)" for t m
    using acc [of t m] by simp_all
  note producer = producer_inv [OF assms(1)] and view = writer_view_def producer_step_defs
  show ?thesis
  proof (cases ev)
    case (ECall t level msg)
    show ?thesis
      using assms(2) ECall
      by (intro producer) (auto simp: view acc split: producer_pc.splits option.splits if_splits)
  next
    case (ESubmit t)
    show ?thesis
      using assms(2) ESubmit
      by (intro producer) (auto simp: view acc split: producer_pc.splits option.splits if_splits)
  next
    case (ENumber t)
    show ?thesis
      using assms(2) ENumber
      by (intro producer) (auto simp: view acc split: producer_pc.splits option.splits if_splits)
  next
    case (EStamp t clock tid)
    show ?thesis
      using assms(2) EStamp
      by (intro producer) (auto simp: view acc split: producer_pc.splits option.splits if_splits)
  next
    case (ECount t)
    show ?thesis
      using assms(2) ECount
      by (intro producer) (auto simp: view acc intro: own split: producer_pc.splits option.splits if_splits)
  next
    case (EWait t)
    show ?thesis
    proof (cases "s' = s")
      case False
      then show ?thesis
        using assms(2) EWait
        by (intro producer) (auto simp: view Let_def intro: own acc split: producer_pc.splits if_splits)
    qed (simp add: assms(1))
  next
    case (EPush t w)
    then show ?thesis using assms step_push_inv by (auto split: producer_pc.splits)
  next
    case (EPop w)
    then show ?thesis using assms step_pop_inv by (auto split: writer_pc.splits)
  next
    case (EWrite e)
    then show ?thesis using assms step_write_inv by (auto split: writer_pc.splits)
  next
    case ERecord
    then show ?thesis
      using assms
      by (cases "durable_mode s")
        (auto simp: writer_record_def logger_inv_def writer_failed_def Let_def split: writer_pc.splits)
  next
    case (ESync e)
    then show ?thesis using assms step_sync_inv by (auto split: writer_pc.splits)
  next
    case EError
    then show ?thesis
      using assms
      by (auto simp: mark_writer_error_def mark_writer_close_def logger_inv_def writer_failed_def tq_close_def
          split: writer_pc.splits)
  next
    case EShutdown
    then have "s' = shutdown_close s" using assms(2) by (auto split: shutdown_pc.splits)
    then show ?thesis
      using inv_shutdown [OF assms(1), of "SReturn (-1)"] inv_shutdown [OF inv_close [OF assms(1)], of SJoin]
      by (auto simp: shutdown_close_def)
  next
    case (EJoin rc)
    then have "shutdown_join rc s = Some s'" using assms(2) by (simp split: shutdown_pc.splits)
    then show ?thesis by (rule inv_join [OF assms(1)])
  qed
qed

lemma logger_run_inv:
  "logger_inv cal t0 s \<Longrightarrow> logger_run cal evs s = Some s' \<Longrightarrow> logger_inv cal t0 s'"
  by (induction evs arbitrary: s) (auto split: option.splits intro: logger_step_inv)

text \<open>A logger just created has the text of its files and nothing queued.\<close>

lemma init_fresh:
  assumes "async_logger_init_ex e logger0 (Some config) held d0 = (0, Some logger, held', d)"
  shows "lg_queue logger = tq_new (lc_capacity config) \<and> lg_file logger = Some [] \<and> lg_next_sequence logger = 1 \<and>
    lg_durable_sequence logger = 0 \<and> \<not> lg_write_error logger \<and> lg_initialized logger \<and> \<not> lg_shutdown_complete logger \<and>
    lc_path config = Some (lg_path logger) \<and> lg_rotation_files logger = lc_rotation_files config \<and>
    lg_compress_rotated logger = (lc_compress_rotated config \<noteq> 0) \<and>
    durability_of (lc_durability config) = Some (lg_durability logger) \<and>
    held' = [LR_Thread, LR_File, LR_Cond, LR_Submit, LR_Stats, LR_Queue] @ held \<and> d = disk_create (lg_path logger) d0"
  using assms
  by (auto simp: async_logger_init_ex_def logger_open_def Let_def zero_logger_def cleanup_before_writer_def
      split: option.splits if_splits prod.splits)

lemma init_holds:
  assumes "async_logger_init_ex e logger0 (Some config) held d0 = (0, Some logger, held', d)"
    and "history_is (lg_path logger) (lg_compress_rotated logger) (lg_rotation_files logger) d0 hs"
  shows "\<exists>f. d (lg_path logger) = Some f \<and> log_holds logger d (log_text hs f []) \<and>
    logger_inv cal (log_text hs f []) (logger_start logger d)"
proof -
  note i = init_fresh [OF assms(1)]
  then obtain f where f: "d (lg_path logger) = Some f" by (auto simp: disk_create_def split: option.splits)
  have "history_is (lg_path logger) (lg_compress_rotated logger) (lg_rotation_files logger) d hs"
    using i assms(2) by (auto simp: disk_create_def split: option.splits)
  then have h: "log_holds logger d (log_text hs f [])" using i f by (intro log_holdsI [of _ _ hs f "[]"]) auto
  then have "stream_ok cal (log_text hs f []) logger d []" by (auto simp: stream_ok_def)
  then show ?thesis
    using f h i by (auto simp: logger_inv_def logger_start_def tq_new_def writer_failed_def)
qed


section \<open>Durable submissions\<close>

fun owns_submit :: "producer_pc \<Rightarrow> bool" where
  "owns_submit (PNumber _ _) = True"
| "owns_submit (PStamp _ _ _) = True"
| "owns_submit (PPush _) = True"
| "owns_submit PReject = True"
| "owns_submit (PCount _) = True"
| "owns_submit _ = False"

fun numbered :: "producer_pc \<Rightarrow> nat option" where
  "numbered (PStamp q _ _) = Some q"
| "numbered (PPush m) = Some (lm_sequence m)"
| "numbered _ = None"

text \<open>The submissions are serialised: a thread with a number holds the submission mutex, and its
  number is above every number already queued.\<close>

definition seq_inv :: "nat \<Rightarrow> logger_sys \<Rightarrow> bool" where
  "seq_inv n s \<longleftrightarrow>
     durable_mode s \<and> 1 \<le> lg_next_sequence (ls_logger s) \<and> lg_next_sequence (ls_logger s) \<le> n + 1 \<and>
     sorted_wrt (<) (map lm_sequence (ls_pushed s)) \<and>
     (\<forall>m \<in> set (ls_pushed s). 1 \<le> lm_sequence m \<and> lm_sequence m < lg_next_sequence (ls_logger s)) \<and>
     (\<forall>t. owns_submit (ls_threads s t) \<longrightarrow> ls_submit s = Some t) \<and>
     (\<forall>t q. numbered (ls_threads s t) = Some q \<longrightarrow>
        1 \<le> q \<and> q < lg_next_sequence (ls_logger s) \<and> (\<forall>m \<in> set (ls_pushed s). lm_sequence m < q))"

lemma seq_inv_frame:
  assumes "seq_inv n s" and "durable_mode s' = durable_mode s"
    and "lg_next_sequence (ls_logger s') = lg_next_sequence (ls_logger s)"
    and "ls_pushed s' = ls_pushed s" and "ls_submit s' = ls_submit s" and "ls_threads s' = ls_threads s"
  shows "seq_inv (Suc n) s'"
  using assms by (simp add: seq_inv_def)

text \<open>A step of thread \<open>t\<close> that takes no number and pushes nothing.\<close>

lemma seq_inv_thread:
  assumes "seq_inv n s" and "durable_mode s' = durable_mode s"
    and "lg_next_sequence (ls_logger s') = lg_next_sequence (ls_logger s)" and "ls_pushed s' = ls_pushed s"
    and "ls_threads s' = (ls_threads s)(t := pc)"
    and "numbered pc = None \<or> numbered pc = numbered (ls_threads s t)"
    and "ls_submit s' = ls_submit s \<and> (owns_submit pc \<longrightarrow> owns_submit (ls_threads s t)) \<or>
      ls_submit s = None \<and> ls_submit s' = Some t \<or>
      owns_submit (ls_threads s t) \<and> \<not> owns_submit pc \<and> ls_submit s' = None"
  shows "seq_inv (Suc n) s'"
proof -
  have other: "owns_submit (ls_threads s' u) \<Longrightarrow> ls_submit s' = Some u" for u
    using assms(1,5,7) unfolding seq_inv_def by (cases "u = t") (auto, metis option.inject)
  have num: "1 \<le> q \<and> q < lg_next_sequence (ls_logger s) \<and> (\<forall>m \<in> set (ls_pushed s). lm_sequence m < q)"
    if "numbered (ls_threads s' u) = Some q" for u q
  proof -
    have "numbered (ls_threads s u) = Some q" using assms(5,6) that by (cases "u = t") auto
    then show ?thesis using assms(1) unfolding seq_inv_def by blast
  qed
  show ?thesis using assms(1-4) other num by (auto simp: seq_inv_def)
qed

lemma seq_inv_number:
  assumes "seq_inv n s" and "ls_threads s t = PNumber l msg" and "n + 2 < SIZE_MODULUS"
  shows "seq_inv (Suc n) (log_number t l msg s)"
proof -
  have own: "ls_submit s = Some t" using assms(1,2) unfolding seq_inv_def by (metis owns_submit.simps(1))
  have only: "numbered (ls_threads s u) = None" if "u \<noteq> t" for u
  proof (rule ccontr)
    assume "numbered (ls_threads s u) \<noteq> None"
    then have "owns_submit (ls_threads s u)" by (cases "ls_threads s u") auto
    then show False using assms(1) own that unfolding seq_inv_def by (metis option.inject)
  qed
  have eq: "(lg_next_sequence (ls_logger s) + 1) mod SIZE_MODULUS = lg_next_sequence (ls_logger s) + 1"
    using assms(1,3) by (intro mod_less) (auto simp: seq_inv_def)
  have pushed: "\<forall>m \<in> set (ls_pushed s). 1 \<le> lm_sequence m \<and> lm_sequence m < lg_next_sequence (ls_logger s)"
    and next1: "1 \<le> lg_next_sequence (ls_logger s)" using assms(1) by (auto simp: seq_inv_def)
  show ?thesis
    using assms(1) own only pushed next1 unfolding log_number_def eq
    by (auto simp: seq_inv_def goto_def durable_mode_def less_SucI)
qed

lemma seq_inv_push:
  assumes "seq_inv n s" and "ls_threads s t = PPush m" and "log_push t w m s = Some s'"
  shows "seq_inv (Suc n) s'"
proof -
  obtain res q where r: "tq_push m (lg_queue (ls_logger s)) = (res, q)" by fastforce
  show ?thesis
  proof (cases "res = BQ_OK")
    case False
    then have "s' = goto t PReject s"
      using assms(3) r by (cases res) (auto simp: log_push_def split: if_splits)
    then show ?thesis
      using assms(2) by (intro seq_inv_thread [OF assms(1), of _ t PReject]) (auto simp: goto_def durable_mode_def)
  next
    case True
    then have s': "s' = goto t (PCount m) (s\<lparr>ls_logger := (ls_logger s)\<lparr>lg_queue := q\<rparr>, ls_pushed := ls_pushed s @ [m]\<rparr>)"
      using assms(3) r by (simp add: log_push_def)
    have own: "ls_submit s = Some t" using assms(1,2) unfolding seq_inv_def by (metis owns_submit.simps(3))
    have num: "1 \<le> lm_sequence m \<and> lm_sequence m < lg_next_sequence (ls_logger s) \<and>
        (\<forall>m' \<in> set (ls_pushed s). lm_sequence m' < lm_sequence m)"
      using assms(1,2) unfolding seq_inv_def by (metis numbered.simps(2))
    have only: "numbered (ls_threads s u) = None" if "u \<noteq> t" for u
    proof (rule ccontr)
      assume "numbered (ls_threads s u) \<noteq> None"
      then have "owns_submit (ls_threads s u)" by (cases "ls_threads s u") auto
      then show False using assms(1) own that unfolding seq_inv_def by (metis option.inject)
    qed
    show ?thesis
      using assms(1) own num only unfolding s'
      by (auto simp: seq_inv_def goto_def durable_mode_def sorted_wrt_append)
  qed
qed

lemma write_one_durability:
  "write_one cal e l d m = (ok, l', d') \<Longrightarrow> lg_durability l' = lg_durability l \<and> lg_next_sequence l' = lg_next_sequence l \<and>
    lg_durable_sequence l' = lg_durable_sequence l \<and> lg_queue l' = lg_queue l \<and> lg_write_error l' = lg_write_error l"
  using write_one_frame [of cal e l d m ok l' d'] by auto

lemma writer_seq_frame:
  assumes "logger_step cal ev s = Some s'"
    and "(\<exists>w. ev = EPop w) \<or> (\<exists>e. ev = EWrite e) \<or> ev = ERecord \<or> (\<exists>e. ev = ESync e) \<or> ev = EError \<or> ev = EShutdown \<or> (\<exists>r. ev = EJoin r)"
  shows "durable_mode s' = durable_mode s \<and> lg_next_sequence (ls_logger s') = lg_next_sequence (ls_logger s) \<and>
    ls_pushed s' = ls_pushed s \<and> ls_submit s' = ls_submit s \<and> ls_threads s' = ls_threads s"
  using assms
  by (auto simp: writer_pop_def writer_write_def writer_record_def writer_sync_def mark_writer_error_def
      mark_writer_close_def shutdown_close_def shutdown_join_def durable_mode_def Let_def
      dest!: write_one_durability
      split: writer_pc.splits shutdown_pc.splits prod.splits option.splits bq_result_t.splits if_splits)

lemma seq_inv_step:
  assumes "seq_inv n s" and "logger_step cal ev s = Some s'" and "n + 2 < SIZE_MODULUS"
  shows "seq_inv (Suc n) s'"
proof -
  note thread = seq_inv_thread [OF assms(1)] and defs = producer_step_defs durable_mode_def
  have dur: "durable_mode s" using assms(1) by (simp add: seq_inv_def)
  show ?thesis
  proof (cases "(\<exists>w. ev = EPop w) \<or> (\<exists>e. ev = EWrite e) \<or> ev = ERecord \<or> (\<exists>e. ev = ESync e) \<or> ev = EError \<or> ev = EShutdown \<or> (\<exists>r. ev = EJoin r)")
    case True
    then show ?thesis using seq_inv_frame [OF assms(1)] writer_seq_frame [OF assms(2)] by blast
  next
    case False
    then consider t level msg where "ev = ECall t level msg" | t where "ev = ESubmit t" | t where "ev = ENumber t"
      | t c tid where "ev = EStamp t c tid" | t w where "ev = EPush t w" | t where "ev = ECount t" | t where "ev = EWait t"
      by (cases ev) auto
    then show ?thesis
    proof cases
      case (1 t level msg)
      then show ?thesis
        using assms(2) dur
        by (intro thread [where t = t and pc = "ls_threads s' t"])
          (auto simp: defs split: producer_pc.splits option.splits if_splits)
    next
      case (2 t)
      then show ?thesis
        using assms(2) dur
        by (intro thread [where t = t and pc = "ls_threads s' t"])
          (auto simp: defs split: producer_pc.splits option.splits if_splits)
    next
      case (3 t)
      then show ?thesis using assms seq_inv_number by (auto split: producer_pc.splits)
    next
      case (4 t c tid)
      then show ?thesis
        using assms(2) dur
        by (intro thread [where t = t and pc = "ls_threads s' t"])
          (auto simp: defs split: producer_pc.splits option.splits if_splits)
    next
      case (5 t w)
      then show ?thesis using assms seq_inv_push by (auto split: producer_pc.splits)
    next
      case (6 t)
      then show ?thesis
        using assms(2) dur
        by (intro thread [where t = t and pc = "ls_threads s' t"])
          (auto simp: defs split: producer_pc.splits option.splits if_splits)
    next
      case (7 t)
      then show ?thesis
        using assms(2) dur
        by (intro thread [where t = t and pc = "ls_threads s' t"])
          (auto simp: defs Let_def split: producer_pc.splits option.splits if_splits)
    qed
  qed
qed

text \<open>\<open>sync_inv S s\<close>: the messages recorded as durable are a prefix of the accepted ones, and \<open>S\<close>
  holds for each of them.\<close>

definition sync_inv :: "log_message_t set \<Rightarrow> logger_sys \<Rightarrow> bool" where
  "sync_inv S s \<longleftrightarrow>
     (\<exists>ws rest. ls_pushed s = ws @ rest \<and> set ws \<subseteq> S \<and>
        (lg_durable_sequence (ls_logger s) = 0 \<or> (\<exists>m \<in> set ws. lm_sequence m = lg_durable_sequence (ls_logger s))) \<and>
        (\<not> writer_failed s \<longrightarrow> rest = in_hand (ls_writer s) @ tq_items (lg_queue (ls_logger s))) \<and>
        (\<forall>m. ls_writer s = WRecord m \<longrightarrow> m \<in> set ws)) \<and>
     (lg_write_error (ls_logger s) \<longrightarrow> ls_writer s = WClose \<or> ls_writer s = WExit) \<and>
     (\<forall>t m. ls_threads s t = PReturn 0 (Some m) \<longrightarrow> m \<in> S)"

lemma sync_invI:
  assumes "ls_pushed s = ws @ rest" and "set ws \<subseteq> S"
    and "lg_durable_sequence (ls_logger s) = 0 \<or> (\<exists>m \<in> set ws. lm_sequence m = lg_durable_sequence (ls_logger s))"
    and "\<not> writer_failed s \<Longrightarrow> rest = in_hand (ls_writer s) @ tq_items (lg_queue (ls_logger s))"
    and "\<And>m. ls_writer s = WRecord m \<Longrightarrow> m \<in> set ws"
    and "lg_write_error (ls_logger s) \<Longrightarrow> ls_writer s = WClose \<or> ls_writer s = WExit"
    and "\<And>t m. ls_threads s t = PReturn 0 (Some m) \<Longrightarrow> m \<in> S"
  shows "sync_inv S s"
  unfolding sync_inv_def using assms by blast

lemma sync_invE:
  assumes "sync_inv S s"
  obtains ws rest where "ls_pushed s = ws @ rest" "set ws \<subseteq> S"
    "lg_durable_sequence (ls_logger s) = 0 \<or> (\<exists>m \<in> set ws. lm_sequence m = lg_durable_sequence (ls_logger s))"
    "\<not> writer_failed s \<Longrightarrow> rest = in_hand (ls_writer s) @ tq_items (lg_queue (ls_logger s))"
    "\<And>m. ls_writer s = WRecord m \<Longrightarrow> m \<in> set ws"
    "lg_write_error (ls_logger s) \<Longrightarrow> ls_writer s = WClose \<or> ls_writer s = WExit"
    "\<And>t m. ls_threads s t = PReturn 0 (Some m) \<Longrightarrow> m \<in> S"
  using assms unfolding sync_inv_def by blast

lemma sync_inv_producer:
  assumes "sync_inv S s" and "S \<subseteq> S'" and "ls_pushed s' = ls_pushed s" and "ls_writer s' = ls_writer s"
    and "lg_durable_sequence (ls_logger s') = lg_durable_sequence (ls_logger s)"
    and "lg_queue (ls_logger s') = lg_queue (ls_logger s)"
    and "lg_write_error (ls_logger s') = lg_write_error (ls_logger s)"
    and "\<And>t m. ls_threads s' t = PReturn 0 (Some m) \<Longrightarrow> m \<in> S'"
  shows "sync_inv S' s'"
proof -
  from assms(1) obtain ws rest where "ls_pushed s = ws @ rest" "set ws \<subseteq> S"
    "lg_durable_sequence (ls_logger s) = 0 \<or> (\<exists>m \<in> set ws. lm_sequence m = lg_durable_sequence (ls_logger s))"
    "\<not> writer_failed s \<Longrightarrow> rest = in_hand (ls_writer s) @ tq_items (lg_queue (ls_logger s))"
    "\<And>m. ls_writer s = WRecord m \<Longrightarrow> m \<in> set ws"
    "lg_write_error (ls_logger s) \<Longrightarrow> ls_writer s = WClose \<or> ls_writer s = WExit"
    by (rule sync_invE) blast
  then show ?thesis
    using assms(2-) by (intro sync_invI [of _ ws rest]) (simp_all add: writer_failed_def)
qed

lemma sync_inv_push:
  assumes "sync_inv S s" and "S \<subseteq> S'" and "log_push t w m s = Some s'"
  shows "sync_inv S' s'"
proof -
  obtain res q where r: "tq_push m (lg_queue (ls_logger s)) = (res, q)" by fastforce
  have ret: "\<And>u m. ls_threads s u = PReturn 0 (Some m) \<Longrightarrow> m \<in> S'" using assms(1,2) by (auto simp: sync_inv_def)
  show ?thesis
  proof (cases "res = BQ_OK")
    case False
    then have "s' = goto t PReject s"
      using assms(3) r by (cases res) (auto simp: log_push_def split: if_splits)
    then show ?thesis
      using ret by (intro sync_inv_producer [OF assms(1,2)]) (auto simp: goto_def split: if_splits)
  next
    case True
    then have q: "q = lg_queue (ls_logger s)\<lparr>tq_items := tq_items (lg_queue (ls_logger s)) @ [m]\<rparr>"
      using tq_push_cases [OF r] by auto
    have s': "s' = goto t (PCount m) (s\<lparr>ls_logger := (ls_logger s)\<lparr>lg_queue := q\<rparr>, ls_pushed := ls_pushed s @ [m]\<rparr>)"
      using True assms(3) r by (simp add: log_push_def)
    from assms(1) obtain ws rest where "ls_pushed s = ws @ rest" "set ws \<subseteq> S"
      "lg_durable_sequence (ls_logger s) = 0 \<or> (\<exists>m \<in> set ws. lm_sequence m = lg_durable_sequence (ls_logger s))"
      "\<not> writer_failed s \<Longrightarrow> rest = in_hand (ls_writer s) @ tq_items (lg_queue (ls_logger s))"
      "\<And>m. ls_writer s = WRecord m \<Longrightarrow> m \<in> set ws"
      "lg_write_error (ls_logger s) \<Longrightarrow> ls_writer s = WClose \<or> ls_writer s = WExit"
      by (rule sync_invE) blast
    then show ?thesis
      using assms(2) ret s' q
      by (intro sync_invI [of _ ws "rest @ [m]"]) (auto simp: goto_def writer_failed_def split: if_splits)
  qed
qed

lemma sync_inv_pop:
  assumes "sync_inv S s" and "S \<subseteq> S'" and "ls_writer s = WPop" and "writer_pop w s = Some s'"
  shows "sync_inv S' s'"
proof -
  obtain res x q where r: "tq_pop (lg_queue (ls_logger s)) = ((res, x), q)" by (metis surj_pair)
  have ne: "\<not> lg_write_error (ls_logger s)" using assms(1,3) by (auto simp: sync_inv_def)
  from assms(1) obtain ws rest where rest: "ls_pushed s = ws @ rest" and 1: "set ws \<subseteq> S"
    "lg_durable_sequence (ls_logger s) = 0 \<or> (\<exists>m \<in> set ws. lm_sequence m = lg_durable_sequence (ls_logger s))"
    and nf: "\<not> writer_failed s \<Longrightarrow> rest = in_hand (ls_writer s) @ tq_items (lg_queue (ls_logger s))"
    and ret: "\<And>u m. ls_threads s u = PReturn 0 (Some m) \<Longrightarrow> m \<in> S"
    by (rule sync_invE) blast
  have p: "ls_pushed s = ws @ tq_items (lg_queue (ls_logger s))"
    using rest nf ne assms(3) by (simp add: writer_failed_def)
  show ?thesis
    using tq_pop_cases [OF r]
  proof
    assume "\<exists>y ys. tq_items (lg_queue (ls_logger s)) = y # ys \<and> res = BQ_OK \<and> x = Some y \<and>
      q = lg_queue (ls_logger s)\<lparr>tq_items := ys\<rparr>"
    then obtain y ys where i: "tq_items (lg_queue (ls_logger s)) = y # ys" and "s' =
        s\<lparr>ls_logger := (ls_logger s)\<lparr>lg_queue := lg_queue (ls_logger s)\<lparr>tq_items := ys\<rparr>\<rparr>, ls_writer := WWrite y\<rparr>"
      using assms(4) r by (auto simp: writer_pop_def)
    then show ?thesis
      using p 1 ne ret assms(2) by (intro sync_invI [of _ ws "y # ys"]) (auto simp: writer_failed_def)
  next
    assume "tq_items (lg_queue (ls_logger s)) = [] \<and> x = None \<and> q = lg_queue (ls_logger s) \<and>
      (res = BQ_CLOSED \<and> tq_closed (lg_queue (ls_logger s)) \<or> res = BQ_TIMEOUT \<and> \<not> tq_closed (lg_queue (ls_logger s)))"
    then have i: "tq_items (lg_queue (ls_logger s)) = []" and "s' = s\<lparr>ls_writer := WSync\<rparr> \<or> s' = s\<lparr>ls_writer := WError\<rparr>"
      using assms(4) r by (auto simp: writer_pop_def split: if_splits)
    then show ?thesis
      using p 1 ne ret assms(2) by (intro sync_invI [of _ ws "[]"]) (auto simp: writer_failed_def)
  qed
qed

lemma sync_inv_write:
  assumes "sync_inv S s" and "S \<subseteq> S'" and "ls_writer s = WWrite m" and "logger_inv cal t0 s" and "durable_mode s"
    and "s' = writer_write cal e m s"
    and "\<And>m line. format_line cal m = Some line \<Longrightarrow> active_synced (ls_logger s') (ls_disk s') line \<Longrightarrow> m \<in> S'"
  shows "sync_inv S' s'"
proof -
  obtain ok logger d where w: "write_one cal e (ls_logger s) (ls_disk s) m = (ok, logger, d)" by (metis surj_pair)
  have s': "s' = s\<lparr>ls_logger := logger, ls_disk := d, ls_writer := (if ok then WRecord m else WError)\<rparr>"
    using assms(6) w by (simp add: writer_write_def)
  note l = write_one_durability [OF w]
  have ne: "\<not> lg_write_error (ls_logger s)" using assms(1,3) by (auto simp: sync_inv_def)
  from assms(1) obtain ws rest where rest: "ls_pushed s = ws @ rest" and 1: "set ws \<subseteq> S"
    "lg_durable_sequence (ls_logger s) = 0 \<or> (\<exists>m \<in> set ws. lm_sequence m = lg_durable_sequence (ls_logger s))"
    and nf: "\<not> writer_failed s \<Longrightarrow> rest = in_hand (ls_writer s) @ tq_items (lg_queue (ls_logger s))"
    and ret: "\<And>u m. ls_threads s u = PReturn 0 (Some m) \<Longrightarrow> m \<in> S"
    by (rule sync_invE) blast
  have p: "ls_pushed s = ws @ m # tq_items (lg_queue (ls_logger s))"
    using rest nf ne assms(3) by (simp add: writer_failed_def)
  show ?thesis
  proof (cases ok)
    case False
    then show ?thesis
      using p 1 ne ret assms(2) l s'
      by (intro sync_invI [of _ ws "m # tq_items (lg_queue (ls_logger s))"]) (auto simp: writer_failed_def)
  next
    case True
    obtain t where "log_holds (ls_logger s) (ls_disk s) t"
      using assms(3,4) ne by (auto simp: logger_inv_def writer_failed_def stream_ok_def)
    from write_one_holds [OF w [unfolded eqTrueI [OF True]] this] obtain line where "format_line cal m = Some line"
      and "active_synced logger d line" using assms(5) unfolding durable_mode_def by blast
    then have "m \<in> S'" using assms(7) s' by simp
    then show ?thesis
      using True p 1 ne ret assms(2) l s'
      by (intro sync_invI [of _ "ws @ [m]" "tq_items (lg_queue (ls_logger s))"]) (auto simp: writer_failed_def)
  qed
qed

lemma sync_inv_record:
  assumes "sync_inv S s" and "S \<subseteq> S'" and "ls_writer s = WRecord m" and "durable_mode s"
  shows "sync_inv S' (writer_record m s)"
proof -
  have ne: "\<not> lg_write_error (ls_logger s)" using assms(1,3) by (auto simp: sync_inv_def)
  from assms(1) obtain ws rest where 1: "ls_pushed s = ws @ rest" "set ws \<subseteq> S"
    and nf: "\<not> writer_failed s \<Longrightarrow> rest = in_hand (ls_writer s) @ tq_items (lg_queue (ls_logger s))"
    and m: "\<And>m. ls_writer s = WRecord m \<Longrightarrow> m \<in> set ws"
    and ret: "\<And>u m. ls_threads s u = PReturn 0 (Some m) \<Longrightarrow> m \<in> S"
    by (rule sync_invE) blast
  show ?thesis
    using 1 m [OF assms(3)] nf ne ret assms(2-4)
    by (intro sync_invI [of _ ws rest]) (auto simp: writer_record_def writer_failed_def)
qed

text \<open>The writer's last steps and shutdown.\<close>

lemma sync_inv_end:
  assumes "sync_inv S s" and "S \<subseteq> S'"
    and "ev = EError \<or> ev = EShutdown \<or> (\<exists>e. ev = ESync e) \<or> (\<exists>r. ev = EJoin r)" and "logger_step cal ev s = Some s'"
  shows "sync_inv S' s'"
proof -
  from assms(1) obtain ws rest where 1: "ls_pushed s = ws @ rest" "set ws \<subseteq> S"
    "lg_durable_sequence (ls_logger s) = 0 \<or> (\<exists>m \<in> set ws. lm_sequence m = lg_durable_sequence (ls_logger s))"
    and nf: "\<not> writer_failed s \<Longrightarrow> rest = in_hand (ls_writer s) @ tq_items (lg_queue (ls_logger s))"
    and m: "\<And>m. ls_writer s = WRecord m \<Longrightarrow> m \<in> set ws"
    and e: "lg_write_error (ls_logger s) \<Longrightarrow> ls_writer s = WClose \<or> ls_writer s = WExit"
    and ret: "\<And>u m. ls_threads s u = PReturn 0 (Some m) \<Longrightarrow> m \<in> S"
    by (rule sync_invE) blast
  note facts = 1 nf m e ret assms(2)
  have "ls_writer s = WError \<and> s' = mark_writer_error s \<or> ls_writer s = WClose \<and> s' = mark_writer_close s \<or>
      s' = shutdown_close s \<or> (\<exists>e. ls_writer s = WSync \<and> s' = writer_sync e s) \<or> (\<exists>r. shutdown_join r s = Some s')"
    using assms(3,4) by (cases ev; simp split: writer_pc.splits shutdown_pc.splits; metis)
  then consider "ls_writer s = WError" "s' = mark_writer_error s"
    | "ls_writer s = WClose" "s' = mark_writer_close s" | "s' = shutdown_close s"
    | e where "ls_writer s = WSync" "s' = writer_sync e s" | r where "shutdown_join r s = Some s'"
    by blast
  then show ?thesis
  proof cases
    case 1
    then show ?thesis
      using facts by (intro sync_invI [of _ ws rest]) (auto simp: mark_writer_error_def writer_failed_def)
  next
    case 2
    then show ?thesis
      using facts by (intro sync_invI [of _ ws rest]) (auto simp: mark_writer_close_def writer_failed_def tq_close_def)
  next
    case 3
    then show ?thesis
      using facts by (intro sync_invI [of _ ws rest]) (auto simp: shutdown_close_def writer_failed_def tq_close_def split: if_splits)
  next
    case 4
    then show ?thesis
      using facts
      by (intro sync_invI [of _ ws rest]) (auto simp: writer_sync_def writer_failed_def split: prod.splits if_splits)
  next
    case 5
    then show ?thesis
      using facts
      by (intro sync_invI [of _ ws rest]) (auto simp: shutdown_join_def writer_failed_def split: if_splits)
  qed
qed

text \<open>A producer that sees its number reached finds its message among the synchronised ones.\<close>

lemma durable_reached:
  assumes "sync_inv S s" and "seq_inv n s" and "m \<in> set (ls_pushed s)"
    and "lm_sequence m \<le> lg_durable_sequence (ls_logger s)"
  shows "m \<in> S"
proof -
  from assms(1) obtain ws rest where p: "ls_pushed s = ws @ rest" and 1: "set ws \<subseteq> S"
    "lg_durable_sequence (ls_logger s) = 0 \<or> (\<exists>m \<in> set ws. lm_sequence m = lg_durable_sequence (ls_logger s))"
    by (rule sync_invE) blast
  have "1 \<le> lm_sequence m" using assms(2,3) by (auto simp: seq_inv_def)
  then obtain m' where m': "m' \<in> set ws" "lm_sequence m \<le> lm_sequence m'" using 1(2) assms(4) by auto
  have "m \<in> set ws"
  proof (rule ccontr)
    assume "m \<notin> set ws"
    then have "m \<in> set rest" using assms(3) p by auto
    then have "lm_sequence m' < lm_sequence m"
      using assms(2) p m'(1) by (auto simp: seq_inv_def sorted_wrt_append)
    then show False using m'(2) by simp
  qed
  then show ?thesis using 1(1) by auto
qed

lemma sync_inv_step:
  assumes "sync_inv S s" and "S \<subseteq> S'" and "seq_inv n s" and "logger_inv cal t0 s" and "logger_step cal ev s = Some s'"
    and "\<And>m line. format_line cal m = Some line \<Longrightarrow> active_synced (ls_logger s') (ls_disk s') line \<Longrightarrow> m \<in> S'"
  shows "sync_inv S' s'"
proof -
  have dur: "durable_mode s" using assms(3) by (simp add: seq_inv_def)
  have ret: "m \<in> S'" if "ls_threads s t = PReturn 0 (Some m)" for t m using assms(1,2) that by (auto simp: sync_inv_def)
  note producer = sync_inv_producer [OF assms(1,2)]
  consider "ev = EError \<or> ev = EShutdown \<or> (\<exists>e. ev = ESync e) \<or> (\<exists>r. ev = EJoin r)"
    | t level msg where "ev = ECall t level msg" | t where "ev = ESubmit t" | t where "ev = ENumber t"
    | t c tid where "ev = EStamp t c tid" | t w where "ev = EPush t w" | t where "ev = ECount t" | t where "ev = EWait t"
    | w where "ev = EPop w" | e where "ev = EWrite e" | "ev = ERecord"
    by (cases ev) auto
  then show ?thesis
  proof cases
    case 1
    then show ?thesis using sync_inv_end [OF assms(1,2) _ assms(5)] by blast
  next
    case (2 t level msg)
    then show ?thesis
      using assms(5) ret
      by (intro producer) (auto simp: producer_step_defs split: producer_pc.splits option.splits if_splits)
  next
    case (3 t)
    then show ?thesis
      using assms(5) ret
      by (intro producer) (auto simp: producer_step_defs split: producer_pc.splits option.splits if_splits)
  next
    case (4 t)
    then show ?thesis
      using assms(5) ret
      by (intro producer) (auto simp: producer_step_defs split: producer_pc.splits option.splits if_splits)
  next
    case (5 t c tid)
    then show ?thesis
      using assms(5) ret
      by (intro producer) (auto simp: producer_step_defs split: producer_pc.splits option.splits if_splits)
  next
    case (6 t w)
    then show ?thesis using assms(5) sync_inv_push [OF assms(1,2)] by (auto split: producer_pc.splits)
  next
    case (7 t)
    then show ?thesis
      using assms(5) ret dur
      by (intro producer)
        (auto simp: producer_step_defs durable_mode_def split: producer_pc.splits option.splits if_splits)
  next
    case (8 t)
    then obtain m where m: "ls_threads s t = PWait m" and s': "s' = log_wait t m s"
      using assms(5) by (auto split: producer_pc.splits)
    have "accepted_by (ls_threads s t) = Some m" using m by simp
    then have "m \<in> set (ls_pushed s)" using assms(4) unfolding logger_inv_def by blast
    then have "m \<in> S" if "lm_sequence m \<le> lg_durable_sequence (ls_logger s)"
      using durable_reached [OF assms(1,3)] that by blast
    then show ?thesis
      using ret assms(2) s'
      by (intro producer) (auto simp: log_wait_def goto_def Let_def split: if_splits)
  next
    case (9 w)
    then show ?thesis using assms(5) sync_inv_pop [OF assms(1,2)] by (auto split: writer_pc.splits)
  next
    case (10 e)
    then obtain m where m: "ls_writer s = WWrite m" and s': "s' = writer_write cal e m s"
      using assms(5) by (auto split: writer_pc.splits)
    show ?thesis by (rule sync_inv_write [OF assms(1,2) m assms(4) dur s' assms(6)])
  next
    case 11
    then show ?thesis using assms(5) sync_inv_record [OF assms(1,2) _ dur] by (auto split: writer_pc.splits)
  qed
qed

text \<open>The messages that were, at some earlier moment of the trace, the end of a synchronised file.\<close>

definition synced_before ::
  "(int \<Rightarrow> string option) \<Rightarrow> logger_event list \<Rightarrow> logger_sys \<Rightarrow> log_message_t set" where
  "synced_before cal evs s0 = {m. \<exists>evs1 evs2 s1 line. evs = evs1 @ evs2 \<and> logger_run cal evs1 s0 = Some s1 \<and>
     format_line cal m = Some line \<and> active_synced (ls_logger s1) (ls_disk s1) line}"

lemma durable_run:
  assumes "seq_inv 0 s0" and "sync_inv {} s0" and "logger_inv cal t0 s0"
    and "logger_run cal evs s0 = Some s" and "length evs + 2 < SIZE_MODULUS"
  shows "seq_inv (length evs) s \<and> sync_inv (synced_before cal evs s0) s"
  using assms(4,5)
proof (induction evs arbitrary: s rule: rev_induct)
  case Nil
  have "sync_inv (synced_before cal [] s0) s0"
    by (rule sync_inv_producer [OF assms(2)]) (use assms(2) in \<open>auto simp: sync_inv_def\<close>)
  then show ?case using Nil assms(1) by simp
next
  case (snoc ev evs)
  from snoc.prems(1) obtain s1 where r: "logger_run cal evs s0 = Some s1" and st: "logger_step cal ev s1 = Some s"
    by (auto simp: logger_run_append split: option.splits)
  have ih: "seq_inv (length evs) s1" "sync_inv (synced_before cal evs s0) s1"
    using snoc.IH [OF r] snoc.prems(2) by simp_all
  have "synced_before cal evs s0 \<subseteq> synced_before cal (evs @ [ev]) s0"
    unfolding synced_before_def by (auto, metis append.assoc)
  moreover have "m \<in> synced_before cal (evs @ [ev]) s0"
    if "format_line cal m = Some line" "active_synced (ls_logger s) (ls_disk s) line" for m line
    using that snoc.prems(1) unfolding synced_before_def by (metis (mono_tags, lifting) append_Nil2 mem_Collect_eq)
  ultimately show ?case
    using sync_inv_step [OF ih(2) _ ih(1) logger_run_inv [OF assms(3) r] st]
      seq_inv_step [OF ih(1) st] snoc.prems(2) by simp
qed

text \<open>
  C11: A durable log call that returns 0 is on the storage device. In \<open>FSYNC_EACH\<close> mode, for every
  interleaving of producers and writer (of fewer than \<open>2^64 - 2\<close> steps, so that the sequence numbers
  do not wrap): when \<open>async_logger_log\<close> has returned 0 for a message, then at some earlier moment of
  the trace its formatted line was the end of the active file, with an empty stream buffer and all of
  the file synchronised. The confirmation of a later message never releases a caller whose own line
  is not written.
\<close>

theorem durable_log_is_synced:
  assumes "async_logger_init_ex e logger0 (Some config) held d0 = (0, Some logger, held', d)"
    and "lc_durability config = 1"
    and "history_is (lg_path logger) (lg_compress_rotated logger) (lg_rotation_files logger) d0 hs"
    and "logger_run cal evs (logger_start logger d) = Some s" and "length evs + 2 < SIZE_MODULUS"
    and "ls_threads s t = PReturn 0 (Some m)"
  shows "\<exists>evs1 evs2 s1 line. evs = evs1 @ evs2 \<and> logger_run cal evs1 (logger_start logger d) = Some s1 \<and>
    format_line cal m = Some line \<and> active_synced (ls_logger s1) (ls_disk s1) line"
proof -
  note i = init_fresh [OF assms(1)]
  obtain f where inv: "logger_inv cal (log_text hs f []) (logger_start logger d)"
    using init_holds [OF assms(1,3)] by blast
  have "lg_durability logger = ASYNC_LOGGER_FSYNC_EACH" using i assms(2) by (simp add: durability_of_def)
  then have "seq_inv 0 (logger_start logger d)"
    using i by (simp add: seq_inv_def logger_start_def durable_mode_def)
  moreover have "sync_inv {} (logger_start logger d)"
    using i by (intro sync_invI [of _ "[]" "[]"]) (simp_all add: logger_start_def tq_new_def)
  ultimately have "sync_inv (synced_before cal evs (logger_start logger d)) s"
    using durable_run [OF _ _ inv assms(4,5)] by blast
  then have "m \<in> synced_before cal evs (logger_start logger d)" using assms(6) by (auto simp: sync_inv_def)
  then show ?thesis unfolding synced_before_def by blast
qed

section \<open>The writer drains a closed queue\<close>

fun pc_weight :: "writer_pc \<Rightarrow> nat" where
  "pc_weight (WWrite _) = 6"
| "pc_weight (WRecord _) = 5"
| "pc_weight WPop = 4"
| "pc_weight WSync = 3"
| "pc_weight WError = 2"
| "pc_weight WClose = 1"
| "pc_weight WExit = 0"

definition drain_measure :: "logger_sys \<Rightarrow> nat" where
  "drain_measure s = 3 * length (tq_items (lg_queue (ls_logger s))) + pc_weight (ls_writer s)"

text \<open>The next step of the writer, with the answers the file system gives it.\<close>

definition writer_turn :: "write_env \<Rightarrow> sync_env \<Rightarrow> logger_sys \<Rightarrow> logger_event" where
  "writer_turn we se s =
     (case ls_writer s of WPop \<Rightarrow> EPop False | WWrite _ \<Rightarrow> EWrite we | WRecord _ \<Rightarrow> ERecord | WSync \<Rightarrow> ESync se
      | WError \<Rightarrow> EError | WClose \<Rightarrow> EError | WExit \<Rightarrow> EJoin 0)"

lemma writer_turn_decreases:
  assumes "tq_closed (lg_queue (ls_logger s))" and "ls_writer s \<noteq> WExit"
  shows "\<exists>s'. logger_step cal (writer_turn we se s) s = Some s' \<and> drain_measure s' < drain_measure s"
proof (cases "ls_writer s")
  case WPop
  then show ?thesis
    using assms by (cases "tq_items (lg_queue (ls_logger s))")
      (auto simp: writer_turn_def writer_pop_def tq_pop_def drain_measure_def)
next
  case (WWrite m)
  obtain ok l d where w: "write_one cal we (ls_logger s) (ls_disk s) m = (ok, l, d)" by (metis surj_pair)
  show ?thesis using WWrite w write_one_durability [OF w] by (auto simp: writer_turn_def writer_write_def drain_measure_def)
next
  case (WRecord m)
  then show ?thesis by (auto simp: writer_turn_def writer_record_def drain_measure_def Let_def)
next
  case WSync
  then show ?thesis by (auto simp: writer_turn_def writer_sync_def drain_measure_def split: prod.splits)
next
  case WError
  then show ?thesis by (auto simp: writer_turn_def mark_writer_error_def drain_measure_def)
next
  case WClose
  then show ?thesis by (auto simp: writer_turn_def mark_writer_close_def tq_close_def drain_measure_def)
qed (use assms in simp)

lemma closed_step:
  assumes "tq_closed (lg_queue (ls_logger s))" and "logger_step cal ev s = Some s'"
  shows "tq_closed (lg_queue (ls_logger s')) \<and> drain_measure s' \<le> drain_measure s"
proof (cases ev)
  case (EPush t w)
  then show ?thesis
    using assms by (auto simp: log_push_def tq_push_def goto_def drain_measure_def split: producer_pc.splits if_splits)
next
  case (EPop w)
  then show ?thesis
    using assms
    by (cases "tq_items (lg_queue (ls_logger s))")
      (auto simp: writer_pop_def tq_pop_def drain_measure_def split: writer_pc.splits if_splits)
next
  case (EWrite e)
  then obtain m where m: "ls_writer s = WWrite m" and s': "s' = writer_write cal e m s"
    using assms(2) by (auto split: writer_pc.splits)
  obtain ok l d where w: "write_one cal e (ls_logger s) (ls_disk s) m = (ok, l, d)" by (metis surj_pair)
  show ?thesis using assms(1) m s' w write_one_durability [OF w] by (simp add: writer_write_def drain_measure_def)
qed (use assms in \<open>auto simp: producer_step_defs writer_record_def writer_sync_def mark_writer_error_def
    mark_writer_close_def shutdown_close_def shutdown_join_def tq_close_def drain_measure_def Let_def
    split: producer_pc.splits writer_pc.splits shutdown_pc.splits option.splits prod.splits if_splits\<close>)

text \<open>
  C5: Shutdown always ends. Once the queue is closed, as \<open>async_logger_shutdown\<close> and a writer error
  leave it, the writer that has not exited always has a step, whatever the file system answers, and
  each of its steps decreases a measure bounded by three times the queued messages plus six; no step
  of any other thread increases the measure or reopens the queue, so the writer exits after finitely
  many steps in every interleaving; and then the join of a waiting shutdown returns.
\<close>

theorem logger_shutdown_terminates:
  assumes "tq_closed (lg_queue (ls_logger s))"
  shows "(ls_writer s \<noteq> WExit \<longrightarrow>
        (\<exists>s'. logger_step cal (writer_turn we se s) s = Some s' \<and> drain_measure s' < drain_measure s)) \<and>
    (\<forall>ev s'. logger_step cal ev s = Some s' \<longrightarrow>
        tq_closed (lg_queue (ls_logger s')) \<and> drain_measure s' \<le> drain_measure s) \<and>
    drain_measure s \<le> 3 * length (tq_items (lg_queue (ls_logger s))) + 6 \<and>
    (ls_writer s = WExit \<and> ls_shutdown s = SJoin \<longrightarrow>
        (\<exists>s' r. logger_step cal (EJoin 0) s = Some s' \<and> ls_shutdown s' = SReturn r))"
proof -
  have "pc_weight (ls_writer s) \<le> 6" by (cases "ls_writer s") simp_all
  then show ?thesis
    using writer_turn_decreases [OF assms] closed_step [OF assms]
    by (auto simp: drain_measure_def shutdown_join_def)
qed

section \<open>Creation and destruction\<close>

lemma logger_open_failed:
  "logger_open e capacity logger held d = (rc, logger', held', d') \<Longrightarrow> rc \<noteq> 0 \<Longrightarrow>
    rc = -1 \<and> held' = held \<and> (d' = d \<or> d' = disk_create (lg_path logger) d)"
  by (auto simp: logger_open_def Let_def cleanup_before_writer_def release_def split: if_splits)

text \<open>
  Creating a logger is all or nothing and destruction gives back what creation took. A failed
  \<open>async_logger_init_ex\<close> (bad arguments, or any of the eight resources refused) returns -1, leaves the
  process with exactly the resources it had and changes no file but for creating an empty one at the
  logger's path. After a successful one, once the writer has been joined, the shutdown is complete and
  the stream is open, an \<open>async_logger_destroy\<close> in which no release fails returns 0 and gives back
  exactly those resources; before the shutdown is complete it refuses and releases nothing.
\<close>

theorem logger_create_destroy_balanced:
  assumes "async_logger_init_ex e logger0 config held d0 = (rc, logger, held', d)"
  shows "if rc = 0
    then \<exists>l owned. logger = Some l \<and> held' = LR_Thread # owned \<and>
        async_logger_destroy de (Some l) held' = Some (-1, Some l, held') \<and>
        (\<forall>l'. lg_initialized l' \<and> lg_shutdown_complete l' \<and> lg_file l' \<noteq> None \<longrightarrow>
           de = \<lparr>de_fclose = 0, de_queue = (0, 0, 0), de_cond = 0, de_submit = 0, de_stats = 0\<rparr> \<longrightarrow>
           (\<exists>l''. async_logger_destroy de (Some l') owned = Some (0, Some l'', held) \<and> \<not> lg_initialized l''))
    else rc = -1 \<and> held' = held \<and> (d = d0 \<or> (\<exists>path. d = disk_create path d0))"
proof (cases "rc = 0")
  case True
  obtain l0 c l where "logger0 = Some l0" and c: "config = Some c" and l: "logger = Some l"
    using assms True by (auto simp: async_logger_init_ex_def split: option.splits prod.splits if_splits)
  note i = init_fresh [OF assms [unfolded c l True]]
  then show ?thesis
    using True l by (auto simp: async_logger_destroy_def bq_destroy_def zero_queue_def release_def Let_def)
next
  case False
  then show ?thesis
    using assms logger_open_failed
    by (auto simp: async_logger_init_ex_def split: option.splits prod.splits if_splits) blast+
qed

section \<open>A run of the logger\<close>

text \<open>One durable message followed by a shutdown, on a file system that never fails.\<close>

definition good_write :: write_env where
  "good_write = \<lparr>we_rotate = good_rotate, we_fwrite = None, we_spill = 3, we_sync = good_sync\<rparr>"

definition good_init :: logger_init_env where
  "good_init = \<lparr>li_heap = (\<lambda>n. Some []), li_queue = (0, 0, 0), li_stats = 0, li_submit = 0, li_cond = 0,
     li_fopen = True, li_fstat = True, li_thread = 0\<rparr>"

definition logger_demo_logger :: "int \<Rightarrow> async_logger_t" where
  "logger_demo_logger durability = zero_logger\<lparr>lg_path := ''l'', lg_next_sequence := 1, lg_queue := tq_new 2, lg_file := Some [],
     lg_durability := (if durability = 0 then ASYNC_LOGGER_BUFFERED else ASYNC_LOGGER_FSYNC_EACH), lg_initialized := True\<rparr>"

definition logger_demo_config :: "int \<Rightarrow> async_logger_config_t" where
  "logger_demo_config durability = \<lparr>lc_path = Some ''l'', lc_capacity = 2, lc_rotation_bytes = 0, lc_rotation_files = 0,
     lc_compress_rotated = 0, lc_durability = durability\<rparr>"

definition logger_demo_disk :: disk where
  "logger_demo_disk = [''l'' \<mapsto> \<lparr>f_bytes = [], f_synced = 0, f_gzip = False\<rparr>]"

lemma logger_demo_init:
  "n = 0 \<or> n = 1 \<Longrightarrow>
    async_logger_init_ex good_init (Some zero_logger) (Some (logger_demo_config n)) [] Map.empty =
      (0, Some (logger_demo_logger n), [LR_Thread, LR_File, LR_Cond, LR_Submit, LR_Stats, LR_Queue], logger_demo_disk)"
  by (auto simp: async_logger_init_ex_def logger_open_def logger_demo_config_def logger_demo_logger_def logger_demo_disk_def good_init_def
      durability_of_def bq_init_def zero_queue_def zero_logger_def disk_create_def Let_def)

definition logger_demo_events :: "logger_event list" where
  "logger_demo_events = [ECall 0 1 (Some ''hi''), ESubmit 0, ENumber 0, EStamp 0 (Some (5, 7)) 9, EPush 0 False, ECount 0,
     EPop False, EWrite good_write, ERecord, EWait 0, EShutdown, EPop False, ESync good_sync, EJoin 0]"

definition logger_demo_message :: log_message_t where
  "logger_demo_message = \<lparr>lm_sequence = 1, lm_timestamp = (5, 7), lm_thread_id = 9, lm_level = LOG_LEVEL_INFO, lm_text = ''hi''\<rparr>"

lemma logger_demo_line:
  "format_line (\<lambda>_. Some ''noon'') logger_demo_message = Some ''[1] [noon.000000007] [INFO ] [thread=9] hi\<newline>''"
  by code_simp

lemma logger_demo_run:
  "\<exists>s. logger_run (\<lambda>_. Some ''noon'') logger_demo_events (logger_start (logger_demo_logger 1) logger_demo_disk) = Some s \<and>
     ls_shutdown s = SReturn 0 \<and> ls_threads s 0 = PReturn 0 (Some logger_demo_message) \<and> ls_pushed s = [logger_demo_message]"
  using logger_demo_line
  by (simp add: logger_demo_events_def logger_start_def logger_demo_logger_def logger_demo_disk_def zero_logger_def tq_new_def log_call_def log_level_of_def
      goto_def durable_mode_def log_number_def log_stamp_def cstr_def log_push_def tq_push_def log_count_def unlock_submit_def
      writer_pop_def tq_pop_def writer_write_def write_one_def rotation_due_def stream_write_def sync_stream_def good_write_def
      good_sync_def writer_record_def log_wait_def shutdown_close_def tq_close_def writer_sync_def shutdown_join_def Let_def
      logger_demo_message_def)


theorem durable_log_is_synced_witness:
  "\<exists>evs1 evs2 s1 line. logger_demo_events = evs1 @ evs2 \<and>
     logger_run (\<lambda>_. Some ''noon'') evs1 (logger_start (logger_demo_logger 1) logger_demo_disk) = Some s1 \<and>
     format_line (\<lambda>_. Some ''noon'') logger_demo_message = Some line \<and> active_synced (ls_logger s1) (ls_disk s1) line"
proof -
  from logger_demo_run obtain s where r: "logger_run (\<lambda>_. Some ''noon'') logger_demo_events (logger_start (logger_demo_logger 1) logger_demo_disk) = Some s"
    and x: "ls_threads s 0 = PReturn 0 (Some logger_demo_message)" by blast
  have h: "history_is (lg_path (logger_demo_logger 1)) (lg_compress_rotated (logger_demo_logger 1)) (lg_rotation_files (logger_demo_logger 1)) Map.empty []"
    by (simp add: history_is_def logger_demo_logger_def zero_logger_def)
  have "lc_durability (logger_demo_config 1) = 1" "length logger_demo_events + 2 < SIZE_MODULUS"
    by (simp_all add: logger_demo_config_def logger_demo_events_def)
  from durable_log_is_synced [OF logger_demo_init this(1) h r this(2) x] show ?thesis by simp
qed

theorem logger_shutdown_terminates_witness:
  "\<exists>s'. logger_step (\<lambda>_. None) (writer_turn good_write good_sync
       (logger_start ((logger_demo_logger 0)\<lparr>lg_queue := tq_close (tq_new 2)\<rparr>) logger_demo_disk))
       (logger_start ((logger_demo_logger 0)\<lparr>lg_queue := tq_close (tq_new 2)\<rparr>) logger_demo_disk) = Some s'"
  using logger_shutdown_terminates [of "logger_start ((logger_demo_logger 0)\<lparr>lg_queue := tq_close (tq_new 2)\<rparr>) logger_demo_disk"
      "\<lambda>_. None" good_write good_sync]
  by (auto simp: logger_start_def tq_close_def)

theorem logger_create_destroy_balanced_witness:
  "\<exists>l owned. async_logger_init_ex good_init (Some zero_logger) (Some (logger_demo_config 0)) [] Map.empty =
       (0, Some l, LR_Thread # owned, logger_demo_disk) \<and>
     (\<exists>l''. async_logger_destroy \<lparr>de_fclose = 0, de_queue = (0, 0, 0), de_cond = 0, de_submit = 0, de_stats = 0\<rparr>
        (Some (l\<lparr>lg_shutdown_complete := True\<rparr>)) owned = Some (0, Some l'', []))"
  using logger_create_destroy_balanced [OF logger_demo_init [of 0, simplified],
      of "\<lparr>de_fclose = 0, de_queue = (0, 0, 0), de_cond = 0, de_submit = 0, de_stats = 0\<rparr>"] logger_demo_init [of 0]
  by (auto dest!: spec [of _ "(logger_demo_logger 0)\<lparr>lg_shutdown_complete := True\<rparr>"] simp: logger_demo_logger_def)

section \<open>What the protocol does not give\<close>

text \<open>
  In buffered mode the number of a message is taken before and apart from the push: two producers can
  enter the queue in the opposite order of their numbers, so the numbers do not identify the order of
  the lines, as the comment on \<open>sequence\<close> in the header says.
\<close>

lemma buffered_order_differs:
  "\<exists>s. logger_run (\<lambda>_. None)
      [ECall 0 1 (Some ''a''), ECall 1 1 (Some ''b''), ENumber 0, ENumber 1, EStamp 0 (Some (5, 7)) 9, EStamp 1 (Some (5, 8)) 8,
       EPush 1 False, EPush 0 False] (logger_start (logger_demo_logger 0) logger_demo_disk) = Some s \<and>
     map lm_sequence (ls_pushed s) = [2, 1]"
  by (simp add: logger_start_def logger_demo_logger_def logger_demo_disk_def zero_logger_def tq_new_def log_call_def log_level_of_def
      goto_def durable_mode_def log_number_def log_stamp_def log_push_def tq_push_def)

text \<open>
  A rotation that fails leaves the logger without a stream. The writer stops with an error and
  \<open>async_logger_shutdown\<close> marks the shutdown complete and returns -1; \<open>async_logger_destroy\<close>, the only
  function that releases the queue and the mutexes, then calls \<open>fclose (NULL)\<close>, which has no defined
  result.
\<close>

lemma destroy_after_failed_rotation:
  assumes "rotate_file e logger d = (False, logger', d')" and "lg_initialized logger"
  shows "async_logger_destroy de (Some (logger'\<lparr>lg_shutdown_complete := True\<rparr>)) held = None"
proof -
  have "lg_file logger' = None" using assms(1) by (auto simp: rotate_file_def Let_def split: prod.splits if_splits)
  moreover have "lg_initialized logger' = lg_initialized logger"
    using rest_ofD [OF rotate_file_rest [OF assms(1)]] by auto
  ultimately show ?thesis using assms(2) by (simp add: async_logger_destroy_def)
qed

text \<open>
  Compression takes back what \<open>FSYNC_EACH\<close> confirmed: the gzip file replaces the synchronised file
  and none of its bytes has been synchronised when the source is unlinked.
\<close>

lemma compressed_history_not_synced:
  assumes "rotate_file e logger d = (True, logger', d')" and "lg_file logger = Some p"
    and "d (lg_path logger) = Some f" and "0 < lg_rotation_files logger" and "lg_compress_rotated logger"
    and "history_is (lg_path logger) True (lg_rotation_files logger) d hs"
  shows "\<exists>g. d' (rotated (lg_path logger) True 1) = Some g \<and> f_bytes g = f_bytes f @ p \<and> f_synced g = 0"
  using rotate_file_done [OF assms(1-4)] assms(4-6) by (fastforce simp: history_is_def stored_file_def)

end
