(* ===== verification/Network_Client.thy ===== *)
theory Network_Client
  imports Prelude
begin

text \<open>
  The reconnecting TCP client of \<^verbatim>\<open>src/modules/net/network_client.c\<close>: a background thread that connects
  without blocking, delivers received data, sends heartbeats, and after a failure waits with an
  exponential backoff before it connects again; an eventfd stops it in every wait.

  What the kernel answers is a script: one entry per round of a waiting loop, one per turn of the
  worker's main loop. A loop whose script is used up is still running (\<open>None\<close>). \<open>rand_r\<close> is an
  argument. \<open>errno\<close> is only used for log output and is left out, as is the log.
\<close>

section \<open>Data\<close>

datatype network_client_state_t = NETWORK_CLIENT_STOPPED | NETWORK_CLIENT_CONNECTING | NETWORK_CLIENT_CONNECTED
  | NETWORK_CLIENT_BACKOFF | NETWORK_CLIENT_STOPPING

datatype step_result = STEP_ERROR | STEP_STOP | STEP_OK | STEP_PENDING

record network_client_config_t =
  cc_server_addrlen :: nat
  cc_connect_timeout_ms :: int
  cc_backoff_base_ms :: u32
  cc_backoff_max_ms :: u32
  cc_heartbeat_interval_ms :: u32
  cc_heartbeat_data :: "u8 list option"
  cc_heartbeat_size :: nat
  cc_on_data :: bool

record network_client =
  nc_state :: network_client_state_t
  nc_fd :: int
  nc_wake_fd :: int
  nc_thread_started :: bool
  nc_attempt :: u32
  nc_rng_state :: u32
  nc_config :: network_client_config_t

text \<open>The sockets open in the process, the blocks handed to the callback and the states the worker
  went through, the newest last.\<close>

record net_world =
  nw_sockets :: "int list"
  nw_delivered :: "u8 list list"
  nw_trace :: "network_client_state_t list"

type_synonym net = "network_client \<times> net_world"

definition set_state :: "network_client_state_t \<Rightarrow> net \<Rightarrow> net" where
  "set_state st n = ((fst n)\<lparr>nc_state := st\<rparr>, (snd n)\<lparr>nw_trace := nw_trace (snd n) @ [st]\<rparr>)"

definition close_socket :: "net \<Rightarrow> net" where
  "close_socket n =
     (if nc_fd (fst n) \<ge> 0
      then ((fst n)\<lparr>nc_fd := -1\<rparr>, (snd n)\<lparr>nw_sockets := remove1 (nc_fd (fst n)) (nw_sockets (snd n))\<rparr>)
      else n)"

section \<open>Waiting\<close>

record revents =
  wake_in :: bool
  wake_err :: bool
  sock_nval :: bool
  sock_in :: bool
  sock_out :: bool
  sock_err_hup :: bool

datatype poll_answer = Poll_EINTR | Poll_failed | Poll_timeout | Poll_ready revents

text \<open>\<open>consume_stop_event\<close> repeats an interrupted read of the eventfd; it succeeds with 8 bytes.\<close>

fun consume_stop_event :: "int sys list \<Rightarrow> bool option" where
  "consume_stop_event [] = None"
| "consume_stop_event (EINTR # reads) = consume_stop_event reads"
| "consume_stop_event (Ret count # reads) = Some (count = 8)"
| "consume_stop_event (Fail # reads) = Some False"

definition stop_step :: "int sys list \<Rightarrow> step_result option" where
  "stop_step reads = (case consume_stop_event reads of None \<Rightarrow> None | Some ok \<Rightarrow> Some (if ok then STEP_STOP else STEP_ERROR))"

section \<open>Connecting\<close>

datatype connect_result = Connected | Connect_EINPROGRESS | Connect_failed

record connect_env =
  ce_socket :: int
  ce_nonblock :: bool
  ce_connect :: connect_result

definition connect_begin :: "connect_env \<Rightarrow> net \<Rightarrow> step_result \<times> net" where
  "connect_begin e n =
     (let n1 = ((fst n)\<lparr>nc_fd := ce_socket e\<rparr>,
                if ce_socket e < 0 then snd n else (snd n)\<lparr>nw_sockets := ce_socket e # nw_sockets (snd n)\<rparr>)
      in if ce_socket e < 0 then (STEP_ERROR, n1)
         else if \<not> ce_nonblock e then (STEP_ERROR, close_socket n1)
         else let n2 = set_state NETWORK_CLIENT_CONNECTING n1
         in (case ce_connect e of
               Connected \<Rightarrow> (STEP_OK, set_state NETWORK_CLIENT_CONNECTED n2)
             | Connect_EINPROGRESS \<Rightarrow> (STEP_PENDING, n2)
             | Connect_failed \<Rightarrow> (STEP_ERROR, close_socket n2)))"

text \<open>One round of the loop of \<open>connect_wait\<close>: the clock, the result of \<open>poll\<close> and the reads of the
  eventfd. The result \<open>STEP_OK\<close> stands for leaving the loop with a result of the connection.\<close>

fun connect_wait_loop :: "int \<Rightarrow> (int option \<times> poll_answer \<times> int sys list) list \<Rightarrow> step_result option" where
  "connect_wait_loop deadline [] = None"
| "connect_wait_loop deadline ((now, p, reads) # rounds) =
     (case now of
        None \<Rightarrow> Some STEP_ERROR
      | Some t \<Rightarrow>
          if deadline - t \<le> 0 then Some STEP_ERROR
          else (case p of
                  Poll_EINTR \<Rightarrow> connect_wait_loop deadline rounds
                | Poll_failed \<Rightarrow> Some STEP_ERROR
                | Poll_timeout \<Rightarrow> Some STEP_ERROR
                | Poll_ready r \<Rightarrow>
                    if wake_in r then stop_step reads
                    else if wake_err r then Some STEP_ERROR
                    else if sock_nval r then Some STEP_ERROR
                    else if sock_out r \<or> sock_err_hup r then Some STEP_OK
                    else connect_wait_loop deadline rounds))"

record wait_env =
  wa_start :: "int option"
  wa_rounds :: "(int option \<times> poll_answer \<times> int sys list) list"
  wa_so_error :: "int option"

definition connect_wait :: "wait_env \<Rightarrow> net \<Rightarrow> (step_result \<times> net) option" where
  "connect_wait e n =
     (case wa_start e of
        None \<Rightarrow> Some (STEP_ERROR, n)
      | Some now \<Rightarrow>
          (case connect_wait_loop (now + cc_connect_timeout_ms (nc_config (fst n))) (wa_rounds e) of
             None \<Rightarrow> None
           | Some STEP_OK \<Rightarrow>
               (case wa_so_error e of
                  None \<Rightarrow> Some (STEP_ERROR, n)
                | Some socket_error \<Rightarrow>
                    if socket_error \<noteq> 0 then Some (STEP_ERROR, n)
                    else Some (STEP_OK, set_state NETWORK_CLIENT_CONNECTED n))
           | Some r \<Rightarrow> Some (r, n)))"

section \<open>Backoff\<close>

text \<open>The loop of \<open>backoff_base_delay\<close> doubles the delay \<open>k = attempt - 1\<close> times at most.\<close>

fun backoff_loop :: "nat \<Rightarrow> u32 \<Rightarrow> u32 \<Rightarrow> u32" where
  "backoff_loop 0 delay max_ms = (if delay > max_ms then max_ms else delay)"
| "backoff_loop (Suc k) delay max_ms =
     (if delay < max_ms then (if delay > max_ms div 2 then max_ms else backoff_loop k (delay * 2) max_ms)
      else if delay > max_ms then max_ms else delay)"

definition backoff_base_delay :: "u32 \<Rightarrow> u32 \<Rightarrow> u32 \<Rightarrow> u32" where
  "backoff_base_delay attempt base_ms max_ms = backoff_loop (unat attempt - 1) base_ms max_ms"

definition backoff_jitter :: "(u32 \<Rightarrow> int \<times> u32) \<Rightarrow> u32 \<Rightarrow> u32 \<Rightarrow> u32 \<times> u32" where
  "backoff_jitter rand_r delay_ms rng_state =
     (let window = delay_ms div 4
      in if window = 0 then (0, rng_state)
         else case rand_r rng_state of (r, rng') \<Rightarrow> (word_of_int r mod (window + 1), rng'))"

text \<open>The conversion of the 64-bit sum to \<open>int\<close> keeps its low 32 bits.\<close>

definition backoff_timeout :: "u32 \<Rightarrow> u32 \<Rightarrow> int" where
  "backoff_timeout delay jitter = sint (word_of_int (uint delay + uint jitter) :: u32)"

text \<open>\<open>poll\<close> with a negative timeout never times out.\<close>

fun backoff_loop_wait :: "int \<Rightarrow> (poll_answer \<times> int sys list) list \<Rightarrow> step_result option" where
  "backoff_loop_wait timeout_ms [] = None"
| "backoff_loop_wait timeout_ms ((p, reads) # rounds) =
     (case p of
        Poll_timeout \<Rightarrow> if timeout_ms < 0 then None else Some STEP_OK
      | Poll_EINTR \<Rightarrow> backoff_loop_wait timeout_ms rounds
      | Poll_failed \<Rightarrow> Some STEP_ERROR
      | Poll_ready r \<Rightarrow> if wake_in r then stop_step reads else Some STEP_ERROR)"

definition backoff_wait ::
  "(u32 \<Rightarrow> int \<times> u32) \<Rightarrow> (poll_answer \<times> int sys list) list \<Rightarrow> net \<Rightarrow> (step_result \<times> net) option" where
  "backoff_wait rand_r rounds n =
     (let c = nc_config (fst n);
          delay = backoff_base_delay (nc_attempt (fst n)) (cc_backoff_base_ms c) (cc_backoff_max_ms c)
      in (case backoff_jitter rand_r delay (nc_rng_state (fst n)) of (jitter, rng) \<Rightarrow>
            let n1 = set_state NETWORK_CLIENT_BACKOFF ((fst n)\<lparr>nc_rng_state := rng\<rparr>, snd n)
            in (case backoff_loop_wait (backoff_timeout delay jitter) rounds of
                  None \<Rightarrow> None | Some r \<Rightarrow> Some (r, n1))))"

section \<open>Connected\<close>

datatype recv_result = Recv "u8 list" | Recv_closed | Recv_retry | Recv_failed

datatype send_result = Sent nat | Send_EAGAIN | Send_failed

definition send_heartbeat :: "send_result \<Rightarrow> net \<Rightarrow> bool" where
  "send_heartbeat s n =
     (case s of Sent k \<Rightarrow> k = cc_heartbeat_size (nc_config (fst n)) | Send_EAGAIN \<Rightarrow> True | Send_failed \<Rightarrow> False)"

record loop_env =
  lo_now :: "int option"
  lo_poll :: poll_answer
  lo_reads :: "int sys list"
  lo_recv :: recv_result
  lo_later :: "int option"
  lo_send :: send_result

definition deliver :: "u8 list \<Rightarrow> net \<Rightarrow> net" where
  "deliver bytes n =
     (if cc_on_data (nc_config (fst n)) then (fst n, (snd n)\<lparr>nw_delivered := nw_delivered (snd n) @ [bytes]\<rparr>) else n)"

text \<open>The heartbeat at the end of a round; \<open>None\<close> ends the loop with an error.\<close>

definition heartbeat_round :: "loop_env \<Rightarrow> int \<Rightarrow> net \<Rightarrow> int option" where
  "heartbeat_round e next_heartbeat n =
     (if next_heartbeat \<ge> 0 then
        (case lo_later e of
           None \<Rightarrow> None
         | Some now \<Rightarrow>
             if now \<ge> next_heartbeat then
               (if send_heartbeat (lo_send e) n then Some (now + uint (cc_heartbeat_interval_ms (nc_config (fst n)))) else None)
             else Some next_heartbeat)
      else Some next_heartbeat)"

text \<open>What \<open>poll\<close> reported; a timeout reports no event. Received data is handed over before a hang-up
  is looked at.\<close>

definition no_events :: revents where
  "no_events = \<lparr>wake_in = False, wake_err = False, sock_nval = False, sock_in = False, sock_out = False, sock_err_hup = False\<rparr>"

definition receive_round :: "loop_env \<Rightarrow> revents \<Rightarrow> net \<Rightarrow> step_result option \<times> net" where
  "receive_round e r n =
     (if sock_in r then
        (case lo_recv e of
           Recv bytes \<Rightarrow> (if sock_err_hup r then Some STEP_OK else None, deliver bytes n)
         | Recv_closed \<Rightarrow> (Some STEP_OK, n)
         | Recv_retry \<Rightarrow> (if sock_err_hup r then Some STEP_OK else None, n)
         | Recv_failed \<Rightarrow> (Some STEP_ERROR, n))
      else (if sock_err_hup r then Some STEP_OK else None, n))"

text \<open>One round: it ends the loop with a result, or goes on with the time of the next heartbeat. A
  round in which the reads of the eventfd are not over has no result.\<close>

definition connected_round :: "int \<Rightarrow> loop_env \<Rightarrow> net \<Rightarrow> ((step_result + int) \<times> net) option" where
  "connected_round next_heartbeat e n =
     (if next_heartbeat \<ge> 0 \<and> lo_now e = None then Some (Inl STEP_ERROR, n)
      else (case lo_poll e of
              Poll_EINTR \<Rightarrow> Some (Inr next_heartbeat, n)
            | Poll_failed \<Rightarrow> Some (Inl STEP_ERROR, n)
            | p \<Rightarrow>
                let r = (case p of Poll_ready r \<Rightarrow> r | _ \<Rightarrow> no_events)
                in if wake_in r then (case stop_step (lo_reads e) of None \<Rightarrow> None | Some s \<Rightarrow> Some (Inl s, n))
                   else if wake_err r then Some (Inl STEP_ERROR, n)
                   else if sock_nval r then Some (Inl STEP_ERROR, n)
                   else (case receive_round e r n of
                           (Some s, n1) \<Rightarrow> Some (Inl s, n1)
                         | (None, n1) \<Rightarrow>
                             (case heartbeat_round e next_heartbeat n1 of
                                None \<Rightarrow> Some (Inl STEP_ERROR, n1)
                              | Some next' \<Rightarrow> Some (Inr next', n1)))))"

fun connected_rounds :: "int \<Rightarrow> loop_env list \<Rightarrow> net \<Rightarrow> (step_result \<times> net) option" where
  "connected_rounds next_heartbeat [] n = None"
| "connected_rounds next_heartbeat (e # rounds) n =
     (case connected_round next_heartbeat e n of
        None \<Rightarrow> None
      | Some (Inl s, n1) \<Rightarrow> Some (s, n1)
      | Some (Inr next', n1) \<Rightarrow> connected_rounds next' rounds n1)"

definition connected_loop :: "int option \<Rightarrow> loop_env list \<Rightarrow> net \<Rightarrow> (step_result \<times> net) option" where
  "connected_loop start rounds n =
     (if cc_heartbeat_interval_ms (nc_config (fst n)) > 0 then
        (case start of
           None \<Rightarrow> Some (STEP_ERROR, n)
         | Some now \<Rightarrow> connected_rounds (now + uint (cc_heartbeat_interval_ms (nc_config (fst n)))) rounds n)
      else connected_rounds (-1) rounds n)"

section \<open>The worker\<close>

record turn_env =
  tu_connect :: connect_env
  tu_wait :: wait_env
  tu_start :: "int option"
  tu_loop :: "loop_env list"
  tu_backoff :: "(poll_answer \<times> int sys list) list"

definition connect_phase :: "turn_env \<Rightarrow> net \<Rightarrow> (step_result \<times> net) option" where
  "connect_phase e n =
     (case connect_begin (tu_connect e) n of
        (STEP_PENDING, n1) \<Rightarrow> connect_wait (tu_wait e) n1
      | r \<Rightarrow> Some r)"

definition next_attempt :: "net \<Rightarrow> net" where
  "next_attempt n =
     (if uint (nc_attempt (fst n)) < 4294967295 then ((fst n)\<lparr>nc_attempt := nc_attempt (fst n) + 1\<rparr>, snd n) else n)"

text \<open>One turn: \<open>True\<close> leaves the main loop.\<close>

definition worker_turn :: "(u32 \<Rightarrow> int \<times> u32) \<Rightarrow> turn_env \<Rightarrow> net \<Rightarrow> (bool \<times> net) option" where
  "worker_turn rand_r e n =
     (case connect_phase e n of
        None \<Rightarrow> None
      | Some (rc, n1) \<Rightarrow>
          if rc = STEP_STOP then Some (True, n1)
          else (case (if rc = STEP_OK
                      then (case connected_loop (tu_start e) (tu_loop e) ((fst n1)\<lparr>nc_attempt := 0\<rparr>, snd n1) of
                              None \<Rightarrow> None | Some (r, n2) \<Rightarrow> Some (r, close_socket n2))
                      else Some (STEP_ERROR, close_socket n1)) of
                  None \<Rightarrow> None
                | Some (r, n2) \<Rightarrow>
                    if r = STEP_STOP then Some (True, n2)
                    else (case backoff_wait rand_r (tu_backoff e) (next_attempt n2) of
                            None \<Rightarrow> None
                          | Some (b, n3) \<Rightarrow> Some (b \<noteq> STEP_OK, n3))))"

fun worker_turns :: "(u32 \<Rightarrow> int \<times> u32) \<Rightarrow> turn_env list \<Rightarrow> net \<Rightarrow> net option" where
  "worker_turns rand_r [] n = None"
| "worker_turns rand_r (e # es) n =
     (case worker_turn rand_r e n of
        None \<Rightarrow> None
      | Some (True, n1) \<Rightarrow> Some n1
      | Some (False, n1) \<Rightarrow> worker_turns rand_r es n1)"

definition network_client_worker :: "(u32 \<Rightarrow> int \<times> u32) \<Rightarrow> turn_env list \<Rightarrow> net \<Rightarrow> net option" where
  "network_client_worker rand_r es n =
     (case worker_turns rand_r es n of
        None \<Rightarrow> None
      | Some n1 \<Rightarrow> Some (set_state NETWORK_CLIENT_STOPPED (close_socket (set_state NETWORK_CLIENT_STOPPING n1))))"

section \<open>Life cycle\<close>

text \<open>\<open>sockaddr_storage\<close> has 128 bytes.\<close>

definition validate_config :: "network_client_config_t option \<Rightarrow> bool" where
  "validate_config config =
     (case config of
        None \<Rightarrow> False
      | Some c \<Rightarrow>
          \<not> (cc_server_addrlen c = 0 \<or> cc_server_addrlen c > 128 \<or> cc_connect_timeout_ms c \<le> 0 \<or>
             cc_backoff_base_ms c = 0 \<or> cc_backoff_max_ms c < cc_backoff_base_ms c \<or>
             (cc_heartbeat_interval_ms c > 0 \<and>
              (cc_heartbeat_data c = None \<or> cc_heartbeat_size c = 0 \<or> int (cc_heartbeat_size c) > LONG_MAX))))"

datatype net_resource = NR_Client | NR_Wake | NR_Thread

text \<open>\<open>seed\<close> is the value of \<open>time\<close> and \<open>getpid\<close> combined.\<close>

definition network_client_create ::
  "bool \<Rightarrow> int \<Rightarrow> u32 \<Rightarrow> network_client_config_t option \<Rightarrow> net_resource list \<Rightarrow> network_client option \<times> net_resource list" where
  "network_client_create calloc eventfd seed config held =
     (if \<not> validate_config config then (None, held)
      else if \<not> calloc then (None, held)
      else if eventfd < 0 then (None, held)
      else (Some \<lparr>nc_state = NETWORK_CLIENT_STOPPED, nc_fd = -1, nc_wake_fd = eventfd, nc_thread_started = False,
                  nc_attempt = 0, nc_rng_state = seed, nc_config = the config\<rparr>, NR_Wake # NR_Client # held))"

definition network_client_start ::
  "int \<Rightarrow> network_client option \<Rightarrow> net_resource list \<Rightarrow> int \<times> network_client option \<times> net_resource list" where
  "network_client_start rc client held =
     (case client of
        None \<Rightarrow> (-1, None, held)
      | Some c \<Rightarrow>
          if nc_thread_started c then (-1, Some c, held)
          else if rc \<noteq> 0 then (-1, Some c, held)
          else (0, Some (c\<lparr>nc_thread_started := True\<rparr>), NR_Thread # held))"

datatype write_result = Wrote int | Write_EINTR | Write_EAGAIN | Write_failed

fun stop_write :: "write_result list \<Rightarrow> int option" where
  "stop_write [] = None"
| "stop_write (Write_EINTR # ws) = stop_write ws"
| "stop_write (Wrote n # ws) = Some (if n = 8 then 0 else -1)"
| "stop_write (Write_EAGAIN # ws) = Some 0"
| "stop_write (Write_failed # ws) = Some (-1)"

definition network_client_request_stop :: "write_result list \<Rightarrow> network_client option \<Rightarrow> int option" where
  "network_client_request_stop ws client =
     (case client of None \<Rightarrow> Some (-1) | Some c \<Rightarrow> if \<not> nc_thread_started c then Some (-1) else stop_write ws)"

definition network_client_join ::
  "int \<Rightarrow> network_client option \<Rightarrow> net_resource list \<Rightarrow> int \<times> network_client option \<times> net_resource list" where
  "network_client_join rc client held =
     (case client of
        None \<Rightarrow> (-1, None, held)
      | Some c \<Rightarrow>
          if \<not> nc_thread_started c then (-1, Some c, held)
          else if rc \<noteq> 0 then (-1, Some c, held)
          else (0, Some (c\<lparr>nc_thread_started := False\<rparr>), remove1 NR_Thread held))"

text \<open>The result is the client, \<open>None\<close> when it has been freed, and the resources still owned.\<close>

definition network_client_destroy ::
  "write_result list \<Rightarrow> int \<Rightarrow> network_client option \<Rightarrow> net_world \<Rightarrow> net_resource list \<Rightarrow>
   (network_client option \<times> net_world \<times> net_resource list) option" where
  "network_client_destroy ws join_rc client w held =
     (case client of
        None \<Rightarrow> Some (None, w, held)
      | Some c \<Rightarrow>
          (case (if nc_thread_started c then network_client_request_stop ws client else Some 0) of
             None \<Rightarrow> None
           | Some rc \<Rightarrow>
               if rc < 0 then Some (Some c, w, held)
               else (case (if nc_thread_started c then network_client_join join_rc client held else (0, Some c, held)) of
                       (rc2, c2, held2) \<Rightarrow>
                         if rc2 < 0 then Some (Some c, w, held)
                         else let n = close_socket (the c2, w)
                              in Some (None, snd n, remove1 NR_Client (if nc_wake_fd (fst n) \<ge> 0 then remove1 NR_Wake held2 else held2)))))"

section \<open>Backoff: properties\<close>

lemma backoff_loop_exact:
  "uint (backoff_loop k delay max_ms) = min (uint delay * 2 ^ k) (uint max_ms)" if "delay \<noteq> 0"
  using that
proof (induction k arbitrary: delay)
  case 0
  then show ?case by (simp add: word_less_def min_def)
next
  case (Suc k)
  show ?case
  proof (cases "delay < max_ms")
    case False
    have "uint delay \<le> uint delay * 2 ^ Suc k"
      using mult_left_mono [of 1 "2 ^ Suc k" "uint delay"] one_le_power [of "2 :: int" "Suc k"] by simp
    then show ?thesis using False by (auto simp: word_less_def min_def)
  next
    case True
    have half: "uint (max_ms div 2) = uint max_ms div 2" by (simp add: uint_div)
    show ?thesis
    proof (cases "delay > max_ms div 2")
      case big: True
      then have "uint max_ms \<le> 2 * uint delay" using half by (simp add: word_less_def)
      also have "\<dots> \<le> uint delay * 2 ^ Suc k"
        using mult_left_mono [of 1 "2 ^ k" "2 * uint delay"] one_le_power [of "2 :: int" k] by (simp add: ac_simps)
      finally show ?thesis using True big by simp
    next
      case False
      then have le: "2 * uint delay \<le> uint max_ms" using half by (simp add: word_less_def)
      have "uint (delay * 2) = uint delay * 2"
        using le uint_lt2p [of max_ms] by (simp add: uint_word_ariths)
      moreover from this have "delay * 2 \<noteq> 0" using Suc.prems by (metis mult_eq_0_iff unsigned_0 unsigned_eq_0_iff zero_neq_numeral)
      ultimately show ?thesis using Suc.IH [of "delay * 2"] True False by (simp add: ac_simps)
    qed
  qed
qed

text \<open>
  The backoff delay is the capped exponential: for every attempt number, \<open>backoff_base_delay\<close>, whose
  loop doubles a 32-bit value with guards against overflow and stops early, returns
  \<open>min (base * 2^(attempt - 1)) max\<close> of the unbounded integers, for every 32-bit base and maximum
  with \<open>base \<le> max\<close>, as the configuration check demands.
\<close>

theorem backoff_base_delay_exact:
  assumes "base_ms \<noteq> 0"
  shows "uint (backoff_base_delay attempt base_ms max_ms) =
    min (uint base_ms * 2 ^ (unat attempt - 1)) (uint max_ms)"
  unfolding backoff_base_delay_def by (rule backoff_loop_exact [OF assms])

theorem backoff_base_delay_exact_witness:
  "uint (backoff_base_delay 40 100 30000) = min (100 * 2 ^ 39) 30000"
  using backoff_base_delay_exact [of 100 40 30000] by simp

lemma backoff_jitter_bound:
  assumes "backoff_jitter rand_r delay rng = (jitter, rng')"
  shows "4 * uint jitter \<le> uint delay"
proof (cases "delay div 4 = 0")
  case True
  then show ?thesis using assms by (auto simp: backoff_jitter_def)
next
  case False
  then obtain r where "jitter = word_of_int r mod (delay div 4 + 1)"
    using assms by (auto simp: backoff_jitter_def Let_def split: prod.splits)
  moreover have "(uint delay div 4 + 1) mod 4294967296 = uint delay div 4 + 1"
  proof (rule mod_pos_pos_trivial)
    show "0 \<le> uint delay div 4 + 1" using uint_ge_0 [of delay] by linarith
    show "uint delay div 4 + 1 < 4294967296" using uint_lt2p [of delay] by simp
  qed
  then have "uint (delay div 4 + 1) = uint delay div 4 + 1" by (simp add: uint_word_ariths uint_div)
  moreover have "0 \<le> uint delay div 4" using uint_ge_0 [of delay] by linarith
  ultimately have "uint jitter \<le> uint delay div 4"
    using pos_mod_bound [of "uint delay div 4 + 1" "uint (word_of_int r :: u32)"] uint_ge_0 [of delay]
    by (simp add: uint_mod)
  then show ?thesis by linarith
qed

text \<open>
  The wait never exceeds the capped delay by more than a quarter, as long as that fits an \<open>int\<close>.
\<close>

lemma backoff_timeout_exact:
  assumes "backoff_jitter rand_r delay rng = (jitter, rng')" and "5 * uint delay \<le> 4 * INT_MAX"
  shows "backoff_timeout delay jitter = uint delay + uint jitter \<and> uint delay \<le> backoff_timeout delay jitter \<and>
    4 * backoff_timeout delay jitter \<le> 5 * uint delay"
proof -
  have j: "4 * uint jitter \<le> uint delay" by (rule backoff_jitter_bound [OF assms(1)])
  then have b: "0 \<le> uint delay + uint jitter" "uint delay + uint jitter \<le> INT_MAX" using assms(2) by auto
  moreover have "- 2147483648 \<le> uint delay + uint jitter" using b(1) by linarith
  ultimately have "sint (word_of_int (uint delay + uint jitter) :: u32) = uint delay + uint jitter"
    using signed_take_bit_int_eq_self [of 31 "uint delay + uint jitter"]
    by (simp add: signed_of_int del: of_int_add)
  then show ?thesis using j by (simp add: backoff_timeout_def)
qed

text \<open>
  The configuration check admits a maximum of up to \<open>2^32 - 1\<close> milliseconds. A delay beyond
  \<open>INT_MAX\<close> becomes a negative timeout, with which \<open>poll\<close> waits for ever: the client never connects
  again.
\<close>

lemma backoff_overflow_never_reconnects:
  "backoff_timeout 2147483648 0 < 0 \<and> backoff_loop_wait (backoff_timeout 2147483648 0) rounds \<noteq> Some STEP_OK"
proof -
  have neg: "backoff_timeout 2147483648 0 < 0" by (simp add: backoff_timeout_def)
  have "backoff_loop_wait t rounds \<noteq> Some STEP_OK" if "t < 0" for t
    using that by (induction t rounds rule: backoff_loop_wait.induct)
      (auto simp: stop_step_def split: poll_answer.splits option.splits)
  then show ?thesis using neg by blast
qed

section \<open>The worker: properties\<close>

text \<open>\<open>net_ok n base\<close>: the client owns at most one socket, the one in \<open>fd\<close>, beside the sockets
  \<open>base\<close> of the rest of the process, and it owns one while it is connected.\<close>

definition net_ok :: "int list \<Rightarrow> net \<Rightarrow> bool" where
  "net_ok base n \<longleftrightarrow>
     nw_sockets (snd n) = (if nc_fd (fst n) \<ge> 0 then nc_fd (fst n) # base else base)"

definition idle :: "int list \<Rightarrow> net \<Rightarrow> bool" where
  "idle base n \<longleftrightarrow> nc_fd (fst n) < 0 \<and> nw_sockets (snd n) = base"

lemma net_ok_set_state [simp]: "net_ok base (set_state st n) = net_ok base n"
  by (simp add: net_ok_def set_state_def)

lemma net_ok_deliver [simp]: "net_ok base (deliver bytes n) = net_ok base n"
  by (simp add: net_ok_def deliver_def)

lemma close_socket_idle: "net_ok base n \<Longrightarrow> idle base (close_socket n)"
  by (auto simp: net_ok_def idle_def close_socket_def)

lemma idle_net_ok: "idle base n \<Longrightarrow> net_ok base n"
  by (simp add: net_ok_def idle_def)

text \<open>The fields no wait changes.\<close>

definition fixed_part :: "net \<Rightarrow> network_client_config_t \<times> int \<times> bool" where
  "fixed_part n = (nc_config (fst n), nc_wake_fd (fst n), nc_thread_started (fst n))"

lemma fixed_part_simps [simp]:
  "fixed_part (set_state st n) = fixed_part n" "fixed_part (deliver bytes n) = fixed_part n"
  "fixed_part (close_socket n) = fixed_part n" "fixed_part (next_attempt n) = fixed_part n"
  by (simp_all add: fixed_part_def set_state_def deliver_def close_socket_def next_attempt_def)

lemma connect_begin_ok:
  assumes "connect_begin e n = (r, n')" and "idle base n"
  shows "net_ok base n' \<and> (r = STEP_ERROR \<longrightarrow> idle base n') \<and> r \<noteq> STEP_STOP"
  using assms
  by (auto simp: connect_begin_def Let_def net_ok_def idle_def set_state_def close_socket_def
      split: if_splits connect_result.splits)

lemma stop_step_cases: "stop_step reads = Some r \<Longrightarrow> r = STEP_STOP \<or> r = STEP_ERROR"
  by (auto simp: stop_step_def split: option.splits if_splits)

lemma connect_wait_ok:
  assumes "connect_wait e n = Some (r, n')"
  shows "n' = n \<or> r = STEP_OK \<and> n' = set_state NETWORK_CLIENT_CONNECTED n \<and> wa_so_error e = Some 0"
  using assms by (auto simp: connect_wait_def split: option.splits step_result.splits if_splits)

lemma connect_phase_ok:
  assumes "connect_phase e n = Some (r, n')" and "idle base n"
  shows "net_ok base n'"
proof -
  obtain r1 n1 where b: "connect_begin (tu_connect e) n = (r1, n1)" by (metis surj_pair)
  note ok = connect_begin_ok [OF b assms(2)]
  show ?thesis
  proof (cases "r1 = STEP_PENDING")
    case True
    then have "connect_wait (tu_wait e) n1 = Some (r, n')" using assms(1) b by (simp add: connect_phase_def)
    from connect_wait_ok [OF this] ok show ?thesis by auto
  next
    case False
    then have "n' = n1" using assms(1) b by (cases r1) (auto simp: connect_phase_def)
    then show ?thesis using ok by simp
  qed
qed

lemma receive_round_ok:
  assumes "receive_round e r n = (s, n')"
  shows "net_ok base n' = net_ok base n \<and> fixed_part n' = fixed_part n"
  using assms by (auto simp: receive_round_def split: if_splits recv_result.splits)

lemma connected_round_ok:
  assumes "connected_round h e n = Some (x, n')"
  shows "net_ok base n' = net_ok base n \<and> fixed_part n' = fixed_part n"
  using assms receive_round_ok
  by (auto simp: connected_round_def Let_def split: if_splits option.splits poll_answer.splits prod.splits)

lemma connected_rounds_ok:
  "connected_rounds h rounds n = Some (r, n') \<Longrightarrow> net_ok base n' = net_ok base n \<and> fixed_part n' = fixed_part n"
proof (induction rounds arbitrary: h n)
  case (Cons e rounds)
  obtain x n1 where x: "connected_round h e n = Some (x, n1)"
    using Cons.prems by (auto split: option.splits)
  note ok = connected_round_ok [OF x]
  show ?case using Cons ok x by (cases x) auto
qed simp

lemma connected_loop_ok:
  "connected_loop start rounds n = Some (r, n') \<Longrightarrow> net_ok base n' = net_ok base n"
  using connected_rounds_ok by (auto simp: connected_loop_def split: if_splits option.splits)

lemma backoff_wait_ok:
  assumes "backoff_wait rand_r rounds n = Some (r, n')" and "idle base n"
  shows "idle base n'"
  using assms by (auto simp: backoff_wait_def Let_def idle_def set_state_def split: prod.splits option.splits)

lemma next_attempt_idle [simp]: "idle base (next_attempt n) = idle base n"
  by (simp add: next_attempt_def idle_def)

text \<open>The ways through a turn: a stop during the connection, a stop while connected, or a backoff
  after a connection that failed or was lost.\<close>

definition reset_attempt :: "net \<Rightarrow> net" where
  "reset_attempt n = ((fst n)\<lparr>nc_attempt := 0\<rparr>, snd n)"

definition lost :: "turn_env \<Rightarrow> net \<Rightarrow> net \<Rightarrow> bool" where
  "lost e n n2 \<longleftrightarrow>
     (\<exists>n1 r n3. connect_phase e n = Some (STEP_OK, n1) \<and>
        connected_loop (tu_start e) (tu_loop e) (reset_attempt n1) = Some (r, n3) \<and> r \<noteq> STEP_STOP \<and> n2 = close_socket n3) \<or>
     (\<exists>rc n1. connect_phase e n = Some (rc, n1) \<and> rc \<noteq> STEP_OK \<and> rc \<noteq> STEP_STOP \<and> n2 = close_socket n1)"

lemma worker_turn_cases:
  assumes "worker_turn rand_r e n = Some (stop, n')"
  obtains (connecting) "connect_phase e n = Some (STEP_STOP, n')" "stop"
  | (connected) n1 n2 where "connect_phase e n = Some (STEP_OK, n1)"
      "connected_loop (tu_start e) (tu_loop e) (reset_attempt n1) = Some (STEP_STOP, n2)" "n' = close_socket n2" "stop"
  | (again) n2 b where "lost e n n2" "backoff_wait rand_r (tu_backoff e) (next_attempt n2) = Some (b, n')" "stop = (b \<noteq> STEP_OK)"
proof -
  obtain rc n1 where c: "connect_phase e n = Some (rc, n1)" using assms by (auto simp: worker_turn_def split: option.splits)
  consider "rc = STEP_STOP" | "rc = STEP_OK" | "rc \<noteq> STEP_OK" "rc \<noteq> STEP_STOP" by blast
  then show thesis
  proof cases
    case 1
    then show thesis using connecting assms c by (simp add: worker_turn_def)
  next
    case 2
    then obtain r n3 where l: "connected_loop (tu_start e) (tu_loop e) (reset_attempt n1) = Some (r, n3)"
      using assms c by (auto simp: worker_turn_def reset_attempt_def split: option.splits)
    show thesis
    proof (cases "r = STEP_STOP")
      case True
      then show thesis using connected [of n1 n3] assms c l 2 by (simp add: worker_turn_def reset_attempt_def)
    next
      case False
      then have "lost e n (close_socket n3)" unfolding lost_def using c l 2 by blast
      moreover obtain b where "backoff_wait rand_r (tu_backoff e) (next_attempt (close_socket n3)) = Some (b, n')" "stop = (b \<noteq> STEP_OK)"
        using assms c l 2 False by (auto simp: worker_turn_def reset_attempt_def split: option.splits)
      ultimately show thesis by (rule again)
    qed
  next
    case 3
    then have "lost e n (close_socket n1)" unfolding lost_def using c by blast
    moreover obtain b where "backoff_wait rand_r (tu_backoff e) (next_attempt (close_socket n1)) = Some (b, n')" "stop = (b \<noteq> STEP_OK)"
      using assms c 3 by (auto simp: worker_turn_def split: option.splits)
    ultimately show thesis by (rule again)
  qed
qed

lemma reset_attempt_simps [simp]: "net_ok base (reset_attempt n) = net_ok base n" "fixed_part (reset_attempt n) = fixed_part n"
  by (simp_all add: reset_attempt_def net_ok_def fixed_part_def)

lemma connect_phase_fixed: "connect_phase e n = Some (r, n') \<Longrightarrow> fixed_part n' = fixed_part n"
  by (auto simp: connect_phase_def connect_begin_def Let_def fixed_part_def set_state_def close_socket_def
      split: if_splits connect_result.splits dest!: connect_wait_ok)

lemma connected_loop_fixed: "connected_loop st l n = Some (r, n') \<Longrightarrow> fixed_part n' = fixed_part n"
  using connected_rounds_ok by (auto simp: connected_loop_def split: if_splits option.splits)

lemma backoff_wait_fixed: "backoff_wait rand_r l n = Some (r, n') \<Longrightarrow> fixed_part n' = fixed_part n"
  by (auto simp: backoff_wait_def Let_def fixed_part_def set_state_def split: prod.splits option.splits)

lemma lost_ok: "lost e n n2 \<Longrightarrow> idle base n \<Longrightarrow> idle base n2 \<and> fixed_part n2 = fixed_part n"
  unfolding lost_def
  using close_socket_idle connect_phase_ok connected_loop_ok connect_phase_fixed connected_loop_fixed
  by (metis fixed_part_simps(3) reset_attempt_simps)

lemma worker_turn_ok:
  assumes "worker_turn rand_r e n = Some (stop, n')" and "idle base n"
  shows "net_ok base n' \<and> (\<not> stop \<longrightarrow> idle base n') \<and> fixed_part n' = fixed_part n"
  using assms(1)
proof (cases rule: worker_turn_cases)
  case connecting
  then show ?thesis using connect_phase_ok [OF _ assms(2)] connect_phase_fixed by blast
next
  case (connected n1 n2)
  have "net_ok base n2" using connect_phase_ok [OF connected(1) assms(2)] connected_loop_ok [OF connected(2), of base] by simp
  then show ?thesis
    using connected close_socket_idle idle_net_ok connect_phase_fixed [OF connected(1)] connected_loop_fixed [OF connected(2)]
    by simp
next
  case (again n2 b)
  note l = lost_ok [OF again(1) assms(2)]
  have "idle base n'" using backoff_wait_ok [OF again(2)] l by simp
  then show ?thesis using idle_net_ok backoff_wait_fixed [OF again(2)] l by simp
qed

lemma worker_turns_ok:
  "worker_turns rand_r es n = Some n' \<Longrightarrow> idle base n \<Longrightarrow> net_ok base n' \<and> fixed_part n' = fixed_part n"
proof (induction es arbitrary: n)
  case (Cons e es)
  then obtain stop n1 where t: "worker_turn rand_r e n = Some (stop, n1)" by (auto split: option.splits)
  from worker_turn_ok [OF t Cons.prems(2)] Cons t show ?case by (cases stop) auto
qed simp

lemma idle_set_state [simp]: "idle base (set_state st n) = idle base n"
  by (simp add: idle_def set_state_def)

lemma worker_end:
  assumes "network_client_worker rand_r es n = Some n'" and "nc_fd (fst n) < 0"
  shows "idle (nw_sockets (snd n)) n' \<and> fixed_part n' = fixed_part n \<and> nc_state (fst n') = NETWORK_CLIENT_STOPPED"
proof -
  have i: "idle (nw_sockets (snd n)) n" using assms(2) by (simp add: idle_def)
  obtain n1 where t: "worker_turns rand_r es n = Some n1"
    and n': "n' = set_state NETWORK_CLIENT_STOPPED (close_socket (set_state NETWORK_CLIENT_STOPPING n1))"
    using assms(1) by (auto simp: network_client_worker_def split: option.splits)
  note ok = worker_turns_ok [OF t i]
  have "idle (nw_sockets (snd n)) (close_socket (set_state NETWORK_CLIENT_STOPPING n1))"
    using ok by (intro close_socket_idle) simp
  moreover have "nc_state (fst n') = NETWORK_CLIENT_STOPPED" using n' by (simp add: set_state_def)
  ultimately show ?thesis using n' ok by simp
qed

text \<open>
  The worker leaves nothing behind. Whatever the kernel answers in any number of connection
  attempts, waits, received blocks, heartbeats and backoffs: when the worker returns, the client is
  STOPPED, holds no descriptor, and the open sockets of the process are those from before it started;
  its configuration, wake descriptor and thread flag are unchanged.
\<close>

theorem network_worker_cleans_up:
  assumes "network_client_worker rand_r es n = Some n'" and "nc_fd (fst n) < 0"
  shows "nc_state (fst n') = NETWORK_CLIENT_STOPPED \<and> nc_fd (fst n') < 0 \<and>
    nw_sockets (snd n') = nw_sockets (snd n) \<and> fixed_part n' = fixed_part n"
  using worker_end [OF assms] by (simp add: idle_def)

section \<open>The state machine\<close>

fun client_edge :: "network_client_state_t \<Rightarrow> network_client_state_t \<Rightarrow> bool" where
  "client_edge NETWORK_CLIENT_STOPPED s = (s = NETWORK_CLIENT_CONNECTING \<or> s = NETWORK_CLIENT_BACKOFF)"
| "client_edge NETWORK_CLIENT_CONNECTING s =
     (s = NETWORK_CLIENT_CONNECTED \<or> s = NETWORK_CLIENT_BACKOFF \<or> s = NETWORK_CLIENT_STOPPING)"
| "client_edge NETWORK_CLIENT_CONNECTED s = (s = NETWORK_CLIENT_BACKOFF \<or> s = NETWORK_CLIENT_STOPPING)"
| "client_edge NETWORK_CLIENT_BACKOFF s =
     (s = NETWORK_CLIENT_CONNECTING \<or> s = NETWORK_CLIENT_BACKOFF \<or> s = NETWORK_CLIENT_STOPPING)"
| "client_edge NETWORK_CLIENT_STOPPING s = (s = NETWORK_CLIENT_STOPPED)"

fun client_path :: "network_client_state_t \<Rightarrow> network_client_state_t list \<Rightarrow> bool" where
  "client_path s [] = True"
| "client_path s (t # ts) = (client_edge s t \<and> client_path t ts)"

lemma client_path_append: "client_path s (xs @ ys) \<longleftrightarrow> client_path s xs \<and> client_path (last (s # xs)) ys"
  by (induction xs arbitrary: s) auto

text \<open>\<open>moves n n'\<close>: the states between \<open>n\<close> and \<open>n'\<close> are a path of the machine.\<close>

definition moves :: "net \<Rightarrow> net \<Rightarrow> bool" where
  "moves n n' \<longleftrightarrow>
     (\<exists>xs. nw_trace (snd n') = nw_trace (snd n) @ xs \<and> client_path (nc_state (fst n)) xs \<and>
        nc_state (fst n') = last (nc_state (fst n) # xs))"

lemma moves_trans:
  assumes "moves n n1" and "moves n1 n2"
  shows "moves n n2"
proof -
  from assms obtain xs ys where "nw_trace (snd n2) = nw_trace (snd n) @ (xs @ ys)"
    "client_path (nc_state (fst n)) xs" "nc_state (fst n1) = last (nc_state (fst n) # xs)"
    "client_path (nc_state (fst n1)) ys" "nc_state (fst n2) = last (nc_state (fst n1) # ys)"
    by (auto simp: moves_def)
  then show ?thesis unfolding moves_def by (intro exI [of _ "xs @ ys"]) (auto simp: client_path_append)
qed

lemma moves_same: "nw_trace (snd n') = nw_trace (snd n) \<Longrightarrow> nc_state (fst n') = nc_state (fst n) \<Longrightarrow> moves n n'"
  unfolding moves_def by (intro exI [of _ "[]"]) simp

lemma moves_set_state: "client_edge (nc_state (fst n)) st \<Longrightarrow> moves n (set_state st n)"
  unfolding moves_def by (intro exI [of _ "[st]"]) (simp add: set_state_def)

definition at_start :: "net \<Rightarrow> bool" where
  "at_start n \<longleftrightarrow> nc_state (fst n) = NETWORK_CLIENT_STOPPED \<or> nc_state (fst n) = NETWORK_CLIENT_BACKOFF"

lemma close_socket_moves: "moves n (close_socket n)" "nc_state (fst (close_socket n)) = nc_state (fst n)"
  by (simp_all add: moves_same close_socket_def)

lemma connect_begin_moves:
  assumes "connect_begin e n = (r, n')" and "at_start n"
  shows "moves n n' \<and> (r = STEP_PENDING \<longrightarrow> nc_state (fst n') = NETWORK_CLIENT_CONNECTING) \<and>
    (r = STEP_OK \<longrightarrow> nc_state (fst n') = NETWORK_CLIENT_CONNECTED \<and> ce_connect e = Connected) \<and>
    nc_state (fst n') \<noteq> NETWORK_CLIENT_STOPPING"
proof -
  define n1 where "n1 = ((fst n)\<lparr>nc_fd := ce_socket e\<rparr>,
    if ce_socket e < 0 then snd n else (snd n)\<lparr>nw_sockets := ce_socket e # nw_sockets (snd n)\<rparr>)"
  define n2 where "n2 = set_state NETWORK_CLIENT_CONNECTING n1"
  have n1: "nc_state (fst n1) = nc_state (fst n)" "moves n n1" by (simp_all add: n1_def moves_same)
  have "client_edge (nc_state (fst n1)) NETWORK_CLIENT_CONNECTING" using assms(2) n1(1) by (auto simp: at_start_def)
  then have n2: "moves n n2" "nc_state (fst n2) = NETWORK_CLIENT_CONNECTING"
    using moves_trans [OF n1(2) moves_set_state] by (simp_all add: n2_def set_state_def)
  have n3: "moves n (set_state NETWORK_CLIENT_CONNECTED n2)" using n2 by (intro moves_trans [OF n2(1) moves_set_state]) simp
  have ns: "nc_state (fst n) \<noteq> NETWORK_CLIENT_STOPPING" using assms(2) by (auto simp: at_start_def)
  have "r = STEP_ERROR \<and> (n' = n1 \<or> n' = close_socket n1 \<or> n' = close_socket n2) \<or> r = STEP_PENDING \<and> n' = n2 \<or>
      r = STEP_OK \<and> n' = set_state NETWORK_CLIENT_CONNECTED n2 \<and> ce_connect e = Connected"
    using assms(1) unfolding connect_begin_def n1_def [symmetric] Let_def n2_def [symmetric]
    by (auto split: if_splits connect_result.splits)
  then show ?thesis
    using n1 n2 n3 ns moves_trans [OF n1(2) close_socket_moves(1)] moves_trans [OF n2(1) close_socket_moves(1)]
    by (elim disjE conjE) (simp_all add: close_socket_moves(2), simp add: set_state_def)
qed

lemma connect_phase_moves:
  assumes "connect_phase e n = Some (r, n')" and "at_start n"
  shows "moves n n' \<and> nc_state (fst n') \<noteq> NETWORK_CLIENT_STOPPING \<and>
    (r = STEP_OK \<longrightarrow> nc_state (fst n') = NETWORK_CLIENT_CONNECTED) \<and>
    (r = STEP_STOP \<longrightarrow> nc_state (fst n') = NETWORK_CLIENT_CONNECTING)"
proof -
  obtain r1 n1 where b: "connect_begin (tu_connect e) n = (r1, n1)" by (metis surj_pair)
  note m = connect_begin_moves [OF b assms(2)]
  show ?thesis
  proof (cases "r1 = STEP_PENDING")
    case True
    then have w: "connect_wait (tu_wait e) n1 = Some (r, n')" using assms(1) b by (simp add: connect_phase_def)
    have st: "nc_state (fst n1) = NETWORK_CLIENT_CONNECTING" using m True by simp
    have ok: "r = STEP_OK \<Longrightarrow> n' = set_state NETWORK_CLIENT_CONNECTED n1"
      using w by (auto simp: connect_wait_def split: option.splits step_result.splits if_splits)
    from connect_wait_ok [OF w] show ?thesis
      using m st ok moves_trans [of n n1] moves_set_state [of n1 NETWORK_CLIENT_CONNECTED]
      by (auto simp: set_state_def)
  next
    case False
    then have "n' = n1" "r = r1" using assms(1) b by (cases r1; simp add: connect_phase_def)+
    then show ?thesis using m connect_begin_ok [OF b, of "nw_sockets (snd n)"] b
      by (auto simp: connect_begin_def Let_def split: if_splits connect_result.splits)
  qed
qed

lemma connected_round_moves:
  assumes "connected_round h e n = Some (x, n')"
  shows "nw_trace (snd n') = nw_trace (snd n) \<and> nc_state (fst n') = nc_state (fst n)"
proof -
  have "nw_trace (snd n1) = nw_trace (snd n) \<and> nc_state (fst n1) = nc_state (fst n)"
    if "receive_round e r n = (s, n1)" for r s n1
    using that by (auto simp: receive_round_def deliver_def split: if_splits recv_result.splits)
  then show ?thesis
    using assms by (auto simp: connected_round_def Let_def split: if_splits option.splits poll_answer.splits prod.splits)
qed

lemma connected_loop_moves:
  assumes "connected_loop st rounds n = Some (r, n')"
  shows "nw_trace (snd n') = nw_trace (snd n) \<and> nc_state (fst n') = nc_state (fst n)"
proof -
  have "connected_rounds h rounds n = Some (r, n') \<Longrightarrow> ?thesis" for h
  proof (induction rounds arbitrary: h n)
    case (Cons e rounds)
    then obtain x n1 where x: "connected_round h e n = Some (x, n1)" by (auto split: option.splits)
    then show ?case using Cons connected_round_moves [OF x] by (cases x) auto
  qed simp
  then show ?thesis using assms by (auto simp: connected_loop_def split: if_splits option.splits)
qed

lemma backoff_wait_moves:
  assumes "backoff_wait rand_r rounds n = Some (r, n')" and "nc_state (fst n) \<noteq> NETWORK_CLIENT_STOPPING"
  shows "moves n n' \<and> nc_state (fst n') = NETWORK_CLIENT_BACKOFF"
proof -
  obtain g where n': "n' = set_state NETWORK_CLIENT_BACKOFF ((fst n)\<lparr>nc_rng_state := g\<rparr>, snd n)"
    using assms(1) by (auto simp: backoff_wait_def Let_def split: prod.splits option.splits)
  have "client_edge (nc_state (fst n)) NETWORK_CLIENT_BACKOFF" using assms(2) by (cases "nc_state (fst n)") auto
  then show ?thesis unfolding n' moves_def set_state_def by (auto intro!: exI [of _ "[NETWORK_CLIENT_BACKOFF]"])
qed

lemma lost_moves:
  assumes "lost e n n2" and "at_start n"
  shows "moves n n2 \<and> nc_state (fst n2) \<noteq> NETWORK_CLIENT_STOPPING"
  using assms(1) unfolding lost_def
proof (elim disjE exE conjE)
  fix n1 r n3 assume c: "connect_phase e n = Some (STEP_OK, n1)"
    and l: "connected_loop (tu_start e) (tu_loop e) (reset_attempt n1) = Some (r, n3)" and n2: "n2 = close_socket n3"
  have "moves n1 n2"
    using connected_loop_moves [OF l] n2 by (intro moves_same) (simp_all add: reset_attempt_def close_socket_def)
  then have "moves n n2" using connect_phase_moves [OF c assms(2)] moves_trans [of n n1 n2] by blast
  then show ?thesis
    using connect_phase_moves [OF c assms(2)] connected_loop_moves [OF l] n2
    by (simp add: reset_attempt_def close_socket_moves)
next
  fix rc n1 assume c: "connect_phase e n = Some (rc, n1)" and n2: "n2 = close_socket n1"
  then show ?thesis
    using connect_phase_moves [OF c assms(2)] moves_trans close_socket_moves by metis
qed

lemma worker_turn_moves:
  assumes "worker_turn rand_r e n = Some (stop, n')" and "at_start n"
  shows "moves n n' \<and> (if stop then client_edge (nc_state (fst n')) NETWORK_CLIENT_STOPPING else at_start n')"
  using assms(1)
proof (cases rule: worker_turn_cases)
  case connecting
  then show ?thesis using connect_phase_moves [OF _ assms(2)] by fastforce
next
  case (connected n1 n2)
  have "moves n1 n'"
    using connected_loop_moves [OF connected(2)] connected(3)
    by (intro moves_same) (simp_all add: reset_attempt_def close_socket_def)
  then have "moves n n'" using connect_phase_moves [OF connected(1) assms(2)] moves_trans [of n n1 n'] by blast
  then show ?thesis
    using connect_phase_moves [OF connected(1) assms(2)] connected_loop_moves [OF connected(2)] connected(3,4)
    by (simp add: reset_attempt_def close_socket_moves)
next
  case (again n2 b)
  note l = lost_moves [OF again(1) assms(2)]
  have a: "moves n2 (next_attempt n2)" "nc_state (fst (next_attempt n2)) = nc_state (fst n2)"
    by (simp_all add: moves_same next_attempt_def)
  have b: "moves (next_attempt n2) n'" "nc_state (fst n') = NETWORK_CLIENT_BACKOFF"
    using backoff_wait_moves [OF again(2)] a(2) l by simp_all
  have "moves n n'" using moves_trans [OF moves_trans [OF _ a(1)] b(1)] l by blast
  then show ?thesis using b(2) by (simp add: at_start_def)
qed

text \<open>
  C18: The worker follows its state machine. Started from STOPPED, the states the client goes through
  until the worker returns form a path of the machine: a connection is established only from
  CONNECTING, every lost or failed connection goes through BACKOFF, BACKOFF leads to another attempt or
  to the end, and the last two states are STOPPING and STOPPED.
\<close>

theorem network_worker_states:
  assumes "network_client_worker rand_r es n = Some n'" and "nc_state (fst n) = NETWORK_CLIENT_STOPPED"
  shows "\<exists>xs. nw_trace (snd n') = nw_trace (snd n) @ xs @ [NETWORK_CLIENT_STOPPING, NETWORK_CLIENT_STOPPED] \<and>
    client_path NETWORK_CLIENT_STOPPED (xs @ [NETWORK_CLIENT_STOPPING, NETWORK_CLIENT_STOPPED])"
proof -
  have turns: "moves m m1 \<and> client_edge (nc_state (fst m1)) NETWORK_CLIENT_STOPPING"
    if "worker_turns rand_r es m = Some m1" "at_start m" for es m m1
    using that
  proof (induction es arbitrary: m)
    case (Cons e es)
    then obtain stop m2 where t: "worker_turn rand_r e m = Some (stop, m2)" by (auto split: option.splits)
    from worker_turn_moves [OF t Cons.prems(2)] Cons t moves_trans show ?case by (cases stop) fastforce+
  qed simp
  obtain n1 where t: "worker_turns rand_r es n = Some n1"
    and n': "n' = set_state NETWORK_CLIENT_STOPPED (close_socket (set_state NETWORK_CLIENT_STOPPING n1))"
    using assms(1) by (auto simp: network_client_worker_def split: option.splits)
  from turns [OF t] assms(2) obtain xs where "nw_trace (snd n1) = nw_trace (snd n) @ xs"
    "client_path NETWORK_CLIENT_STOPPED xs" "client_edge (last (NETWORK_CLIENT_STOPPED # xs)) NETWORK_CLIENT_STOPPING"
    by (auto simp: moves_def at_start_def)
  then show ?thesis
    using n' by (intro exI [of _ xs]) (simp add: set_state_def close_socket_def client_path_append)
qed

section \<open>Stopping and not stopping\<close>

text \<open>An eventfd that is not signalled, and a backoff whose \<open>poll\<close> is interrupted or times out.\<close>

definition no_wake :: "poll_answer \<Rightarrow> bool" where
  "no_wake p = (case p of Poll_ready r \<Rightarrow> \<not> wake_in r | _ \<Rightarrow> True)"

definition calm_backoff :: "poll_answer \<Rightarrow> bool" where
  "calm_backoff p \<longleftrightarrow> p = Poll_timeout \<or> p = Poll_EINTR"

definition undisturbed :: "turn_env \<Rightarrow> bool" where
  "undisturbed e \<longleftrightarrow>
     (\<forall>r \<in> set (wa_rounds (tu_wait e)). no_wake (fst (snd r))) \<and> (\<forall>l \<in> set (tu_loop e). no_wake (lo_poll l)) \<and>
     (\<forall>b \<in> set (tu_backoff e). calm_backoff (fst b))"

lemma connect_wait_loop_no_stop:
  "\<forall>r \<in> set rounds. no_wake (fst (snd r)) \<Longrightarrow> connect_wait_loop deadline rounds \<noteq> Some STEP_STOP"
  by (induction deadline rounds rule: connect_wait_loop.induct)
    (auto simp: no_wake_def split: option.splits poll_answer.splits)

lemma connect_phase_no_stop:
  assumes "\<forall>r \<in> set (wa_rounds (tu_wait e)). no_wake (fst (snd r))"
  shows "connect_phase e n \<noteq> Some (STEP_STOP, n')"
  using connect_wait_loop_no_stop [OF assms]
  by (auto simp: connect_phase_def connect_wait_def connect_begin_def Let_def
      split: option.splits step_result.splits if_splits connect_result.splits)

lemma connected_rounds_no_stop:
  "\<forall>l \<in> set rounds. no_wake (lo_poll l) \<Longrightarrow> connected_rounds h rounds n \<noteq> Some (STEP_STOP, n')"
proof (induction rounds arbitrary: h n)
  case (Cons e rounds)
  have "fst x \<noteq> Inl STEP_STOP" if "connected_round h e n = Some x" for x
  proof -
    have "receive_round e r n \<noteq> (Some STEP_STOP, m)" for r m
      by (auto simp: receive_round_def split: recv_result.splits)
    then show ?thesis
      using that Cons.prems
      by (auto simp: connected_round_def Let_def no_wake_def no_events_def
          split: if_splits option.splits poll_answer.splits prod.splits)
  qed
  then show ?case using Cons by (auto split: option.splits sum.splits)
qed simp

lemma backoff_loop_wait_calm:
  "\<forall>b \<in> set rounds. calm_backoff (fst b) \<Longrightarrow> backoff_loop_wait t rounds = Some r \<Longrightarrow> r = STEP_OK"
  by (induction t rounds rule: backoff_loop_wait.induct) (auto simp: calm_backoff_def split: if_splits)

lemma backoff_wait_calm:
  assumes "\<forall>b \<in> set rounds. calm_backoff (fst b)" and "backoff_wait rand_r rounds n = Some (r, n')"
  shows "r = STEP_OK"
  using assms(2) backoff_loop_wait_calm [OF assms(1)] by (auto simp: backoff_wait_def Let_def split: prod.splits option.splits)

lemma undisturbed_turn:
  assumes "undisturbed e" and "worker_turn rand_r e n = Some (stop, n')"
  shows "\<not> stop"
  using assms(2)
proof (cases rule: worker_turn_cases)
  case connecting
  then show ?thesis using connect_phase_no_stop assms(1) unfolding undisturbed_def by blast
next
  case (connected n1 n2)
  then show ?thesis
    using connected_rounds_no_stop assms(1)
    by (auto simp: undisturbed_def connected_loop_def split: if_splits option.splits)
next
  case (again n2 b)
  then show ?thesis using backoff_wait_calm [OF _ again(2)] assms(1) by (simp add: undisturbed_def)
qed

text \<open>
  The client gives up only when it is told to. As long as the eventfd is not signalled and no backoff
  \<open>poll\<close> fails, the worker does not return: after every refused, timed-out, lost or failed connection, for
  any number of attempts and any other answers of the kernel, it goes on to the next attempt.
\<close>

theorem network_worker_persists:
  assumes "\<forall>e \<in> set es. undisturbed e"
  shows "network_client_worker rand_r es n = None"
proof -
  have "worker_turns rand_r es n = None"
    using assms
  proof (induction es arbitrary: n)
    case (Cons e es)
    then show ?case using undisturbed_turn [of e rand_r n] by (auto split: option.splits bool.splits)
  qed simp
  then show ?thesis by (simp add: network_client_worker_def)
qed

text \<open>A stop request ends every wait in the round that reports it, whatever else is reported.\<close>

lemma network_stop_ends_waits:
  assumes "wake_in r" and "consume_stop_event reads = Some True"
  shows "t < deadline \<Longrightarrow> connect_wait_loop deadline ((Some t, Poll_ready r, reads) # rounds) = Some STEP_STOP"
    and "lo_poll e = Poll_ready r \<Longrightarrow> lo_reads e = reads \<Longrightarrow> h < 0 \<or> lo_now e \<noteq> None \<Longrightarrow>
      connected_rounds h (e # es) n = Some (STEP_STOP, n)"
    and "backoff_loop_wait timeout_ms ((Poll_ready r, reads) # brounds) = Some STEP_STOP"
  using assms by (auto simp: stop_step_def connected_round_def Let_def)

lemma backoff_loop_wait_ends:
  "0 \<le> t \<Longrightarrow> backoff_loop_wait t (map (Pair Poll_EINTR) rs @ (Poll_timeout, reads) # rest) = Some STEP_OK"
  by (induction rs) simp_all


section \<open>Life cycle: properties\<close>

text \<open>
  C20: The life of a client is balanced. A client that was created and started, whose worker ran (for
  any answers of the kernel) and returned, is freed by \<open>network_client_destroy\<close> with exactly the
  resources and sockets of before its creation left, when the stop notification and the join succeed;
  when one of them fails the client is kept, with all its resources, rather than freed under a thread
  that may still use it. A creation that fails leaves nothing.
\<close>

theorem network_client_balanced:
  assumes "network_client_create calloc eventfd seed config held = (c, held1)"
  shows "(case c of
      None \<Rightarrow> held1 = held
    | Some c0 \<Rightarrow> \<forall>c1 held2 n' w.
        network_client_start 0 (Some c0) held1 = (0, Some c1, held2) \<longrightarrow>
        network_client_worker rand_r es (c1, w) = Some n' \<longrightarrow>
        (stop_write ws = Some 0 \<longrightarrow>
           (\<exists>w'. network_client_destroy ws 0 (Some (fst n')) (snd n') held2 = Some (None, w', held) \<and>
              nw_sockets w' = nw_sockets w)) \<and>
        (stop_write ws = Some (-1) \<or> stop_write ws = Some 0 \<and> rc \<noteq> 0 \<longrightarrow>
           network_client_destroy ws rc (Some (fst n')) (snd n') held2 = Some (Some (fst n'), snd n', held2)))"
proof (cases c)
  case None
  then show ?thesis using assms by (auto simp: network_client_create_def split: if_splits)
next
  case (Some c0)
  have c0: "c0 = \<lparr>nc_state = NETWORK_CLIENT_STOPPED, nc_fd = -1, nc_wake_fd = eventfd, nc_thread_started = False,
      nc_attempt = 0, nc_rng_state = seed, nc_config = the config\<rparr>" and held1: "held1 = NR_Wake # NR_Client # held"
    and fd: "eventfd \<ge> 0"
    using assms Some by (auto simp: network_client_create_def split: if_splits)
  have "(stop_write ws = Some 0 \<longrightarrow>
           (\<exists>w'. network_client_destroy ws 0 (Some (fst n')) (snd n') held2 = Some (None, w', held) \<and>
              nw_sockets w' = nw_sockets w)) \<and>
        (stop_write ws = Some (-1) \<or> stop_write ws = Some 0 \<and> rc \<noteq> 0 \<longrightarrow>
           network_client_destroy ws rc (Some (fst n')) (snd n') held2 = Some (Some (fst n'), snd n', held2))"
    if st: "network_client_start 0 (Some c0) held1 = (0, Some c1, held2)"
      and wk: "network_client_worker rand_r es (c1, w) = Some n'" for c1 held2 n' w
  proof -
    have c1: "c1 = c0\<lparr>nc_thread_started := True\<rparr>" "held2 = NR_Thread # held1"
      using st c0 by (auto simp: network_client_start_def)
    have "nc_fd (fst (c1, w)) < 0" using c1 c0 by simp
    note ok = worker_end [OF wk this]
    then have "idle (nw_sockets w) n'" by simp
    moreover have "nc_thread_started (fst n')" "nc_wake_fd (fst n') = eventfd"
      using ok c1 c0 by (auto simp: fixed_part_def)
    ultimately show ?thesis
      using c1 held1 fd
      by (auto simp: network_client_destroy_def network_client_request_stop_def network_client_join_def idle_def
          close_socket_def Let_def)
  qed
  then show ?thesis using Some by simp
qed

section \<open>A run of the client\<close>

text \<open>A refused connection, a backoff, a second attempt that connects and receives two blocks, and a
  stop.\<close>

definition sample_config :: network_client_config_t where
  "sample_config = \<lparr>cc_server_addrlen = 16, cc_connect_timeout_ms = 1000, cc_backoff_base_ms = 100, cc_backoff_max_ms = 30000,
     cc_heartbeat_interval_ms = 0, cc_heartbeat_data = None, cc_heartbeat_size = 0, cc_on_data = True\<rparr>"

definition sample_client :: network_client where
  "sample_client = \<lparr>nc_state = NETWORK_CLIENT_STOPPED, nc_fd = -1, nc_wake_fd = 4, nc_thread_started = True,
     nc_attempt = 0, nc_rng_state = 7, nc_config = sample_config\<rparr>"

definition sample_net :: net where
  "sample_net = (sample_client, \<lparr>nw_sockets = [3], nw_delivered = [], nw_trace = []\<rparr>)"

definition quiet_wait :: wait_env where
  "quiet_wait = \<lparr>wa_start = Some 10, wa_rounds = [(Some 11, Poll_ready (no_events\<lparr>sock_out := True\<rparr>), [])], wa_so_error = Some 0\<rparr>"

definition data_round :: "u8 list \<Rightarrow> loop_env" where
  "data_round bytes = \<lparr>lo_now = None, lo_poll = Poll_ready (no_events\<lparr>sock_in := True\<rparr>), lo_reads = [], lo_recv = Recv bytes,
     lo_later = None, lo_send = Send_failed\<rparr>"

definition stop_event :: loop_env where
  "stop_event = \<lparr>lo_now = None, lo_poll = Poll_ready (no_events\<lparr>wake_in := True\<rparr>), lo_reads = [EINTR, Ret 8], lo_recv = Recv_retry,
     lo_later = None, lo_send = Send_failed\<rparr>"

definition sample_turns :: "turn_env list" where
  "sample_turns =
     [\<lparr>tu_connect = \<lparr>ce_socket = 5, ce_nonblock = True, ce_connect = Connect_failed\<rparr>, tu_wait = quiet_wait, tu_start = None,
        tu_loop = [], tu_backoff = [(Poll_EINTR, []), (Poll_timeout, [])]\<rparr>,
      \<lparr>tu_connect = \<lparr>ce_socket = 6, ce_nonblock = True, ce_connect = Connect_EINPROGRESS\<rparr>, tu_wait = quiet_wait, tu_start = None,
        tu_loop = [data_round [1, 2], data_round [3], stop_event], tu_backoff = []\<rparr>]"

definition sample_rand :: "u32 \<Rightarrow> int \<times> u32" where
  "sample_rand s = (3, s + 1)"

lemma sample_first_turn:
  "\<exists>n1. worker_turn sample_rand (hd sample_turns) sample_net = Some (False, n1) \<and> n1 =
     (sample_client\<lparr>nc_state := NETWORK_CLIENT_BACKOFF, nc_attempt := 1, nc_rng_state := 8\<rparr>,
      \<lparr>nw_sockets = [3], nw_delivered = [], nw_trace = [NETWORK_CLIENT_CONNECTING, NETWORK_CLIENT_BACKOFF]\<rparr>)"
  by (simp add: worker_turn_def sample_turns_def sample_net_def sample_client_def connect_phase_def connect_begin_def set_state_def
      close_socket_def next_attempt_def backoff_wait_def backoff_jitter_def sample_config_def sample_rand_def
      backoff_base_delay_def backoff_timeout_def Let_def)

lemma sample_worker:
  "\<exists>n'. network_client_worker sample_rand sample_turns sample_net = Some n' \<and> nw_delivered (snd n') = [[1, 2], [3]]"
proof -
  have t: "sample_turns = [hd sample_turns, hd (tl sample_turns)]" by (simp add: sample_turns_def)
  obtain n1 where 1: "worker_turn sample_rand (hd sample_turns) sample_net = Some (False, n1)" and n1: "n1 =
     (sample_client\<lparr>nc_state := NETWORK_CLIENT_BACKOFF, nc_attempt := 1, nc_rng_state := 8\<rparr>,
      \<lparr>nw_sockets = [3], nw_delivered = [], nw_trace = [NETWORK_CLIENT_CONNECTING, NETWORK_CLIENT_BACKOFF]\<rparr>)"
    using sample_first_turn by blast
  obtain n2 where 2: "worker_turn sample_rand (hd (tl sample_turns)) n1 = Some (True, n2)" "nw_delivered (snd n2) = [[1, 2], [3]]"
    unfolding n1
    by (simp add: worker_turn_def sample_turns_def sample_client_def connect_phase_def connect_begin_def set_state_def
        close_socket_def connect_wait_def quiet_wait_def no_events_def sample_config_def connected_loop_def
        data_round_def stop_event_def connected_round_def receive_round_def deliver_def heartbeat_round_def stop_step_def Let_def)
  have "worker_turns sample_rand sample_turns sample_net = Some n2" by (subst t) (simp add: 1 2)
  then show ?thesis using 2 by (simp add: network_client_worker_def set_state_def close_socket_def)
qed

theorem network_worker_cleans_up_witness:
  "\<exists>n'. network_client_worker sample_rand sample_turns sample_net = Some n' \<and>
     nc_state (fst n') = NETWORK_CLIENT_STOPPED \<and> nw_sockets (snd n') = [3]"
proof -
  obtain n' where w: "network_client_worker sample_rand sample_turns sample_net = Some n'" using sample_worker by blast
  have "nc_fd (fst sample_net) < 0" by (simp add: sample_net_def sample_client_def)
  from network_worker_cleans_up [OF w this] w show ?thesis by (simp add: sample_net_def)
qed

theorem network_worker_states_witness:
  "\<exists>n' xs. network_client_worker sample_rand sample_turns sample_net = Some n' \<and>
     nw_trace (snd n') = xs @ [NETWORK_CLIENT_STOPPING, NETWORK_CLIENT_STOPPED]"
proof -
  obtain n' where w: "network_client_worker sample_rand sample_turns sample_net = Some n'" using sample_worker by blast
  have "nc_state (fst sample_net) = NETWORK_CLIENT_STOPPED" by (simp add: sample_net_def sample_client_def)
  from network_worker_states [OF w this] w show ?thesis by (auto simp: sample_net_def)
qed

theorem network_worker_persists_witness:
  "network_client_worker sample_rand [hd sample_turns, hd sample_turns] sample_net = None"
  using network_worker_persists [of "[hd sample_turns, hd sample_turns]" sample_rand sample_net]
  by (simp add: undisturbed_def sample_turns_def quiet_wait_def no_wake_def calm_backoff_def no_events_def)


theorem network_client_balanced_witness:
  "\<exists>n' w'. network_client_worker sample_rand sample_turns sample_net = Some n' \<and>
     network_client_destroy [Write_EINTR, Wrote 8] 0 (Some (fst n')) (snd n') [NR_Thread, NR_Wake, NR_Client] = Some (None, w', []) \<and>
     nw_sockets w' = [3]"
proof -
  obtain a b where w: "network_client_worker sample_rand sample_turns sample_net = Some (a, b)" using sample_worker by auto
  have c: "network_client_create True 4 7 (Some sample_config) [] = (Some (sample_client\<lparr>nc_thread_started := False\<rparr>), [NR_Wake, NR_Client])"
    by (simp add: network_client_create_def validate_config_def sample_config_def sample_client_def)
  have s: "network_client_start 0 (Some (sample_client\<lparr>nc_thread_started := False\<rparr>)) [NR_Wake, NR_Client] =
      (0, Some sample_client, [NR_Thread, NR_Wake, NR_Client])"
    by (simp add: network_client_start_def sample_client_def)
  have "network_client_worker sample_rand sample_turns (sample_client, \<lparr>nw_sockets = [3], nw_delivered = [], nw_trace = []\<rparr>) = Some (a, b)"
    using w by (simp add: sample_net_def)
  from network_client_balanced [OF c, simplified, rule_format, OF s this, where ws = "[Write_EINTR, Wrote 8]"] w
  show ?thesis by auto
qed

end
