(* ===== verification/Storage_Service.thy ===== *)
theory Storage_Service
  imports Gateway_Pipeline Gateway_Run
begin

text \<open>
  The service of the build with storage but without MQTT, \<open>run_storage_service\<close> of
  \<^verbatim>\<open>src/core/gateway.c\<close>, the idle loop \<open>wait_for_stop\<close> of the build without storage, and the stop flag
  of \<^verbatim>\<open>src/modules/runtime/graceful_shutdown.c\<close>, which a signal handler sets at any time: the values
  the flag shows at the successive reads are a list, and so are the results of the source and of
  \<open>nanosleep\<close>. A service whose lists are used up is still running (\<open>None\<close>).
\<close>

section \<open>The stop flag\<close>

text \<open>The results of \<open>sigemptyset\<close> and of the two \<open>sigaction\<close> calls, and the signals whose handler has
  been installed (SIGINT is 2, SIGTERM 15).\<close>

definition graceful_shutdown_install :: "int \<times> int \<times> int \<Rightarrow> int \<times> int list" where
  "graceful_shutdown_install rcs =
     (if fst rcs \<noteq> 0 then (-1, [])
      else if fst (snd rcs) \<noteq> 0 then (-1, [])
      else if snd (snd rcs) \<noteq> 0 then (-1, [2])
      else (0, [2, 15]))"

definition handle_stop :: "int \<Rightarrow> int \<Rightarrow> int" where
  "handle_stop signo stop_flag = 1"

definition stop_flag_set :: "int \<Rightarrow> bool" where
  "stop_flag_set stop_flag \<longleftrightarrow> stop_flag \<noteq> 0"

section \<open>Sleeping\<close>

datatype rest_result = Rested | Rest_stop | Rest_failed

text \<open>One \<open>nanosleep\<close> of 100 ms, resumed after a signal unless the flag is set; the flags and the
  results that are left follow.\<close>

fun rest :: "int list \<Rightarrow> nanosleep_result list \<Rightarrow> (rest_result \<times> int list \<times> nanosleep_result list) option" where
  "rest flags [] = None"
| "rest flags (Slept # ns) = Some (Rested, flags, ns)"
| "rest flags (SleepFailed # ns) = Some (Rest_failed, flags, ns)"
| "rest [] (SleepInterrupted # ns) = None"
| "rest (f # flags) (SleepInterrupted # ns) =
     (if stop_flag_set f then Some (Rest_stop, flags, ns) else rest flags ns)"

lemma rest_flags: "rest flags ns = Some (r, fl, nl) \<Longrightarrow> set fl \<subseteq> set flags \<and> length fl \<le> length flags"
  by (induction flags ns rule: rest.induct) (auto split: if_splits)

lemma rest_stop: "rest flags ns = Some (Rest_stop, fl, nl) \<Longrightarrow> \<exists>f \<in> set flags. stop_flag_set f"
  by (induction flags ns rule: rest.induct) (auto split: if_splits)

function wait_for_stop :: "int list \<Rightarrow> nanosleep_result list \<Rightarrow> int option" where
  "wait_for_stop [] ns = None"
| "wait_for_stop (f # flags) ns =
     (if stop_flag_set f then Some 0
      else (case rest flags ns of
              None \<Rightarrow> None
            | Some (Rested, flags1, ns1) \<Rightarrow> wait_for_stop flags1 ns1
            | Some (Rest_stop, _, _) \<Rightarrow> Some 0
            | Some (Rest_failed, _, _) \<Rightarrow> Some (-1)))"
  by pat_completeness auto
termination
  by (relation "measure (\<lambda>(flags, ns). length flags)") (auto dest!: rest_flags)

text \<open>The idle loop returns 0 only after it has seen the flag set.\<close>

lemma wait_for_stop_zero: "wait_for_stop flags ns = Some 0 \<Longrightarrow> \<exists>f \<in> set flags. stop_flag_set f"
proof (induction flags ns rule: wait_for_stop.induct)
  case (2 f flags ns)
  show ?case
  proof (cases "stop_flag_set f")
    case False
    then obtain r fl nl where r: "rest flags ns = Some (r, fl, nl)" using 2(2) by (auto split: option.splits)
    show ?thesis
    proof (cases r)
      case Rested
      then have "\<exists>g \<in> set fl. stop_flag_set g" using 2 False r by auto
      then show ?thesis using rest_flags [OF r] by auto
    next
      case Rest_stop
      then show ?thesis using rest_stop r by auto
    next
      case Rest_failed
      then show ?thesis using 2(2) False r by simp
    qed
  qed simp
qed simp

text \<open>The pause between two measurements: ten rests, each after a look at the flag.\<close>

fun ticks :: "nat \<Rightarrow> int list \<Rightarrow> nanosleep_result list \<Rightarrow> (rest_result \<times> int list \<times> nanosleep_result list) option" where
  "ticks 0 flags ns = Some (Rested, flags, ns)"
| "ticks (Suc k) [] ns = None"
| "ticks (Suc k) (f # flags) ns =
     (if stop_flag_set f then Some (Rest_stop, flags, ns)
      else (case rest flags ns of
              None \<Rightarrow> None
            | Some (Rested, flags1, ns1) \<Rightarrow> ticks k flags1 ns1
            | Some r \<Rightarrow> Some r))"

section \<open>The service\<close>

definition gateway_store_next_measurement ::
  "(nat \<Rightarrow> bool) \<Rightarrow> (cjson \<Rightarrow> string) \<Rightarrow> measurement_source_result_t \<times> measurement_t \<Rightarrow> store_world \<Rightarrow> int \<times> store_world" where
  "gateway_store_next_measurement alloc print_text answer w =
     (if fst answer = MEASUREMENT_SOURCE_NO_DATA then (0, w)
      else if fst answer \<noteq> MEASUREMENT_SOURCE_OK then (-1, w)
      else let topic = storage_topic (cstr (device_id (snd answer))) in
        if length topic \<ge> 256 then (-1, w)
        else let (storage_result, w1) = outbox_store_save_measurement alloc print_text True (Some (snd answer)) (Some topic) w
             in (if storage_result \<noteq> OUTBOX_STORE_OK then -1 else 0, w1))"

text \<open>\<open>run_storage_service\<close> reads one answer of the source per turn of its loop; the answers it did not
  ask for are part of the result.\<close>

fun run_storage_service ::
  "(nat \<Rightarrow> bool) \<Rightarrow> (cjson \<Rightarrow> string) \<Rightarrow> (measurement_source_result_t \<times> measurement_t) list \<Rightarrow> int list \<Rightarrow>
   nanosleep_result list \<Rightarrow> store_world \<Rightarrow> (int \<times> (measurement_source_result_t \<times> measurement_t) list \<times> store_world) option" where
  "run_storage_service alloc print_text answers [] ns w = None"
| "run_storage_service alloc print_text [] (f # flags) ns w = (if stop_flag_set f then Some (0, [], w) else None)"
| "run_storage_service alloc print_text (answer # answers) (f # flags) ns w =
     (if stop_flag_set f then Some (0, answer # answers, w)
      else (case gateway_store_next_measurement alloc print_text answer w of (rc, w1) \<Rightarrow>
        if rc < 0 then Some (-1, answers, w1)
        else (case ticks 10 flags ns of
                None \<Rightarrow> None
              | Some (Rested, flags1, ns1) \<Rightarrow> run_storage_service alloc print_text answers flags1 ns1 w1
              | Some (Rest_stop, _, _) \<Rightarrow> Some (0, answers, w1)
              | Some (Rest_failed, _, _) \<Rightarrow> Some (-1, answers, w1))))"

lemma store_next_is_save:
  "gateway_store_next_measurement alloc print_text (MEASUREMENT_SOURCE_OK, m) w = gateway_storage_save alloc print_text m w"
  by (simp add: gateway_store_next_measurement_def gateway_storage_save_def Let_def split: prod.splits)

text \<open>The measurements among the first \<open>k\<close> answers.\<close>

definition measured :: "(measurement_source_result_t \<times> measurement_t) list \<Rightarrow> measurement_t list" where
  "measured answers = map snd (filter (\<lambda>a. fst a = MEASUREMENT_SOURCE_OK) answers)"

definition appended :: "(cjson \<Rightarrow> string) \<Rightarrow> store_world \<Rightarrow> measurement_t list \<Rightarrow> store_world \<Rightarrow> bool" where
  "appended print_text w ms w' \<longleftrightarrow>
     (\<exists>xs. outbox_view (durable w') = outbox_view (durable w) @ xs \<and>
        list_all2 (\<lambda>m x. message_of print_text m (snd (snd (fst x)))) ms xs)"

lemma appended_refl [simp]: "appended print_text w [] w"
  by (simp add: appended_def)

lemma appended_trans:
  assumes "appended print_text w ms w1" and "appended print_text w1 ms' w2"
  shows "appended print_text w (ms @ ms') w2"
proof -
  from assms obtain xs ys where "outbox_view (durable w1) = outbox_view (durable w) @ xs"
    "list_all2 (\<lambda>m x. message_of print_text m (snd (snd (fst x)))) ms xs"
    "outbox_view (durable w2) = outbox_view (durable w1) @ ys"
    "list_all2 (\<lambda>m x. message_of print_text m (snd (snd (fst x)))) ms' ys" by (auto simp: appended_def)
  then show ?thesis unfolding appended_def by (intro exI [of _ "xs @ ys"]) (simp add: list_all2_appendI)
qed

lemma store_next_appends:
  assumes "store_ready w" and "gateway_store_next_measurement alloc print_text a w = (rc, w')"
  shows "(rc = 0 \<longrightarrow> store_ready w' \<and> appended print_text w (measured [a]) w') \<and>
    (rc \<noteq> 0 \<longrightarrow> rc = -1 \<and> appended print_text w [] w')"
proof (cases "fst a = MEASUREMENT_SOURCE_OK")
  case True
  then obtain m where a: "a = (MEASUREMENT_SOURCE_OK, m)" by (cases a) auto
  then have s: "gateway_storage_save alloc print_text m w = (rc, w')" using assms(2) store_next_is_save by simp
  show ?thesis
  proof (cases "rc = 0")
    case True
    obtain x where "outbox_view (durable w') = outbox_view (durable w) @ [x]" "message_of print_text m (snd (snd (fst x)))"
      using storage_save_message(1) [OF assms(1) s True] by blast
    then have "appended print_text w [m] w'" unfolding appended_def by (intro exI [of _ "[x]"]) simp
    then show ?thesis using True a storage_save_outcome(1) [OF assms(1) s] by (simp add: measured_def)
  next
    case False
    then have "rc = -1" using s by (auto simp: gateway_storage_save_def Let_def split: if_splits prod.splits)
    then show ?thesis using False storage_save_message(2) [OF assms(1) s False] by (simp add: appended_def)
  qed
next
  case False
  then show ?thesis
    using assms by (auto simp: gateway_store_next_measurement_def measured_def split: if_splits)
qed

lemma measured_append: "measured (xs @ ys) = measured xs @ measured ys"
  by (simp add: measured_def)

lemma service_stores:
  assumes "store_ready w" and "run_storage_service alloc print_text answers flags ns w = Some (rc, unused, w')"
  shows "\<exists>used. answers = used @ unused \<and>
    (rc = 0 \<and> appended print_text w (measured used) w' \<or>
     rc = -1 \<and> (appended print_text w (measured used) w' \<or> used \<noteq> [] \<and> appended print_text w (measured (butlast used)) w'))"
  using assms
proof (induction alloc print_text answers flags ns w rule: run_storage_service.induct)
  case (2 alloc print_text f flags ns w)
  then have "rc = 0" "unused = []" "w' = w" by (auto split: if_splits)
  then show ?case by (simp add: measured_def)
next
  case (3 alloc print_text a answers f flags ns w)
  show ?case
  proof (cases "stop_flag_set f")
    case True
    then have "rc = 0" "unused = a # answers" "w' = w" using 3(3) by auto
    then show ?thesis by (simp add: measured_def)
  next
    case False
    obtain rc1 w1 where n: "gateway_store_next_measurement alloc print_text a w = (rc1, w1)" by fastforce
    note ap = store_next_appends [OF 3(2) n]
    show ?thesis
    proof (cases "rc1 < 0")
      case True
      then have "rc = -1" "unused = answers" "w' = w1" using 3(3) False n by auto
      then show ?thesis using ap True by (intro exI [of _ "[a]"]) (auto simp: measured_def)
    next
      case nn: False
      then have z: "rc1 = 0" using ap by auto
      then have one: "store_ready w1" "appended print_text w (measured [a]) w1" using ap by simp_all
      obtain r fl nl where t: "ticks 10 flags ns = Some (r, fl, nl)"
        using 3(3) False n nn by (auto split: option.splits)
      show ?thesis
      proof (cases "r = Rested")
        case True
        have run: "run_storage_service alloc print_text answers fl nl w1 = Some (rc, unused, w')"
          using 3(3) False n nn t True by simp
        obtain used where u: "answers = used @ unused" and
          c: "rc = 0 \<and> appended print_text w1 (measured used) w' \<or>
            rc = -1 \<and> (appended print_text w1 (measured used) w' \<or> used \<noteq> [] \<and> appended print_text w1 (measured (butlast used)) w')"
          using 3(1) [OF False n [symmetric] nn t refl True refl one(1) run] by blast
        have tr: "appended print_text w (measured (a # us)) w'" if "appended print_text w1 (measured us) w'" for us
          using appended_trans [OF one(2) that] measured_append [of "[a]" us] by simp
        show ?thesis using u c tr by (intro exI [of _ "a # used"]) auto
      next
        case nr: False
        then have "w' = w1" "unused = answers" "rc = 0 \<or> rc = -1" using 3(3) False n nn t by (cases r; auto)+
        then show ?thesis using one by (intro exI [of _ "[a]"]) auto
      qed
    qed
  qed
qed simp

text \<open>
  The storage-only service stores what it measured. For every source, every timing of the stop
  signal and of interrupted sleeps, and whatever SQLite answers: when \<open>run_storage_service\<close> returns 0,
  the outbox holds what it held before followed by exactly one message per measurement the source
  was asked for and delivered, in order, with its topic and its JSON text; when it returns -1, the
  same holds but for the last answer at most.
\<close>

theorem storage_service_stores:
  assumes "store_ready w" and "run_storage_service alloc print_text answers flags ns w = Some (rc, unused, w')"
  shows "\<exists>used. answers = used @ unused \<and>
    (rc = 0 \<and> appended print_text w (measured used) w' \<or>
     rc = -1 \<and> (appended print_text w (measured used) w' \<or> used \<noteq> [] \<and> appended print_text w (measured (butlast used)) w'))"
  using service_stores [OF assms] .

theorem storage_service_stores_witness:
  "run_storage_service (\<lambda>_. True) (\<lambda>_. ''{}'') [(MEASUREMENT_SOURCE_NO_DATA, sample_measurement)] [0, 1] [] demo_store =
     Some (0, [], demo_store) \<and> appended (\<lambda>_. ''{}'') demo_store [] demo_store"
proof -
  have t: "ticks 10 [1] [] = Some (Rest_stop, [], [])" by (simp add: numeral_eq_Suc stop_flag_set_def)
  have r: "run_storage_service (\<lambda>_. True) (\<lambda>_. ''{}'') [(MEASUREMENT_SOURCE_NO_DATA, sample_measurement)] [0, 1] [] demo_store =
      Some (0, [], demo_store)"
    using t by (simp add: stop_flag_set_def gateway_store_next_measurement_def)
  from storage_service_stores [OF demo_inv(1) r] r show ?thesis by (auto simp: measured_def)
qed

end
