(* ===== verification/Echo_Server.thy ===== *)
theory Echo_Server
  imports Net_Socket "HOL-Library.Sublist"
begin

unbundle bit_operations_syntax

text \<open>
  The epoll echo service of \<^verbatim>\<open>src/modules/net/epoll_echo_server.c\<close>: a fixed table of connections, the
  handlers for acceptance, reading and writing, and the event loop. A descriptor's registration with
  epoll and the bytes that went in and out over it are part of the world; every system call takes its
  outcome from the event that reports it. A run is a list of results of \<open>epoll_wait\<close>; \<open>None\<close> means that
  the answers given are used up while the code goes on.
\<close>

section \<open>State\<close>

abbreviation (input) BUFFER_SIZE :: nat where "BUFFER_SIZE \<equiv> 1024"
abbreviation (input) MAX_CONNECTIONS :: nat where "MAX_CONNECTIONS \<equiv> 128"

abbreviation (input) EPOLLIN :: u32 where "EPOLLIN \<equiv> 1"
abbreviation (input) EPOLLOUT :: u32 where "EPOLLOUT \<equiv> 4"
abbreviation (input) EPOLLERR :: u32 where "EPOLLERR \<equiv> 8"
abbreviation (input) EPOLLHUP :: u32 where "EPOLLHUP \<equiv> 16"

record connection_t =
  cn_active :: bool
  cn_fd :: int
  cn_output :: "u8 list"
  cn_output_length :: nat
  cn_output_sent :: nat

record server_t =
  sv_epoll_fd :: int
  sv_listen_fd :: int
  sv_connections :: "connection_t list"

text \<open>
  The open descriptors, the events each descriptor is registered for, and, for the statements only, the
  bytes received from and sent to the client of a descriptor since it was accepted.
\<close>

record echo_world =
  ew_open :: "int list"
  ew_interest :: "int \<rightharpoonup> u32"
  ew_in :: "int \<Rightarrow> u8 list"
  ew_out :: "int \<Rightarrow> u8 list"

type_synonym echo_state = "server_t \<times> echo_world"

text \<open>An answer of a call on a nonblocking descriptor: a value, a signal, nothing to do, or an error.\<close>

datatype 'a nb = Got 'a | Interrupted | Again | Failed

text \<open>What an accepted client meets: its descriptor, the two \<open>fcntl\<close> calls and \<open>EPOLL_CTL_ADD\<close>.\<close>

record accepted =
  ac_fd :: int
  ac_getfl :: int
  ac_setfl :: int
  ac_add :: int

text \<open>A reported event with the answers of the calls its handlers make.\<close>

record ready_event =
  re_fd :: int
  re_events :: u32
  re_accepts :: "accepted nb list"
  re_recvs :: "u8 list nb list"
  re_in_mod :: int
  re_sends :: "nat nb list"
  re_out_mod :: int

datatype epoll_answer = Ready "ready_event list" | WaitInterrupted | WaitFailed

section \<open>The connection table\<close>

definition set_nonblocking :: "int \<Rightarrow> int \<Rightarrow> int" where
  "set_nonblocking getfl setfl = (if getfl < 0 then -1 else setfl)"

text \<open>The index of the entry stands for the pointer; \<open>None\<close> is NULL.\<close>

fun find_from :: "int \<Rightarrow> nat \<Rightarrow> connection_t list \<Rightarrow> nat option" where
  "find_from fd i [] = None"
| "find_from fd i (c # cs) = (if cn_active c \<and> cn_fd c = fd then Some i else find_from fd (Suc i) cs)"

definition find_connection :: "server_t \<Rightarrow> int \<Rightarrow> nat option" where
  "find_connection s fd = find_from fd 0 (sv_connections s)"

fun free_from :: "nat \<Rightarrow> connection_t list \<Rightarrow> nat option" where
  "free_from i [] = None"
| "free_from i (c # cs) = (if \<not> cn_active c then Some i else free_from (Suc i) cs)"

definition put_connection :: "nat \<Rightarrow> connection_t \<Rightarrow> server_t \<Rightarrow> server_t" where
  "put_connection i c s = s\<lparr>sv_connections := (sv_connections s)[i := c]\<rparr>"

definition add_connection :: "server_t \<Rightarrow> int \<Rightarrow> nat option \<times> server_t" where
  "add_connection s fd =
     (case free_from 0 (sv_connections s) of
        None \<Rightarrow> (None, s)
      | Some i \<Rightarrow> (Some i, put_connection i ((sv_connections s ! i)
            \<lparr>cn_active := True, cn_fd := fd, cn_output_length := 0, cn_output_sent := 0\<rparr>) s))"

definition remove_connection :: "nat option \<Rightarrow> server_t \<Rightarrow> server_t" where
  "remove_connection connection s =
     (case connection of
        None \<Rightarrow> s
      | Some i \<Rightarrow> put_connection i ((sv_connections s ! i)
            \<lparr>cn_active := False, cn_fd := -1, cn_output_length := 0, cn_output_sent := 0\<rparr>) s)"

text \<open>Closing a descriptor also ends its registration with epoll.\<close>

definition shut_fd :: "int \<Rightarrow> echo_world \<Rightarrow> echo_world" where
  "shut_fd fd w = w\<lparr>ew_open := remove1 fd (ew_open w), ew_interest := (ew_interest w)(fd := None)\<rparr>"

text \<open>A failed \<open>EPOLL_CTL_DEL\<close> is only reported; the descriptor is closed in any case.\<close>

definition close_connection :: "int \<Rightarrow> echo_state \<Rightarrow> echo_state" where
  "close_connection fd sw = (remove_connection (find_connection (fst sw) fd) (fst sw), shut_fd fd (snd sw))"

definition change_interest :: "int \<Rightarrow> u32 \<Rightarrow> int \<Rightarrow> echo_world \<Rightarrow> int \<times> echo_world" where
  "change_interest fd events rc w =
     (rc, if rc < 0 then w else w\<lparr>ew_interest := (ew_interest w)(fd \<mapsto> events)\<rparr>)"

section \<open>The handlers\<close>

text \<open>One accepted client; the kernel has opened its descriptor.\<close>

definition accept_client :: "accepted \<Rightarrow> echo_state \<Rightarrow> echo_state" where
  "accept_client a sw =
     (let (s, w0) = sw; fd = ac_fd a;
          w = w0\<lparr>ew_open := fd # ew_open w0, ew_in := (ew_in w0)(fd := []), ew_out := (ew_out w0)(fd := [])\<rparr>
      in if set_nonblocking (ac_getfl a) (ac_setfl a) < 0 then (s, shut_fd fd w)
         else case add_connection s fd of
                (None, s1) \<Rightarrow> (s1, shut_fd fd w)
              | (Some i, s1) \<Rightarrow>
                  if ac_add a < 0 then (remove_connection (Some i) s1, shut_fd fd w)
                  else (s1, w\<lparr>ew_interest := (ew_interest w)(fd \<mapsto> EPOLLIN)\<rparr>))"

fun accept_ready_clients :: "accepted nb list \<Rightarrow> echo_state \<Rightarrow> echo_state option" where
  "accept_ready_clients [] sw = None"
| "accept_ready_clients (a # as) sw =
     (case a of
        Got c \<Rightarrow> accept_ready_clients as (accept_client c sw)
      | Interrupted \<Rightarrow> accept_ready_clients as sw
      | Again \<Rightarrow> Some sw
      | Failed \<Rightarrow> Some sw)"

text \<open>\<open>recv\<close> writes at most the size of the buffer to its start.\<close>

definition store_block :: "nat \<Rightarrow> u8 list \<Rightarrow> server_t \<Rightarrow> server_t" where
  "store_block i bs s =
     (let c = sv_connections s ! i
      in put_connection i (c\<lparr>cn_output := blit (cn_output c) 0 bs, cn_output_length := length bs, cn_output_sent := 0\<rparr>) s)"

fun echo_read_loop :: "int \<Rightarrow> nat \<Rightarrow> u8 list nb list \<Rightarrow> int \<Rightarrow> echo_state \<Rightarrow> echo_state option" where
  "echo_read_loop fd i [] rc sw = None"
| "echo_read_loop fd i (r # rs) rc sw =
     (case r of
        Got bs \<Rightarrow>
          (let block = take BUFFER_SIZE bs
           in if block = [] then Some (close_connection fd sw)
              else let s = store_block i block (fst sw);
                       w = (snd sw)\<lparr>ew_in := (ew_in (snd sw))(fd := ew_in (snd sw) fd @ block)\<rparr>;
                       (res, w1) = change_interest fd EPOLLOUT rc w
                   in Some (if res < 0 then close_connection fd (s, w1) else (s, w1)))
      | Interrupted \<Rightarrow> echo_read_loop fd i rs rc sw
      | Again \<Rightarrow> Some sw
      | Failed \<Rightarrow> Some (close_connection fd sw))"

definition read_client :: "int \<Rightarrow> u8 list nb list \<Rightarrow> int \<Rightarrow> echo_state \<Rightarrow> echo_state option" where
  "read_client fd recvs rc sw =
     (case find_connection (fst sw) fd of
        None \<Rightarrow> Some (close_connection fd sw)
      | Some i \<Rightarrow> echo_read_loop fd i recvs rc sw)"

text \<open>The bytes of an entry that wait to be sent.\<close>

definition pending :: "connection_t \<Rightarrow> u8 list" where
  "pending c = drop (cn_output_sent c) (take (cn_output_length c) (cn_output c))"

text \<open>\<open>send\<close> takes a first part of the bytes it is offered.\<close>

definition send_some :: "int \<Rightarrow> nat \<Rightarrow> nat \<Rightarrow> echo_state \<Rightarrow> echo_state" where
  "send_some fd i n sw =
     (let (s, w) = sw; c = sv_connections s ! i; part = take n (pending c)
      in (put_connection i (c\<lparr>cn_output_sent := cn_output_sent c + length part\<rparr>) s,
          w\<lparr>ew_out := (ew_out w)(fd := ew_out w fd @ part)\<rparr>))"

text \<open>The end of \<open>write_client\<close>, when everything is sent.\<close>

definition write_end :: "int \<Rightarrow> nat \<Rightarrow> int \<Rightarrow> echo_state \<Rightarrow> echo_state" where
  "write_end fd i rc sw =
     (let (s, w) = sw; c = sv_connections s ! i;
          s1 = put_connection i (c\<lparr>cn_output_length := 0, cn_output_sent := 0\<rparr>) s;
          (res, w1) = change_interest fd EPOLLIN rc w
      in if res < 0 then close_connection fd (s1, w1) else (s1, w1))"

fun echo_write_loop :: "int \<Rightarrow> nat \<Rightarrow> nat nb list \<Rightarrow> int \<Rightarrow> echo_state \<Rightarrow> echo_state option" where
  "echo_write_loop fd i ss rc sw =
     (let c = sv_connections (fst sw) ! i
      in if cn_output_sent c < cn_output_length c
         then case ss of
                [] \<Rightarrow> None
              | r # rest \<Rightarrow>
                  (case r of
                     Got n \<Rightarrow> if n > 0 then echo_write_loop fd i rest rc (send_some fd i n sw)
                              else Some (close_connection fd sw)
                   | Interrupted \<Rightarrow> echo_write_loop fd i rest rc sw
                   | Again \<Rightarrow> Some sw
                   | Failed \<Rightarrow> Some (close_connection fd sw))
         else Some (write_end fd i rc sw))"

declare echo_write_loop.simps [simp del]

definition write_client :: "int \<Rightarrow> nat nb list \<Rightarrow> int \<Rightarrow> echo_state \<Rightarrow> echo_state option" where
  "write_client fd sends rc sw =
     (case find_connection (fst sw) fd of
        None \<Rightarrow> Some (close_connection fd sw)
      | Some i \<Rightarrow> echo_write_loop fd i sends rc sw)"

section \<open>The event loop\<close>

definition event_set :: "u32 \<Rightarrow> u32 \<Rightarrow> bool" where
  "event_set events flag \<longleftrightarrow> events AND flag \<noteq> 0"

definition handle_event :: "ready_event \<Rightarrow> echo_state \<Rightarrow> echo_state option" where
  "handle_event ev sw =
     (let fd = re_fd ev; events = re_events ev
      in if fd = sv_listen_fd (fst sw)
         then if event_set events EPOLLIN then accept_ready_clients (re_accepts ev) sw else Some sw
         else if event_set events EPOLLERR \<or> (event_set events EPOLLHUP \<and> \<not> event_set events EPOLLIN)
         then Some (close_connection fd sw)
         else case (if event_set events EPOLLIN then read_client fd (re_recvs ev) (re_in_mod ev) sw else Some sw) of
                None \<Rightarrow> None
              | Some sw1 \<Rightarrow>
                  if event_set events EPOLLOUT \<and> find_connection (fst sw1) fd \<noteq> None
                  then write_client fd (re_sends ev) (re_out_mod ev) sw1 else Some sw1)"

fun handle_batch :: "ready_event list \<Rightarrow> echo_state \<Rightarrow> echo_state option" where
  "handle_batch [] sw = Some sw"
| "handle_batch (ev # evs) sw = (case handle_event ev sw of None \<Rightarrow> None | Some sw1 \<Rightarrow> handle_batch evs sw1)"

text \<open>The loop ends only with an error; the state it has reached when it does follows the result.\<close>

fun run_event_loop :: "epoll_answer list \<Rightarrow> echo_state \<Rightarrow> (int \<times> echo_state) option" where
  "run_event_loop [] sw = None"
| "run_event_loop (a # as) sw =
     (case a of
        WaitFailed \<Rightarrow> Some (-1, sw)
      | WaitInterrupted \<Rightarrow> run_event_loop as sw
      | Ready evs \<Rightarrow> (case handle_batch evs sw of None \<Rightarrow> None | Some sw1 \<Rightarrow> run_event_loop as sw1))"

text \<open>The answers of the calls that set the server up.\<close>

record echo_setup =
  es_socket :: int
  es_bind :: int
  es_listen :: int
  es_getfl :: int
  es_setfl :: int
  es_epoll :: int
  es_add :: int

definition open_fd :: "int \<Rightarrow> echo_world \<Rightarrow> echo_world" where
  "open_fd fd w = w\<lparr>ew_open := fd # ew_open w\<rparr>"

definition zero_connection :: connection_t where
  "zero_connection = \<lparr>cn_active = False, cn_fd = 0, cn_output = replicate BUFFER_SIZE 0, cn_output_length = 0, cn_output_sent = 0\<rparr>"

definition echo_listen :: "echo_setup \<Rightarrow> echo_world \<Rightarrow> bool \<times> echo_world" where
  "echo_listen e w =
     (if es_socket e < 0 then (False, w)
      else let w1 = open_fd (es_socket e) w
           in if es_bind e < 0 \<or> es_listen e < 0 \<or> set_nonblocking (es_getfl e) (es_setfl e) < 0
              then (False, shut_fd (es_socket e) w1) else (True, w1))"

text \<open>The server when the event loop starts. A new epoll instance has no registrations.\<close>

definition echo_start :: "echo_setup \<Rightarrow> echo_world \<Rightarrow> echo_state" where
  "echo_start e w =
     (\<lparr>sv_epoll_fd = es_epoll e, sv_listen_fd = es_socket e, sv_connections = replicate MAX_CONNECTIONS zero_connection\<rparr>,
      w\<lparr>ew_interest := [es_socket e \<mapsto> EPOLLIN]\<rparr>)"

definition net_epoll_echo_server_run ::
  "echo_setup \<Rightarrow> epoll_answer list \<Rightarrow> net_address_t option \<Rightarrow> int \<Rightarrow> echo_world \<Rightarrow> (int \<times> echo_world) option" where
  "net_epoll_echo_server_run e answers address backlog w =
     (let (ok, w1) = echo_listen e w; w2 = open_fd (es_epoll e) w1
      in if address = None \<or> backlog \<le> 0 then Some (-1, w)
         else if \<not> ok then Some (-1, w1)
         else if es_epoll e < 0 then Some (-1, shut_fd (es_socket e) w1)
         else if es_add e < 0 then Some (-1, shut_fd (es_socket e) (shut_fd (es_epoll e) w2))
         else (case run_event_loop answers (echo_start e w2) of
                 None \<Rightarrow> None
               | Some (result, sw) \<Rightarrow> Some (result, shut_fd (es_socket e) (shut_fd (es_epoll e) (snd sw)))))"

section \<open>What the kernel promises\<close>

text \<open>
  \<open>epoll_wait\<close> reports a descriptor at most once, only if it is registered, and only the events it is
  registered for besides errors and hang-ups; \<open>accept\<close> returns a descriptor that was not open.
\<close>

definition reported :: "ready_event \<Rightarrow> echo_world \<Rightarrow> bool" where
  "reported ev w =
     (case ew_interest w (re_fd ev) of
        None \<Rightarrow> False
      | Some i \<Rightarrow> re_events ev AND NOT (i OR EPOLLERR OR EPOLLHUP) = 0)"

fun accepts_ok :: "accepted nb list \<Rightarrow> echo_state \<Rightarrow> bool" where
  "accepts_ok [] sw = True"
| "accepts_ok (Got c # as) sw = (ac_fd c \<notin> set (ew_open (snd sw)) \<and> accepts_ok as (accept_client c sw))"
| "accepts_ok (_ # as) sw = accepts_ok as sw"

fun batch_accepts_ok :: "ready_event list \<Rightarrow> echo_state \<Rightarrow> bool" where
  "batch_accepts_ok [] sw = True"
| "batch_accepts_ok (ev # evs) sw =
     ((re_fd ev = sv_listen_fd (fst sw) \<longrightarrow> accepts_ok (re_accepts ev) sw) \<and>
      (case handle_event ev sw of None \<Rightarrow> True | Some sw1 \<Rightarrow> batch_accepts_ok evs sw1))"

fun kernel_ok :: "epoll_answer list \<Rightarrow> echo_state \<Rightarrow> bool" where
  "kernel_ok [] sw = True"
| "kernel_ok (Ready evs # as) sw =
     (distinct (map re_fd evs) \<and> list_all (\<lambda>ev. reported ev (snd sw)) evs \<and> batch_accepts_ok evs sw \<and>
      (case handle_batch evs sw of None \<Rightarrow> True | Some sw1 \<Rightarrow> kernel_ok as sw1))"
| "kernel_ok (_ # as) sw = kernel_ok as sw"

section \<open>The invariant\<close>

definition holds_fd :: "connection_t list \<Rightarrow> nat \<Rightarrow> int \<Rightarrow> bool" where
  "holds_fd cs i fd \<longleftrightarrow> i < length cs \<and> cn_active (cs ! i) \<and> cn_fd (cs ! i) = fd"

definition entry_ok :: "connection_t \<Rightarrow> bool" where
  "entry_ok c \<longleftrightarrow> length (cn_output c) = BUFFER_SIZE \<and> cn_output_sent c \<le> cn_output_length c \<and> cn_output_length c \<le> BUFFER_SIZE"

definition echo_ok :: "echo_world \<Rightarrow> connection_t \<Rightarrow> bool" where
  "echo_ok w c \<longleftrightarrow> ew_in w (cn_fd c) = ew_out w (cn_fd c) @ pending c \<and>
     ew_interest w (cn_fd c) = Some (if cn_output_sent c < cn_output_length c then EPOLLOUT else EPOLLIN)"

text \<open>
  \<open>others\<close> are the descriptors that are not clients; the entries of the descriptors in \<open>busy\<close> are in
  the middle of a handler and need not be consistent.
\<close>

definition echo_inv :: "int set \<Rightarrow> int set \<Rightarrow> echo_state \<Rightarrow> bool" where
  "echo_inv others busy sw \<longleftrightarrow>
     (let (s, w) = sw; cs = sv_connections s
      in length cs = MAX_CONNECTIONS \<and> (\<forall>c \<in> set cs. entry_ok c) \<and>
         distinct (ew_open w) \<and> set (ew_open w) = others \<union> {fd. \<exists>i. holds_fd cs i fd} \<and>
         (\<forall>i j fd. holds_fd cs i fd \<and> holds_fd cs j fd \<longrightarrow> i = j) \<and>
         (\<forall>i fd. holds_fd cs i fd \<longrightarrow> fd \<notin> others \<and> (fd \<notin> busy \<longrightarrow> echo_ok w (cs ! i))) \<and>
         sv_listen_fd s \<in> others \<and> ew_interest w (sv_listen_fd s) = Some EPOLLIN \<and>
         (\<forall>fd. fd \<noteq> sv_listen_fd s \<and> (\<forall>i. \<not> holds_fd cs i fd) \<longrightarrow> ew_interest w fd = None) \<and>
         (\<forall>fd. prefix (ew_out w fd) (ew_in w fd)))"

lemma find_from_Some:
  "find_from fd k cs = Some i \<Longrightarrow> k \<le> i \<and> holds_fd cs (i - k) fd"
proof (induction cs arbitrary: k)
  case (Cons c cs)
  then show ?case by (fastforce simp: holds_fd_def nth_Cons' split: if_splits dest: Suc_le_D)
qed simp

lemma holds_fd_ex: "(\<exists>i. holds_fd cs i fd) \<longleftrightarrow> (\<exists>c \<in> set cs. cn_active c \<and> cn_fd c = fd)"
  by (auto simp: holds_fd_def Bex_def in_set_conv_nth)

lemma find_from_None: "find_from fd k cs = None \<longleftrightarrow> (\<nexists>i. holds_fd cs i fd)"
  unfolding holds_fd_ex by (induction cs arbitrary: k) auto

lemma find_connection_Some: "find_connection s fd = Some i \<Longrightarrow> holds_fd (sv_connections s) i fd"
  using find_from_Some [of fd 0] by (simp add: find_connection_def)

lemma find_connection_None: "find_connection s fd = None \<longleftrightarrow> (\<forall>i. \<not> holds_fd (sv_connections s) i fd)"
  by (simp add: find_connection_def find_from_None)

lemma free_from_Some: "free_from k cs = Some i \<Longrightarrow> k \<le> i \<and> i - k < length cs \<and> \<not> cn_active (cs ! (i - k))"
proof (induction cs arbitrary: k)
  case (Cons c cs)
  then show ?case by (fastforce simp: nth_Cons' split: if_splits dest: Suc_le_D)
qed simp

lemma holds_fd_update:
  "i < length cs \<Longrightarrow> holds_fd (cs[i := c]) j fd \<longleftrightarrow> (if j = i then cn_active c \<and> cn_fd c = fd else holds_fd cs j fd)"
  by (auto simp: holds_fd_def nth_list_update)

lemma put_connection_simps [simp]:
  "sv_connections (put_connection i c s) = (sv_connections s)[i := c]"
  "sv_listen_fd (put_connection i c s) = sv_listen_fd s"
  "sv_epoll_fd (put_connection i c s) = sv_epoll_fd s"
  by (simp_all add: put_connection_def)

lemma echo_invI:
  assumes "length (sv_connections s) = MAX_CONNECTIONS" and "\<And>c. c \<in> set (sv_connections s) \<Longrightarrow> entry_ok c"
    and "distinct (ew_open w)" and "set (ew_open w) = B \<union> {fd. \<exists>i. holds_fd (sv_connections s) i fd}"
    and "\<And>i j fd. \<lbrakk>holds_fd (sv_connections s) i fd; holds_fd (sv_connections s) j fd\<rbrakk> \<Longrightarrow> i = j"
    and "\<And>i fd. holds_fd (sv_connections s) i fd \<Longrightarrow> fd \<notin> B"
    and "\<And>i fd. \<lbrakk>holds_fd (sv_connections s) i fd; fd \<notin> X\<rbrakk> \<Longrightarrow> echo_ok w (sv_connections s ! i)"
    and "sv_listen_fd s \<in> B" and "ew_interest w (sv_listen_fd s) = Some EPOLLIN"
    and "\<And>fd. \<lbrakk>fd \<noteq> sv_listen_fd s; \<nexists>i. holds_fd (sv_connections s) i fd\<rbrakk> \<Longrightarrow> ew_interest w fd = None"
    and "\<And>fd. prefix (ew_out w fd) (ew_in w fd)"
  shows "echo_inv B X (s, w)"
  unfolding echo_inv_def Let_def prod.case by (intro conjI) (use assms in simp_all, blast+)

lemma echo_invD:
  assumes "echo_inv B X (s, w)"
  shows "length (sv_connections s) = MAX_CONNECTIONS" and "c \<in> set (sv_connections s) \<Longrightarrow> entry_ok c"
    and "distinct (ew_open w)" and "set (ew_open w) = B \<union> {fd. \<exists>i. holds_fd (sv_connections s) i fd}"
    and "\<lbrakk>holds_fd (sv_connections s) i fd; holds_fd (sv_connections s) j fd\<rbrakk> \<Longrightarrow> i = j"
    and "holds_fd (sv_connections s) i fd \<Longrightarrow> fd \<notin> B"
    and "\<lbrakk>holds_fd (sv_connections s) i fd; fd \<notin> X\<rbrakk> \<Longrightarrow> echo_ok w (sv_connections s ! i)"
    and "sv_listen_fd s \<in> B" and "ew_interest w (sv_listen_fd s) = Some EPOLLIN"
    and "\<lbrakk>fd \<noteq> sv_listen_fd s; \<nexists>i. holds_fd (sv_connections s) i fd\<rbrakk> \<Longrightarrow> ew_interest w fd = None"
    and "prefix (ew_out w fd) (ew_in w fd)"
    and "holds_fd (sv_connections s) i fd \<Longrightarrow> fd \<noteq> sv_listen_fd s"
  using assms [unfolded echo_inv_def Let_def prod.case] by (simp_all, blast+)

lemma echo_inv_find:
  assumes "echo_inv B X (s, w)" and "holds_fd (sv_connections s) i fd"
  shows "find_connection s fd = Some i"
proof -
  obtain j where j: "find_connection s fd = Some j"
    using assms(2) find_connection_None [of s fd] by auto
  have "j = i" using find_connection_Some [OF j] assms(2) by (rule echo_invD(5) [OF assms(1)])
  then show ?thesis using j by simp
qed

text \<open>A handler may change the entry of a busy descriptor, its histories and its registration.\<close>

lemma echo_inv_change:
  assumes "echo_inv B X (s, w)" and "holds_fd (sv_connections s) i fd"
    and "entry_ok c" "cn_active c" "cn_fd c = fd"
    and "ew_open w' = ew_open w" "\<And>g. g \<noteq> fd \<Longrightarrow> ew_interest w' g = ew_interest w g \<and> ew_in w' g = ew_in w g \<and> ew_out w' g = ew_out w g"
    and "prefix (ew_out w' fd) (ew_in w' fd)" and "fd \<notin> Y \<Longrightarrow> echo_ok w' c" and "X \<subseteq> insert fd Y"
  shows "echo_inv B Y (put_connection i c s, w')"
proof -
  note inv = echo_invD [OF assms(1)]
  have i: "i < length (sv_connections s)" using assms(2) by (simp add: holds_fd_def)
  have same: "holds_fd ((sv_connections s)[i := c]) j g \<longleftrightarrow> holds_fd (sv_connections s) j g" for j g
    using assms(2,4,5) by (cases "j = i") (auto simp: holds_fd_update [OF i] holds_fd_def)
  have ok: "echo_ok w' ((sv_connections s)[i := c] ! j)" if h: "holds_fd (sv_connections s) j g" and "g \<notin> Y" for j g
  proof (cases "j = i")
    case True
    then show ?thesis using that assms(2,9) i by (auto simp: holds_fd_def)
  next
    case False
    then have ne: "g \<noteq> fd" using h inv(5) [OF h] assms(2) by blast
    then have "echo_ok w (sv_connections s ! j)" using inv(7) [OF h] that(2) assms(10) by blast
    then show ?thesis using assms(7) [OF ne] False h by (auto simp: echo_ok_def holds_fd_def)
  qed
  have pre: "prefix (ew_out w' g) (ew_in w' g)" for g
    using assms(7) [of g] assms(8) inv(11) [of g] by (cases "g = fd") auto
  have entries: "x \<in> set ((sv_connections s)[i := c]) \<Longrightarrow> entry_ok x" for x
    using inv(2) assms(3) set_update_subset_insert [of "sv_connections s" i c] by blast
  have none: "ew_interest w' g = None" if "g \<noteq> sv_listen_fd s" "\<nexists>j. holds_fd (sv_connections s) j g" for g
    using inv(10) [OF that] that(2) assms(2,7) by metis
  show ?thesis
    by (rule echo_invI; (unfold put_connection_simps same assms(6))?)
      (use inv(1,3,4,6,8,9) inv(5) ok pre entries none assms(7) inv(12) [OF assms(2)] in \<open>auto simp: assms(7)\<close>)
qed

lemma echo_inv_close:
  assumes "echo_inv B X (s, w)" and "holds_fd (sv_connections s) i fd" and "X \<subseteq> insert fd Y"
  shows "echo_inv B Y (close_connection fd (s, w))"
proof -
  note inv = echo_invD [OF assms(1)]
  have i: "i < length (sv_connections s)" using assms(2) by (simp add: holds_fd_def)
  let ?c = "(sv_connections s ! i)\<lparr>cn_active := False, cn_fd := -1, cn_output_length := 0, cn_output_sent := 0\<rparr>"
  have cl: "close_connection fd (s, w) = (put_connection i ?c s, shut_fd fd w)"
    by (simp add: close_connection_def echo_inv_find [OF assms(1,2)] remove_connection_def)
  have here: "holds_fd (sv_connections s) i g \<longleftrightarrow> g = fd" for g using assms(2) by (auto simp: holds_fd_def)
  have other: "holds_fd ((sv_connections s)[i := ?c]) j g \<longleftrightarrow> g \<noteq> fd \<and> holds_fd (sv_connections s) j g" for j g
    using inv(5) [OF _ assms(2), of j] here by (cases "j = i") (auto simp: holds_fd_update [OF i])
  have ok: "echo_ok (shut_fd fd w) ((sv_connections s)[i := ?c] ! j)"
    if "g \<noteq> fd" and h: "holds_fd (sv_connections s) j g" and "g \<notin> Y" for j g
  proof -
    have "j \<noteq> i" using that here by blast
    moreover have "echo_ok w (sv_connections s ! j)" using inv(7) [OF h] that assms(3) by blast
    ultimately show ?thesis using that by (auto simp: echo_ok_def holds_fd_def shut_fd_def)
  qed
  have "entry_ok ?c" using inv(1,2) i by (simp add: entry_ok_def)
  then have entries: "x \<in> set ((sv_connections s)[i := ?c]) \<Longrightarrow> entry_ok x" for x
    using inv(2) set_update_subset_insert [of "sv_connections s" i ?c] by blast
  have fds: "set (ew_open (shut_fd fd w)) = B \<union> {g. \<exists>j. g \<noteq> fd \<and> holds_fd (sv_connections s) j g}"
    using inv(3,4) inv(6) [OF assms(2)] by (auto simp: shut_fd_def)
  show ?thesis
    unfolding cl
    by (rule echo_invI; (unfold put_connection_simps other)?)
      (use inv(1,3,5,6,8,9,10,11) ok entries fds inv(12) [OF assms(2)] in \<open>auto simp: shut_fd_def\<close>)
qed

section \<open>The handlers keep the invariant\<close>

text \<open>The world of a handler and what it leaves alone: every registration but that of its own descriptor.\<close>

definition only_touches :: "int \<Rightarrow> echo_state \<Rightarrow> echo_state \<Rightarrow> bool" where
  "only_touches fd sw sw' \<longleftrightarrow>
     sv_listen_fd (fst sw') = sv_listen_fd (fst sw) \<and> (\<forall>g. g \<noteq> fd \<longrightarrow> ew_interest (snd sw') g = ew_interest (snd sw) g)"

lemma only_touches_trans: "only_touches fd a b \<Longrightarrow> only_touches fd b c \<Longrightarrow> only_touches fd a c"
  by (simp add: only_touches_def)

lemma close_only_touches: "only_touches fd sw (close_connection fd sw)"
  by (simp add: only_touches_def close_connection_def shut_fd_def remove_connection_def split: option.split)

lemma accept_client_inv:
  assumes "echo_inv B {} sw" and "ac_fd a \<notin> set (ew_open (snd sw))"
  shows "echo_inv B {} (accept_client a sw) \<and> only_touches (ac_fd a) sw (accept_client a sw)"
proof -
  obtain s w0 where sw: "sw = (s, w0)" by (cases sw)
  let ?fd = "ac_fd a"
  let ?w = "w0\<lparr>ew_open := ?fd # ew_open w0, ew_in := (ew_in w0)(?fd := []), ew_out := (ew_out w0)(?fd := [])\<rparr>"
  note inv = echo_invD [OF assms(1) [unfolded sw]]
  have fresh: "?fd \<notin> B" "?fd \<noteq> sv_listen_fd s" "\<not> holds_fd (sv_connections s) i ?fd" for i
    using assms(2) inv(4,8) by (auto simp: sw)
  have keep: "echo_ok w' (sv_connections s ! j)" if "holds_fd (sv_connections s) j g"
    and "\<And>h. h \<noteq> ?fd \<Longrightarrow> ew_interest w' h = ew_interest w0 h \<and> ew_in w' h = ew_in w0 h \<and> ew_out w' h = ew_out w0 h" for j g w'
  proof -
    have "g \<noteq> ?fd" using that(1) fresh(3) by blast
    then show ?thesis using that(2) [of g] that(1) inv(7) [OF that(1)] by (simp add: echo_ok_def holds_fd_def)
  qed
  have refused: "echo_inv B {} (s, shut_fd ?fd ?w)"
    by (rule echo_invI) (use inv(1-6,8-11) fresh keep in \<open>auto simp: shut_fd_def sw\<close>)
  have added: "echo_inv B Y (s1, w')"
    if add: "add_connection s ?fd = (Some i, s1)"
      and w': "ew_open w' = ?fd # ew_open w0" "ew_in w' = (ew_in w0)(?fd := [])" "ew_out w' = (ew_out w0)(?fd := [])"
        "\<And>h. h \<noteq> ?fd \<Longrightarrow> ew_interest w' h = ew_interest w0 h" "?fd \<notin> Y \<Longrightarrow> ew_interest w' ?fd = Some EPOLLIN"
    for i s1 w' Y
  proof -
    let ?c = "(sv_connections s ! i)\<lparr>cn_active := True, cn_fd := ?fd, cn_output_length := 0, cn_output_sent := 0\<rparr>"
    have i: "i < length (sv_connections s)" "\<not> cn_active (sv_connections s ! i)" and s1: "s1 = put_connection i ?c s"
      using add free_from_Some [of 0 "sv_connections s" i] by (auto simp: add_connection_def split: option.splits)
    have new: "holds_fd ((sv_connections s)[i := ?c]) j g \<longleftrightarrow> (j = i \<and> g = ?fd) \<or> holds_fd (sv_connections s) j g" for j g
      using i(2) by (cases "j = i") (auto simp: holds_fd_update [OF i(1)], simp_all add: holds_fd_def)
    have ok: "echo_ok w' ((sv_connections s)[i := ?c] ! j)"
      if "(j = i \<and> g = ?fd) \<or> holds_fd (sv_connections s) j g" "g \<notin> Y" for j g
    proof (cases "j = i")
      case True
      then have "g = ?fd" using that(1) i(2) by (auto simp: holds_fd_def)
      then show ?thesis using True i(1) w' that(2) by (simp add: echo_ok_def pending_def)
    next
      case False
      then have h: "holds_fd (sv_connections s) j g" using that(1) by blast
      have "echo_ok w' (sv_connections s ! j)" by (rule keep [OF h]) (simp add: w')
      then show ?thesis using False by simp
    qed
    have "entry_ok ?c" using inv(2) i(1) by (simp add: entry_ok_def)
    then have entries: "x \<in> set ((sv_connections s)[i := ?c]) \<Longrightarrow> entry_ok x" for x
      using inv(2) set_update_subset_insert [of "sv_connections s" i ?c] by blast
    show ?thesis
      unfolding s1
      by (rule echo_invI; (unfold put_connection_simps new)?)
        (use inv(1,3,4,5,6,8-11) fresh ok entries assms(2) in \<open>auto simp: w' sw\<close>)
  qed
  have listen: "sv_listen_fd s1 = sv_listen_fd s \<and> (c = None \<longrightarrow> s1 = s)" if "add_connection s ?fd = (c, s1)" for c s1
    using that by (auto simp: add_connection_def split: option.splits)
  have failed: "echo_inv B {} (remove_connection (Some i) s1, shut_fd ?fd ?w)" if add: "add_connection s ?fd = (Some i, s1)" for i s1
  proof -
    have a: "echo_inv B {?fd} (s1, ?w)" by (rule added [OF add]) simp_all
    have h: "holds_fd (sv_connections s1) i ?fd"
      using add free_from_Some [of 0 "sv_connections s" i] by (auto simp: add_connection_def holds_fd_def split: option.splits)
    show ?thesis
      using echo_inv_close [OF a h, of "{}"] by (simp add: close_connection_def echo_inv_find [OF a h])
  qed
  obtain c s1 where add: "add_connection s ?fd = (c, s1)" by fastforce
  then show ?thesis
    using refused failed [of _ s1] added [of _ s1] listen [OF add]
    by (cases c) (auto simp: accept_client_def sw Let_def only_touches_def shut_fd_def remove_connection_def)
qed

lemma accept_client_open: "set (ew_open (snd sw)) \<subseteq> set (ew_open (snd (accept_client a sw)))"
  by (auto simp: accept_client_def Let_def shut_fd_def split: prod.splits option.splits)

lemma accept_ready_inv:
  assumes "accept_ready_clients as sw = Some sw'" and "echo_inv B {} sw" and "accepts_ok as sw"
  shows "echo_inv B {} sw' \<and> sv_listen_fd (fst sw') = sv_listen_fd (fst sw) \<and>
    (\<forall>g \<in> set (ew_open (snd sw)). ew_interest (snd sw') g = ew_interest (snd sw) g)"
  using assms
proof (induction as arbitrary: sw)
  case (Cons a as)
  show ?case
  proof (cases a)
    case (Got c)
    have c: "echo_inv B {} (accept_client c sw)" "only_touches (ac_fd c) sw (accept_client c sw)"
      using accept_client_inv [OF Cons.prems(2), of c] Cons.prems(3) Got by simp_all
    have "echo_inv B {} sw' \<and> sv_listen_fd (fst sw') = sv_listen_fd (fst (accept_client c sw)) \<and>
      (\<forall>g \<in> set (ew_open (snd (accept_client c sw))). ew_interest (snd sw') g = ew_interest (snd (accept_client c sw)) g)"
      using Cons c(1) Got by simp
    then show ?thesis
      using c(2) accept_client_open [of sw c] Cons.prems(3) Got unfolding only_touches_def
      by (metis accepts_ok.simps(2) subset_iff)
  qed (use Cons in auto)
qed simp

lemma echo_inv_settle:
  assumes "echo_inv B {fd} (s, w)" and "holds_fd (sv_connections s) i fd" and "echo_ok w (sv_connections s ! i)"
  shows "echo_inv B {} (s, w)"
proof -
  note inv = echo_invD [OF assms(1)]
  have "echo_ok w (sv_connections s ! j)" if "holds_fd (sv_connections s) j g" for j g
    using inv(5) [OF that, of i] inv(7) [OF that] assms(2,3) by (cases "g = fd") auto
  then show ?thesis by (intro echo_invI) (use inv in blast)+
qed

lemma echo_inv_busy: "echo_inv B {} (s, w) \<Longrightarrow> echo_inv B {fd} (s, w)"
  by (auto simp: echo_inv_def Let_def)

lemma pending_stored [simp]:
  "pending (c\<lparr>cn_output := blit xs 0 b, cn_output_length := length b, cn_output_sent := 0\<rparr>) = b"
  by (simp add: pending_def blit_def)

lemma read_loop_inv:
  assumes "echo_read_loop fd i rs rc (s, w) = Some sw'" and "echo_inv B {} (s, w)" and h: "holds_fd (sv_connections s) i fd"
    and "\<not> cn_output_sent (sv_connections s ! i) < cn_output_length (sv_connections s ! i)"
  shows "echo_inv B {} sw' \<and> only_touches fd (s, w) sw'"
  using assms(1)
proof (induction rs)
  case (Cons r rs)
  note inv = echo_invD [OF assms(2)]
  let ?c = "sv_connections s ! i"
  have c: "entry_ok ?c" "cn_active ?c" "cn_fd ?c = fd" using h inv(2) by (auto simp: holds_fd_def)
  have io: "ew_in w fd = ew_out w fd" using inv(7) [OF h] c(3) assms(4) by (simp add: echo_ok_def pending_def)
  show ?case
  proof (cases r)
    case (Got bs)
    show ?thesis
    proof (cases "take BUFFER_SIZE bs = []")
      case True
      then have "sw' = close_connection fd (s, w)" using Cons.prems Got by simp
      then show ?thesis using echo_inv_close [OF assms(2) h] close_only_touches by simp
    next
      case False
      let ?b = "take BUFFER_SIZE bs"
      let ?c' = "?c\<lparr>cn_output := blit (cn_output ?c) 0 ?b, cn_output_length := length ?b, cn_output_sent := 0\<rparr>"
      let ?w = "w\<lparr>ew_in := (ew_in w)(fd := ew_in w fd @ ?b)\<rparr>"
      let ?w1 = "snd (change_interest fd EPOLLOUT rc ?w)"
      have e: "entry_ok ?c'" using c(1) by (simp add: entry_ok_def blit_def)
      have p: "pending ?c' = ?b" by (rule pending_stored)
      have inv1: "echo_inv B Y (put_connection i ?c' s, ?w1)" if "rc < 0 \<Longrightarrow> fd \<in> Y" for Y
        by (rule echo_inv_change [OF assms(2) h e])
          (use c that False p io in \<open>auto simp: change_interest_def echo_ok_def\<close>)
      have "holds_fd (sv_connections (put_connection i ?c' s)) i fd" using h c by (simp add: holds_fd_def)
      note closed = echo_inv_close [OF inv1 [of "{fd}"] this, of "{}"]
      have "sw' = (if rc < 0 then close_connection fd (put_connection i ?c' s, ?w1) else (put_connection i ?c' s, ?w1))"
        using Cons.prems Got False by (auto simp: store_block_def Let_def change_interest_def)
      moreover have "only_touches fd (s, w) (put_connection i ?c' s, ?w1)"
        by (simp add: only_touches_def change_interest_def)
      ultimately show ?thesis
        using closed inv1 [of "{}"] only_touches_trans [OF _ close_only_touches] by (cases "rc < 0") simp_all
    qed
  qed (use Cons echo_inv_close [OF assms(2) h] assms(2) close_only_touches in \<open>auto simp: only_touches_def\<close>)
qed simp

lemma write_end_inv:
  assumes "echo_inv B {fd} (s, w)" and h: "holds_fd (sv_connections s) i fd"
    and "ew_in w fd = ew_out w fd @ pending (sv_connections s ! i)"
    and "\<not> cn_output_sent (sv_connections s ! i) < cn_output_length (sv_connections s ! i)"
  shows "echo_inv B {} (write_end fd i rc (s, w)) \<and> only_touches fd (s, w) (write_end fd i rc (s, w))"
proof -
  note inv = echo_invD [OF assms(1)]
  let ?c = "sv_connections s ! i"
  let ?c' = "?c\<lparr>cn_output_length := 0, cn_output_sent := 0\<rparr>"
  let ?w1 = "snd (change_interest fd EPOLLIN rc w)"
  have c: "entry_ok ?c'" "cn_active ?c'" "cn_fd ?c' = fd" using h inv(2) [of ?c] by (auto simp: holds_fd_def entry_ok_def)
  have io: "ew_in w fd = ew_out w fd" using assms(3,4) by (simp add: pending_def)
  have inv1: "echo_inv B Y (put_connection i ?c' s, ?w1)" if "rc < 0 \<Longrightarrow> fd \<in> Y" for Y
    by (rule echo_inv_change [OF assms(1) h c])
      (use c that io in \<open>auto simp: change_interest_def echo_ok_def pending_def\<close>)
  have "holds_fd (sv_connections (put_connection i ?c' s)) i fd" using h c by (simp add: holds_fd_def)
  note closed = echo_inv_close [OF inv1 [of "{fd}"] this, of "{}"]
  have "write_end fd i rc (s, w) =
      (if rc < 0 then close_connection fd (put_connection i ?c' s, ?w1) else (put_connection i ?c' s, ?w1))"
    by (simp add: write_end_def Let_def change_interest_def)
  moreover have "only_touches fd (s, w) (put_connection i ?c' s, ?w1)"
    by (simp add: only_touches_def change_interest_def)
  ultimately show ?thesis
    using closed inv1 [of "{}"] only_touches_trans [OF _ close_only_touches] by (cases "rc < 0") simp_all
qed

text \<open>What holds at the head of the sending loop.\<close>

definition sending :: "int set \<Rightarrow> int \<Rightarrow> nat \<Rightarrow> echo_state \<Rightarrow> bool" where
  "sending B fd i sw \<longleftrightarrow>
     (let (s, w) = sw; c = sv_connections s ! i
      in echo_inv B {fd} sw \<and> holds_fd (sv_connections s) i fd \<and> ew_in w fd = ew_out w fd @ pending c \<and>
         (cn_output_sent c < cn_output_length c \<longrightarrow> ew_interest w fd = Some EPOLLOUT))"

lemma length_pending: "entry_ok c \<Longrightarrow> length (pending c) = cn_output_length c - cn_output_sent c"
  by (simp add: pending_def entry_ok_def)

lemma send_some_sending:
  assumes "sending B fd i (s, w)"
  shows "sending B fd i (send_some fd i n (s, w)) \<and> only_touches fd (s, w) (send_some fd i n (s, w))"
proof -
  let ?c = "sv_connections s ! i"
  have a: "echo_inv B {fd} (s, w)" and h: "holds_fd (sv_connections s) i fd" and io: "ew_in w fd = ew_out w fd @ pending ?c"
    and out: "cn_output_sent ?c < cn_output_length ?c \<Longrightarrow> ew_interest w fd = Some EPOLLOUT"
    using assms by (auto simp: sending_def Let_def)
  let ?part = "take n (pending ?c)"
  let ?c' = "?c\<lparr>cn_output_sent := cn_output_sent ?c + length ?part\<rparr>"
  let ?w = "w\<lparr>ew_out := (ew_out w)(fd := ew_out w fd @ ?part)\<rparr>"
  have c: "entry_ok ?c" "cn_active ?c'" "cn_fd ?c' = fd" using h echo_invD(2) [OF a, of ?c] by (auto simp: holds_fd_def)
  have e: "entry_ok ?c'" using c(1) length_pending [OF c(1)] by (auto simp: entry_ok_def)
  have p: "pending ?c' = drop (length ?part) (pending ?c)" by (simp add: pending_def add.commute)
  then have io': "ew_in ?w fd = ew_out ?w fd @ pending ?c'"
    using io append_take_drop_id [of n "pending ?c"] by (cases "n \<le> length (pending ?c)") (simp_all add: min_def)
  have "echo_inv B {fd} (put_connection i ?c' s, ?w)"
    by (rule echo_inv_change [OF a h e c(2,3)]) (use io' in \<open>auto simp del: length_take\<close>)
  moreover have "holds_fd (sv_connections (put_connection i ?c' s)) i fd" using h c by (simp add: holds_fd_def)
  moreover have "send_some fd i n (s, w) = (put_connection i ?c' s, ?w)" by (simp add: send_some_def Let_def)
  moreover have "sv_connections (put_connection i ?c' s) ! i = ?c'" using h by (simp add: holds_fd_def)
  moreover have "cn_output_sent ?c' < cn_output_length ?c' \<Longrightarrow> ew_interest ?w fd = Some EPOLLOUT" using out by simp
  ultimately show ?thesis using io' by (simp add: sending_def Let_def only_touches_def del: length_take)
qed

lemma write_loop_inv:
  assumes "echo_write_loop fd i ss rc sw = Some sw'" and "sending B fd i sw"
  shows "echo_inv B {} sw' \<and> only_touches fd sw sw'"
  using assms
proof (induction ss arbitrary: sw)
  case Nil
  obtain s w where sw: "sw = (s, w)" by (cases sw)
  show ?case
    using Nil write_end_inv [of B fd s w i rc]
    by (auto simp: sw sending_def echo_write_loop.simps [of _ _ "[]"] Let_def split: if_splits)
next
  case (Cons r ss)
  obtain s w where sw: "sw = (s, w)" by (cases sw)
  let ?c = "sv_connections s ! i"
  have a: "echo_inv B {fd} (s, w)" and h: "holds_fd (sv_connections s) i fd" and io: "ew_in w fd = ew_out w fd @ pending ?c"
    and out: "cn_output_sent ?c < cn_output_length ?c \<Longrightarrow> ew_interest w fd = Some EPOLLOUT"
    using Cons.prems(2) by (auto simp: sending_def sw Let_def)
  note step = Cons.prems(1) [unfolded sw echo_write_loop.simps [of _ _ "r # ss"], simplified]
  have closed: "echo_inv B {} (close_connection fd (s, w))" using echo_inv_close [OF a h, of "{}"] by simp
  show ?case
  proof (cases "cn_output_sent ?c < cn_output_length ?c")
    case False
    then show ?thesis using step write_end_inv [OF a h io False, of rc] by (auto simp: sw Let_def)
  next
    case True
    have idle: "echo_inv B {} (s, w)"
      by (rule echo_inv_settle [OF a h]) (use h io out True in \<open>simp add: echo_ok_def holds_fd_def\<close>)
    show ?thesis
    proof (cases r)
      case (Got n)
      note some = send_some_sending [OF Cons.prems(2) [unfolded sw], of n]
      show ?thesis
      proof (cases "n > 0")
        case gt: True
        then show ?thesis
          using step True Got Cons.IH [OF _ conjunct1 [OF some]] only_touches_trans [OF conjunct2 [OF some]]
          by (auto simp: sw Let_def)
      qed (use step True Got closed close_only_touches in \<open>auto simp: sw Let_def\<close>)
    qed (use step True closed close_only_touches idle Cons sw in \<open>auto simp: Let_def only_touches_def\<close>)
  qed
qed

section \<open>Every event keeps the invariant\<close>

lemma reads_only_when_registered:
  assumes "events AND NOT (i OR EPOLLERR OR EPOLLHUP) = 0" and "event_set events EPOLLIN"
  shows "bit i 0"
proof -
  have "bit events 0" using assms(2) by (simp add: event_set_def and_one_eq flip: odd_iff_mod_2_eq_one bit_0)
  moreover have "\<not> bit (events AND NOT (i OR EPOLLERR OR EPOLLHUP)) 0" using assms(1) by simp
  ultimately show ?thesis by (simp add: bit_simps)
qed

lemma handle_event_inv:
  assumes "handle_event ev sw = Some sw'" and "echo_inv B {} sw" and "reported ev (snd sw)"
    and "re_fd ev = sv_listen_fd (fst sw) \<longrightarrow> accepts_ok (re_accepts ev) sw"
  shows "echo_inv B {} sw' \<and> (\<forall>g. g \<noteq> re_fd ev \<and> ew_interest (snd sw) g \<noteq> None \<longrightarrow> ew_interest (snd sw') g = ew_interest (snd sw) g)"
proof -
  obtain s w where sw: "sw = (s, w)" by (cases sw)
  let ?fd = "re_fd ev"
  note inv = echo_invD [OF assms(2) [unfolded sw]]
  show ?thesis
  proof (cases "?fd = sv_listen_fd s")
    case True
    have "g \<in> set (ew_open w)" if "ew_interest w g \<noteq> None" for g 
      using inv(10) [of g] inv(8) that unfolding inv(4) by (cases "g = sv_listen_fd s") auto
    then show ?thesis
      using True assms accept_ready_inv [of "re_accepts ev" sw sw' B]
      by (auto simp: handle_event_def sw Let_def split: if_splits)
  next
    case False
    obtain ir where ir: "ew_interest w ?fd = Some ir" "re_events ev AND NOT (ir OR EPOLLERR OR EPOLLHUP) = 0"
      using assms(3) by (auto simp: reported_def sw split: option.splits)
    obtain i where h: "holds_fd (sv_connections s) i ?fd" using inv(10) [of ?fd] False ir by auto
    have ok: "echo_ok w (sv_connections s ! i)" and cf: "cn_fd (sv_connections s ! i) = ?fd"
      using inv(7) [OF h] h by (simp_all add: holds_fd_def)
    have touch: "(\<forall>g. g \<noteq> ?fd \<and> ew_interest w g \<noteq> None \<longrightarrow> ew_interest (snd sw2) g = ew_interest w g)"
      if "only_touches ?fd (s, w) sw2" for sw2 using that by (simp add: only_touches_def)
    have read: "echo_inv B {} sw2 \<and> only_touches ?fd (s, w) sw2"
      if "read_client ?fd (re_recvs ev) (re_in_mod ev) (s, w) = Some sw2" "event_set (re_events ev) EPOLLIN" for sw2
    proof -
      have "bit ir 0" by (rule reads_only_when_registered [OF ir(2) that(2)])
      then have "\<not> cn_output_sent (sv_connections s ! i) < cn_output_length (sv_connections s ! i)"
        using ok ir(1) by (auto simp: echo_ok_def cf split: if_splits)
      then show ?thesis
        using that(1) read_loop_inv [OF _ assms(2) [unfolded sw] h]
        by (simp add: read_client_def echo_inv_find [OF assms(2) [unfolded sw] h])
    qed
    have "write": "echo_inv B {} sw3 \<and> only_touches ?fd sw2 sw3"
      if w: "write_client ?fd (re_sends ev) (re_out_mod ev) sw2 = Some sw3" and e: "echo_inv B {} sw2"
        and f: "find_connection (fst sw2) ?fd \<noteq> None" for sw2 sw3
    proof -
      obtain s2 w2 where sw2: "sw2 = (s2, w2)" by (cases sw2)
      obtain j where j: "find_connection s2 ?fd = Some j" using f sw2 by auto
      note h2 = find_connection_Some [OF j]
      have "sending B ?fd j (s2, w2)"
        using echo_inv_busy [OF e [unfolded sw2]] h2 echo_invD(7) [OF e [unfolded sw2] h2]
        by (auto simp: sending_def Let_def echo_ok_def holds_fd_def)
      from write_loop_inv [OF _ this] w show ?thesis by (simp add: write_client_def j sw2)
    qed
    show ?thesis
    proof (cases "event_set (re_events ev) EPOLLERR \<or> (event_set (re_events ev) EPOLLHUP \<and> \<not> event_set (re_events ev) EPOLLIN)")
      case True
      then have "sw' = close_connection ?fd (s, w)" using assms(1) False by (simp add: handle_event_def sw Let_def)
      then show ?thesis
        using echo_inv_close [OF assms(2) [unfolded sw] h, of "{}"] touch [OF close_only_touches] by (simp add: sw)
    next
      case not_closed: False
      then obtain sw1 where r: "(if event_set (re_events ev) EPOLLIN then read_client ?fd (re_recvs ev) (re_in_mod ev) (s, w) else Some (s, w)) = Some sw1"
        and wr: "(if event_set (re_events ev) EPOLLOUT \<and> find_connection (fst sw1) ?fd \<noteq> None
          then write_client ?fd (re_sends ev) (re_out_mod ev) sw1 else Some sw1) = Some sw'"
        using assms(1) unfolding handle_event_def Let_def sw fst_conv if_not_P [OF False] if_not_P [OF not_closed]
        by (cases "if event_set (re_events ev) EPOLLIN then read_client ?fd (re_recvs ev) (re_in_mod ev) (s, w) else Some (s, w)")
          (simp, simp only: option.case)
      have a: "echo_inv B {} sw1 \<and> only_touches ?fd (s, w) sw1"
        using r read assms(2) by (auto simp: sw only_touches_def split: if_splits)
      then have "echo_inv B {} sw' \<and> only_touches ?fd (s, w) sw'"
        using wr "write" [of sw1 sw'] only_touches_trans [of ?fd "(s, w)" sw1 sw'] by (auto split: if_splits)
      then show ?thesis using touch by (simp add: sw)
    qed
  qed
qed

lemma handle_batch_inv:
  assumes "handle_batch evs sw = Some sw'" and "echo_inv B {} sw" and "distinct (map re_fd evs)"
    and "list_all (\<lambda>ev. reported ev (snd sw)) evs" and "batch_accepts_ok evs sw"
  shows "echo_inv B {} sw'"
  using assms
proof (induction evs arbitrary: sw)
  case (Cons ev evs)
  obtain sw1 where e: "handle_event ev sw = Some sw1" using Cons.prems(1) by (auto split: option.splits)
  note one = handle_event_inv [OF e Cons.prems(2)]
  have "list_all (\<lambda>ev. reported ev (snd sw1)) evs"
    unfolding list_all_iff
  proof
    fix ev' assume "ev' \<in> set evs"
    then have "re_fd ev' \<in> set (map re_fd evs)" "reported ev' (snd sw)" using Cons.prems(4) by (auto simp: list_all_iff)
    then have "re_fd ev' \<noteq> re_fd ev" "reported ev' (snd sw)" using Cons.prems(3) by auto
    then show "reported ev' (snd sw1)" using one Cons.prems(4,5) by (auto simp: reported_def split: option.splits)
  qed
  then show ?case using Cons e one by simp
qed simp

lemma run_event_loop_inv:
  "\<lbrakk>run_event_loop as sw = Some (rc, sw'); echo_inv B {} sw; kernel_ok as sw\<rbrakk> \<Longrightarrow> rc = -1 \<and> echo_inv B {} sw'"
proof (induction as arbitrary: sw)
  case (Cons a as)
  then show ?case
    using handle_batch_inv [of _ sw _ B] by (cases a) (auto split: option.splits)
qed simp

lemma echo_start_inv:
  assumes "distinct (ew_open w)" and "es_socket e \<in> set (ew_open w)" and "\<forall>fd. prefix (ew_out w fd) (ew_in w fd)"
  shows "echo_inv (set (ew_open w)) {} (echo_start e w)"
proof -
  have "\<not> holds_fd (replicate MAX_CONNECTIONS zero_connection) i fd" for i fd
    by (auto simp: holds_fd_def zero_connection_def)
  moreover have "entry_ok zero_connection" by (simp add: entry_ok_def zero_connection_def)
  ultimately show ?thesis
    unfolding echo_start_def by (intro echo_invI) (use assms in auto)
qed

lemma few_connections: "card {fd. \<exists>i. holds_fd cs i fd} \<le> length cs"
proof -
  have "{fd. \<exists>i. holds_fd cs i fd} \<subseteq> set (map cn_fd cs)" unfolding holds_fd_ex by auto
  then show ?thesis by (metis List.finite_set card_length card_mono le_trans length_map)
qed

section \<open>Properties\<close>

text \<open>
  C21: The service is an exact echo and keeps its books. On a kernel that reports only registered events and
  hands out fresh descriptors, after every batch of events (a failing \<open>epoll_wait\<close> ends the run at any
  point): what a client was sent is a prefix of what it had sent, for clients that have been closed too;
  for a connected client the difference is the at most 1024 bytes waiting in its entry, and it is
  registered for output exactly when there are such bytes; the open descriptors are those of before and
  one for each entry of the table, without repetition, and never more than 128 of them.
\<close>

theorem echo_server_exact:
  assumes "run_event_loop answers (echo_start e w) = Some (rc, (s, w'))" and "kernel_ok answers (echo_start e w)"
    and "distinct (ew_open w)" and "es_socket e \<in> set (ew_open w)" and "\<forall>fd. prefix (ew_out w fd) (ew_in w fd)"
  shows "rc = -1 \<and> (\<forall>fd. prefix (ew_out w' fd) (ew_in w' fd)) \<and>
    (\<forall>fd i. find_connection s fd = Some i \<longrightarrow>
       ew_in w' fd = ew_out w' fd @ pending (sv_connections s ! i) \<and> length (pending (sv_connections s ! i)) \<le> BUFFER_SIZE \<and>
       ew_interest w' fd = Some (if pending (sv_connections s ! i) = [] then EPOLLIN else EPOLLOUT)) \<and>
    distinct (ew_open w') \<and> set (ew_open w') = set (ew_open w) \<union> {fd. find_connection s fd \<noteq> None} \<and>
    card {fd. find_connection s fd \<noteq> None} \<le> MAX_CONNECTIONS"
proof -
  have rc: "rc = -1" and e: "echo_inv (set (ew_open w)) {} (s, w')"
    using run_event_loop_inv [OF assms(1) echo_start_inv [OF assms(3-5)] assms(2)] by auto
  note inv = echo_invD [OF e]
  have entry: "ew_in w' fd = ew_out w' fd @ pending (sv_connections s ! i) \<and> length (pending (sv_connections s ! i)) \<le> BUFFER_SIZE \<and>
      ew_interest w' fd = Some (if pending (sv_connections s ! i) = [] then EPOLLIN else EPOLLOUT)"
    if "find_connection s fd = Some i" for fd i
  proof -
    note h = find_connection_Some [OF that]
    have c: "entry_ok (sv_connections s ! i)" "cn_fd (sv_connections s ! i) = fd" using h inv(2) by (auto simp: holds_fd_def)
    then show ?thesis
      using inv(7) [OF h] length_pending [OF c(1)] by (auto simp: echo_ok_def entry_ok_def simp flip: length_0_conv)
  qed
  have "{fd. find_connection s fd \<noteq> None} = {fd. \<exists>i. holds_fd (sv_connections s) i fd}"
    unfolding find_connection_None by blast
  then show ?thesis
    using rc inv(3,4,11) entry few_connections [of "sv_connections s"] inv(1) by simp
qed

lemma write_loop_finishes:
  assumes "sending B fd i (s, w)" and "0 \<le> rc" and "\<forall>r \<in> set ss. r = Interrupted \<or> (\<exists>n>0. r = Got n)"
    and "length (pending (sv_connections s ! i)) \<le> length (filter (\<lambda>r. r \<noteq> Interrupted) ss)"
  shows "\<exists>s' w'. echo_write_loop fd i ss rc (s, w) = Some (s', w') \<and> ew_out w' fd = ew_in w fd \<and> ew_in w' fd = ew_in w fd \<and>
    ew_interest w' fd = Some EPOLLIN \<and> cn_output_length (sv_connections s' ! i) = 0"
  using assms
proof (induction ss arbitrary: s w)
  case Nil
  have e: "entry_ok (sv_connections s ! i)" "i < length (sv_connections s)"
    using Nil.prems(1) echo_invD(2) [of B "{fd}" s w] by (auto simp: sending_def Let_def holds_fd_def)
  then have "\<not> cn_output_sent (sv_connections s ! i) < cn_output_length (sv_connections s ! i)"
    using length_pending [OF e(1)] Nil.prems(4) by simp
  then show ?case
    using Nil e(2) by (auto simp: echo_write_loop.simps [of _ _ "[]"] Let_def write_end_def change_interest_def sending_def)
next
  case (Cons r ss)
  let ?c = "sv_connections s ! i"
  have e: "entry_ok ?c" "i < length (sv_connections s)"
    using Cons.prems(1) echo_invD(2) [of B "{fd}" s w] by (auto simp: sending_def Let_def holds_fd_def)
  show ?case
  proof (cases "cn_output_sent ?c < cn_output_length ?c")
    case False
    then show ?thesis
      using Cons.prems e(2) by (auto simp: echo_write_loop.simps [of _ _ "_ # _"] Let_def write_end_def change_interest_def sending_def pending_def)
  next
    case True
    show ?thesis
    proof (cases "r = Interrupted")
      case intr: True
      then show ?thesis
        using Cons.IH [OF Cons.prems(1,2)] Cons.prems(3,4) True by (simp add: echo_write_loop.simps [of _ _ "_ # _"] Let_def)
    next
      case False
      then obtain n where n: "r = Got n" "0 < n" using Cons.prems(3) by auto
      obtain s1 w1 where sw1: "send_some fd i n (s, w) = (s1, w1)" by fastforce
      have c1: "sv_connections s1 ! i = ?c\<lparr>cn_output_sent := cn_output_sent ?c + length (take n (pending ?c))\<rparr>" "ew_in w1 = ew_in w"
        using sw1 e(2) by (auto simp: send_some_def Let_def)
      have "length (pending (sv_connections s1 ! i)) < length (pending ?c)"
        using n(2) True length_pending [OF e(1)] e(1) by (simp add: c1 pending_def entry_ok_def)
      then have fewer: "length (pending (sv_connections s1 ! i)) \<le> length (filter (\<lambda>r. r \<noteq> Interrupted) ss)"
        using Cons.prems(4) False by simp
      have "sending B fd i (s1, w1)" using send_some_sending [OF Cons.prems(1), of n] sw1 by simp
      from Cons.IH [OF this Cons.prems(2) _ fewer] show ?thesis
        using Cons.prems(3) n True sw1 c1(2) by (simp add: echo_write_loop.simps [of _ _ "_ # _"] Let_def)
    qed
  qed
qed

lemma read_loop_stores:
  assumes "bs \<noteq> []" and "0 \<le> rc"
  shows "echo_read_loop fd i (replicate k Interrupted @ Got bs # rest) rc (s, w) =
    Some (store_block i (take BUFFER_SIZE bs) s,
      w\<lparr>ew_in := (ew_in w)(fd := ew_in w fd @ take BUFFER_SIZE bs), ew_interest := (ew_interest w)(fd \<mapsto> EPOLLOUT)\<rparr>)"
  using assms by (induction k) (simp_all add: Let_def change_interest_def)

text \<open>
  C22: A block comes back. In a consistent server, when a client registered for input sends a block (after
  any number of interruptions) and then the descriptor accepts output in parts of any size, with any
  interruptions between them, the reading and the writing handler return, exactly the block (the first
  1024 bytes of it, as one \<open>recv\<close> delivers it) has gone back to the client, and it is registered for input again.
\<close>

theorem echo_block_returned:
  assumes "echo_inv B {} (s, w)" and "find_connection s fd = Some i" and "ew_interest w fd = Some EPOLLIN"
    and "bs \<noteq> []" and "0 \<le> rc1" and "0 \<le> rc2" and "\<forall>r \<in> set sends. r = Interrupted \<or> (\<exists>n>0. r = Got n)"
    and "length (take BUFFER_SIZE bs) \<le> length (filter (\<lambda>r. r \<noteq> Interrupted) sends)"
  shows "\<exists>sw1 s2 w2. read_client fd (replicate k Interrupted @ Got bs # rest) rc1 (s, w) = Some sw1 \<and>
    write_client fd sends rc2 sw1 = Some (s2, w2) \<and>
    ew_out w2 fd = ew_out w fd @ take BUFFER_SIZE bs \<and> ew_in w2 fd = ew_in w fd @ take BUFFER_SIZE bs \<and>
    ew_interest w2 fd = Some EPOLLIN \<and> cn_output_length (sv_connections s2 ! i) = 0"
proof -
  note h = find_connection_Some [OF assms(2)]
  have idle: "\<not> cn_output_sent (sv_connections s ! i) < cn_output_length (sv_connections s ! i)" "ew_in w fd = ew_out w fd"
    using echo_invD(7) [OF assms(1) h] h assms(3) by (auto simp: echo_ok_def holds_fd_def pending_def split: if_splits)
  let ?s1 = "store_block i (take BUFFER_SIZE bs) s"
  let ?w1 = "w\<lparr>ew_in := (ew_in w)(fd := ew_in w fd @ take BUFFER_SIZE bs), ew_interest := (ew_interest w)(fd \<mapsto> EPOLLOUT)\<rparr>"
  note r = read_loop_stores [OF assms(4,5), of fd i k rest s w]
  from read_loop_inv [OF r assms(1) h idle(1)] have inv1: "echo_inv B {} (?s1, ?w1)" by simp
  have p: "pending (sv_connections ?s1 ! i) = take BUFFER_SIZE bs"
    using h pending_stored [of _ "take BUFFER_SIZE bs"] by (simp add: store_block_def Let_def holds_fd_def del: length_take)
  have h1: "holds_fd (sv_connections ?s1) i fd" using h by (simp add: store_block_def Let_def holds_fd_def)
  have "sending B fd i (?s1, ?w1)"
    unfolding sending_def Let_def prod.case using echo_inv_busy [OF inv1] h1 p idle(2) by simp
  from write_loop_finishes [OF this assms(6,7)] assms(8) p
  obtain s2 w2 where "echo_write_loop fd i sends rc2 (?s1, ?w1) = Some (s2, w2)" "ew_out w2 fd = ew_in ?w1 fd"
    "ew_in w2 fd = ew_in ?w1 fd" "ew_interest w2 fd = Some EPOLLIN" "cn_output_length (sv_connections s2 ! i) = 0" by auto
  then show ?thesis
    using r assms(2) echo_inv_find [OF inv1 h1] idle(2) by (simp add: read_client_def write_client_def)
qed

section \<open>Concrete runs\<close>

definition echo_world0 :: echo_world where
  "echo_world0 = \<lparr>ew_open = [4, 3, 2, 1, 0], ew_interest = Map.empty, ew_in = (\<lambda>_. []), ew_out = (\<lambda>_. [])\<rparr>"

definition setup0 :: echo_setup where
  "setup0 = \<lparr>es_socket = 3, es_bind = 0, es_listen = 0, es_getfl = 0, es_setfl = 0, es_epoll = 4, es_add = 0\<rparr>"

definition client5 :: accepted where
  "client5 = \<lparr>ac_fd = 5, ac_getfl = 0, ac_setfl = 0, ac_add = 0\<rparr>"

definition event0 :: "int \<Rightarrow> u32 \<Rightarrow> ready_event" where
  "event0 fd events = \<lparr>re_fd = fd, re_events = events, re_accepts = [Got client5, Again], re_recvs = [Got [7, 8]], re_in_mod = 0,
     re_sends = [Got 1, Again], re_out_mod = 0\<rparr>"

definition answers0 :: "epoll_answer list" where
  "answers0 = [Ready [event0 3 EPOLLIN], WaitInterrupted, Ready [event0 5 EPOLLIN], Ready [event0 5 EPOLLOUT], WaitFailed]"

lemma table0: "replicate MAX_CONNECTIONS zero_connection = zero_connection # replicate 127 zero_connection"
  using replicate_Suc [of 127 zero_connection] by simp

lemma zero_connection_simps:
  "cn_active zero_connection = False" "cn_output zero_connection = replicate BUFFER_SIZE 0" "cn_output_length zero_connection = 0"
  by (simp_all add: zero_connection_def)

lemmas echo_eval = echo_start_def table0 zero_connection_simps answers0_def event0_def setup0_def client5_def echo_world0_def
  handle_event_def event_set_def accept_client_def set_nonblocking_def add_connection_def put_connection_def read_client_def
  write_client_def find_connection_def change_interest_def store_block_def send_some_def pending_def blit_def
  echo_write_loop.simps reported_def Let_def

text \<open>A client sends two bytes, one of them comes back before the descriptor is full.\<close>

theorem echo_server_exact_witness:
  "\<exists>rc s w'. run_event_loop answers0 (echo_start setup0 echo_world0) = Some (rc, (s, w')) \<and> rc = -1 \<and>
    find_connection s 5 = Some 0 \<and> ew_in w' 5 = [7, 8] \<and> ew_out w' 5 = [7] \<and> ew_interest w' 5 = Some EPOLLOUT \<and> distinct (ew_open w')"
proof -
  have "\<exists>rc s w'. run_event_loop answers0 (echo_start setup0 echo_world0) = Some (rc, (s, w')) \<and>
      find_connection s 5 = Some 0 \<and> ew_in w' 5 = [7, 8] \<and> ew_out w' 5 = [7]" by (simp add: echo_eval)
  then obtain rc s w' where r: "run_event_loop answers0 (echo_start setup0 echo_world0) = Some (rc, (s, w'))"
    "find_connection s 5 = Some 0" "ew_in w' 5 = [7, 8]" "ew_out w' 5 = [7]" by blast
  have "kernel_ok answers0 (echo_start setup0 echo_world0)" by (simp add: echo_eval)
  note ok = echo_server_exact [OF r(1) this]
  have "rc = -1 \<and> distinct (ew_open w') \<and> ew_in w' 5 = ew_out w' 5 @ pending (sv_connections s ! 0) \<and>
      ew_interest w' 5 = Some (if pending (sv_connections s ! 0) = [] then EPOLLIN else EPOLLOUT)"
    using ok r(2) by (simp add: echo_world0_def setup0_def)
  then show ?thesis using r by auto
qed

lemma client5_accepted:
  "echo_inv {0, 1, 2, 3, 4} {} (accept_client client5 (echo_start setup0 echo_world0))"
proof -
  have "echo_inv (set (ew_open echo_world0)) {} (echo_start setup0 echo_world0)"
    by (rule echo_start_inv) (simp_all add: echo_world0_def setup0_def)
  moreover have "set (ew_open echo_world0) = {0, 1, 2, 3, 4}" by (auto simp: echo_world0_def)
  ultimately show ?thesis
    using accept_client_inv [of "{0, 1, 2, 3, 4}" _ client5] by (simp add: echo_start_def client5_def echo_world0_def)
qed

theorem echo_block_returned_witness:
  "\<exists>s w sw1 s2 w2. accept_client client5 (echo_start setup0 echo_world0) = (s, w) \<and>
    read_client 5 [Interrupted, Got [7, 8]] 0 (s, w) = Some sw1 \<and>
    write_client 5 [Got 1, Interrupted, Got 1] 0 sw1 = Some (s2, w2) \<and> ew_out w2 5 = [7, 8] \<and> ew_interest w2 5 = Some EPOLLIN"
proof -
  obtain s w where sw: "accept_client client5 (echo_start setup0 echo_world0) = (s, w)" by fastforce
  then have f: "find_connection s 5 = Some 0" "ew_interest w 5 = Some EPOLLIN" "ew_out w 5 = []"
    by (auto simp: echo_eval)
  have "echo_inv {0, 1, 2, 3, 4} {} (s, w)" using client5_accepted sw by simp
  from echo_block_returned [OF this f(1,2), of "[7, 8]" 0 0 "[Got 1, Interrupted, Got 1]" 1 "[]"] show ?thesis
    using sw f(3) by auto
qed

text \<open>
  When \<open>epoll_wait\<close> fails for good, \<open>net_epoll_echo_server_run\<close> closes the epoll and the listening descriptor
  and returns; the descriptors of the connected clients stay open.
\<close>

lemma echo_failure_leaks_clients:
  "\<exists>w. net_epoll_echo_server_run setup0 answers0 (Some a) 1 (echo_world0\<lparr>ew_open := [2, 1, 0]\<rparr>) = Some (-1, w) \<and> 5 \<in> set (ew_open w)"
  by (simp add: net_epoll_echo_server_run_def echo_listen_def open_fd_def shut_fd_def echo_eval)

end
