(* ===== verification/Gatewayctl.thy ===== *)
theory Gatewayctl
  imports Command_Socket "HOL-Library.Sublist"
begin

text \<open>
  The command line client \<^verbatim>\<open>src/examples/gatewayctl/gatewayctl.c\<close> that is installed beside the gateway: it
  sends its arguments as one line to the command socket and prints the line that comes back. The calls
  take their outcomes from a record; a script that is used up stands for a call that still blocks. The
  last section composes the client with the server side of the socket.
\<close>

section \<open>Sending and receiving\<close>

fun ctl_send_loop :: "string \<Rightarrow> nat \<Rightarrow> nat sys list \<Rightarrow> ((int \<times> string) \<times> nat sys list) option" where
  "ctl_send_loop data sent [] = (if sent < length data then None else Some ((0, take sent data), []))"
| "ctl_send_loop data sent (r # script) =
     (if sent < length data
      then case r of
             Ret n \<Rightarrow> if n > 0 then ctl_send_loop data (sent + min n (length data - sent)) script
                      else Some ((-1, take sent data), script)
           | EINTR \<Rightarrow> ctl_send_loop data sent script
           | Fail \<Rightarrow> Some ((-1, take sent data), script)
      else Some ((0, take sent data), r # script))"

definition ctl_send_all :: "string \<Rightarrow> nat sys list \<Rightarrow> ((int \<times> string) \<times> nat sys list) option" where
  "ctl_send_all data script = ctl_send_loop data 0 script"

fun ctl_recv_loop :: "nat \<Rightarrow> string \<Rightarrow> byte_script \<Rightarrow> (int \<times> string) option" where
  "ctl_recv_loop capacity line [] = (if length line + 1 \<ge> capacity then Some (-1, line) else None)"
| "ctl_recv_loop capacity line (r # script) =
     (if length line + 1 \<ge> capacity then Some (-1, line)
      else case r of
             Ret (Some c) \<Rightarrow> if c = CHR 0x0A then Some (0, line) else ctl_recv_loop capacity (line @ [c]) script
           | Ret None \<Rightarrow> Some (-1, line)
           | EINTR \<Rightarrow> ctl_recv_loop capacity line script
           | Fail \<Rightarrow> Some (-1, line))"

definition ctl_recv_line :: "int \<Rightarrow> nat \<Rightarrow> byte_script \<Rightarrow> (int \<times> string) option" where
  "ctl_recv_line fd capacity script =
     (if fd < 0 \<or> capacity = 0 then Some (-1, []) else ctl_recv_loop capacity [] script)"

section \<open>The program\<close>

text \<open>The socket path is the value of an environment variable, with a default.\<close>

definition edgevision_command_socket_path :: "string option \<Rightarrow> string" where
  "edgevision_command_socket_path getenv =
     (case getenv of None \<Rightarrow> ''/tmp/edgevision-study.sock''
      | Some path \<Rightarrow> if path = [] then ''/tmp/edgevision-study.sock'' else path)"

text \<open>The command of an argument list (without the program's name); \<open>snprintf\<close> into 64 bytes must not
  truncate.\<close>

definition ctl_command :: "string list \<Rightarrow> string option" where
  "ctl_command argv =
     (let fit = (\<lambda>s. if length s \<ge> 64 then None else Some s)
      in case argv of
           [a] \<Rightarrow> fit a
         | [a, b] \<Rightarrow> if a = ''set_interval'' then fit (a @ '' '' @ b) else None
         | _ \<Rightarrow> None)"

record ctl_env =
  ce_getenv :: "string option"
  ce_socket :: int
  ce_connect :: int
  ce_timeouts :: "int \<times> int"
  ce_output :: "nat sys list"
  ce_input :: byte_script

text \<open>What a run leaves: the exit status, the lines it printed, the bytes it put on the socket, and the
  descriptors it has not closed.\<close>

record ctl_result =
  cr_exit :: int
  cr_printed :: "string list"
  cr_wire :: string
  cr_open :: "int list"

abbreviation (input) ctl_fail :: "ctl_result \<Rightarrow> ctl_result" where
  "ctl_fail r \<equiv> r\<lparr>cr_exit := 1, cr_open := []\<rparr>"

text \<open>The greeting is the text \<open>puts\<close> prints after the connection.\<close>

definition ctl_main :: "string \<Rightarrow> string list \<Rightarrow> ctl_env \<Rightarrow> ctl_result option" where
  "ctl_main greeting argv e =
     (let r0 = \<lparr>cr_exit = 1, cr_printed = [], cr_wire = [], cr_open = []\<rparr>
      in case ctl_command argv of None \<Rightarrow> Some r0
         | Some command \<Rightarrow>
             if length (edgevision_command_socket_path (ce_getenv e)) \<ge> 108 \<or> ce_socket e = -1 then Some r0 else
             let r1 = r0\<lparr>cr_open := [ce_socket e]\<rparr> in
             if ce_connect e = -1 then Some (ctl_fail r1) else
             let r2 = r1\<lparr>cr_printed := [greeting]\<rparr> in
             if set_io_timeout (ce_timeouts e) = -1 then Some (ctl_fail r2) else
             (case ctl_send_all command (ce_output e) of None \<Rightarrow> None
              | Some ((rc, wire), script) \<Rightarrow>
                  let r3 = r2\<lparr>cr_wire := wire\<rparr> in
                  if rc \<noteq> 0 then Some (ctl_fail r3) else
                  (case ctl_send_all [CHR 0x0A] script of None \<Rightarrow> None
                   | Some ((rc, wire2), _) \<Rightarrow>
                       let r4 = r3\<lparr>cr_wire := wire @ wire2\<rparr> in
                       if rc \<noteq> 0 then Some (ctl_fail r4) else
                       (case ctl_recv_line (ce_socket e) 128 (ce_input e) of None \<Rightarrow> None
                        | Some (rc, reply) \<Rightarrow>
                            if rc \<noteq> 0 then Some (ctl_fail r4)
                            else Some (r4\<lparr>cr_exit := 0, cr_printed := [greeting, cstr reply], cr_open := []\<rparr>)))))"

section \<open>Lemmas on the loops\<close>

lemma ctl_send_loop_cases:
  "ctl_send_loop data sent script = Some ((rc, wire), rest) \<Longrightarrow> sent \<le> length data \<Longrightarrow>
   (rc = 0 \<and> wire = data) \<or> (rc = -1 \<and> (\<exists>n. wire = take n data))"
  by (induction data sent script rule: ctl_send_loop.induct) (auto split: if_splits sys.splits)

interpretation ctl_writer: full_writer ctl_send_all
proof unfold_locales
  fix buf s rc wire s'
  assume "ctl_send_all buf s = Some ((rc, wire), s')"
  then have *: "(rc = 0 \<and> wire = buf) \<or> (rc = -1 \<and> (\<exists>n. wire = take n buf))"
    using ctl_send_loop_cases [of buf 0 s rc wire s'] by (simp add: ctl_send_all_def)
  then show "rc = 0 \<Longrightarrow> wire = buf" and "rc = 0 \<or> rc = -1" by auto
  show "\<exists>rest. buf = wire @ rest" using * by (metis append_Nil2 append_take_drop_id)
qed

lemma ctl_recv_loop_line:
  "ctl_recv_loop capacity line script = Some (rc, buf) \<Longrightarrow> CHR 0x0A \<notin> set line \<Longrightarrow>
   rc \<noteq> 0 \<or> (CHR 0x0A \<notin> set buf \<and> length buf + 1 < capacity \<and> (\<exists>used rest. script = used @ rest \<and> line @ delivered used = buf @ [CHR 0x0A]))"
proof (induction capacity line script rule: ctl_recv_loop.induct)
  case (2 capacity line r script)
  have shift: "\<exists>used rest. r # script = used @ rest \<and> line @ delivered used = buf @ [CHR 0x0A]"
    if "script = used @ rest" "line @ delivered (r # used) = buf @ [CHR 0x0A]" for used rest
    using that by (metis append_Cons)
  show ?case
  proof (cases "length line + 1 \<ge> capacity")
    case False
    note step = 2(3) [simplified ctl_recv_loop.simps if_not_P [OF False]]
    consider (byte) c where "r = Ret (Some c)" "c \<noteq> CHR 0x0A" | (newline) "r = Ret (Some (CHR 0x0A))" | (eof) "r = Ret None \<or> r = Fail" | (eintr) "r = EINTR"
      by (cases r) (use option.exhaust in \<open>metis+\<close>)
    then show ?thesis
    proof cases
      case byte
      then show ?thesis using 2(1) [OF False byte(1)] step 2(4) shift by fastforce
    next
      case newline
      then have "rc = 0" "buf = line" using step by simp_all
      moreover have "line @ delivered [r] = line @ [CHR 0x0A]" using newline by simp
      ultimately show ?thesis using False 2(4) by (metis append_Cons append_Nil not_le)
    next
      case eintr
      then show ?thesis using 2(2) [OF False eintr] step 2(4) shift by fastforce
    qed (use step in auto)
  qed (use 2(3) in simp)
qed (auto split: if_splits)

lemma first_line:
  assumes "prefix (xs @ [CHR 0x0A]) (ys @ [CHR 0x0A])" and "CHR 0x0A \<notin> set xs"
  shows "takeWhile (\<lambda>c. c \<noteq> CHR 0x0A) ys = xs"
proof -
  obtain zs where z: "ys @ [CHR 0x0A] = xs @ CHR 0x0A # zs" using assms(1) by (auto simp: prefix_def)
  have *: "takeWhile (\<lambda>c. c \<noteq> CHR 0x0A) (xs @ CHR 0x0A # zs) = xs" using assms(2) by (simp add: takeWhile_append)
  have "takeWhile (\<lambda>c. c \<noteq> CHR 0x0A) (ys @ [CHR 0x0A]) = takeWhile (\<lambda>c. c \<noteq> CHR 0x0A) ys"
    by (induction ys) auto
  then show ?thesis using z * by simp
qed

lemma prefix_delivered: "prefix (delivered used) (delivered (used @ rest))"
  by (simp add: delivered_def)

lemma ctl_main_cases:
  assumes "ctl_main greeting argv e = Some r"
  shows "cr_open r = [] \<and> (cr_exit r = 1 \<or>
    (\<exists>cmd line. ctl_command argv = Some cmd \<and> cr_exit r = 0 \<and> cr_wire r = cmd @ [CHR 0x0A] \<and> cr_printed r = [greeting, cstr line] \<and>
       CHR 0x0A \<notin> set line \<and> length line \<le> 126 \<and> prefix (line @ [CHR 0x0A]) (delivered (ce_input e))))"
proof -
  let ?ended = "\<lambda>line. \<exists>cmd. ctl_command argv = Some cmd \<and> cr_exit r = 0 \<and> cr_wire r = cmd @ [CHR 0x0A] \<and>
    cr_printed r = [greeting, cstr line] \<and> ctl_recv_line (ce_socket e) 128 (ce_input e) = Some (0, line)"
  have "cr_open r = [] \<and> (cr_exit r = 1 \<or> (\<exists>line. ?ended line))"
    using assms by (auto simp: ctl_main_def Let_def split: option.splits if_splits dest!: ctl_writer.complete [OF _ refl])
  moreover have "CHR 0x0A \<notin> set line \<and> length line \<le> 126 \<and> prefix (line @ [CHR 0x0A]) (delivered (ce_input e))"
    if "ctl_recv_line (ce_socket e) 128 (ce_input e) = Some (0, line)" for line
  proof -
    have "ctl_recv_loop 128 [] (ce_input e) = Some (0, line)" using that by (simp add: ctl_recv_line_def split: if_splits)
    from ctl_recv_loop_line [OF this] obtain used rest where "CHR 0x0A \<notin> set line" "length line + 1 < 128"
      "ce_input e = used @ rest" "delivered used = line @ [CHR 0x0A]" by auto
    then show ?thesis using prefix_delivered [of used rest] by simp
  qed
  ultimately show ?thesis by blast
qed

section \<open>Client and gateway together\<close>

text \<open>
  C30: What \<open>gatewayctl\<close> prints is the gateway's answer to the command it was given. Take any run of the
  client and any run of \<open>gateway_serve_client\<close> such that the gateway reads what the client has sent, as far
  as it has arrived, and the client reads what the gateway has sent. When the client exits with 0, the
  gateway has executed the command of the arguments (up to a line end in them), successfully, and the
  printed line is the reply (again up to a line end in it). The client exits with 0 or 1 and closes its
  descriptor on every path.
\<close>

theorem gatewayctl_prints_reply:
  assumes "ctl_main greeting argv e = Some r" and "\<forall>a \<in> set argv. cstring a"
    and "gateway_serve_client version c w = Some ((rc, wire), w')"
    and "prefix (delivered (cl_input c)) (cr_wire r)" and "prefix (delivered (ce_input e)) wire"
  shows "cr_open r = [] \<and> (cr_exit r = 1 \<or>
    (cr_exit r = 0 \<and> (\<exists>cmd we reply w3. ctl_command argv = Some cmd \<and> env_step w we \<and>
       gateway_execute_command version (takeWhile (\<lambda>c. c \<noteq> CHR 0x0A) cmd) 128 we = Some ((0, reply), w3) \<and> env_step w3 w' \<and>
       cr_printed r = [greeting, cstr (takeWhile (\<lambda>c. c \<noteq> CHR 0x0A) reply)])))"
proof (cases "cr_exit r = 1")
  case False
  then obtain cmd line where m: "ctl_command argv = Some cmd" "cr_exit r = 0" "cr_wire r = cmd @ [CHR 0x0A]"
    "cr_printed r = [greeting, cstr line]" "CHR 0x0A \<notin> set line" "prefix (line @ [CHR 0x0A]) (delivered (ce_input e))" and o: "cr_open r = []"
    using ctl_main_cases [OF assms(1)] by blast
  have got: "prefix (line @ [CHR 0x0A]) wire" using m(6) assms(5) by (rule prefix_order.trans)
  then have "wire \<noteq> []" by auto
  with serve_client_cases [OF assms(3)] obtain lg used rest we erc reply w3 where g: "cl_input c = used @ rest"
      "delivered used = lg @ [CHR 0x0A]" "CHR 0x0A \<notin> set lg" "env_step w we"
      "gateway_execute_command version (cstr lg) 128 we = Some ((erc, reply), w3)" "env_step w3 w'" "erc \<noteq> -1"
      "\<exists>more. reply @ [CHR 0x0A] = wire @ more" by blast
  have "prefix (lg @ [CHR 0x0A]) (cmd @ [CHR 0x0A])"
    using prefix_delivered [of used rest] g(1,2) assms(4) m(3) by (metis prefix_order.trans)
  then have lg: "takeWhile (\<lambda>c. c \<noteq> CHR 0x0A) cmd = lg" using g(3) by (rule first_line)
  have "cstring cmd"
    using m(1) assms(2) by (auto simp: ctl_command_def Let_def cstring_def split: list.splits if_splits)
  then have "cstring lg" using lg by (auto simp: cstring_def dest: set_takeWhileD)
  moreover have "prefix (line @ [CHR 0x0A]) (reply @ [CHR 0x0A])"
    using got g(8) by (metis prefixI prefix_order.trans)
  then have "takeWhile (\<lambda>c. c \<noteq> CHR 0x0A) reply = line" using m(5) by (rule first_line)
  moreover have "erc = 0" using execute_code [OF g(5)] g(7) by blast
  ultimately show ?thesis using m o g(4,5,6) lg by auto
qed (use ctl_main_cases [OF assms(1)] in blast)

definition ctl_env0 :: ctl_env where
  "ctl_env0 = \<lparr>ce_getenv = None, ce_socket = 3, ce_connect = 0, ce_timeouts = (0, 0), ce_output = [Ret 4, EINTR, Ret 60, Ret 1],
     ce_input = map (Ret \<circ> Some) (''ok version=1.0'' @ [CHR 0x0A])\<rparr>"

theorem gatewayctl_prints_reply_witness:
  "\<exists>r. ctl_main ''connected'' [''get_version''] ctl_env0 = Some r \<and> cr_exit r = 0 \<and> cr_open r = [] \<and>
    cr_printed r = [''connected'', ''ok version=1.0''] \<and>
    (\<exists>we reply w3. gateway_execute_command ''1.0'' ''get_version'' 128 we = Some ((0, reply), w3) \<and>
       cstr (takeWhile (\<lambda>c. c \<noteq> CHR 0x0A) reply) = ''ok version=1.0'')"
proof -
  let ?r = "\<lparr>cr_exit = 0, cr_printed = [''connected'', ''ok version=1.0''], cr_wire = ''get_version'' @ [CHR 0x0A], cr_open = []\<rparr>"
  have r: "ctl_main ''connected'' [''get_version''] ctl_env0 = Some ?r"
    by (simp add: ctl_main_def ctl_env0_def ctl_command_def edgevision_command_socket_path_def ctl_send_all_def ctl_recv_line_def cstr_def)
  have "delivered (cl_input demo_client) = ''get_version'' @ [CHR 0x0A]" "delivered (ce_input ctl_env0) = ''ok version=1.0'' @ [CHR 0x0A]"
    by (simp_all add: demo_client_def ctl_env0_def)
  then have "\<exists>we reply w3. gateway_execute_command ''1.0'' ''get_version'' 128 we = Some ((0, reply), w3) \<and>
      cr_printed ?r = [''connected'', cstr (takeWhile (\<lambda>c. c \<noteq> CHR 0x0A) reply)]"
    using gatewayctl_prints_reply [OF r _ demo_client_served] by (auto simp: ctl_command_def cstring_def)
  then show ?thesis using r 
    by (intro exI [of _ ?r]) (simp only: ctl_result.select_convs list.inject simp_thms, metis)
qed

text \<open>
  The client accepts commands of 63 bytes; the gateway, which keeps one byte of its 64 for the line end
  while it reads, refuses them.
\<close>

lemma recv_line_short:
  assumes "recv_line fd 64 script w = Some ((0, buf), rest, w')"
  shows "length buf \<le> 62 \<and> CHR 0x0A \<notin> set buf \<and> prefix (buf @ [CHR 0x0A]) (delivered script)"
proof -
  have "recv_line_loop 64 [] script w = Some ((0, buf), rest, w')"
    using assms by (simp add: recv_line_def split: if_splits)
  note l = recv_line_loop_cases [OF this]
  obtain used where "script = used @ rest" "delivered used = buf @ [CHR 0x0A]" using l by auto
  then have "prefix (buf @ [CHR 0x0A]) (delivered script)" using prefix_delivered [of used rest] by simp
  moreover have "length buf \<le> 62" "CHR 0x0A \<notin> set buf" using l by auto
  ultimately show ?thesis by blast
qed

lemma longest_command_refused:
  assumes "length cmd = 63" and "CHR 0x0A \<notin> set cmd" and "delivered script = cmd @ [CHR 0x0A]"
  shows "ctl_command [cmd] = Some cmd \<and> recv_line fd 64 script w \<noteq> Some ((0, buf), rest, w')"
proof -
  have "takeWhile (\<lambda>c. c \<noteq> CHR 0x0A) cmd = cmd" using assms(2) by auto
  then have "buf = cmd" if "recv_line fd 64 script w = Some ((0, buf), rest, w')"
    using recv_line_short [OF that] first_line [of buf cmd] assms(3) by (simp only: simp_thms)
  then show ?thesis using assms(1) recv_line_short [of fd script w buf rest w'] by (auto simp: ctl_command_def)
qed

end
